(* ===== verification/Zz_Prelude.thy ===== *)
theory Zz_Prelude
  imports Main "HOL-Library.Word"
begin

text \<open>
  Shared vocabulary of the development: the machine-integer types of the Rust sources, the
  result type of fallible code, the collections of rewrite rules the component proofs draw
  on, and the generic facts on lists, words and results that several components use.

  A Rust \<open>Result<T, E>\<close> is the sum \<open>'e + 'a\<close>: \<open>Err e\<close> is \<open>Inl e\<close> and \<open>Ok x\<close> is \<open>Inr x\<close>.
  The question-mark operator is \<open>res_bind\<close>. A \<open>u8\<close>/\<open>u16\<close>/\<open>u32\<close> is a word of that width, an
  \<open>i64\<close> is a 64-bit word read with \<open>sint\<close>, an \<open>f64\<close> is its 64-bit pattern, and a \<open>usize\<close> that
  only ever indexes a vector that exists in memory is a \<open>nat\<close>.
\<close>

section \<open>Machine integers\<close>

type_synonym u8 = "8 word"
type_synonym u16 = "16 word"
type_synonym u32 = "32 word"
type_synonym i64 = "64 word"
type_synonym f64 = "64 word"

section \<open>Results\<close>

type_synonym ('e, 'a) result = "'e + 'a"

abbreviation Ok :: "'a \<Rightarrow> ('e, 'a) result" where
  "Ok \<equiv> Inr"

abbreviation Err :: "'e \<Rightarrow> ('e, 'a) result" where
  "Err \<equiv> Inl"

definition res_bind :: "('e, 'a) result \<Rightarrow> ('a \<Rightarrow> ('e, 'b) result) \<Rightarrow> ('e, 'b) result" where
  "res_bind m f = (case m of Inl e \<Rightarrow> Inl e | Inr x \<Rightarrow> f x)"

text \<open>\<open>guard b e\<close> is the early return \<open>if b { return Err(e) }\<close>.\<close>

definition guard :: "bool \<Rightarrow> 'e \<Rightarrow> ('e, unit) result" where
  "guard b e = (if b then Inl e else Inr ())"

text \<open>\<open>all_ok f xs\<close> is a \<open>for\<close> loop over \<open>xs\<close> whose body may return an error.\<close>

primrec all_ok :: "('a \<Rightarrow> ('e, unit) result) \<Rightarrow> 'a list \<Rightarrow> ('e, unit) result" where
  "all_ok f [] = Inr ()"
| "all_ok f (x # xs) = res_bind (f x) (\<lambda>_. all_ok f xs)"

named_theorems result_simps \<open>evaluation of results and their binds\<close>

lemma res_bind_simps [simp, result_simps]:
  "res_bind (Inl e) f = Inl e"
  "res_bind (Inr x) f = f x"
  by (simp_all add: res_bind_def)

lemma res_bind_eq_Ok [simp, result_simps]:
  "res_bind m f = Inr y \<longleftrightarrow> (\<exists>x. m = Inr x \<and> f x = Inr y)"
  by (cases m) simp_all

lemma res_bind_eq_Err:
  "res_bind m f = Inl e \<longleftrightarrow> m = Inl e \<or> (\<exists>x. m = Inr x \<and> f x = Inl e)"
  by (cases m) simp_all

lemma guard_eq_Ok [simp, result_simps]: "guard b e = Inr u \<longleftrightarrow> \<not> b"
  by (simp add: guard_def)

lemma guard_eq_Err [simp, result_simps]: "guard b e = Inl e' \<longleftrightarrow> b \<and> e' = e"
  by (auto simp: guard_def)

lemma all_ok_eq_Ok [simp, result_simps]:
  "all_ok f xs = Inr u \<longleftrightarrow> (\<forall>x \<in> set xs. f x = Inr ())"
  by (induction xs) auto

section \<open>Vector access\<close>

text \<open>Rust's \<open>v.get(i)\<close>: \<open>None\<close> out of range.\<close>

definition vec_get :: "'a list \<Rightarrow> nat \<Rightarrow> 'a option" where
  "vec_get xs i = (if i < length xs then Some (xs ! i) else None)"

text \<open>Rust's \<open>v.get(lo..hi)\<close>: \<open>None\<close> unless \<open>lo <= hi <= v.len()\<close>.\<close>

definition slice_get :: "'a list \<Rightarrow> nat \<Rightarrow> nat \<Rightarrow> 'a list option" where
  "slice_get xs lo hi =
     (if lo \<le> hi \<and> hi \<le> length xs then Some (take (hi - lo) (drop lo xs)) else None)"

lemma vec_get_eq_Some [simp]: "vec_get xs i = Some x \<longleftrightarrow> i < length xs \<and> xs ! i = x"
  by (simp add: vec_get_def)

lemma vec_get_eq_None [simp]: "vec_get xs i = None \<longleftrightarrow> length xs \<le> i"
  by (simp add: vec_get_def not_less)

lemma slice_get_middle:
  "slice_get (xs @ ys @ zs) (length xs) (length xs + length ys) = Some ys"
  by (simp add: slice_get_def)

lemma slice_get_SomeD:
  assumes "slice_get xs lo hi = Some ys"
  shows "lo \<le> hi" "hi \<le> length xs" "length ys = hi - lo" "set ys \<subseteq> set xs"
  using assms set_take_subset set_drop_subset
  by (fastforce simp: slice_get_def split: if_splits)+

text \<open>Rust's \<open>iter().position(p)\<close>.\<close>

primrec position :: "('a \<Rightarrow> bool) \<Rightarrow> 'a list \<Rightarrow> nat option" where
  "position p [] = None"
| "position p (x # xs) = (if p x then Some 0 else map_option Suc (position p xs))"

lemma position_SomeD: "position p xs = Some i \<Longrightarrow> i < length xs \<and> p (xs ! i)"
  by (induction xs arbitrary: i) (auto split: if_splits)

lemma position_NoneD: "position p xs = None \<Longrightarrow> x \<in> set xs \<Longrightarrow> \<not> p x"
  by (induction xs) (auto split: if_splits)

section \<open>Decimal rendering\<close>

text \<open>Rust's \<open>Display\<close> of an unsigned and of a signed integer, used in the texts of error messages.\<close>

fun show_nat :: "nat \<Rightarrow> string" where
  "show_nat n =
     (if n < 10 then [char_of (48 + n)] else show_nat (n div 10) @ [char_of (48 + n mod 10)])"

declare show_nat.simps [simp del]

definition show_int :: "int \<Rightarrow> string" where
  "show_int i = (if i < 0 then ''-'' @ show_nat (nat (- i)) else show_nat (nat i))"

section \<open>Words\<close>

lemma unat_of_nat_len [simp]:
  "n < 2 ^ LENGTH('a::len) \<Longrightarrow> unat (word_of_nat n :: 'a word) = n"
  by (simp add: unat_of_nat take_bit_eq_mod)

end
