(* ===== verification/Ir_Types.thy ===== *)
theory Ir_Types
  imports Zz_Prelude
begin

text \<open>
  The table entries of the \<open>.zzc\<close> interchange model: the four id newtypes, spans, constants and
  errors of \<open>crates/zz_ir/src/lib.rs\<close> and the type language of \<open>crates/zz_ir/src/ty.rs\<close>, with the
  stable tag byte, the nested-id collector and the display name of a type.

  Constructors carry a letter in front of the source's name where the source distinguishes
  them by their enum (\<open>IrType::Unit\<close> is \<open>TUnit\<close>, \<open>Const::Unit\<close> is \<open>CUnit\<close>).
\<close>

section \<open>Ids and spans\<close>

datatype str_id = StrId (str_id_0: u32)
datatype type_id = TypeId (type_id_0: u32)
datatype const_id = ConstId (const_id_0: u32)
datatype func_id = FuncId (func_id_0: u32)

text \<open>\<open>id.0 as usize\<close>.\<close>

abbreviation str_ix :: "str_id \<Rightarrow> nat" where "str_ix i \<equiv> unat (str_id_0 i)"
abbreviation type_ix :: "type_id \<Rightarrow> nat" where "type_ix i \<equiv> unat (type_id_0 i)"
abbreviation const_ix :: "const_id \<Rightarrow> nat" where "const_ix i \<equiv> unat (const_id_0 i)"
abbreviation func_ix :: "func_id \<Rightarrow> nat" where "func_ix i \<equiv> unat (func_id_0 i)"

datatype span = Span (span_start: u32) (span_end: u32)

section \<open>Types\<close>

datatype ir_type =
    TUnknown
  | TUnit
  | TBool
  | TInt
  | TFloat
  | TStr
  | TBytes
  | TTuple "type_id list"
  | TOption type_id
  | TResult type_id type_id
  | TArray type_id
  | TDict type_id type_id
  | TFunc "type_id list" type_id
  | TRange type_id
  | TJson
  | TDb
  | THttpServer
  | TTcpStream
  | TTcpListener
  | TResponse
  | THttpRequest
  | TOpaque str_id
  | TChan
  | TTaskJoin
  | TStruct str_id "type_id list"
  | TEnum str_id "type_id list"
  | TUnion "type_id list"
  | TNamed str_id
  | TVar u32
  | TError
  | TVoid
  | TPtr bool type_id

text \<open>\<open>IrType::tag\<close>: the stable tag byte of the codec.\<close>

primrec ty_tag :: "ir_type \<Rightarrow> u8" where
  "ty_tag TUnknown = 0"
| "ty_tag TUnit = 1"
| "ty_tag TBool = 2"
| "ty_tag TInt = 3"
| "ty_tag TFloat = 4"
| "ty_tag TStr = 5"
| "ty_tag TBytes = 6"
| "ty_tag (TTuple _) = 7"
| "ty_tag (TOption _) = 8"
| "ty_tag (TResult _ _) = 9"
| "ty_tag (TArray _) = 10"
| "ty_tag (TDict _ _) = 11"
| "ty_tag (TFunc _ _) = 12"
| "ty_tag (TRange _) = 13"
| "ty_tag TJson = 14"
| "ty_tag TDb = 15"
| "ty_tag THttpServer = 16"
| "ty_tag TTcpStream = 17"
| "ty_tag TTcpListener = 18"
| "ty_tag TResponse = 19"
| "ty_tag THttpRequest = 20"
| "ty_tag (TOpaque _) = 21"
| "ty_tag TChan = 22"
| "ty_tag TTaskJoin = 23"
| "ty_tag (TStruct _ _) = 24"
| "ty_tag (TEnum _ _) = 25"
| "ty_tag (TUnion _) = 26"
| "ty_tag (TNamed _) = 27"
| "ty_tag (TVar _) = 28"
| "ty_tag TError = 29"
| "ty_tag TVoid = 30"
| "ty_tag (TPtr _ _) = 31"

text \<open>\<open>IrType::collect_ids\<close>: the nested type-table ids, in the order they are pushed.\<close>

fun collect_ids :: "ir_type \<Rightarrow> type_id list" where
  "collect_ids (TTuple items) = items"
| "collect_ids (TUnion items) = items"
| "collect_ids (TFunc items ret) = items @ [ret]"
| "collect_ids (TOption i) = [i]"
| "collect_ids (TArray i) = [i]"
| "collect_ids (TRange i) = [i]"
| "collect_ids (TResult a b) = [a, b]"
| "collect_ids (TDict a b) = [a, b]"
| "collect_ids (TStruct _ args) = args"
| "collect_ids (TEnum _ args) = args"
| "collect_ids (TPtr _ inner) = [inner]"
| "collect_ids _ = []"

text \<open>\<open>IrType::name\<close>: the short stable name \<open>zz dis\<close> prints.\<close>

primrec ty_name :: "ir_type \<Rightarrow> string" where
  "ty_name TUnknown = ''unknown''"
| "ty_name TUnit = ''unit''"
| "ty_name TBool = ''bool''"
| "ty_name TInt = ''int''"
| "ty_name TFloat = ''float''"
| "ty_name TStr = ''str''"
| "ty_name TBytes = ''bytes''"
| "ty_name (TTuple _) = ''tuple''"
| "ty_name (TOption _) = ''option''"
| "ty_name (TResult _ _) = ''result''"
| "ty_name (TArray _) = ''array''"
| "ty_name (TDict _ _) = ''dict''"
| "ty_name (TFunc _ _) = ''func''"
| "ty_name (TRange _) = ''range''"
| "ty_name TJson = ''json''"
| "ty_name TDb = ''db''"
| "ty_name THttpServer = ''httpserver''"
| "ty_name TTcpStream = ''tcpstream''"
| "ty_name TTcpListener = ''tcplistener''"
| "ty_name TResponse = ''response''"
| "ty_name THttpRequest = ''httprequest''"
| "ty_name (TOpaque _) = ''opaque''"
| "ty_name TChan = ''chan''"
| "ty_name TTaskJoin = ''taskjoin''"
| "ty_name (TStruct _ _) = ''struct''"
| "ty_name (TEnum _ _) = ''enum''"
| "ty_name (TUnion _) = ''union''"
| "ty_name (TNamed _) = ''named''"
| "ty_name (TVar _) = ''var''"
| "ty_name TError = ''error''"
| "ty_name TVoid = ''void''"
| "ty_name (TPtr _ _) = ''ptr''"

section \<open>Constants\<close>

text \<open>A \<open>Const::Float\<close> is kept as the bit pattern of its \<open>f64\<close>.\<close>

datatype const =
    CUnit
  | CBool bool
  | CInt i64
  | CFloat f64
  | CStr str_id
  | CArray "const_id list"
  | CDict "(const_id \<times> const_id) list"
  | COption "const_id option"
  | CResult bool const_id

section \<open>Errors\<close>

text \<open>
  \<open>IrError\<close> pairs a message with an optional span. A message whose text is fixed, or formatted
  from names and numbers, is \<open>Msg\<close> of that text; the three messages that render an abstract
  type keep the values they render (\<open>None\<close> is the unknown type).
\<close>

datatype ir_msg =
    Msg string
  | MsgStore u16 "ir_type option" "ir_type option"
  | MsgReturn string "u8 list" nat "ir_type option" "ir_type option"

datatype ir_error = IrError (err_message: ir_msg) (err_span: "span option")

definition ir_error_new :: "string \<Rightarrow> ir_error" where
  "ir_error_new m = IrError (Msg m) None"

definition ir_error_spanned :: "string \<Rightarrow> span \<Rightarrow> ir_error" where
  "ir_error_spanned m s = IrError (Msg m) (Some s)"

section \<open>Facts\<close>

text \<open>The tag determines the constructor, so a decoder can dispatch on it.\<close>

lemma ty_tag_range: "ty_tag t < 32"
  by (cases t) simp_all

end
