(* ===== verification/Ir_Op.thy ===== *)
theory Ir_Op
  imports Ir_Types
begin

text \<open>
  The core bytecode instructions of \<open>crates/zz_ir/src/op.rs\<close>: operators, match patterns, the
  instruction type with one constructor per \<open>Op\<close> variant (fields in the source's order), the
  codec tag, the display name, and the frame slots an instruction names.
\<close>

section \<open>Operators and patterns\<close>

datatype binop =
    BAdd | BSub | BMul | BDiv | BRem | BPow
  | BEq | BNe | BLt | BGt | BLe | BGe
  | BAnd | BOr | BElvis
  | BBitAnd | BBitOr | BBitXor | BShl | BShr

datatype unop = UNeg | UPos | UNot | UBitNot

datatype pattern =
    PWildcard
  | PBinding str_id
  | PLit const_id
  | PVariant str_id "pattern option"
  | PTuple "pattern list"
  | POr "pattern list"

section \<open>Instructions\<close>

datatype (plugins only:) op =
    PushConst const_id
  | Pop
  | Swap
  | PopN u16
  | Truthy
  | LoadVar str_id
  | LoadPath "str_id list"
  | DefineVar str_id
  | StoreVar str_id
  | StorePath "str_id list"
  | LoadSlot u16
  | StoreSlot u16
  | TakeVar str_id
  | VecPushField "u16 option" "str_id option" str_id
  | VecPushMethod "u16 option" "str_id option" str_id
  | SetFieldTake "u16 option" "str_id option" str_id
  | SetFieldIndexTake "u16 option" "str_id option" str_id
  | FieldBinopTake "u16 option" "str_id option" str_id binop
  | StoreIndexTake "u16 option" "str_id option"
  | CompoundIndexTake "u16 option" "str_id option" binop
  | GetFieldIndex "u16 option" "str_id option" str_id
  | LenField "u16 option" "str_id option" str_id
  | GetFieldSlotIdx "u16 option" "str_id option" u16 u16
  | IndexIntSlot u16 u16 u16
  | IndexDictInt u16 u16 u16
  | SlotAddInt u16 u16
  | SlotInc u16
  | SlotAddIntImm u16 i64
  | SlotSubIntImm u16 i64
  | SlotMulIntImm u16 i64
  | SlotLessIntSlot u16 u16
  | SlotLessIntImm u16 i64
  | SlotCmpIntSlot u16 u16 binop
  | SlotCmpIntImm u16 i64 binop
  | SlotCmpConst u16 const_id binop
  | SlotBinaryInt u16 u16 u16 binop
  | SlotBinaryIntImm u16 u16 i64 binop
  | PushSlotIntImm u16 i64 binop
  | JumpIfFalseSlotCmpIntImm u16 i64 binop u32
  | JumpIfFalseSlotCmpIntSlot u16 u16 binop u32
  | IntAdd
  | IntSub
  | IntMul
  | IntDiv
  | IntRem
  | IntNeg
  | BinOp binop
  | UnOp unop
  | Jump u32
  | JumpIfFalse u32
  | JumpIfTrue u32
  | JumpIfFalseBool u32
  | Return
  | ForSetup u32 u32 u8
  | ForNext "str_id list" u32 u32 bool
  | WhileSetup u32 u32
  | WhileCond u32
  | Break
  | Continue
  | SetLoopResult
  | Safepoint
  | MakeArray u16
  | UnpackTuple u8
  | ArrayPush
  | MakeDict u16
  | IndexOp
  | StoreIndexOp
  | CompoundIndexOp binop
  | SliceOp
  | MakeRange
  | MakeStruct str_id "str_id list"
  | GetField str_id
  | GetFieldIdx u16
  | SetField str_id
  | SetFieldIdx u16
  | CompoundFieldOp str_id binop
  | RegisterStruct str_id "str_id list"
  | RegisterEnum str_id "(str_id \<times> bool) list"
  | MakeEnum str_id str_id u16
  | MakeClosure func_id
  | MakeFunc func_id
  | SpawnClosure func_id
  | MakeVariant str_id bool
  | MatchArm pattern u32 bool bool
  | MatchGuard u32 bool
  | MatchError
  | IfLetMatch pattern u32 bool
  | TryOp
  | Elvis
  | ElvisResult
  | Call u16
  | CallPath "str_id list" u16 span
  | CallMethod str_id u16
  | CallNative str_id u16
  | Concat u16
  | FormatValue
  | DbQuery u16
  | EnterScope
  | ExitScope
  | DeferRecord

text \<open>\<open>Op::tag\<close>: the stable codec tag. The arms are in the source's order.\<close>

primrec op_tag :: "op \<Rightarrow> u16" where
  "op_tag (PushConst _) = 0"
| "op_tag Pop = 1"
| "op_tag Swap = 74"
| "op_tag (PopN _) = 2"
| "op_tag Truthy = 3"
| "op_tag (LoadVar _) = 4"
| "op_tag (LoadPath _) = 5"
| "op_tag (DefineVar _) = 6"
| "op_tag (StoreVar _) = 7"
| "op_tag (StorePath _) = 8"
| "op_tag (LoadSlot _) = 9"
| "op_tag (StoreSlot _) = 10"
| "op_tag (TakeVar _) = 11"
| "op_tag (VecPushField _ _ _) = 12"
| "op_tag (VecPushMethod _ _ _) = 13"
| "op_tag (SetFieldTake _ _ _) = 75"
| "op_tag (SetFieldIndexTake _ _ _) = 76"
| "op_tag (StoreIndexTake _ _) = 87"
| "op_tag (CompoundIndexTake _ _ _) = 88"
| "op_tag (FieldBinopTake _ _ _ _) = 77"
| "op_tag (GetFieldIndex _ _ _) = 78"
| "op_tag (LenField _ _ _) = 79"
| "op_tag (GetFieldSlotIdx _ _ _ _) = 95"
| "op_tag (IndexIntSlot _ _ _) = 96"
| "op_tag (IndexDictInt _ _ _) = 97"
| "op_tag (SlotAddInt _ _) = 80"
| "op_tag (SlotInc _) = 81"
| "op_tag (SlotAddIntImm _ _) = 82"
| "op_tag (SlotSubIntImm _ _) = 99"
| "op_tag (SlotMulIntImm _ _) = 100"
| "op_tag (SlotLessIntSlot _ _) = 83"
| "op_tag (SlotLessIntImm _ _) = 84"
| "op_tag (SlotBinaryInt _ _ _ _) = 85"
| "op_tag (SlotBinaryIntImm _ _ _ _) = 86"
| "op_tag (SlotCmpIntSlot _ _ _) = 89"
| "op_tag (SlotCmpIntImm _ _ _) = 90"
| "op_tag (SlotCmpConst _ _ _) = 91"
| "op_tag (PushSlotIntImm _ _ _) = 92"
| "op_tag (JumpIfFalseSlotCmpIntImm _ _ _ _) = 93"
| "op_tag (JumpIfFalseSlotCmpIntSlot _ _ _ _) = 94"
| "op_tag IntAdd = 14"
| "op_tag IntSub = 15"
| "op_tag IntMul = 16"
| "op_tag IntDiv = 17"
| "op_tag IntRem = 18"
| "op_tag IntNeg = 19"
| "op_tag (BinOp _) = 20"
| "op_tag (UnOp _) = 21"
| "op_tag (Jump _) = 22"
| "op_tag (JumpIfFalse _) = 23"
| "op_tag (JumpIfTrue _) = 24"
| "op_tag (JumpIfFalseBool _) = 25"
| "op_tag Return = 26"
| "op_tag (ForSetup _ _ _) = 27"
| "op_tag (ForNext _ _ _ _) = 28"
| "op_tag (WhileSetup _ _) = 29"
| "op_tag (WhileCond _) = 30"
| "op_tag Break = 31"
| "op_tag Continue = 32"
| "op_tag SetLoopResult = 33"
| "op_tag Safepoint = 34"
| "op_tag (MakeArray _) = 35"
| "op_tag (UnpackTuple _) = 36"
| "op_tag ArrayPush = 37"
| "op_tag (MakeDict _) = 38"
| "op_tag IndexOp = 39"
| "op_tag StoreIndexOp = 40"
| "op_tag (CompoundIndexOp _) = 41"
| "op_tag SliceOp = 42"
| "op_tag MakeRange = 43"
| "op_tag (MakeStruct _ _) = 44"
| "op_tag (GetField _) = 45"
| "op_tag (GetFieldIdx _) = 46"
| "op_tag (SetField _) = 47"
| "op_tag (SetFieldIdx _) = 48"
| "op_tag (CompoundFieldOp _ _) = 49"
| "op_tag (RegisterStruct _ _) = 50"
| "op_tag (RegisterEnum _ _) = 51"
| "op_tag (MakeEnum _ _ _) = 52"
| "op_tag (MakeClosure _) = 53"
| "op_tag (MakeFunc _) = 54"
| "op_tag (SpawnClosure _) = 55"
| "op_tag (MakeVariant _ _) = 56"
| "op_tag (MatchArm _ _ _ _) = 57"
| "op_tag (MatchGuard _ _) = 58"
| "op_tag MatchError = 59"
| "op_tag (IfLetMatch _ _ _) = 60"
| "op_tag TryOp = 61"
| "op_tag Elvis = 62"
| "op_tag ElvisResult = 63"
| "op_tag (Call _) = 64"
| "op_tag (CallPath _ _ _) = 65"
| "op_tag (CallMethod _ _) = 66"
| "op_tag (CallNative _ _) = 67"
| "op_tag (Concat _) = 68"
| "op_tag FormatValue = 69"
| "op_tag (DbQuery _) = 70"
| "op_tag EnterScope = 71"
| "op_tag ExitScope = 72"
| "op_tag DeferRecord = 73"

text \<open>\<open>Op::name\<close>: the short stable name \<open>zz dis\<close> prints.\<close>

primrec op_name :: "op \<Rightarrow> string" where
  "op_name (PushConst _) = ''const''"
| "op_name Pop = ''pop''"
| "op_name Swap = ''swap''"
| "op_name (PopN _) = ''popn''"
| "op_name Truthy = ''truthy''"
| "op_name (LoadVar _) = ''load''"
| "op_name (LoadPath _) = ''loadpath''"
| "op_name (DefineVar _) = ''define''"
| "op_name (StoreVar _) = ''store''"
| "op_name (StorePath _) = ''storepath''"
| "op_name (LoadSlot _) = ''loadslot''"
| "op_name (StoreSlot _) = ''storeslot''"
| "op_name (TakeVar _) = ''take''"
| "op_name (VecPushField _ _ _) = ''vecpushfield''"
| "op_name (VecPushMethod _ _ _) = ''vecpushmethod''"
| "op_name (SetFieldTake _ _ _) = ''setfieldtake''"
| "op_name (SetFieldIndexTake _ _ _) = ''setfieldindextake''"
| "op_name (StoreIndexTake _ _) = ''storeindextake''"
| "op_name (CompoundIndexTake _ _ _) = ''compoundindextake''"
| "op_name (FieldBinopTake _ _ _ _) = ''fieldbinoptake''"
| "op_name (GetFieldIndex _ _ _) = ''getfieldindex''"
| "op_name (LenField _ _ _) = ''lenfield''"
| "op_name (GetFieldSlotIdx _ _ _ _) = ''getfieldslotidx''"
| "op_name (IndexIntSlot _ _ _) = ''indexintslot''"
| "op_name (IndexDictInt _ _ _) = ''indexdictint''"
| "op_name (SlotAddInt _ _) = ''slotaddint''"
| "op_name (SlotInc _) = ''slotinc''"
| "op_name (SlotAddIntImm _ _) = ''slotaddintimm''"
| "op_name (SlotSubIntImm _ _) = ''slotsubintimm''"
| "op_name (SlotMulIntImm _ _) = ''slotmulintimm''"
| "op_name (SlotLessIntSlot _ _) = ''slotlessintslot''"
| "op_name (SlotLessIntImm _ _) = ''slotlessintimm''"
| "op_name (SlotBinaryInt _ _ _ _) = ''slotbinint''"
| "op_name (SlotBinaryIntImm _ _ _ _) = ''slotbinintimm''"
| "op_name (SlotCmpIntSlot _ _ _) = ''slotcmpintslot''"
| "op_name (SlotCmpIntImm _ _ _) = ''slotcmpintimm''"
| "op_name (SlotCmpConst _ _ _) = ''slotcmpconst''"
| "op_name (PushSlotIntImm _ _ _) = ''pushslotintimm''"
| "op_name (JumpIfFalseSlotCmpIntImm _ _ _ _) = ''jumpiffalseslotcmpintimm''"
| "op_name (JumpIfFalseSlotCmpIntSlot _ _ _ _) = ''jumpiffalseslotcmpintslot''"
| "op_name IntAdd = ''iadd''"
| "op_name IntSub = ''isub''"
| "op_name IntMul = ''imul''"
| "op_name IntDiv = ''idiv''"
| "op_name IntRem = ''irem''"
| "op_name IntNeg = ''ineg''"
| "op_name (BinOp _) = ''binop''"
| "op_name (UnOp _) = ''unop''"
| "op_name (Jump _) = ''jmp''"
| "op_name (JumpIfFalse _) = ''jf''"
| "op_name (JumpIfTrue _) = ''jt''"
| "op_name (JumpIfFalseBool _) = ''jfb''"
| "op_name Return = ''ret''"
| "op_name (ForSetup _ _ _) = ''forsetup''"
| "op_name (ForNext _ _ _ _) = ''fornext''"
| "op_name (WhileSetup _ _) = ''whilesetup''"
| "op_name (WhileCond _) = ''whilecond''"
| "op_name Break = ''break''"
| "op_name Continue = ''continue''"
| "op_name SetLoopResult = ''setloopresult''"
| "op_name Safepoint = ''safepoint''"
| "op_name (MakeArray _) = ''makearray''"
| "op_name (UnpackTuple _) = ''unpack''"
| "op_name ArrayPush = ''arraypush''"
| "op_name (MakeDict _) = ''makedict''"
| "op_name IndexOp = ''index''"
| "op_name StoreIndexOp = ''storeindex''"
| "op_name (CompoundIndexOp _) = ''compoundindex''"
| "op_name SliceOp = ''slice''"
| "op_name MakeRange = ''makerange''"
| "op_name (MakeStruct _ _) = ''makestruct''"
| "op_name (GetField _) = ''getfield''"
| "op_name (GetFieldIdx _) = ''getfieldidx''"
| "op_name (SetField _) = ''setfield''"
| "op_name (SetFieldIdx _) = ''setfieldidx''"
| "op_name (CompoundFieldOp _ _) = ''compoundfield''"
| "op_name (RegisterStruct _ _) = ''regstruct''"
| "op_name (RegisterEnum _ _) = ''regenum''"
| "op_name (MakeEnum _ _ _) = ''makeenum''"
| "op_name (MakeClosure _) = ''makeclosure''"
| "op_name (MakeFunc _) = ''makefunc''"
| "op_name (SpawnClosure _) = ''spawnclosure''"
| "op_name (MakeVariant _ _) = ''makevariant''"
| "op_name (MatchArm _ _ _ _) = ''matcharm''"
| "op_name (MatchGuard _ _) = ''matchguard''"
| "op_name MatchError = ''matcherror''"
| "op_name (IfLetMatch _ _ _) = ''iflet''"
| "op_name TryOp = ''try''"
| "op_name Elvis = ''elvis''"
| "op_name ElvisResult = ''elvisresult''"
| "op_name (Call _) = ''call''"
| "op_name (CallPath _ _ _) = ''callpath''"
| "op_name (CallMethod _ _) = ''callmethod''"
| "op_name (CallNative _ _) = ''callnative''"
| "op_name (Concat _) = ''concat''"
| "op_name FormatValue = ''formatvalue''"
| "op_name (DbQuery _) = ''dbquery''"
| "op_name EnterScope = ''enterscope''"
| "op_name ExitScope = ''exitscope''"
| "op_name DeferRecord = ''defer''"

section \<open>Frame slots\<close>

text \<open>\<open>Op::for_each_slot\<close>: the slots handed to the callback, in the order of the calls.\<close>

definition op_slots :: "op \<Rightarrow> u16 list" where
  "op_slots op = (case op of
       LoadSlot s \<Rightarrow> [s]
     | StoreSlot s \<Rightarrow> [s]
     | SlotInc s \<Rightarrow> [s]
     | SlotAddInt dst src \<Rightarrow> [dst, src]
     | SlotLessIntSlot a b \<Rightarrow> [a, b]
     | SlotCmpIntSlot a b _ \<Rightarrow> [a, b]
     | JumpIfFalseSlotCmpIntSlot a b _ _ \<Rightarrow> [a, b]
     | SlotAddIntImm dst _ \<Rightarrow> [dst]
     | SlotSubIntImm dst _ \<Rightarrow> [dst]
     | SlotMulIntImm dst _ \<Rightarrow> [dst]
     | SlotLessIntImm a _ \<Rightarrow> [a]
     | SlotCmpIntImm a _ _ \<Rightarrow> [a]
     | PushSlotIntImm a _ _ \<Rightarrow> [a]
     | JumpIfFalseSlotCmpIntImm a _ _ _ \<Rightarrow> [a]
     | SlotCmpConst a _ _ \<Rightarrow> [a]
     | SlotBinaryInt dst lhs rhs _ \<Rightarrow> [dst, lhs, rhs]
     | SlotBinaryIntImm dst lhs _ _ \<Rightarrow> [dst, lhs]
     | _ \<Rightarrow> [])"

text \<open>\<open>Op::slot_extent\<close>: the running maximum over the slots of an instruction.\<close>

definition max_slot :: "u16 option \<Rightarrow> u16 \<Rightarrow> u16 option" where
  "max_slot m s = Some (case m of None \<Rightarrow> s | Some m' \<Rightarrow> max m' s)"

definition slot_extent :: "op \<Rightarrow> u16 option" where
  "slot_extent op = foldl max_slot None (op_slots op)"

lemma foldl_max_slot_None: "foldl max_slot m ss = None \<longleftrightarrow> m = None \<and> ss = []"
  by (induction ss arbitrary: m) (simp_all add: max_slot_def)

lemma foldl_max_slot_ge:
  "foldl max_slot m ss = Some x \<Longrightarrow> (\<forall>y. m = Some y \<longrightarrow> y \<le> x) \<and> (\<forall>s \<in> set ss. s \<le> x)"
proof (induction ss arbitrary: m)
  case (Cons s ss)
  from Cons.prems have *: "foldl max_slot (max_slot m s) ss = Some x" by simp
  from Cons.IH [OF this] show ?case
    by (cases m) (auto simp: max_slot_def)
qed simp

lemma slot_extent_None: "slot_extent op = None \<longleftrightarrow> op_slots op = []"
  by (simp add: slot_extent_def foldl_max_slot_None)

lemma slot_extent_ge: "slot_extent op = Some x \<Longrightarrow> s \<in> set (op_slots op) \<Longrightarrow> s \<le> x"
  unfolding slot_extent_def by (blast dest: foldl_max_slot_ge)

end
