(* ===== verification/Ir_Module.thy ===== *)
theory Ir_Module
  imports Ir_Op
begin

text \<open>
  Functions and modules of \<open>crates/zz_ir/src/lib.rs\<close>: a module is four tables (types, strings,
  constants, functions) and an entry id. A Rust \<open>String\<close> is the list of its UTF-8 bytes.
\<close>

type_synonym rstring = "u8 list"

definition MAGIC :: "u8 list" where
  "MAGIC = [90, 90, 67, 49]"

definition VERSION :: u32 where
  "VERSION = 4"

record param =
  param_name :: str_id
  param_default :: "func_id option"

record func_sig =
  sig_params :: "type_id list"
  sig_ret :: type_id

record func_def =
  fd_name :: str_id
  fd_arity :: u32
  fd_params :: "param list"
  fd_sig :: func_sig
  fd_locals :: "type_id list"
  fd_vartab :: "u16 list list"
  fd_toplevel_slots :: "(str_id \<times> u16) list"
  fd_code :: "op list"
  fd_spans :: "span list"
  fd_max_stack :: u32

record module_ =
  m_types :: "ir_type list"
  m_strings :: "rstring list"
  m_consts :: "const list"
  m_funcs :: "func_def list"
  m_entry :: func_id

end
