(* ===== verification/Verify_Types.thy ===== *)
theory Verify_Types
  imports Ir_Module
begin

text \<open>
  Abstract values of the typed half of \<open>crates/zz_ir/src/verify.rs\<close>: \<open>TV\<close>, the weak compatibility
  rule, joins, the primitive ids, and the result types of operators, iteration and indexing.
\<close>

section \<open>Abstract values\<close>

datatype tv = TvU | TvT ir_type

text \<open>\<open>module.types.get(id.0 as usize)\<close>.\<close>

definition expand :: "module_ \<Rightarrow> type_id \<Rightarrow> ir_type option" where
  "expand m i = vec_get (m_types m) (type_ix i)"

definition tv_of_id :: "module_ \<Rightarrow> type_id \<Rightarrow> tv" where
  "tv_of_id m i = (case expand m i of
       None \<Rightarrow> TvU
     | Some t \<Rightarrow> if t = TUnknown then TvU else TvT t)"

definition is_shallow_wild :: "ir_type \<Rightarrow> bool" where
  "is_shallow_wild t = (case t of
       TUnknown \<Rightarrow> True
     | TVar _ \<Rightarrow> True
     | TError \<Rightarrow> True
     | TNamed _ \<Rightarrow> True
     | TOpaque _ \<Rightarrow> True
     | TFunc _ _ \<Rightarrow> True
     | TStruct _ _ \<Rightarrow> True
     | TEnum _ _ \<Rightarrow> True
     | TPtr _ _ \<Rightarrow> True
     | _ \<Rightarrow> False)"

text \<open>\<open>IrType::Union(members)\<close>, and the element ids of two types with the same constructor.\<close>

definition union_members :: "ir_type \<Rightarrow> type_id list option" where
  "union_members t = (case t of TUnion members \<Rightarrow> Some members | _ \<Rightarrow> None)"

definition elem_pairs :: "ir_type \<Rightarrow> ir_type \<Rightarrow> (type_id \<times> type_id) list option" where
  "elem_pairs inferred declared = (case inferred of
       TArray a \<Rightarrow> (case declared of TArray b \<Rightarrow> Some [(a, b)] | _ \<Rightarrow> None)
     | TDict a1 b1 \<Rightarrow> (case declared of TDict a2 b2 \<Rightarrow> Some [(a1, a2), (b1, b2)] | _ \<Rightarrow> None)
     | TOption a \<Rightarrow> (case declared of TOption b \<Rightarrow> Some [(a, b)] | _ \<Rightarrow> None)
     | TRange a \<Rightarrow> (case declared of TRange b \<Rightarrow> Some [(a, b)] | _ \<Rightarrow> None)
     | TResult a1 b1 \<Rightarrow> (case declared of TResult a2 b2 \<Rightarrow> Some [(a1, a2), (b1, b2)] | _ \<Rightarrow> None)
     | _ \<Rightarrow> None)"

definition tuple_members :: "ir_type \<Rightarrow> type_id list option" where
  "tuple_members t = (case t of TTuple members \<Rightarrow> Some members | _ \<Rightarrow> None)"

function compatible_expanded :: "module_ \<Rightarrow> ir_type \<Rightarrow> ir_type \<Rightarrow> nat \<Rightarrow> bool"
  and both_accept :: "module_ \<Rightarrow> type_id \<Rightarrow> type_id \<Rightarrow> nat \<Rightarrow> bool" where
  "compatible_expanded m inferred declared depth =
     (if depth > 32 then True
      else if is_shallow_wild inferred \<or> is_shallow_wild declared then True
      else case union_members inferred of
        Some members \<Rightarrow>
          list_all (\<lambda>i. case expand m i of
              Some mt \<Rightarrow> compatible_expanded m mt declared (depth + 1)
            | None \<Rightarrow> True) members
      | None \<Rightarrow>
        (case union_members declared of
           Some members \<Rightarrow>
             list_ex (\<lambda>i. case expand m i of
                 Some mt \<Rightarrow> compatible_expanded m inferred mt (depth + 1)
               | None \<Rightarrow> True) members
         | None \<Rightarrow>
           (case elem_pairs inferred declared of
              Some pairs \<Rightarrow> list_all (\<lambda>(a, b). both_accept m a b depth) pairs
            | None \<Rightarrow>
              (case (tuple_members inferred, tuple_members declared) of
                 (Some a, Some b) \<Rightarrow>
                   length a = length b \<and> list_all (\<lambda>(x, y). both_accept m x y depth) (zip a b)
               | _ \<Rightarrow> inferred = declared))))"
| "both_accept m a b depth =
     (case (expand m a, expand m b) of
        (Some x, Some y) \<Rightarrow> compatible_expanded m x y (depth + 1)
      | _ \<Rightarrow> True)"
  by pat_completeness auto
termination
  by (relation "measure (\<lambda>x. case x of
        Inl (m, a, b, d) \<Rightarrow> if d > 32 then 0 else 2 * (33 - d)
      | Inr (m, a, b, d) \<Rightarrow> if d > 32 then 1 else 2 * (33 - d) - 1)") auto

declare compatible_expanded.simps [simp del] both_accept.simps [simp del]

definition compatible_tv :: "module_ \<Rightarrow> tv \<Rightarrow> tv \<Rightarrow> bool" where
  "compatible_tv m inferred declared = (case (inferred, declared) of
       (TvU, _) \<Rightarrow> True
     | (_, TvU) \<Rightarrow> True
     | (TvT a, TvT b) \<Rightarrow> compatible_expanded m a b 0)"

definition join_tv :: "tv \<Rightarrow> tv \<Rightarrow> tv" where
  "join_tv a b = (if a = b then a else TvU)"

definition join_state :: "tv list \<Rightarrow> tv list \<Rightarrow> tv list" where
  "join_state a b = map (\<lambda>(x, y). join_tv x y) (zip a b)"

text \<open>The accumulation \<open>elem = Some(match elem { None => t, Some(e) => join_tv(e, t) })\<close>.\<close>

definition join_opt :: "tv option \<Rightarrow> tv \<Rightarrow> tv option" where
  "join_opt e t = Some (case e of None \<Rightarrow> t | Some e' \<Rightarrow> join_tv e' t)"

section \<open>Primitive ids and table scans\<close>

record prim_ids =
  prims_unit :: "type_id option"
  prims_bool :: "type_id option"
  prims_int :: "type_id option"
  prims_float :: "type_id option"
  prims_str :: "type_id option"

text \<open>\<open>Option::or\<close> and a \<open>usize\<close> cast to a table id.\<close>

definition opt_or :: "'a option \<Rightarrow> 'a option \<Rightarrow> 'a option" where
  "opt_or a b = (case a of Some _ \<Rightarrow> a | None \<Rightarrow> b)"

definition nth_type_id :: "nat \<Rightarrow> type_id" where
  "nth_type_id i = TypeId (word_of_nat i)"

definition prim_step :: "prim_ids \<Rightarrow> nat \<times> ir_type \<Rightarrow> prim_ids" where
  "prim_step out = (\<lambda>(i, t). case t of
       TUnit \<Rightarrow> out\<lparr>prims_unit := opt_or (prims_unit out) (Some (nth_type_id i))\<rparr>
     | TBool \<Rightarrow> out\<lparr>prims_bool := opt_or (prims_bool out) (Some (nth_type_id i))\<rparr>
     | TInt \<Rightarrow> out\<lparr>prims_int := opt_or (prims_int out) (Some (nth_type_id i))\<rparr>
     | TFloat \<Rightarrow> out\<lparr>prims_float := opt_or (prims_float out) (Some (nth_type_id i))\<rparr>
     | TStr \<Rightarrow> out\<lparr>prims_str := opt_or (prims_str out) (Some (nth_type_id i))\<rparr>
     | _ \<Rightarrow> out)"

definition prim_ids_of :: "module_ \<Rightarrow> prim_ids" where
  "prim_ids_of m =
     foldl prim_step
       \<lparr>prims_unit = None, prims_bool = None, prims_int = None, prims_float = None, prims_str = None\<rparr>
       (enumerate 0 (m_types m))"

text \<open>The closure \<open>t\<close> of the transfer functions: \<open>id.map(of_id).unwrap_or(U)\<close>.\<close>

definition prim_tv :: "module_ \<Rightarrow> type_id option \<Rightarrow> tv" where
  "prim_tv m i = (case i of Some j \<Rightarrow> tv_of_id m j | None \<Rightarrow> TvU)"

definition type_pos :: "module_ \<Rightarrow> ir_type \<Rightarrow> nat option" where
  "type_pos m want = position (\<lambda>t. t = want) (m_types m)"

definition scan_prim :: "module_ \<Rightarrow> ir_type \<Rightarrow> tv" where
  "scan_prim m want = (case type_pos m want of
       Some i \<Rightarrow> tv_of_id m (nth_type_id i)
     | None \<Rightarrow> TvU)"

definition array_of_id :: "module_ \<Rightarrow> ir_type \<Rightarrow> type_id option" where
  "array_of_id m elem =
     map_option nth_type_id
       (position (\<lambda>t. case t of TArray inner \<Rightarrow> expand m inner = Some elem | _ \<Rightarrow> False) (m_types m))"

section \<open>Constants\<close>

text \<open>
  \<open>tv_of_const\<close> recurses through the pool with a memo table. The pool order is checked before any
  function is, so that the recursion descends; the model counts the recursion depth down, and
  \<open>None\<close> is a recursion deeper than the count.
\<close>

definition memo_get :: "tv option list \<Rightarrow> nat \<Rightarrow> tv option" where
  "memo_get memo i = (case vec_get memo i of Some x \<Rightarrow> x | None \<Rightarrow> None)"

definition memo_set :: "tv option list \<Rightarrow> nat \<Rightarrow> tv \<Rightarrow> tv option list" where
  "memo_set memo i t =
     (if length memo \<le> i then memo @ replicate (i + 1 - length memo) None else memo)[i := Some t]"

text \<open>The loop over the elements of an array constant, for the recursive call \<open>rec\<close>.\<close>

primrec elems_tv ::
  "(const_id \<Rightarrow> tv option list \<Rightarrow> (tv \<times> tv option list) option) \<Rightarrow> const_id list \<Rightarrow> tv option \<Rightarrow>
     tv option list \<Rightarrow> (tv option \<times> tv option list) option" where
  "elems_tv rec [] elem memo = Some (elem, memo)"
| "elems_tv rec (item # items) elem memo =
     (case rec item memo of
        None \<Rightarrow> None
      | Some (t, memo') \<Rightarrow> elems_tv rec items (join_opt elem t) memo')"

definition array_tv :: "module_ \<Rightarrow> tv option \<Rightarrow> tv" where
  "array_tv m elem = (case elem of
       Some (TvT t) \<Rightarrow> (case array_of_id m t of Some i \<Rightarrow> tv_of_id m i | None \<Rightarrow> TvU)
     | _ \<Rightarrow> TvU)"

primrec tv_of_const ::
  "nat \<Rightarrow> module_ \<Rightarrow> const_id \<Rightarrow> tv option list \<Rightarrow> (tv \<times> tv option list) option" where
  "tv_of_const 0 m c memo = None"
| "tv_of_const (Suc d) m c memo =
     (case memo_get memo (const_ix c) of
        Some hit \<Rightarrow> Some (hit, memo)
      | None \<Rightarrow>
          map_option (\<lambda>(t, memo'). (t, memo_set memo' (const_ix c) t))
            (case vec_get (m_consts m) (const_ix c) of
               None \<Rightarrow> Some (TvU, memo)
             | Some CUnit \<Rightarrow> Some (scan_prim m TUnit, memo)
             | Some (CBool _) \<Rightarrow> Some (scan_prim m TBool, memo)
             | Some (CInt _) \<Rightarrow> Some (scan_prim m TInt, memo)
             | Some (CFloat _) \<Rightarrow> Some (scan_prim m TFloat, memo)
             | Some (CStr _) \<Rightarrow> Some (scan_prim m TStr, memo)
             | Some (CArray items) \<Rightarrow>
                 map_option (\<lambda>(elem, memo'). (array_tv m elem, memo'))
                   (elems_tv (tv_of_const d m) items None memo)
             | Some (CDict _) \<Rightarrow> Some (TvU, memo)
             | Some (COption _) \<Rightarrow> Some (TvU, memo)
             | Some (CResult _ _) \<Rightarrow> Some (TvU, memo)))"

section \<open>Operators\<close>

definition arith_tv :: "module_ \<Rightarrow> prim_ids \<Rightarrow> binop \<Rightarrow> ir_type \<Rightarrow> ir_type \<Rightarrow> tv" where
  "arith_tv m prims op li ri = (case (li, ri) of
       (TInt, TInt) \<Rightarrow> prim_tv m (prims_int prims)
     | (TFloat, TFloat) \<Rightarrow> prim_tv m (prims_float prims)
     | (TInt, TFloat) \<Rightarrow> prim_tv m (prims_float prims)
     | (TFloat, TInt) \<Rightarrow> prim_tv m (prims_float prims)
     | (TStr, TStr) \<Rightarrow> if op = BAdd then prim_tv m (prims_str prims) else TvU
     | _ \<Rightarrow> TvU)"

definition order_tv :: "module_ \<Rightarrow> prim_ids \<Rightarrow> ir_type \<Rightarrow> ir_type \<Rightarrow> tv" where
  "order_tv m prims li ri = (case (li, ri) of
       (TInt, TInt) \<Rightarrow> prim_tv m (prims_bool prims)
     | (TFloat, TFloat) \<Rightarrow> prim_tv m (prims_bool prims)
     | (TInt, TFloat) \<Rightarrow> prim_tv m (prims_bool prims)
     | (TFloat, TInt) \<Rightarrow> prim_tv m (prims_bool prims)
     | (TStr, TStr) \<Rightarrow> prim_tv m (prims_bool prims)
     | _ \<Rightarrow> TvU)"

definition bits_tv :: "module_ \<Rightarrow> prim_ids \<Rightarrow> ir_type \<Rightarrow> ir_type \<Rightarrow> tv" where
  "bits_tv m prims li ri = (case (li, ri) of
       (TInt, TInt) \<Rightarrow> prim_tv m (prims_int prims)
     | _ \<Rightarrow> TvU)"

definition binop_tv :: "module_ \<Rightarrow> prim_ids \<Rightarrow> binop \<Rightarrow> tv \<Rightarrow> tv \<Rightarrow> tv" where
  "binop_tv m prims op l r = (case (l, r) of
       (TvT li, TvT ri) \<Rightarrow>
         (case op of
            BEq \<Rightarrow> prim_tv m (prims_bool prims)
          | BNe \<Rightarrow> prim_tv m (prims_bool prims)
          | BAdd \<Rightarrow> arith_tv m prims op li ri
          | BSub \<Rightarrow> arith_tv m prims op li ri
          | BMul \<Rightarrow> arith_tv m prims op li ri
          | BDiv \<Rightarrow> arith_tv m prims op li ri
          | BRem \<Rightarrow> arith_tv m prims op li ri
          | BPow \<Rightarrow> arith_tv m prims op li ri
          | BLt \<Rightarrow> order_tv m prims li ri
          | BGt \<Rightarrow> order_tv m prims li ri
          | BLe \<Rightarrow> order_tv m prims li ri
          | BGe \<Rightarrow> order_tv m prims li ri
          | BBitAnd \<Rightarrow> bits_tv m prims li ri
          | BBitOr \<Rightarrow> bits_tv m prims li ri
          | BBitXor \<Rightarrow> bits_tv m prims li ri
          | BShl \<Rightarrow> bits_tv m prims li ri
          | BShr \<Rightarrow> bits_tv m prims li ri
          | BAnd \<Rightarrow> TvU
          | BOr \<Rightarrow> TvU
          | BElvis \<Rightarrow> TvU)
     | _ \<Rightarrow> (case op of
            BEq \<Rightarrow> prim_tv m (prims_bool prims)
          | BNe \<Rightarrow> prim_tv m (prims_bool prims)
          | _ \<Rightarrow> TvU))"

definition unop_tv :: "module_ \<Rightarrow> prim_ids \<Rightarrow> unop \<Rightarrow> tv \<Rightarrow> tv" where
  "unop_tv m prims op v = (case v of
       TvU \<Rightarrow> if op = UPos then v else TvU
     | TvT inner \<Rightarrow>
         (case op of
            UPos \<Rightarrow> v
          | UNeg \<Rightarrow> (case inner of
                TInt \<Rightarrow> prim_tv m (prims_int prims)
              | TFloat \<Rightarrow> prim_tv m (prims_float prims)
              | _ \<Rightarrow> TvU)
          | UNot \<Rightarrow> (case inner of TBool \<Rightarrow> prim_tv m (prims_bool prims) | _ \<Rightarrow> TvU)
          | UBitNot \<Rightarrow> (case inner of TInt \<Rightarrow> prim_tv m (prims_int prims) | _ \<Rightarrow> TvU)))"

text \<open>The take/restore dance: \<open>LoadSlot s; PushConst unit; StoreSlot s\<close>.\<close>

definition is_take_store :: "op list \<Rightarrow> const list \<Rightarrow> nat \<Rightarrow> u16 \<Rightarrow> bool" where
  "is_take_store code csts pc s =
     (if pc < 2 then False
      else (case code ! (pc - 2) of LoadSlot t \<Rightarrow> t = s | _ \<Rightarrow> False) \<and>
           (case code ! (pc - 1) of
              PushConst c \<Rightarrow> vec_get csts (const_ix c) = Some CUnit
            | _ \<Rightarrow> False) \<and>
           (case code ! pc of StoreSlot t \<Rightarrow> t = s | _ \<Rightarrow> False))"

definition iter_elem_tv :: "module_ \<Rightarrow> prim_ids \<Rightarrow> tv \<Rightarrow> nat \<Rightarrow> tv list" where
  "iter_elem_tv m prims it nvars = (case it of
       TvU \<Rightarrow> replicate nvars TvU
     | TvT inner \<Rightarrow>
         (case inner of
            TRange _ \<Rightarrow> replicate nvars (prim_tv m (prims_int prims))
          | TArray e \<Rightarrow> replicate nvars (tv_of_id m e)
          | TDict k v \<Rightarrow>
              (if nvars = 1 then [tv_of_id m k]
               else if nvars = 2 then [tv_of_id m k, tv_of_id m v]
               else replicate nvars TvU)
          | TBytes \<Rightarrow> replicate nvars (prim_tv m (prims_int prims))
          | _ \<Rightarrow> replicate nvars TvU))"

definition index_tv :: "module_ \<Rightarrow> prim_ids \<Rightarrow> tv \<Rightarrow> tv" where
  "index_tv m prims ob = (case ob of
       TvU \<Rightarrow> TvU
     | TvT t \<Rightarrow>
         (case t of
            TArray e \<Rightarrow> tv_of_id m e
          | TTuple members \<Rightarrow>
              (case foldl (\<lambda>out i. join_opt out (tv_of_id m i)) None members of
                 Some x \<Rightarrow> x
               | None \<Rightarrow> TvU)
          | TBytes \<Rightarrow> prim_tv m (prims_int prims)
          | TDict _ v \<Rightarrow> tv_of_id m v
          | TStr \<Rightarrow> prim_tv m (prims_str prims)
          | _ \<Rightarrow> TvU))"

section \<open>Joins\<close>

text \<open>
  The interface of a join used by the worklist of the inference: an order and its least upper
  bounds. The lemmas lift it to stacks of equal height.
\<close>

locale join_order =
  fixes le :: "'a \<Rightarrow> 'a \<Rightarrow> bool"
    and join :: "'a \<Rightarrow> 'a \<Rightarrow> 'a"
  assumes le_refl: "le a a"
    and le_trans: "le a b \<Longrightarrow> le b c \<Longrightarrow> le a c"
    and le_antisym: "le a b \<Longrightarrow> le b a \<Longrightarrow> a = b"
    and join_ub1: "le a (join a b)"
    and join_ub2: "le b (join a b)"
    and join_least: "le a c \<Longrightarrow> le b c \<Longrightarrow> le (join a b) c"
begin

lemma join_absorb: "join a b = a \<longleftrightarrow> le b a"
proof
  assume "join a b = a"
  then show "le b a" using join_ub2 [of b a] by simp
next
  assume "le b a"
  then show "join a b = a" using join_least [OF le_refl] join_ub1 by (blast intro: le_antisym)
qed

lemma stack_refl: "list_all2 le s s"
  by (rule list_all2_refl) (rule le_refl)

lemma stack_trans: "list_all2 le r s \<Longrightarrow> list_all2 le s t \<Longrightarrow> list_all2 le r t"
  by (rule list_all2_trans [OF le_trans])

lemma stack_join_ub1: "length s = length t \<Longrightarrow> list_all2 le s (map (\<lambda>(x, y). join x y) (zip s t))"
  by (simp add: list_all2_conv_all_nth join_ub1)

lemma stack_join_ub2: "length s = length t \<Longrightarrow> list_all2 le t (map (\<lambda>(x, y). join x y) (zip s t))"
  by (simp add: list_all2_conv_all_nth join_ub2)

lemma stack_join_absorb:
  "length s = length t \<Longrightarrow> map (\<lambda>(x, y). join x y) (zip s t) = s \<longleftrightarrow> list_all2 le t s"
  by (auto simp: list_eq_iff_nth_eq list_all2_conv_all_nth join_absorb)

end

definition tv_le :: "tv \<Rightarrow> tv \<Rightarrow> bool" where
  "tv_le a b \<longleftrightarrow> b = a \<or> b = TvU"

interpretation tvj: join_order tv_le join_tv
  by unfold_locales (auto simp: tv_le_def join_tv_def)

abbreviation state_le :: "tv list \<Rightarrow> tv list \<Rightarrow> bool" where
  "state_le \<equiv> list_all2 tv_le"

lemma length_join_state [simp]: "length (join_state a b) = min (length a) (length b)"
  by (simp add: join_state_def)

lemmas join_state_ub1 = tvj.stack_join_ub1 [folded join_state_def]
  and join_state_ub2 = tvj.stack_join_ub2 [folded join_state_def]
  and join_state_absorb = tvj.stack_join_absorb [folded join_state_def]

section \<open>Compatibility\<close>

text \<open>\<open>t\<close> is a possibly nested member of the union \<open>u\<close>, or \<open>u\<close> itself.\<close>

inductive union_sub :: "module_ \<Rightarrow> ir_type \<Rightarrow> ir_type \<Rightarrow> bool" for m where
  self: "union_sub m t t"
| member: "union_members u = Some members \<Longrightarrow> i \<in> set members \<Longrightarrow> expand m i = Some u' \<Longrightarrow>
    union_sub m t u' \<Longrightarrow> union_sub m t u"

inductive_cases union_subE: "union_sub m t u"

lemma union_sub_trans: "union_sub m t u \<Longrightarrow> union_sub m s t \<Longrightarrow> union_sub m s u"
  by (induction rule: union_sub.induct) (auto intro: union_sub.intros)

lemma elem_pairs_same: "elem_pairs t t = Some ps \<Longrightarrow> (a, b) \<in> set ps \<Longrightarrow> a = b"
  by (cases t) (auto simp: elem_pairs_def)

lemma both_accept_same:
  "(\<And>t. compatible_expanded m t t (d + 1)) \<Longrightarrow> both_accept m a a d"
  by (simp add: both_accept.simps split: option.split)

lemma compatible_self_step:
  assumes "\<And>t. compatible_expanded m t t (d + 1)" "union_members t = None"
  shows "compatible_expanded m t t d"
proof -
  have "both_accept m a b d" if "elem_pairs t t = Some ps" "(a, b) \<in> set ps" for ps a b
    using elem_pairs_same [OF that] both_accept_same [OF assms(1)] by simp
  with assms(2) both_accept_same [OF assms(1)] show ?thesis
    by (auto simp: compatible_expanded.simps [of m t t d] list_all_iff in_set_zip split: option.splits)
qed

lemma compatible_sub: "union_sub m t u \<Longrightarrow> compatible_expanded m t u d"
proof (induction "33 - d" arbitrary: t u d)
  case 0
  then show ?case by (simp add: compatible_expanded.simps)
next
  case (Suc k)
  have k: "k = 33 - (d + 1)" using Suc(2) by simp
  note IH = Suc(1) [OF k]
  consider (wild) "is_shallow_wild t \<or> is_shallow_wild u"
    | (union) members where "union_members t = Some members"
    | (same) "union_members t = None" "t = u"
    | (mem) members i u' where "union_members t = None" "union_members u = Some members"
        "i \<in> set members" "expand m i = Some u'" "union_sub m t u'"
    using Suc(3) by (cases "union_members t"; cases rule: union_subE) auto
  then show ?case
  proof cases
    case wild
    then show ?thesis by (auto simp: compatible_expanded.simps [of m t u d])
  next
    case union
    have "compatible_expanded m mt u (d + 1)" if "i \<in> set members" "expand m i = Some mt" for i mt
      using union that union_sub_trans [OF Suc(3)]
      by (intro IH) (blast intro: union_sub.intros)
    with union show ?thesis
      by (auto simp: compatible_expanded.simps [of m t u d] list_all_iff split: option.splits)
  next
    case same
    with IH union_sub.self show ?thesis by (auto intro: compatible_self_step)
  next
    case mem
    with IH [OF mem(5)] show ?thesis
      by (auto simp: compatible_expanded.simps [of m t u d] list_ex_iff split: option.splits
          intro!: bexI [of _ i])
  qed
qed

text \<open>Types without parts: neither wildcard, union nor constructor.\<close>

definition scalar :: "ir_type \<Rightarrow> bool" where
  "scalar t \<longleftrightarrow> \<not> is_shallow_wild t \<and> union_members t = None \<and> elem_pairs t t = None \<and> tuple_members t = None"

lemma elem_pairs_diag: "elem_pairs a b = Some ps \<Longrightarrow> elem_pairs a a \<noteq> None \<and> elem_pairs b b \<noteq> None"
  by (cases a) (auto simp: elem_pairs_def split: ir_type.splits)

lemma compatible_scalar:
  assumes "scalar a \<or> scalar b" "union_members a = None" "union_members b = None"
    "\<not> is_shallow_wild a" "\<not> is_shallow_wild b" "d \<le> 32"
  shows "compatible_expanded m a b d \<longleftrightarrow> a = b"
proof -
  have "elem_pairs a b = None" using assms(1) elem_pairs_diag [of a b]
    by (cases "elem_pairs a b") (auto simp: scalar_def)
  moreover have "tuple_members a = None \<or> tuple_members b = None"
    using assms(1) by (auto simp: scalar_def)
  ultimately show ?thesis
    using assms by (auto simp: compatible_expanded.simps [of m a b d] split: option.splits)
qed

section \<open>The type table\<close>

lemma expand_nth:
  assumes "i < length (m_types m)" "length (m_types m) \<le> 2 ^ 32"
  shows "expand m (nth_type_id i) = Some (m_types m ! i)"
  using assms by (simp add: expand_def nth_type_id_def vec_get_def)

lemma scan_prim_eq:
  assumes "length (m_types m) \<le> 2 ^ 32" "want \<noteq> TUnknown"
  shows "scan_prim m want = (if want \<in> set (m_types m) then TvT want else TvU)"
proof (cases "type_pos m want")
  case None
  then show ?thesis
    using position_NoneD [of "\<lambda>t. t = want" "m_types m" want] by (auto simp: scan_prim_def type_pos_def)
next
  case (Some i)
  then have i: "i < length (m_types m)" "m_types m ! i = want"
    using position_SomeD [of "\<lambda>t. t = want" "m_types m" i] by (simp_all add: type_pos_def)
  then have "want \<in> set (m_types m)" by auto
  with i Some expand_nth [OF i(1) assms(1)] assms(2) show ?thesis
    by (simp add: scan_prim_def tv_of_id_def)
qed

text \<open>The loop of \<open>prim_ids\<close> finds the first table entry of each primitive type.\<close>

definition prims_of :: "ir_type \<Rightarrow> prim_ids \<Rightarrow> type_id option" where
  "prims_of t p = (case t of
       TUnit \<Rightarrow> prims_unit p
     | TBool \<Rightarrow> prims_bool p
     | TInt \<Rightarrow> prims_int p
     | TFloat \<Rightarrow> prims_float p
     | TStr \<Rightarrow> prims_str p
     | _ \<Rightarrow> None)"

lemma prim_step_of:
  "want \<in> {TUnit, TBool, TInt, TFloat, TStr} \<Longrightarrow>
     prims_of want (prim_step p (i, t)) =
       opt_or (prims_of want p) (if t = want then Some (nth_type_id i) else None)"
  by (cases t) (auto simp: prim_step_def prims_of_def opt_or_def split: option.splits)

lemma foldl_prim_step:
  "want \<in> {TUnit, TBool, TInt, TFloat, TStr} \<Longrightarrow>
     prims_of want (foldl prim_step p (enumerate n ts)) =
       opt_or (prims_of want p)
         (map_option (\<lambda>k. nth_type_id (n + k)) (position (\<lambda>t. t = want) ts))"
proof (induction ts arbitrary: p n)
  case (Cons t ts)
  from Cons.prems have "prims_of want (foldl prim_step p (enumerate n (t # ts))) =
      opt_or (opt_or (prims_of want p) (if t = want then Some (nth_type_id n) else None))
        (map_option (\<lambda>k. nth_type_id (Suc n + k)) (position (\<lambda>t. t = want) ts))"
    by (simp add: Cons.IH prim_step_of del: insert_iff)
  then show ?case
    by (auto simp: opt_or_def option.map_comp comp_def split: option.splits)
qed (simp add: opt_or_def split: option.splits)

lemma prim_ids_scan:
  assumes "want \<in> {TUnit, TBool, TInt, TFloat, TStr}"
  shows "prim_tv m (prims_of want (prim_ids_of m)) = scan_prim m want"
proof -
  have "prims_of want (prim_ids_of m) = map_option nth_type_id (type_pos m want)"
    using foldl_prim_step [OF assms, of _ 0 "m_types m"] assms
    by (auto simp: prim_ids_of_def type_pos_def prims_of_def opt_or_def)
  then show ?thesis by (simp add: prim_tv_def scan_prim_def split: option.split)
qed

section \<open>Constants\<close>

text \<open>The pool order \<open>verify\<close> establishes for array constants: elements precede their users.\<close>

definition arrays_descend :: "const list \<Rightarrow> bool" where
  "arrays_descend csts \<longleftrightarrow>
     (\<forall>i < length csts. \<forall>items. csts ! i = CArray items \<longrightarrow> (\<forall>c \<in> set items. const_ix c < i))"

text \<open>The type of a constant, without the memo table and the recursion depth.\<close>

inductive const_tv :: "module_ \<Rightarrow> const_id \<Rightarrow> tv \<Rightarrow> bool" for m where
  dangling: "vec_get (m_consts m) (const_ix c) = None \<Longrightarrow> const_tv m c TvU"
| unit: "vec_get (m_consts m) (const_ix c) = Some CUnit \<Longrightarrow> const_tv m c (scan_prim m TUnit)"
| bool: "vec_get (m_consts m) (const_ix c) = Some (CBool b) \<Longrightarrow> const_tv m c (scan_prim m TBool)"
| int: "vec_get (m_consts m) (const_ix c) = Some (CInt k) \<Longrightarrow> const_tv m c (scan_prim m TInt)"
| float: "vec_get (m_consts m) (const_ix c) = Some (CFloat x) \<Longrightarrow> const_tv m c (scan_prim m TFloat)"
| str: "vec_get (m_consts m) (const_ix c) = Some (CStr s) \<Longrightarrow> const_tv m c (scan_prim m TStr)"
| array: "vec_get (m_consts m) (const_ix c) = Some (CArray items) \<Longrightarrow> list_all2 (const_tv m) items ts \<Longrightarrow>
    const_tv m c (array_tv m (foldl join_opt None ts))"
| dict: "vec_get (m_consts m) (const_ix c) = Some (CDict ps) \<Longrightarrow> const_tv m c TvU"
| opt: "vec_get (m_consts m) (const_ix c) = Some (COption ob) \<Longrightarrow> const_tv m c TvU"
| result: "vec_get (m_consts m) (const_ix c) = Some (CResult b v) \<Longrightarrow> const_tv m c TvU"

definition memo_ok :: "module_ \<Rightarrow> tv option list \<Rightarrow> bool" where
  "memo_ok m memo \<longleftrightarrow> (\<forall>c t. memo_get memo (const_ix c) = Some t \<longrightarrow> const_tv m c t)"

lemma memo_ok_Nil [simp]: "memo_ok m []"
  by (simp add: memo_ok_def memo_get_def vec_get_def)

lemma memo_get_set: "memo_get (memo_set memo i t) j = (if j = i then Some t else memo_get memo j)"
  by (auto simp: memo_get_def memo_set_def vec_get_def nth_append nth_list_update)

lemma memo_ok_set: "memo_ok m memo \<Longrightarrow> const_tv m c t \<Longrightarrow> memo_ok m (memo_set memo (const_ix c) t)"
proof -
  have "c' = c" if "const_ix c' = const_ix c" for c'
    using that by (cases c; cases c') (simp add: word_unat_eq_iff)
  then show "memo_ok m memo \<Longrightarrow> const_tv m c t \<Longrightarrow> memo_ok m (memo_set memo (const_ix c) t)"
    unfolding memo_ok_def memo_get_set by (metis option.inject)
qed

lemma elems_tv_ok:
  assumes "\<And>c memo. c \<in> set items \<Longrightarrow> memo_ok m memo \<Longrightarrow>
      \<exists>t memo'. rec c memo = Some (t, memo') \<and> const_tv m c t \<and> memo_ok m memo'"
    and "memo_ok m memo"
  shows "\<exists>ts memo'. elems_tv rec items e memo = Some (foldl join_opt e ts, memo') \<and>
           list_all2 (const_tv m) items ts \<and> memo_ok m memo'"
  using assms
proof (induction items arbitrary: e memo)
  case (Cons c items)
  from Cons.prems obtain t memo1 where 1: "rec c memo = Some (t, memo1)" "const_tv m c t" "memo_ok m memo1"
    by (meson list.set_intros(1))
  obtain ts memo' where "elems_tv rec items (join_opt e t) memo1 = Some (foldl join_opt (join_opt e t) ts, memo')"
    "list_all2 (const_tv m) items ts" "memo_ok m memo'"
    using Cons.IH [of memo1 "join_opt e t"] Cons.prems(1) 1(3) by auto
  with 1 show ?case
    by (intro exI [of _ "t # ts"] exI [of _ memo']) simp
qed simp

lemma tv_of_const_ok:
  assumes "arrays_descend (m_consts m)" "const_ix c < d" "memo_ok m memo"
  shows "\<exists>t memo'. tv_of_const d m c memo = Some (t, memo') \<and> const_tv m c t \<and> memo_ok m memo'"
  using assms(2,3)
proof (induction d arbitrary: c memo)
  case (Suc d)
  show ?case
  proof (cases "memo_get memo (const_ix c)")
    case (Some hit)
    with Suc.prems(2) show ?thesis by (auto simp: memo_ok_def)
  next
    case None
    have arr: "\<exists>ts memo'. elems_tv (tv_of_const d m) items None memo = Some (foldl join_opt None ts, memo') \<and>
        list_all2 (const_tv m) items ts \<and> memo_ok m memo'"
      if "vec_get (m_consts m) (const_ix c) = Some (CArray items)" for items
    proof (rule elems_tv_ok)
      show "memo_ok m memo" by (rule Suc.prems(2))
      fix c' memo' assume c': "c' \<in> set items" "memo_ok m memo'"
      with that assms(1) Suc.prems(1) have "const_ix c' < d" by (force simp: arrays_descend_def)
      with Suc.IH c'(2) show "\<exists>t memo''. tv_of_const d m c' memo' = Some (t, memo'') \<and>
          const_tv m c' t \<and> memo_ok m memo''" by blast
    qed
    have fin: ?thesis
      if "tv_of_const (Suc d) m c memo = Some (t, memo_set memo1 (const_ix c) t)" "const_tv m c t"
        "memo_ok m memo1" for t memo1
      using that memo_ok_set by blast
    show ?thesis
    proof (cases "vec_get (m_consts m) (const_ix c)")
      case dang: None
      show ?thesis
        by (rule fin [of TvU memo]) (use None dang Suc.prems(2) in
            \<open>auto simp del: vec_get_eq_None intro: const_tv.intros\<close>)
    next
      case (Some k)
      show ?thesis
      proof (cases k)
        case (CArray items)
        with arr Some obtain ts memo1 where
          "elems_tv (tv_of_const d m) items None memo = Some (foldl join_opt None ts, memo1)"
          "list_all2 (const_tv m) items ts" "memo_ok m memo1" by blast
        with None Some CArray show ?thesis
          by (intro fin [of "array_tv m (foldl join_opt None ts)" memo1])
            (auto simp del: vec_get_eq_Some intro: const_tv.array)
      qed (use None Some Suc.prems(2) in
          \<open>auto simp del: vec_get_eq_Some intro!: memo_ok_set intro: const_tv.intros\<close>)
    qed
  qed
qed simp

end
