(* ===== verification/Vm_Value.thy ===== *)
theory Vm_Value
  imports Ir_Module
begin

text \<open>
  Runtime values (\<open>Value\<close> of \<open>crates/zz_runtime/src/value.rs\<close>). Shared ownership is not visible in a
  value: an \<open>Arc\<close>, \<open>Rc\<close> or \<open>Box\<close> is what it points to. An \<open>f64\<close> is its bit pattern, compared by the
  IEEE rules. The handles into the outside world (functions, sockets, channels and the like) keep
  their variant and the identity that their comparison uses.
\<close>

datatype handle =
    HFunc | HNative | HJson | HHttpServer | HTcpStream | HTcpListener | HDb | HOpaque string
  | HResponse | HHttpRequest | HChan | HTaskJoin

datatype rt_value =
    VInt i64
  | VFloat f64
  | VStr rstring
  | VBool bool
  | VUnit
  | VOption "rt_value option"
  | VResult "(rt_value, rt_value) sum"
  | VHandle handle nat
  | VArray "rt_value list"
  | VBytes "u8 list"
  | VDict "(rt_value \<times> rt_value) list"
  | VObject rstring "(rstring \<times> rt_value) list"
  | VRange i64 i64 i64
  | VTuple "rt_value list"

fun is_truthy :: "rt_value \<Rightarrow> bool" where
  "is_truthy (VBool True) = True"
| "is_truthy _ = False"

section \<open>Comparison of floats\<close>

text \<open>
  Equality of \<open>f64\<close> on bit patterns: a NaN (all exponent bits set, mantissa not zero) equals nothing,
  and the two zeros are equal.
\<close>

definition f64_magnitude :: "f64 \<Rightarrow> nat" where
  "f64_magnitude x = unat x mod 2 ^ 63"

definition is_nan :: "f64 \<Rightarrow> bool" where
  "is_nan x \<longleftrightarrow> f64_magnitude x > 0x7FF0000000000000"

definition neg_zero :: f64 where
  "neg_zero = 0x8000000000000000"

definition f64_eq :: "f64 \<Rightarrow> f64 \<Rightarrow> bool" where
  "f64_eq a b \<longleftrightarrow> \<not> is_nan a \<and> \<not> is_nan b \<and> (a = b \<or> f64_magnitude a = 0 \<and> f64_magnitude b = 0)"

lemma f64_magnitude_zero: "f64_magnitude x = 0 \<longleftrightarrow> x = 0 \<or> x = neg_zero"
proof
  assume "f64_magnitude x = 0"
  then obtain q where q: "unat x = 2 ^ 63 * q" by (auto simp: f64_magnitude_def mod_eq_0_iff_dvd)
  moreover have "unat x < 2 ^ 64" using unsigned_less [of x] by simp
  ultimately have "q < 2" by simp
  then have "q = 0 \<or> q = 1" by auto
  then show "x = 0 \<or> x = neg_zero"
  proof
    assume "q = 1"
    with q have "unat x = unat neg_zero" by (simp add: neg_zero_def)
    then have "x = neg_zero" by (simp only: word_unat_eq_iff)
    then show ?thesis ..
  qed (use q in \<open>simp add: unat_eq_0\<close>)
qed (auto simp: f64_magnitude_def neg_zero_def)

lemma f64_eq_cases: "f64_eq a b \<Longrightarrow> a \<noteq> neg_zero \<Longrightarrow> b \<noteq> neg_zero \<Longrightarrow> a = b"
  by (auto simp: f64_eq_def f64_magnitude_zero)

lemma f64_eq_zeros: "f64_eq 0 neg_zero"
  by (simp add: f64_eq_def is_nan_def f64_magnitude_def neg_zero_def)

end
