(* ===== verification/Runtime_Ops.thy ===== *)
theory Runtime_Ops
  imports Verify_Types Vm_Value "HOL-Library.Signed_Division"
begin

text \<open>
  The integer operations of \<open>crates/zz_runtime/src/runtime/ops.rs\<close>: binary operators on \<open>i64\<close>,
  index normalisation and slice bounds, with the integer semantics of the IR specification
  (\<open>docs/ir-spec-draft.md\<close>, section 3) as the abstract behaviour they refine. An \<open>i64\<close> is a 64-bit
  word read with \<open>sint\<close>.
\<close>

unbundle bit_operations_syntax

section \<open>Errors\<close>

text \<open>\<open>EvalError::new\<close>: backtrace and notes are empty there.\<close>

datatype eval_error = EvalError (ev_message: string) (ev_span: span)

definition unreachable :: "span \<Rightarrow> eval_error" where
  "unreachable sp = EvalError ''panic: short-circuited in eval'' sp"

section \<open>Operators\<close>

definition i64_min :: i64 where "i64_min = push_bit 63 1"

text \<open>Rust's truncating \<open>wrapping_div\<close>, \<open>wrapping_rem\<close> and \<open>wrapping_pow\<close>, and \<open>b as u32\<close>.\<close>

definition wrapping_div :: "i64 \<Rightarrow> i64 \<Rightarrow> i64" where
  "wrapping_div a b = word_of_int (sint a sdiv sint b)"

definition wrapping_rem :: "i64 \<Rightarrow> i64 \<Rightarrow> i64" where
  "wrapping_rem a b = word_of_int (sint a smod sint b)"

definition as_u32 :: "i64 \<Rightarrow> u32" where
  "as_u32 b = ucast b"

definition wrapping_pow :: "i64 \<Rightarrow> u32 \<Rightarrow> i64" where
  "wrapping_pow a n = a ^ unat n"

definition shift_count :: "i64 \<Rightarrow> nat" where
  "shift_count b = unat (b AND 63)"

definition eval_int_binary :: "binop \<Rightarrow> i64 \<Rightarrow> i64 \<Rightarrow> span \<Rightarrow> (eval_error, rt_value) result" where
  "eval_int_binary op a b sp = (case op of
       BAdd \<Rightarrow> Inr (VInt (a + b))
     | BSub \<Rightarrow> Inr (VInt (a - b))
     | BMul \<Rightarrow> Inr (VInt (a * b))
     | BDiv \<Rightarrow>
         if b = 0 then Inl (EvalError ''division by zero'' sp)
         else if a = i64_min \<and> b = - 1 then Inl (EvalError ''integer overflow in division'' sp)
         else Inr (VInt (wrapping_div a b))
     | BRem \<Rightarrow>
         if b = 0 then Inl (EvalError ''modulo by zero'' sp)
         else if a = i64_min \<and> b = - 1 then Inl (EvalError ''integer overflow in modulo'' sp)
         else Inr (VInt (wrapping_rem a b))
     | BPow \<Rightarrow>
         if sint b < 0 then Inl (EvalError ''negative exponent for integer power'' sp)
         else Inr (VInt (wrapping_pow a (as_u32 b)))
     | BBitAnd \<Rightarrow> Inr (VInt (a AND b))
     | BBitOr \<Rightarrow> Inr (VInt (a OR b))
     | BBitXor \<Rightarrow> Inr (VInt (a XOR b))
     | BShl \<Rightarrow>
         if sint b < 0 then
           Inl (EvalError (''negative shift count '' @ show_int (sint b) @ '' for `<<`'') sp)
         else Inr (VInt (push_bit (shift_count b) a))
     | BShr \<Rightarrow>
         if sint b < 0 then
           Inl (EvalError (''negative shift count '' @ show_int (sint b) @ '' for `>>`'') sp)
         else Inr (VInt (signed_drop_bit (shift_count b) a))
     | BEq \<Rightarrow> Inr (VBool (a = b))
     | BNe \<Rightarrow> Inr (VBool (a \<noteq> b))
     | BLt \<Rightarrow> Inr (VBool (sint a < sint b))
     | BGt \<Rightarrow> Inr (VBool (sint a > sint b))
     | BLe \<Rightarrow> Inr (VBool (sint a \<le> sint b))
     | BGe \<Rightarrow> Inr (VBool (sint a \<ge> sint b))
     | BAnd \<Rightarrow> Inl (unreachable sp)
     | BOr \<Rightarrow> Inl (unreachable sp)
     | BElvis \<Rightarrow> Inl (unreachable sp))"

section \<open>Indices and slices\<close>

text \<open>
  \<open>len as i64\<close> is exact, since no allocation is longer than \<open>i64::MAX\<close> bytes; the additions below
  cannot overflow then, so indices are integers.
\<close>

definition normalize_index :: "i64 \<Rightarrow> nat \<Rightarrow> span \<Rightarrow> (eval_error, nat) result" where
  "normalize_index i len sp =
     (let len_i = int len; idx = (if sint i < 0 then len_i + sint i else sint i) in
      if idx < 0 \<or> idx \<ge> len_i then
        Inl (EvalError (''index '' @ show_int (sint i) @ '' out of bounds for length '' @ show_nat len) sp)
      else Inr (nat idx))"

definition clamp :: "int \<Rightarrow> int \<Rightarrow> int \<Rightarrow> int" where
  "clamp v lo hi = (if v < lo then lo else if v > hi then hi else v)"

definition slice_bounds :: "i64 option \<Rightarrow> i64 option \<Rightarrow> nat \<Rightarrow> nat \<times> nat" where
  "slice_bounds start stop len =
     (let len_i = int len;
          norm = (\<lambda>i. clamp (if i < 0 then len_i + i else i) 0 len_i);
          a = norm (case start of Some i \<Rightarrow> sint i | None \<Rightarrow> 0);
          b = norm (case stop of Some i \<Rightarrow> sint i | None \<Rightarrow> len_i)
      in if a > b then (0, 0) else (nat a, nat b))"

section \<open>The specification\<close>

datatype trap = DivZero | Overflow | Bounds | Domain

datatype spec_value = SInt int | SBool bool | SOther

text \<open>Two's-complement wrap to 64 bits.\<close>

definition wrap64 :: "int \<Rightarrow> int" where
  "wrap64 z = signed_take_bit 63 z"

text \<open>Section 3 of the IR specification, on integers. \<open>&&\<close>, \<open>||\<close> and \<open>?:\<close> are not integer operators.\<close>

definition int_spec :: "binop \<Rightarrow> int \<Rightarrow> int \<Rightarrow> (trap, spec_value) result option" where
  "int_spec op a b = (case op of
       BAdd \<Rightarrow> Some (Inr (SInt (wrap64 (a + b))))
     | BSub \<Rightarrow> Some (Inr (SInt (wrap64 (a - b))))
     | BMul \<Rightarrow> Some (Inr (SInt (wrap64 (a * b))))
     | BDiv \<Rightarrow> Some (if b = 0 then Inl DivZero else if a = - (2 ^ 63) \<and> b = - 1 then Inl Overflow
                     else Inr (SInt (a sdiv b)))
     | BRem \<Rightarrow> Some (if b = 0 then Inl DivZero else if a = - (2 ^ 63) \<and> b = - 1 then Inl Overflow
                     else Inr (SInt (a smod b)))
     | BPow \<Rightarrow> Some (if b < 0 then Inl Domain else Inr (SInt (wrap64 (a ^ nat b))))
     | BBitAnd \<Rightarrow> Some (Inr (SInt (a AND b)))
     | BBitOr \<Rightarrow> Some (Inr (SInt (a OR b)))
     | BBitXor \<Rightarrow> Some (Inr (SInt (a XOR b)))
     | BShl \<Rightarrow> Some (if b < 0 then Inl Bounds else Inr (SInt (wrap64 (a * 2 ^ nat (b mod 64)))))
     | BShr \<Rightarrow> Some (if b < 0 then Inl Bounds else Inr (SInt (a div 2 ^ nat (b mod 64))))
     | BEq \<Rightarrow> Some (Inr (SBool (a = b)))
     | BNe \<Rightarrow> Some (Inr (SBool (a \<noteq> b)))
     | BLt \<Rightarrow> Some (Inr (SBool (a < b)))
     | BGt \<Rightarrow> Some (Inr (SBool (a > b)))
     | BLe \<Rightarrow> Some (Inr (SBool (a \<le> b)))
     | BGe \<Rightarrow> Some (Inr (SBool (a \<ge> b)))
     | _ \<Rightarrow> None)"

definition abs_value :: "rt_value \<Rightarrow> spec_value" where
  "abs_value v = (case v of VInt w \<Rightarrow> SInt (sint w) | VBool b \<Rightarrow> SBool b | _ \<Rightarrow> SOther)"

text \<open>The trap an operator raises, by its diagnosis.\<close>

definition abs_result :: "binop \<Rightarrow> (eval_error, rt_value) result \<Rightarrow> (trap, spec_value) result" where
  "abs_result op r = (case r of
       Inr v \<Rightarrow> Inr (abs_value v)
     | Inl e \<Rightarrow> Inl (if op = BPow then Domain
                     else if op \<in> {BShl, BShr} then Bounds
                     else if ev_message e \<in> {''division by zero'', ''modulo by zero''} then DivZero
                     else Overflow))"

section \<open>Refinement\<close>

lemma sint_of_int64: "sint (word_of_int z :: i64) = wrap64 z"
  by (simp add: sint_sbintrunc' wrap64_def)

lemma wrap64_id: "- (2 ^ 63) \<le> z \<Longrightarrow> z < 2 ^ 63 \<Longrightarrow> wrap64 z = z"
  by (simp add: wrap64_def signed_take_bit_int_eq_self)

lemma sint_range64: "- (2 ^ 63) \<le> sint (a :: i64)" "sint (a :: i64) < 2 ^ 63"
  using sint_ge [of a] sint_lt [of a] by simp_all

lemma sint_i64_min [simp]: "sint i64_min = - (2 ^ 63)"
  by (simp add: i64_min_def signed_push_bit_eq)

lemma sint_inject: "sint (a :: i64) = sint b \<longleftrightarrow> a = b"
proof
  assume "sint a = sint b"
  then have "(word_of_int (sint a) :: i64) = word_of_int (sint b)" by simp
  then show "a = b" by simp
qed simp

lemma eq_i64_min: "a = i64_min \<longleftrightarrow> sint a = - (2 ^ 63)"
  by (simp flip: sint_inject)

lemma eq_minus_one: "(b :: i64) = - 1 \<longleftrightarrow> sint b = - 1"
  by (simp flip: sint_inject)

lemma eq_zero: "(b :: i64) = 0 \<longleftrightarrow> sint b = 0"
  by (simp flip: sint_inject)

lemma shift_count_eq: "shift_count b = nat (sint b mod 64)"
proof -
  have "uint (b AND 63) = take_bit 6 (uint b)"
    by (simp add: unsigned_and_eq take_bit_eq_mask mask_eq_exp_minus_1)
  also have "\<dots> = take_bit 6 (sint b)"
    by (simp add: sint_uint take_bit_signed_take_bit)
  finally show ?thesis by (simp add: shift_count_def unat_eq_nat_uint take_bit_eq_mod)
qed

lemma sint_power: "sint (a ^ n :: i64) = wrap64 (sint a ^ n)"
proof -
  have "a ^ n = word_of_int (sint a ^ n)" by simp
  then show ?thesis using sint_of_int64 by metis
qed

lemma sint_wrapping_div:
  assumes "\<not> (sint a = - (2 ^ 63) \<and> sint b = - 1)"
  shows "sint (wrapping_div a b) = sint a sdiv sint b"
proof -
  have r: "- \<bar>sint a\<bar> \<le> sint a sdiv sint b" "sint a sdiv sint b \<le> \<bar>sint a\<bar>"
    using sdiv_int_range [of "sint a" "sint b"] by simp_all
  have "sint a sdiv sint b \<noteq> 2 ^ 63"
  proof
    assume q: "sint a sdiv sint b = 2 ^ 63"
    with r sint_range64 [of a] have a: "sint a = - (2 ^ 63)" by linarith
    then have "sint a \<noteq> 0" "sint a sdiv sint b = - sint a" using q by simp_all
    then have "sint b = - 1" using int_sdiv_negated_is_minus1 by blast
    with a assms show False by blast
  qed
  with r sint_range64 [of a] have "- (2 ^ 63) \<le> sint a sdiv sint b" "sint a sdiv sint b < 2 ^ 63"
    by linarith+
  then show ?thesis by (simp add: wrapping_div_def sint_of_int64 wrap64_id)
qed

lemma sint_wrapping_rem:
  assumes "sint b \<noteq> 0"
  shows "sint (wrapping_rem a b) = sint a smod sint b"
proof -
  have "- (2 ^ 63) \<le> sint a smod sint b" "sint a smod sint b < 2 ^ 63"
    using smod_int_range [OF assms, of "sint a"] sint_range64 [of b] by auto
  then show ?thesis by (simp add: wrapping_rem_def sint_of_int64 wrap64_id)
qed

lemma as_u32_exact: "0 \<le> sint b \<Longrightarrow> sint b < 2 ^ 32 \<Longrightarrow> unat (as_u32 b) = nat (sint b)"
proof -
  assume b: "0 \<le> sint b" "sint b < 2 ^ 32"
  have "uint (as_u32 b) = take_bit 32 (uint b)" by (simp add: as_u32_def unsigned_ucast_eq)
  also have "\<dots> = take_bit 32 (sint b)" by (simp add: sint_uint take_bit_signed_take_bit)
  also have "\<dots> = sint b" using b by (simp add: take_bit_int_eq_self)
  finally show ?thesis by (simp add: unat_eq_nat_uint)
qed

lemma sint_shl: "sint (push_bit n a :: i64) = wrap64 (sint a * 2 ^ n)"
proof -
  have "push_bit n a = (word_of_int (sint a * 2 ^ n) :: i64)"
    by (simp add: push_bit_eq_mult)
  then show ?thesis by (simp only: sint_of_int64)
qed

lemma sint_shr: "sint (signed_drop_bit n (a :: i64)) = sint a div 2 ^ n"
  by (simp add: sint_signed_drop_bit_eq drop_bit_eq_div)

lemma sint_arith:
  "sint (a + b :: i64) = wrap64 (sint a + sint b)" "sint (a - b :: i64) = wrap64 (sint a - sint b)"
  "sint (a * b :: i64) = wrap64 (sint a * sint b)" "sint (a AND b :: i64) = sint a AND sint b"
  "sint (a OR b :: i64) = sint a OR sint b" "sint (a XOR b :: i64) = sint a XOR sint b"
  by (simp_all add: wrap64_def sint_word_add sint_word_diff sint_word_mult
      signed_and_eq signed_or_eq signed_xor_eq)

lemma eval_int_binary_refines:
  assumes "int_spec op (sint a) (sint b) = Some r" "op = BPow \<Longrightarrow> sint b < 2 ^ 32"
  shows "abs_result op (eval_int_binary op a b sp) = r"
proof (cases op)
  case BDiv
  with assms(1) show ?thesis
    by (auto simp: int_spec_def eval_int_binary_def abs_result_def abs_value_def eq_zero eq_i64_min eq_minus_one
        sint_wrapping_div)
next
  case BRem
  with assms(1) show ?thesis
    by (auto simp: int_spec_def eval_int_binary_def abs_result_def abs_value_def eq_zero eq_i64_min eq_minus_one
        sint_wrapping_rem)
next
  case BPow
  with assms show ?thesis
    by (auto simp: int_spec_def eval_int_binary_def abs_result_def abs_value_def wrapping_pow_def sint_power
        as_u32_exact not_less)
qed (use assms(1) in \<open>auto simp: int_spec_def eval_int_binary_def abs_result_def abs_value_def sint_arith
      sint_shl sint_shr shift_count_eq sint_inject\<close>)

text \<open>The exponent is cast to 32 bits first, so a power of at least \<open>2 ^ 32\<close> loses its high bits.\<close>

lemma as_u32_of_int: "as_u32 (word_of_int z) = word_of_int z"
proof -
  have "uint (as_u32 (word_of_int z)) = uint (word_of_int z :: u32)"
    by (simp add: as_u32_def unsigned_ucast_eq unsigned_of_int)
  then show ?thesis by (simp only: word_uint_eq_iff)
qed

lemma as_u32_high: "as_u32 (word_of_int (2 ^ 32 + z)) = as_u32 (word_of_int z)"
proof -
  have "(word_of_int (2 ^ 32 + z) :: u32) = word_of_int (2 ^ 32) + word_of_int z" by (rule of_int_add)
  also have "(word_of_int (2 ^ 32) :: u32) = 0" by simp
  finally show ?thesis by (simp only: as_u32_of_int add_0)
qed

lemma pow_exponent_cast:
  assumes "0 \<le> n" "n < 2 ^ 32"
  shows "eval_int_binary BPow a (word_of_int (2 ^ 32 + n)) sp = eval_int_binary BPow a (word_of_int n) sp"
proof -
  have "\<not> sint (word_of_int (2 ^ 32 + n) :: i64) < 0" "\<not> sint (word_of_int n :: i64) < 0"
    using assms by (simp_all only: sint_of_int64) (simp_all add: wrap64_id)
  then show ?thesis
    unfolding eval_int_binary_def by (simp only: binop.case if_False as_u32_high)
qed

section \<open>Result types\<close>

definition value_type :: "rt_value \<Rightarrow> ir_type" where
  "value_type v = (case v of VInt _ \<Rightarrow> TInt | VBool _ \<Rightarrow> TBool | _ \<Rightarrow> TUnknown)"

lemma prim_int_bool:
  assumes "length (m_types m) \<le> 2 ^ 32"
  shows "prim_tv m (prims_int (prim_ids_of m)) \<in> {TvU, TvT TInt}"
    "prim_tv m (prims_bool (prim_ids_of m)) \<in> {TvU, TvT TBool}"
  using prim_ids_scan [of TInt m] prim_ids_scan [of TBool m] scan_prim_eq [OF assms, of TInt]
    scan_prim_eq [OF assms, of TBool] by (auto simp: prims_of_def)

lemma binop_tv_int_sound:
  assumes "eval_int_binary op a b sp = Inr v" "length (m_types m) \<le> 2 ^ 32"
  shows "binop_tv m (prim_ids_of m) op (TvT TInt) (TvT TInt) \<in> {TvU, TvT (value_type v)}"
  using assms(1) prim_int_bool [OF assms(2)]
  by (cases op) (auto simp: eval_int_binary_def binop_tv_def arith_tv_def order_tv_def bits_tv_def
      value_type_def split: if_splits)

section \<open>Indices and slices\<close>

lemma normalize_index_Ok:
  "normalize_index i len sp = Inr k \<longleftrightarrow>
     - int len \<le> sint i \<and> sint i < int len \<and> k < len \<and> int k = sint i mod int len"
proof (cases "len = 0")
  case False
  have neg: "(int len + sint i) mod int len = sint i mod int len" by simp
  show ?thesis
  proof (cases "sint i < 0")
    case True
    have "sint i mod int len = int len + sint i" if "- int len \<le> sint i"
      using that True neg mod_pos_pos_trivial [of "int len + sint i" "int len"] by simp
    with True False show ?thesis by (auto simp: normalize_index_def Let_def)
  next
    case nn: False
    have "sint i mod int len = sint i" if "sint i < int len"
      using that nn by (simp add: mod_pos_pos_trivial)
    with nn False show ?thesis by (auto simp: normalize_index_def Let_def)
  qed
qed (auto simp: normalize_index_def Let_def)

lemma clamp_range: "lo \<le> hi \<Longrightarrow> lo \<le> clamp v lo hi \<and> clamp v lo hi \<le> hi"
  by (simp add: clamp_def)

lemma slice_bounds_range:
  assumes "slice_bounds start stop len = (x, y)"
  shows "x \<le> y \<and> y \<le> len"
proof -
  have c: "0 \<le> clamp v 0 (int len) \<and> clamp v 0 (int len) \<le> int len" for v
    by (rule clamp_range) simp
  have "nat (clamp v 0 (int len)) \<le> len" for v using c [of v] by (simp add: nat_le_iff)
  then show ?thesis
    using assms c by (auto simp: slice_bounds_def Let_def nat_mono split: if_splits)
qed

end
