(* ===== verification/Dict_Data.thy ===== *)
theory Dict_Data
  imports Vm_Value
begin

text \<open>
  Equality of runtime values and the backing store of dictionaries (\<open>Value\<close>, \<open>DictData\<close> of
  \<open>crates/zz_runtime/src/value.rs\<close>). A dictionary is its pairs in insertion order; a large one also
  carries an index from hashable keys to positions. The contract of the store is the association
  list searched from the front; the index is shown to be a cache that never changes an answer.
\<close>

section \<open>Equality of values\<close>

text \<open>
  Functions, natives and servers compare by the address of the value itself, which a value does
  not show: \<open>same\<close> says whether two of them sit at one address.
\<close>

type_synonym addresses = "handle \<Rightarrow> nat \<Rightarrow> nat \<Rightarrow> bool"

definition by_address :: "handle \<Rightarrow> bool" where
  "by_address h \<longleftrightarrow> h = HFunc \<or> h = HNative \<or> h = HHttpServer"

primrec all2 :: "('a \<Rightarrow> bool) list \<Rightarrow> 'a list \<Rightarrow> bool" where
  "all2 [] ys = (ys = [])"
| "all2 (p # ps) ys = (case ys of [] \<Rightarrow> False | y # ys' \<Rightarrow> p y \<and> all2 ps ys')"

primrec value_eq :: "addresses \<Rightarrow> rt_value \<Rightarrow> rt_value \<Rightarrow> bool" where
  "value_eq same (VInt a) = (\<lambda>w. case w of VInt b \<Rightarrow> a = b | _ \<Rightarrow> False)"
| "value_eq same (VFloat a) = (\<lambda>w. case w of VFloat b \<Rightarrow> f64_eq a b | _ \<Rightarrow> False)"
| "value_eq same (VStr a) = (\<lambda>w. case w of VStr b \<Rightarrow> a = b | _ \<Rightarrow> False)"
| "value_eq same (VBool a) = (\<lambda>w. case w of VBool b \<Rightarrow> a = b | _ \<Rightarrow> False)"
| "value_eq same VUnit = (\<lambda>w. case w of VUnit \<Rightarrow> True | _ \<Rightarrow> False)"
| "value_eq same (VOption a) = (\<lambda>w. case w of
       VOption b \<Rightarrow> (case map_option (value_eq same) a of
           None \<Rightarrow> b = None
         | Some p \<Rightarrow> (case b of None \<Rightarrow> False | Some y \<Rightarrow> p y))
     | _ \<Rightarrow> False)"
| "value_eq same (VResult a) = (\<lambda>w. case w of
       VResult b \<Rightarrow> (case (map_sum (value_eq same) (value_eq same) a, b) of
           (Inl p, Inl y) \<Rightarrow> p y
         | (Inr p, Inr y) \<Rightarrow> p y
         | _ \<Rightarrow> False)
     | _ \<Rightarrow> False)"
| "value_eq same (VHandle h i) = (\<lambda>w. case w of
       VHandle g j \<Rightarrow> h = g \<and> (if by_address h then same h i j else i = j)
     | _ \<Rightarrow> False)"
| "value_eq same (VArray as) = (\<lambda>w. case w of VArray bs \<Rightarrow> all2 (map (value_eq same) as) bs | _ \<Rightarrow> False)"
| "value_eq same (VBytes a) = (\<lambda>w. case w of VBytes b \<Rightarrow> a = b | _ \<Rightarrow> False)"
| "value_eq same (VDict as) = (\<lambda>w. case w of
       VDict bs \<Rightarrow> all2 (map (\<lambda>(p, q) (x, y). p x \<and> q y) (map (map_prod (value_eq same) (value_eq same)) as)) bs
     | _ \<Rightarrow> False)"
| "value_eq same (VObject n as) = (\<lambda>w. case w of
       VObject m bs \<Rightarrow> n = m \<and> all2 (map (\<lambda>(f, p) (g, y). f = g \<and> p y) (map (map_prod (\<lambda>f. f) (value_eq same)) as)) bs
     | _ \<Rightarrow> False)"
| "value_eq same (VRange a b c) = (\<lambda>w. case w of VRange x y z \<Rightarrow> a = x \<and> b = y \<and> c = z | _ \<Rightarrow> False)"
| "value_eq same (VTuple as) = (\<lambda>w. case w of VTuple bs \<Rightarrow> all2 (map (value_eq same) as) bs | _ \<Rightarrow> False)"

section \<open>The store\<close>

definition DICT_INDEX_THRESHOLD :: nat where
  "DICT_INDEX_THRESHOLD = 8"

datatype dict_key = DkInt i64 | DkBool bool | DkStr rstring

fun dict_key_of :: "rt_value \<Rightarrow> dict_key option" where
  "dict_key_of (VInt i) = Some (DkInt i)"
| "dict_key_of (VBool b) = Some (DkBool b)"
| "dict_key_of (VStr s) = Some (DkStr s)"
| "dict_key_of _ = None"

record dict_data =
  dd_entries :: "(rt_value \<times> rt_value) list"
  dd_index :: "(dict_key \<rightharpoonup> nat) option"

definition dd_new :: dict_data where
  "dd_new = \<lparr>dd_entries = [], dd_index = None\<rparr>"

text \<open>\<open>rebuild_index\<close>: a key keeps the first position it is seen at.\<close>

primrec index_entries :: "nat \<Rightarrow> (rt_value \<times> rt_value) list \<Rightarrow> (dict_key \<rightharpoonup> nat) \<Rightarrow> (dict_key \<rightharpoonup> nat)" where
  "index_entries i [] index = index"
| "index_entries i (e # es) index = index_entries (Suc i) es (case dict_key_of (fst e) of
       None \<Rightarrow> index
     | Some dk \<Rightarrow> (case index dk of None \<Rightarrow> index(dk \<mapsto> i) | Some _ \<Rightarrow> index))"

definition rebuild_index :: "dict_data \<Rightarrow> dict_data" where
  "rebuild_index d = d\<lparr>dd_index := Some (index_entries 0 (dd_entries d) Map.empty)\<rparr>"

definition from_entries :: "(rt_value \<times> rt_value) list \<Rightarrow> dict_data" where
  "from_entries es =
     (let d = \<lparr>dd_entries = es, dd_index = None\<rparr> in
      if length es > DICT_INDEX_THRESHOLD then rebuild_index d else d)"

definition ensure_index :: "dict_data \<Rightarrow> dict_data" where
  "ensure_index d =
     (if dd_index d = None \<and> length (dd_entries d) > DICT_INDEX_THRESHOLD then rebuild_index d else d)"

text \<open>Indexing past the end panics; it is the outcome \<open>None\<close> of \<open>dd_get\<close>.\<close>

definition dd_get :: "addresses \<Rightarrow> dict_data \<Rightarrow> rt_value \<Rightarrow> rt_value option option" where
  "dd_get same d key = (case (dd_index d, dict_key_of key) of
       (Some index, Some dk) \<Rightarrow> (case index dk of
           None \<Rightarrow> Some None
         | Some i \<Rightarrow> map_option (\<lambda>e. Some (snd e)) (vec_get (dd_entries d) i))
     | _ \<Rightarrow> Some (map_option snd (find (\<lambda>(k, _). value_eq same k key) (dd_entries d))))"

text \<open>The first pair with the key takes the value.\<close>

primrec put_first :: "(rt_value \<Rightarrow> bool) \<Rightarrow> rt_value \<Rightarrow> (rt_value \<times> rt_value) list \<Rightarrow> (rt_value \<times> rt_value) list option" where
  "put_first p v [] = None"
| "put_first p v (e # es) = (if p (fst e) then Some ((fst e, v) # es) else map_option ((#) e) (put_first p v es))"

definition dd_scan_insert :: "addresses \<Rightarrow> rt_value \<Rightarrow> rt_value \<Rightarrow> dict_data \<Rightarrow> dict_data" where
  "dd_scan_insert same key v d = (case put_first (\<lambda>k. value_eq same k key) v (dd_entries d) of
       Some es \<Rightarrow> d\<lparr>dd_entries := es\<rparr>
     | None \<Rightarrow> ensure_index (d\<lparr>dd_entries := dd_entries d @ [(key, v)]\<rparr>))"

definition dd_insert :: "addresses \<Rightarrow> rt_value \<Rightarrow> rt_value \<Rightarrow> dict_data \<Rightarrow> dict_data option" where
  "dd_insert same key v d = (case (dict_key_of key, dd_index d) of
       (Some dk, Some index) \<Rightarrow> (case index dk of
           Some i \<Rightarrow> map_option (\<lambda>e. d\<lparr>dd_entries := (dd_entries d)[i := (fst e, v)]\<rparr>) (vec_get (dd_entries d) i)
         | None \<Rightarrow> Some \<lparr>dd_entries = dd_entries d @ [(key, v)], dd_index = Some (index(dk \<mapsto> length (dd_entries d)))\<rparr>)
     | _ \<Rightarrow> Some (dd_scan_insert same key v d))"

definition dd_retain :: "(rt_value \<times> rt_value \<Rightarrow> bool) \<Rightarrow> dict_data \<Rightarrow> dict_data" where
  "dd_retain pred d =
     (let d' = d\<lparr>dd_entries := filter pred (dd_entries d)\<rparr> in
      if dd_index d' = None then d'
      else if length (dd_entries d') > DICT_INDEX_THRESHOLD then rebuild_index d'
      else d'\<lparr>dd_index := None\<rparr>)"

section \<open>The contract\<close>

text \<open>The association list, searched from the front.\<close>

definition assoc_get :: "addresses \<Rightarrow> (rt_value \<times> rt_value) list \<Rightarrow> rt_value \<Rightarrow> rt_value option" where
  "assoc_get same es key = map_option snd (find (\<lambda>(k, _). value_eq same k key) es)"

definition assoc_put :: "addresses \<Rightarrow> rt_value \<Rightarrow> rt_value \<Rightarrow> (rt_value \<times> rt_value) list \<Rightarrow> (rt_value \<times> rt_value) list" where
  "assoc_put same key v es = (case put_first (\<lambda>k. value_eq same k key) v es of Some es' \<Rightarrow> es' | None \<Rightarrow> es @ [(key, v)])"

text \<open>Invariant: an index is present or not, and if so gives every hashable key its first position.\<close>

definition first_at :: "(rt_value \<times> rt_value) list \<Rightarrow> dict_key \<Rightarrow> nat option" where
  "first_at es dk = position (\<lambda>e. dict_key_of (fst e) = Some dk) es"

definition dict_ok :: "dict_data \<Rightarrow> bool" where
  "dict_ok d \<longleftrightarrow> (\<forall>index. dd_index d = Some index \<longrightarrow> index = first_at (dd_entries d))"

lemma hashable_eq: "dict_key_of key = Some dk \<Longrightarrow> value_eq same k key \<longleftrightarrow> dict_key_of k = Some dk"
  by (cases key; cases k) (auto split: option.splits sum.splits prod.splits)

section \<open>The index is the first position\<close>

lemma position_append: "position p (xs @ ys) = (case position p xs of
    Some i \<Rightarrow> Some i | None \<Rightarrow> map_option (\<lambda>i. i + length xs) (position p ys))"
  by (induction xs) (auto simp: option.map_comp comp_def option.map_ident split: option.split)

lemma index_entries_first:
  "index_entries i es index dk = (case index dk of Some j \<Rightarrow> Some j | None \<Rightarrow> map_option (\<lambda>j. j + i) (first_at es dk))"
  by (induction es arbitrary: i index)
    (auto simp: first_at_def option.map_comp comp_def split: option.splits)

lemma rebuild_index_ok: "dict_ok (rebuild_index d)"
  by (auto simp: dict_ok_def rebuild_index_def index_entries_first option.map_ident)

lemma dd_new_ok: "dict_ok dd_new"
  by (simp add: dict_ok_def dd_new_def)

lemma from_entries_ok: "dict_ok (from_entries es)"
  using rebuild_index_ok by (auto simp: from_entries_def dict_ok_def Let_def)

lemma dd_retain_ok: "dict_ok (dd_retain pred d)"
  using rebuild_index_ok by (auto simp: dd_retain_def Let_def dict_ok_def)

lemma ensure_index_ok: "dict_ok d \<Longrightarrow> dict_ok (ensure_index d)"
  using rebuild_index_ok by (simp add: ensure_index_def)

lemma ensure_index_entries [simp]: "dd_entries (ensure_index d) = dd_entries d"
  by (simp add: ensure_index_def rebuild_index_def)

lemma put_first_keys: "put_first p v es = Some es' \<Longrightarrow> map fst es' = map fst es"
  by (induction es arbitrary: es') (auto split: if_splits)

lemma first_at_keys: "map fst es' = map fst es \<Longrightarrow> first_at es' = first_at es"
proof -
  have "position (\<lambda>e. dict_key_of (fst e) = Some dk) xs = position (\<lambda>k. dict_key_of k = Some dk) (map fst xs)" for dk and xs :: "(rt_value \<times> rt_value) list"
    by (induction xs) auto
  then show "map fst es' = map fst es \<Longrightarrow> first_at es' = first_at es" by (simp add: first_at_def fun_eq_iff)
qed

lemma put_first_position:
  "put_first (\<lambda>k. dict_key_of k = Some dk) v es =
     map_option (\<lambda>i. es[i := (fst (es ! i), v)]) (first_at es dk)"
  by (induction es) (auto simp: first_at_def option.map_comp comp_def)

lemma find_position: "find P xs = map_option ((!) xs) (position P xs)"
  by (induction xs) (auto simp: option.map_comp comp_def)

section \<open>Refinement\<close>

lemma first_at_range: "first_at es dk = Some i \<Longrightarrow> i < length es"
  using position_SomeD by (fastforce simp: first_at_def)

lemma dd_get_refines: "dict_ok d \<Longrightarrow> dd_get same d key = Some (assoc_get same (dd_entries d) key)"
proof (cases "dict_key_of key")
  case (Some dk)
  assume ok: "dict_ok d"
  have "assoc_get same (dd_entries d) key = map_option (\<lambda>i. snd (dd_entries d ! i)) (first_at (dd_entries d) dk)"
    by (simp add: assoc_get_def find_position first_at_def hashable_eq [OF Some] case_prod_unfold option.map_comp comp_def)
  with ok Some show ?thesis
    by (cases "dd_index d"; cases "first_at (dd_entries d) dk")
      (simp_all add: dd_get_def dict_ok_def vec_get_def first_at_range, simp_all add: assoc_get_def)
qed (simp add: dd_get_def assoc_get_def split: option.split)

lemma scan_insert_ok: "dict_ok d \<Longrightarrow> dd_index d = None \<or> dict_key_of key = None \<Longrightarrow> dict_ok (dd_scan_insert same key v d)"
proof (cases "put_first (\<lambda>k. value_eq same k key) v (dd_entries d)")
  case None
  assume d: "dict_ok d" "dd_index d = None \<or> dict_key_of key = None"
  have "dict_ok (d\<lparr>dd_entries := dd_entries d @ [(key, v)]\<rparr>)"
    using d by (auto simp: dict_ok_def first_at_def position_append fun_eq_iff split: option.split)
  with None show ?thesis by (simp add: dd_scan_insert_def ensure_index_ok)
next
  case (Some es)
  then show "dict_ok d \<Longrightarrow> ?thesis" using first_at_keys [OF put_first_keys [OF Some]] by (simp add: dd_scan_insert_def dict_ok_def)
qed

lemma scan_insert_entries: "dd_entries (dd_scan_insert same key v d) = assoc_put same key v (dd_entries d)"
  by (simp add: dd_scan_insert_def assoc_put_def split: option.split)

lemma indexed_insert:
  assumes "dict_ok d" "dict_key_of key = Some dk" "dd_index d = Some index"
  shows "\<exists>d'. dd_insert same key v d = Some d' \<and> dict_ok d' \<and> dd_entries d' = assoc_put same key v (dd_entries d)"
proof -
  from assms have index: "index = first_at (dd_entries d)" by (simp add: dict_ok_def)
  have put: "assoc_put same key v (dd_entries d) = (case first_at (dd_entries d) dk of
      Some i \<Rightarrow> (dd_entries d)[i := (fst (dd_entries d ! i), v)] | None \<Rightarrow> dd_entries d @ [(key, v)])"
    by (simp add: assoc_put_def hashable_eq [OF assms(2)] put_first_position split: option.split)
  show ?thesis
  proof (cases "first_at (dd_entries d) dk")
    case None
    then have "first_at (dd_entries d @ [(key, v)]) = (first_at (dd_entries d))(dk \<mapsto> length (dd_entries d))"
      using assms(2) by (auto simp: first_at_def position_append fun_eq_iff split: option.split)
    with None assms index put show ?thesis by (simp add: dd_insert_def dict_ok_def)
  next
    case (Some i)
    then have i: "i < length (dd_entries d)" by (rule first_at_range)
    then have "map fst ((dd_entries d)[i := (fst (dd_entries d ! i), v)]) = map fst (dd_entries d)"
      by (simp add: map_update list_update_id [of "map fst (dd_entries d)" i, simplified nth_map [OF i]])
    from first_at_keys [OF this] Some i assms index put show ?thesis by (simp add: dd_insert_def dict_ok_def vec_get_def)
  qed
qed

lemma dd_insert_refines:
  assumes "dict_ok d"
  shows "\<exists>d'. dd_insert same key v d = Some d' \<and> dict_ok d' \<and> dd_entries d' = assoc_put same key v (dd_entries d)"
proof (cases "dict_key_of key = None \<or> dd_index d = None")
  case True
  then have "dd_insert same key v d = Some (dd_scan_insert same key v d)" by (auto simp: dd_insert_def split: option.split)
  with True show ?thesis using scan_insert_ok [OF assms] scan_insert_entries by auto
next
  case False
  with indexed_insert [OF assms] show ?thesis by auto
qed

section \<open>Reading what was written\<close>

text \<open>A store whose writes are found again, whatever it does inside; \<open>key\<close> identifies the keys it hashes.\<close>

primrec insert_all :: "('k \<Rightarrow> 'v \<Rightarrow> 's \<Rightarrow> 's option) \<Rightarrow> ('k \<times> 'v) list \<Rightarrow> 's \<Rightarrow> 's option" where
  "insert_all put [] s = Some s"
| "insert_all put (kv # kvs) s = Option.bind (put (fst kv) (snd kv) s) (insert_all put kvs)"

locale keyed_store =
  fixes ok :: "'s \<Rightarrow> bool" and empty :: 's and put :: "'k \<Rightarrow> 'v \<Rightarrow> 's \<Rightarrow> 's option"
    and get :: "'s \<Rightarrow> 'k \<Rightarrow> 'v option option" and key :: "'k \<Rightarrow> 'd option"
  assumes ok_empty: "ok empty" and get_empty: "get empty k = Some None"
    and put_ok: "ok s \<Longrightarrow> \<exists>s'. put k v s = Some s' \<and> ok s'"
    and get_put: "ok s \<Longrightarrow> put k v s = Some s' \<Longrightarrow> key k = Some d \<Longrightarrow> key j = Some e \<Longrightarrow>
      get s' j = (if d = e then Some (Some v) else get s j)"
begin

lemma put_all_get:
  assumes "ok s" "\<forall>kv \<in> set kvs. key (fst kv) \<noteq> None" "key j = Some e"
  shows "\<exists>s'. insert_all put kvs s = Some s' \<and> ok s' \<and>
    get s' j = (case map_of (rev (map (\<lambda>kv. (the (key (fst kv)), snd kv)) kvs)) e of
      Some v \<Rightarrow> Some (Some v) | None \<Rightarrow> get s j)"
  using assms
proof (induction kvs arbitrary: s)
  case (Cons kv kvs)
  from put_ok [OF Cons.prems(1)] obtain s1 where s1: "put (fst kv) (snd kv) s = Some s1" "ok s1" by blast
  from Cons.prems(2) obtain d where d: "key (fst kv) = Some d" by auto
  from Cons.IH [OF s1(2)] Cons.prems(2,3) get_put [OF Cons.prems(1) s1(1) d Cons.prems(3)] d s1(1) show ?case
    by (auto simp: map_add_def split: option.splits)
qed simp

lemma put_all_empty:
  assumes "\<forall>kv \<in> set kvs. key (fst kv) \<noteq> None" "key j = Some e"
  shows "\<exists>s. insert_all put kvs empty = Some s \<and> ok s \<and>
    get s j = Some (map_of (rev (map (\<lambda>kv. (the (key (fst kv)), snd kv)) kvs)) e)"
  using put_all_get [OF ok_empty assms] get_empty by (auto split: option.splits)

end

lemma find_put_first:
  assumes "put_first p v es = Some es'"
  shows "find (\<lambda>(k, _). p k) es' = map_option (\<lambda>e. (fst e, v)) (find (\<lambda>(k, _). p k) es)"
    "(\<And>k. p k \<Longrightarrow> \<not> q k) \<Longrightarrow> map_option snd (find (\<lambda>(k, _). q k) es') = map_option snd (find (\<lambda>(k, _). q k) es)"
    "find (\<lambda>(k, _). p k) es \<noteq> None"
  using assms by (induction es arbitrary: es') (auto split: if_splits)

lemma find_put_none: "put_first p v es = None \<Longrightarrow> find (\<lambda>(k, _). p k) es = None"
  by (induction es) (auto split: if_splits)

lemma find_append: "find p (xs @ ys) = (case find p xs of None \<Rightarrow> find p ys | Some x \<Rightarrow> Some x)"
  by (induction xs) auto

lemma assoc_get_put:
  assumes "dict_key_of k = Some d" "dict_key_of j = Some e"
  shows "assoc_get same (assoc_put same k v es) j = (if d = e then Some v else assoc_get same es j)"
proof (cases "put_first (\<lambda>i. dict_key_of i = Some d) v es")
  case None
  from find_put_none [OF this] None show ?thesis
    by (auto simp: assoc_get_def assoc_put_def hashable_eq [OF assms(1)] hashable_eq [OF assms(2)] find_append assms(1) split: option.split)
next
  case (Some es')
  from find_put_first(1,3) [OF Some] find_put_first(2) [OF Some, of "\<lambda>i. dict_key_of i = Some e"] Some show ?thesis
    by (auto simp: assoc_get_def assoc_put_def hashable_eq [OF assms(1)] hashable_eq [OF assms(2)])
qed

interpretation dict: keyed_store dict_ok dd_new "dd_insert same" "dd_get same" dict_key_of
proof
  show "dict_ok dd_new" by (rule dd_new_ok)
  show "dd_get same dd_new k = Some None" for k
    using dd_get_refines [OF dd_new_ok, of same k] by (simp add: dd_new_def assoc_get_def)
  show "\<exists>s'. dd_insert same k v s = Some s' \<and> dict_ok s'" if "dict_ok s" for s k v
    using dd_insert_refines [OF that] by blast
  show "dd_get same s' j = (if d = e then Some (Some v) else dd_get same s j)"
    if "dict_ok s" "dd_insert same k v s = Some s'" "dict_key_of k = Some d" "dict_key_of j = Some e" for s k v s' d j e
  proof -
    from dd_insert_refines [OF that(1), of same k v] that(2) have "dict_ok s'" "dd_entries s' = assoc_put same k v (dd_entries s)" by auto
    with that show ?thesis by (simp add: dd_get_refines assoc_get_put)
  qed
qed

end
