(* ===== verification/Value_Ops.thy ===== *)
theory Value_Ops
  imports Runtime_Ops Dict_Data
begin

text \<open>
  The operations on runtime values that both interpreters share
  (\<open>crates/zz_runtime/src/runtime/ops.rs\<close>): binary and unary operators on every type, indexing, slicing
  and fields. A function that writes through \<open>&mut Value\<close> returns the written value.

  What lies outside the repository or outside a value is an argument, the record \<open>host\<close>: the rounding
  arithmetic of \<open>f64\<close>, the addresses of values, the text \<open>Display\<close> prints for a value, and the fields of
  an HTTP request, which a value here names by its identity.
\<close>

record host =
  f_add :: "f64 \<Rightarrow> f64 \<Rightarrow> f64"
  f_sub :: "f64 \<Rightarrow> f64 \<Rightarrow> f64"
  f_mul :: "f64 \<Rightarrow> f64 \<Rightarrow> f64"
  f_div :: "f64 \<Rightarrow> f64 \<Rightarrow> f64"
  f_rem :: "f64 \<Rightarrow> f64 \<Rightarrow> f64"
  f_pow :: "f64 \<Rightarrow> f64 \<Rightarrow> f64"
  f_of_int :: "i64 \<Rightarrow> f64"
  h_same :: addresses
  h_show :: "rt_value \<Rightarrow> string"
  h_request :: "nat \<Rightarrow> rstring \<Rightarrow> rt_value option"

section \<open>Strings\<close>

definition str_text :: "rstring \<Rightarrow> string" where
  "str_text s = map (\<lambda>b. char_of (unat b)) s"

definition is_ascii :: "rstring \<Rightarrow> bool" where
  "is_ascii s = list_all (\<lambda>b. b < 128) s"

text \<open>\<open>chars()\<close>, each character as its bytes: a character starts at every byte that does not continue one.\<close>

fun str_chars :: "rstring \<Rightarrow> rstring list" where
  "str_chars [] = []"
| "str_chars (b # bs) = (case str_chars bs of
       [] \<Rightarrow> [[b]]
     | c # cs \<Rightarrow> if 128 \<le> hd c \<and> hd c < 192 then (b # c) # cs else [b] # c # cs)"

definition str_less :: "rstring \<Rightarrow> rstring \<Rightarrow> bool" where
  "str_less a b \<longleftrightarrow> (a, b) \<in> lexord {(x, y). x < y}"

definition str_le :: "rstring \<Rightarrow> rstring \<Rightarrow> bool" where
  "str_le a b \<longleftrightarrow> a = b \<or> str_less a b"

section \<open>Floats\<close>

definition f64_value :: "f64 \<Rightarrow> int" where
  "f64_value x = (if bit x 63 then - int (f64_magnitude x) else int (f64_magnitude x))"

definition f64_less :: "f64 \<Rightarrow> f64 \<Rightarrow> bool" where
  "f64_less a b \<longleftrightarrow> \<not> is_nan a \<and> \<not> is_nan b \<and> f64_value a < f64_value b"

definition f64_le :: "f64 \<Rightarrow> f64 \<Rightarrow> bool" where
  "f64_le a b \<longleftrightarrow> \<not> is_nan a \<and> \<not> is_nan b \<and> f64_value a \<le> f64_value b"

definition f64_neg :: "f64 \<Rightarrow> f64" where
  "f64_neg x = x XOR neg_zero"

fun to_float :: "host \<Rightarrow> rt_value \<Rightarrow> f64 option" where
  "to_float H (VInt i) = Some (f_of_int H i)"
| "to_float H (VFloat f) = Some f"
| "to_float H _ = None"

section \<open>Operators\<close>

definition op_symbol :: "binop \<Rightarrow> string" where
  "op_symbol op = (case op of
       BAdd \<Rightarrow> ''+'' | BSub \<Rightarrow> ''-'' | BMul \<Rightarrow> ''*'' | BDiv \<Rightarrow> ''/'' | BRem \<Rightarrow> ''%'' | BPow \<Rightarrow> ''**''
     | BEq \<Rightarrow> ''=='' | BNe \<Rightarrow> ''!='' | BLt \<Rightarrow> ''<'' | BGt \<Rightarrow> ''>'' | BLe \<Rightarrow> ''<='' | BGe \<Rightarrow> ''>=''
     | BAnd \<Rightarrow> ''&&'' | BOr \<Rightarrow> ''||'' | BElvis \<Rightarrow> ''??''
     | BBitAnd \<Rightarrow> ''&'' | BBitOr \<Rightarrow> ''|'' | BBitXor \<Rightarrow> ''^'' | BShl \<Rightarrow> ''<<'' | BShr \<Rightarrow> ''>>'')"

definition type_name :: "rt_value \<Rightarrow> string" where
  "type_name v = (case v of
       VInt _ \<Rightarrow> ''int'' | VFloat _ \<Rightarrow> ''float'' | VStr _ \<Rightarrow> ''str'' | VBool _ \<Rightarrow> ''bool'' | VUnit \<Rightarrow> ''unit''
     | VOption _ \<Rightarrow> ''option'' | VResult _ \<Rightarrow> ''result'' | VArray _ \<Rightarrow> ''array'' | VBytes _ \<Rightarrow> ''bytes''
     | VDict _ \<Rightarrow> ''dict'' | VObject n _ \<Rightarrow> str_text n | VRange _ _ _ \<Rightarrow> ''range'' | VTuple _ \<Rightarrow> ''tuple''
     | VHandle h _ \<Rightarrow> (case h of
           HFunc \<Rightarrow> ''func'' | HNative \<Rightarrow> ''native'' | HJson \<Rightarrow> ''json'' | HHttpServer \<Rightarrow> ''http.server''
         | HTcpStream \<Rightarrow> ''tcp.stream'' | HTcpListener \<Rightarrow> ''tcp.listener'' | HDb \<Rightarrow> ''db'' | HOpaque t \<Rightarrow> t
         | HResponse \<Rightarrow> ''http.response'' | HHttpRequest \<Rightarrow> ''http.request'' | HChan \<Rightarrow> ''chan''
         | HTaskJoin \<Rightarrow> ''task.join''))"

definition unsupported :: "binop \<Rightarrow> string \<Rightarrow> span \<Rightarrow> eval_error" where
  "unsupported op what sp = EvalError (''operator `'' @ op_symbol op @ ''` is not supported for '' @ what) sp"

definition non_numeric :: "span \<Rightarrow> eval_error" where
  "non_numeric sp = EvalError ''arithmetic on non-numeric value'' sp"

text \<open>The arithmetic and order on floats; \<open>other\<close> is the error for the remaining operators.\<close>

definition eval_float_binary :: "host \<Rightarrow> eval_error \<Rightarrow> binop \<Rightarrow> f64 \<Rightarrow> f64 \<Rightarrow> (eval_error, rt_value) result" where
  "eval_float_binary H other op a b = (case op of
       BAdd \<Rightarrow> Ok (VFloat (f_add H a b))
     | BSub \<Rightarrow> Ok (VFloat (f_sub H a b))
     | BMul \<Rightarrow> Ok (VFloat (f_mul H a b))
     | BDiv \<Rightarrow> Ok (VFloat (f_div H a b))
     | BRem \<Rightarrow> Ok (VFloat (f_rem H a b))
     | BPow \<Rightarrow> Ok (VFloat (f_pow H a b))
     | BLt \<Rightarrow> Ok (VBool (f64_less a b))
     | BGt \<Rightarrow> Ok (VBool (f64_less b a))
     | BLe \<Rightarrow> Ok (VBool (f64_le a b))
     | BGe \<Rightarrow> Ok (VBool (f64_le b a))
     | _ \<Rightarrow> Err other)"

definition eval_str_binary :: "binop \<Rightarrow> rstring \<Rightarrow> rstring \<Rightarrow> span \<Rightarrow> (eval_error, rt_value) result" where
  "eval_str_binary op a b sp = (case op of
       BAdd \<Rightarrow> Ok (VStr (a @ b))
     | BLt \<Rightarrow> Ok (VBool (str_less a b))
     | BGt \<Rightarrow> Ok (VBool (str_less b a))
     | BLe \<Rightarrow> Ok (VBool (str_le a b))
     | BGe \<Rightarrow> Ok (VBool (str_le b a))
     | _ \<Rightarrow> Err (unsupported op ''strings'' sp))"

definition eval_equal :: "host \<Rightarrow> rt_value \<Rightarrow> rt_value \<Rightarrow> bool" where
  "eval_equal H l r = (case (l, r) of
       (VInt a, VInt b) \<Rightarrow> a = b
     | _ \<Rightarrow> (case (to_float H l, to_float H r) of
           (Some a, Some b) \<Rightarrow> f64_eq a b
         | _ \<Rightarrow> value_eq (h_same H) l r))"

definition eval_mixed_binary :: "host \<Rightarrow> binop \<Rightarrow> rt_value \<Rightarrow> rt_value \<Rightarrow> span \<Rightarrow> (eval_error, rt_value) result" where
  "eval_mixed_binary H op l r sp = (case (to_float H l, to_float H r) of
       (Some a, Some b) \<Rightarrow> eval_float_binary H (non_numeric sp) op a b
     | _ \<Rightarrow> Err (if op \<in> {BLt, BGt, BLe, BGe} then unsupported op (type_name l @ '' and '' @ type_name r) sp
           else non_numeric sp))"

definition eval_binary :: "host \<Rightarrow> binop \<Rightarrow> rt_value \<Rightarrow> rt_value \<Rightarrow> span \<Rightarrow> (eval_error, rt_value) result" where
  "eval_binary H op l r sp =
     (if op = BEq then Ok (VBool (eval_equal H l r))
      else if op = BNe then Ok (VBool (\<not> eval_equal H l r))
      else (case (l, r) of
          (VInt a, VInt b) \<Rightarrow> eval_int_binary op a b sp
        | (VFloat a, VFloat b) \<Rightarrow> eval_float_binary H (unsupported op ''floats'' sp) op a b
        | (VStr a, VStr b) \<Rightarrow> eval_str_binary op a b sp
        | (VArray a, VArray b) \<Rightarrow>
            if op = BAdd then Ok (VArray (a @ b)) else Err (unsupported op ''arrays'' sp)
        | _ \<Rightarrow> eval_mixed_binary H op l r sp))"

definition eval_unary :: "host \<Rightarrow> unop \<Rightarrow> rt_value \<Rightarrow> span \<Rightarrow> (eval_error, rt_value) result" where
  "eval_unary H op v sp = (case op of
       UPos \<Rightarrow> Ok v
     | UNeg \<Rightarrow> (case v of
           VInt i \<Rightarrow> Ok (VInt (- i))
         | VFloat f \<Rightarrow> Ok (VFloat (f64_neg f))
         | _ \<Rightarrow> Err (EvalError (''cannot negate `'' @ h_show H v @ ''`'') sp))
     | UNot \<Rightarrow> (case v of
           VBool b \<Rightarrow> Ok (VBool (\<not> b))
         | _ \<Rightarrow> Err (EvalError (''cannot apply `!` to `'' @ h_show H v @ ''`'') sp))
     | UBitNot \<Rightarrow> (case v of
           VInt i \<Rightarrow> Ok (VInt (NOT i))
         | _ \<Rightarrow> Err (EvalError (''cannot apply `~` to `'' @ h_show H v @ ''`: bitwise NOT requires `int`'') sp)))"

section \<open>Indexing and slicing\<close>

definition index_list :: "('a \<Rightarrow> rt_value) \<Rightarrow> 'a list \<Rightarrow> i64 \<Rightarrow> span \<Rightarrow> (eval_error, rt_value) result" where
  "index_list f xs i sp = res_bind (normalize_index i (length xs) sp) (\<lambda>ix. Ok (f (xs ! ix)))"

definition get_index :: "host \<Rightarrow> rt_value \<Rightarrow> rt_value \<Rightarrow> span \<Rightarrow> (eval_error, rt_value) result" where
  "get_index H obj index sp =
     (let other = Err (EvalError (''cannot index a value of type `'' @ type_name obj @ ''`'') sp) in
      case obj of
        VArray items \<Rightarrow> (case index of VInt i \<Rightarrow> index_list (\<lambda>v. v) items i sp | _ \<Rightarrow> other)
      | VTuple items \<Rightarrow> (case index of VInt i \<Rightarrow> index_list (\<lambda>v. v) items i sp | _ \<Rightarrow> other)
      | VBytes b \<Rightarrow> (case index of VInt i \<Rightarrow> index_list (\<lambda>x. VInt (ucast x)) b i sp | _ \<Rightarrow> other)
      | VDict d \<Rightarrow> (case assoc_get (h_same H) d index of
            Some v \<Rightarrow> Ok v
          | None \<Rightarrow> Err (EvalError (''key `'' @ h_show H index @ ''` not found in dict'') sp))
      | VStr s \<Rightarrow> (case index of
            VInt i \<Rightarrow> if is_ascii s then index_list (\<lambda>b. VStr [b]) s i sp else index_list VStr (str_chars s) i sp
          | _ \<Rightarrow> other)
      | _ \<Rightarrow> other)"

definition set_index :: "host \<Rightarrow> rt_value \<Rightarrow> rt_value \<Rightarrow> rt_value \<Rightarrow> span \<Rightarrow> (eval_error, rt_value) result" where
  "set_index H obj index v sp =
     (let other = Err (EvalError (''cannot assign to an index of a value of type `'' @ type_name obj @ ''`'') sp) in
      case obj of
        VArray items \<Rightarrow> (case index of
            VInt i \<Rightarrow> res_bind (normalize_index i (length items) sp) (\<lambda>ix. Ok (VArray (items[ix := v])))
          | _ \<Rightarrow> other)
      | VTuple items \<Rightarrow> (case index of
            VInt i \<Rightarrow> res_bind (normalize_index i (length items) sp) (\<lambda>ix. Ok (VTuple (items[ix := v])))
          | _ \<Rightarrow> other)
      | VDict d \<Rightarrow> Ok (VDict (assoc_put (h_same H) index v d))
      | VStr _ \<Rightarrow> Err (EvalError ''cannot assign to an index of a string'' sp)
      | _ \<Rightarrow> other)"

definition slice_list :: "'a list \<Rightarrow> i64 option \<Rightarrow> i64 option \<Rightarrow> 'a list" where
  "slice_list xs start stop = (let (a, b) = slice_bounds start stop (length xs) in take (b - a) (drop a xs))"

definition slice_value :: "rt_value \<Rightarrow> i64 option \<Rightarrow> i64 option \<Rightarrow> span \<Rightarrow> (eval_error, rt_value) result" where
  "slice_value obj start stop sp = (case obj of
       VArray items \<Rightarrow> Ok (VArray (slice_list items start stop))
     | VBytes b \<Rightarrow> Ok (VBytes (slice_list b start stop))
     | VStr s \<Rightarrow> if is_ascii s then Ok (VStr (slice_list s start stop))
         else Ok (VStr (concat (slice_list (str_chars s) start stop)))
     | _ \<Rightarrow> Err (EvalError (''cannot slice a value of type `'' @ type_name obj @ ''`'') sp))"

section \<open>Fields\<close>

definition MAX_EMBED_DEPTH :: nat where
  "MAX_EMBED_DEPTH = 32"

definition last_segment :: "rstring \<Rightarrow> rstring" where
  "last_segment n = rev (takeWhile (\<lambda>b. b \<noteq> 46) (rev n))"

fun is_embedded_value :: "rstring \<Rightarrow> rt_value \<Rightarrow> bool" where
  "is_embedded_value fname (VObject n _) = (last_segment n = fname)"
| "is_embedded_value fname _ = False"

primrec first_some :: "('a \<Rightarrow> 'b option) \<Rightarrow> 'a list \<Rightarrow> 'b option" where
  "first_some f [] = None"
| "first_some f (x # xs) = (case f x of Some y \<Rightarrow> Some y | None \<Rightarrow> first_some f xs)"

text \<open>The search through embedded structs; the number counts the levels that are left.\<close>

primrec object_field_depth_opt :: "nat \<Rightarrow> host \<Rightarrow> rstring \<Rightarrow> rt_value \<Rightarrow> rt_value option" where
  "object_field_depth_opt 0 H name obj = (case obj of
       VObject _ fs \<Rightarrow> map_of fs name
     | VDict d \<Rightarrow> map_option snd (find (\<lambda>(k, _). k = VStr name) d)
     | VHandle HHttpRequest i \<Rightarrow> h_request H i name
     | _ \<Rightarrow> None)"
| "object_field_depth_opt (Suc d) H name obj = (case obj of
       VObject _ fs \<Rightarrow> (case map_of fs name of
           Some v \<Rightarrow> Some v
         | None \<Rightarrow> first_some (\<lambda>(f, v). if is_embedded_value f v then object_field_depth_opt d H name v else None) fs)
     | VDict d \<Rightarrow> map_option snd (find (\<lambda>(k, _). k = VStr name) d)
     | VHandle HHttpRequest i \<Rightarrow> h_request H i name
     | _ \<Rightarrow> None)"

definition object_field_opt :: "host \<Rightarrow> rt_value \<Rightarrow> rstring \<Rightarrow> rt_value option" where
  "object_field_opt H obj name = object_field_depth_opt MAX_EMBED_DEPTH H name obj"

definition object_field_miss :: "host \<Rightarrow> rt_value \<Rightarrow> rstring \<Rightarrow> span \<Rightarrow> eval_error" where
  "object_field_miss H obj name sp = EvalError (case obj of
       VObject n _ \<Rightarrow> ''struct `'' @ str_text n @ ''` has no field `'' @ str_text name @ ''`''
     | VDict _ \<Rightarrow> ''dict has no key `'' @ str_text name @ ''`''
     | VHandle HHttpRequest _ \<Rightarrow> ''http.request has no field `'' @ str_text name @ ''`''
     | _ \<Rightarrow> ''cannot access field `'' @ str_text name @ ''` on a value of type `'' @ h_show H obj @ ''`'') sp"

definition object_field :: "host \<Rightarrow> rt_value \<Rightarrow> rstring \<Rightarrow> span \<Rightarrow> (eval_error, rt_value) result" where
  "object_field H obj name sp = (case object_field_opt H obj name of
       Some v \<Rightarrow> Ok v
     | None \<Rightarrow> Err (object_field_miss H obj name sp))"

text \<open>The first field of that name takes the value; and the first embedded struct that takes it.\<close>

primrec put_field :: "rstring \<Rightarrow> rt_value \<Rightarrow> (rstring \<times> rt_value) list \<Rightarrow> (rstring \<times> rt_value) list option" where
  "put_field name v [] = None"
| "put_field name v (e # es) = (if fst e = name then Some ((fst e, v) # es) else map_option ((#) e) (put_field name v es))"

primrec put_embedded :: "(rt_value \<Rightarrow> rt_value option) \<Rightarrow> (rstring \<times> rt_value) list \<Rightarrow> (rstring \<times> rt_value) list option" where
  "put_embedded put [] = None"
| "put_embedded put (e # es) = (case (if is_embedded_value (fst e) (snd e) then put (snd e) else None) of
       Some w \<Rightarrow> Some ((fst e, w) # es)
     | None \<Rightarrow> map_option ((#) e) (put_embedded put es))"

primrec set_object_field_depth :: "nat \<Rightarrow> rstring \<Rightarrow> rt_value \<Rightarrow> rt_value \<Rightarrow> rt_value option" where
  "set_object_field_depth 0 name v obj = (case obj of
       VObject n fs \<Rightarrow> map_option (VObject n) (put_field name v fs)
     | _ \<Rightarrow> None)"
| "set_object_field_depth (Suc d) name v obj = (case obj of
       VObject n fs \<Rightarrow> (case put_field name v fs of
           Some fs' \<Rightarrow> Some (VObject n fs')
         | None \<Rightarrow> map_option (VObject n) (put_embedded (set_object_field_depth d name v) fs))
     | _ \<Rightarrow> None)"

definition set_object_field :: "host \<Rightarrow> rt_value \<Rightarrow> rstring \<Rightarrow> rt_value \<Rightarrow> span \<Rightarrow> (eval_error, rt_value) result" where
  "set_object_field H obj name v sp = (case set_object_field_depth MAX_EMBED_DEPTH name v obj of
       Some obj' \<Rightarrow> Ok obj'
     | None \<Rightarrow> Err (EvalError (case obj of
           VObject n _ \<Rightarrow> ''struct `'' @ str_text n @ ''` has no field `'' @ str_text name @ ''`''
         | _ \<Rightarrow> ''cannot assign to field `'' @ str_text name @ ''` of a value of type `'' @ h_show H obj @ ''`'') sp))"

section \<open>Lengths\<close>

text \<open>The arithmetic on range bounds wraps, as in a release build.\<close>

definition range_len :: "i64 \<Rightarrow> i64 \<Rightarrow> i64 \<Rightarrow> i64 option" where
  "range_len start stop step =
     (if step = 0 then None
      else if (sint step > 0 \<and> sint start < sint stop) \<or> (sint step < 0 \<and> sint start > sint stop)
      then Some (wrapping_div (stop - start + step - (if sint step > 0 then 1 else - 1)) step)
      else Some 0)"

definition value_len :: "rt_value \<Rightarrow> i64 option" where
  "value_len v = (case v of
       VArray vs \<Rightarrow> Some (word_of_nat (length vs))
     | VTuple vs \<Rightarrow> Some (word_of_nat (length vs))
     | VBytes b \<Rightarrow> Some (word_of_nat (length b))
     | VStr s \<Rightarrow> Some (word_of_nat (if is_ascii s then length s else length (str_chars s)))
     | VDict d \<Rightarrow> Some (word_of_nat (length d))
     | VRange a b c \<Rightarrow> range_len a b c
     | _ \<Rightarrow> None)"

definition len_error :: "host \<Rightarrow> rt_value \<Rightarrow> span \<Rightarrow> eval_error" where
  "len_error H v sp = (case v of
       VRange _ _ step \<Rightarrow> if step = 0 then EvalError ''range step cannot be zero'' sp
         else EvalError (''len expects array, tuple, bytes, string, dict, or range, found `'' @ h_show H v @ ''`'') sp
     | _ \<Rightarrow> EvalError (''len expects array, tuple, bytes, string, dict, or range, found `'' @ h_show H v @ ''`'') sp)"

section \<open>Properties\<close>

lemma str_chars_ascii: "is_ascii s \<Longrightarrow> str_chars s = map (\<lambda>b. [b]) s"
proof (induction s)
  case (Cons b s)
  then show ?case by (cases s) (auto simp: is_ascii_def not_le)
qed simp

lemma concat_str_chars: "concat (str_chars s) = s"
  by (induction s) (auto split: list.split)

text \<open>The fast path for ASCII strings reads and slices like the generic path.\<close>

lemma index_list_map: "index_list f (map g xs) i sp = index_list (\<lambda>x. f (g x)) xs i sp"
proof -
  have "ix < length xs" if "normalize_index i (length xs) sp = Ok ix" for ix
    using that by (auto simp: normalize_index_def Let_def split: if_splits)
  then show ?thesis by (cases "normalize_index i (length xs) sp") (auto simp: index_list_def)
qed

lemma get_index_ascii: "is_ascii s \<Longrightarrow> get_index H (VStr s) (VInt i) sp = index_list VStr (str_chars s) i sp"
  by (simp add: get_index_def str_chars_ascii index_list_map)

lemma slice_list_map: "slice_list (map f xs) a b = map f (slice_list xs a b)"
  by (simp add: slice_list_def case_prod_unfold Let_def take_map drop_map)

lemma slice_value_ascii:
  "is_ascii s \<Longrightarrow> slice_value (VStr s) a b sp = Ok (VStr (concat (slice_list (str_chars s) a b)))"
  by (simp add: slice_value_def str_chars_ascii slice_list_map concat_map_singleton)

text \<open>A comparison gives a bool or fails.\<close>

definition is_comparison :: "binop \<Rightarrow> bool" where
  "is_comparison op \<longleftrightarrow> op \<in> {BEq, BNe, BLt, BGt, BLe, BGe}"

lemma comparison_bool: "eval_binary H op l r sp = Ok v \<Longrightarrow> is_comparison op \<Longrightarrow> \<exists>b. v = VBool b"
  by (auto simp: is_comparison_def eval_binary_def eval_int_binary_def eval_float_binary_def eval_str_binary_def
      eval_mixed_binary_def split: if_splits rt_value.splits option.splits)

text \<open>Reading a field gives what was last written to it, also through embedded structs.\<close>

lemma put_field_get: "put_field name v fs = Some fs' \<Longrightarrow> map_of fs' name = Some v \<and> map_of fs name \<noteq> None"
  by (induction fs arbitrary: fs') (auto split: if_splits)

lemma put_field_none: "put_field name v fs = None \<longleftrightarrow> map_of fs name = None"
  by (induction fs) auto

lemma embedded_same: "set_object_field_depth d name v w = Some w' \<Longrightarrow> is_embedded_value f w' = is_embedded_value f w"
  by (cases d) (auto split: rt_value.splits option.splits)

lemma put_embedded_get:
  assumes "put_embedded put fs = Some fs'"
    "\<And>w w'. put w = Some w' \<Longrightarrow> get w' = Some v" "\<And>f w. put w = None \<Longrightarrow> is_embedded_value f w \<Longrightarrow> get w = None"
    "\<And>f w w'. put w = Some w' \<Longrightarrow> is_embedded_value f w' = is_embedded_value f w"
  shows "first_some (\<lambda>(f, w). if is_embedded_value f w then get w else None) fs' = Some v"
  using assms(1)
proof (induction fs arbitrary: fs')
  case (Cons e fs)
  obtain f w where e: "e = (f, w)" by (cases e)
  show ?case
  proof (cases "if is_embedded_value f w then put w else None")
    case (Some w')
    with Cons.prems assms(2,4) e show ?thesis by (auto split: if_splits)
  next
    case None
    with assms(3) have "(if is_embedded_value f w then get w else None) = None" by (auto split: if_splits)
    with None Cons e show ?thesis by (auto split: if_splits)
  qed
qed simp

lemma put_embedded_none:
  "put_embedded put fs = None \<Longrightarrow> (\<And>f w. put w = None \<Longrightarrow> is_embedded_value f w \<Longrightarrow> get w = None) \<Longrightarrow>
     first_some (\<lambda>(f, w). if is_embedded_value f w then get w else None) fs = None"
  by (induction fs) (auto split: if_splits option.splits)

lemma set_field_none:
  "set_object_field_depth d name v w = None \<Longrightarrow> is_embedded_value f w \<Longrightarrow> object_field_depth_opt d H name w = None"
proof (induction d arbitrary: f w)
  case (Suc d)
  show ?case
  proof (cases w)
    case (VObject n fs)
    with Suc.prems have "put_field name v fs = None" "put_embedded (set_object_field_depth d name v) fs = None"
      by (auto split: option.splits)
    with put_embedded_none [OF this(2) Suc.IH] VObject show ?thesis by (simp add: put_field_none)
  qed (use Suc.prems in auto)
qed (auto simp: put_field_none split: rt_value.splits)

lemma set_field_depth_get: "set_object_field_depth d name v w = Some w' \<Longrightarrow> object_field_depth_opt d H name w' = Some v"
proof (induction d arbitrary: w w')
  case 0
  then show ?case using put_field_get by (auto split: rt_value.splits)
next
  case (Suc d)
  from Suc.prems obtain n fs where w: "w = VObject n fs" by (cases w) auto
  show ?case
  proof (cases "put_field name v fs")
    case (Some fs')
    with Suc.prems w put_field_get [OF Some] show ?thesis by auto
  next
    case None
    with Suc.prems w obtain fs' where fs': "put_embedded (set_object_field_depth d name v) fs = Some fs'" "w' = VObject n fs'"
      by auto
    have "map fst gs' = map fst gs" if "put_embedded put gs = Some gs'" for put gs gs'
      using that by (induction gs arbitrary: gs') (auto split: option.splits)
    from this [OF fs'(1)] None have "map_of fs' name = None" by (metis put_field_none map_of_eq_None_iff list.set_map)
    with put_embedded_get [OF fs'(1) Suc.IH set_field_none embedded_same]
    show ?thesis by (simp add: fs'(2))
  qed
qed

lemma set_field_get: "set_object_field H obj name v sp = Ok obj' \<Longrightarrow> object_field H obj' name sp' = Ok v"
  by (auto simp: set_object_field_def object_field_def object_field_opt_def set_field_depth_get split: option.splits)

end
