(* ===== verification/Checker_Types.thy ===== *)
theory Checker_Types
  imports Zz_Prelude
begin

text \<open>
  The checker's type language and its rendering (\<open>crates/zz_checker/src/type_.rs\<close>). A boxed
  component is the component itself, a vector is a list.
\<close>

section \<open>Types\<close>

datatype ty =
    TyInt | TyFloat | TyBool | TyStr | TyUnit | TyVoid
  | TyPtr bool ty
  | TyTuple "ty list"
  | TyOption ty
  | TyResult ty ty
  | TyFunc "ty list" ty
  | TyArray ty
  | TyBytes
  | TyDict ty ty
  | TyUnion "ty list"
  | TyJson | TyDb | TyHttpServer | TyTcpStream | TyTcpListener | TyResponse | TyHttpRequest
  | TyOpaque string
  | TyChan | TyTaskJoin
  | TyStruct string "ty list"
  | TyEnum string "ty list"
  | TyRange ty
  | TyVar u32
  | TyNamed string
  | TyError
  | TyNever

fun is_numeric :: "ty \<Rightarrow> bool" where
  "is_numeric TyInt = True"
| "is_numeric TyFloat = True"
| "is_numeric _ = False"

section \<open>Display\<close>

text \<open>Elements separated by \<open>sep\<close>, as the \<open>enumerate\<close> loops write them.\<close>

fun sep_by :: "string \<Rightarrow> string list \<Rightarrow> string" where
  "sep_by sep [] = []"
| "sep_by sep [x] = x"
| "sep_by sep (x # y # xs) = x @ sep @ sep_by sep (y # xs)"

definition type_args :: "string list \<Rightarrow> string" where
  "type_args xs = (if xs = [] then [] else ''<'' @ sep_by '', '' xs @ ''>'')"

primrec show_ty :: "ty \<Rightarrow> string" where
  "show_ty TyInt = ''int''"
| "show_ty TyFloat = ''float''"
| "show_ty TyBool = ''bool''"
| "show_ty TyStr = ''str''"
| "show_ty TyUnit = ''unit''"
| "show_ty TyVoid = ''void''"
| "show_ty (TyPtr mutable inner) = (if mutable then ''*mut '' else ''*const '') @ show_ty inner"
| "show_ty (TyTuple ts) = ''('' @ sep_by '', '' (map show_ty ts) @ '')''"
| "show_ty (TyOption t) = ''Option<'' @ show_ty t @ ''>''"
| "show_ty (TyResult t e) = ''Result<'' @ show_ty t @ '', '' @ show_ty e @ ''>''"
| "show_ty (TyFunc ps r) = ''func('' @ sep_by '', '' (map show_ty ps) @ '') -> '' @ show_ty r"
| "show_ty (TyArray t) = ''['' @ show_ty t @ '']''"
| "show_ty TyBytes = ''bytes''"
| "show_ty (TyDict k v) = ''{'' @ show_ty k @ '': '' @ show_ty v @ ''}''"
| "show_ty (TyUnion ts) = sep_by '' | '' (map show_ty ts)"
| "show_ty TyJson = ''json''"
| "show_ty TyDb = ''db''"
| "show_ty TyHttpServer = ''http.server''"
| "show_ty TyTcpStream = ''tcp.stream''"
| "show_ty TyTcpListener = ''tcp.listener''"
| "show_ty TyResponse = ''http.response''"
| "show_ty TyHttpRequest = ''http.request''"
| "show_ty (TyOpaque tag) = tag"
| "show_ty TyChan = ''chan''"
| "show_ty TyTaskJoin = ''task.join''"
| "show_ty (TyStruct n args) = n @ type_args (map show_ty args)"
| "show_ty (TyEnum n args) = n @ type_args (map show_ty args)"
| "show_ty (TyRange t) = show_ty t @ ''..''"
| "show_ty (TyVar _) = ''_''"
| "show_ty (TyNamed n) = n"
| "show_ty TyError = ''<error>''"
| "show_ty TyNever = ''!''"

section \<open>Variables and substitution\<close>

primrec tvars :: "ty \<Rightarrow> u32 set" where
  "tvars TyInt = {}" | "tvars TyFloat = {}" | "tvars TyBool = {}" | "tvars TyStr = {}" | "tvars TyUnit = {}"
| "tvars TyVoid = {}" | "tvars TyBytes = {}" | "tvars TyJson = {}" | "tvars TyDb = {}" | "tvars TyHttpServer = {}"
| "tvars TyTcpStream = {}" | "tvars TyTcpListener = {}" | "tvars TyResponse = {}" | "tvars TyHttpRequest = {}"
| "tvars (TyOpaque _) = {}" | "tvars TyChan = {}" | "tvars TyTaskJoin = {}" | "tvars (TyNamed _) = {}"
| "tvars TyError = {}" | "tvars TyNever = {}"
| "tvars (TyVar x) = {x}"
| "tvars (TyPtr _ t) = tvars t"
| "tvars (TyTuple ts) = \<Union> (set (map tvars ts))"
| "tvars (TyOption t) = tvars t"
| "tvars (TyResult t e) = tvars t \<union> tvars e"
| "tvars (TyFunc ps r) = \<Union> (set (map tvars ps)) \<union> tvars r"
| "tvars (TyArray t) = tvars t"
| "tvars (TyDict k v) = tvars k \<union> tvars v"
| "tvars (TyUnion ts) = \<Union> (set (map tvars ts))"
| "tvars (TyStruct _ ts) = \<Union> (set (map tvars ts))"
| "tvars (TyEnum _ ts) = \<Union> (set (map tvars ts))"
| "tvars (TyRange t) = tvars t"

text \<open>A valuation gives every variable a type; \<open>inst\<close> is the type it makes of an open one.\<close>

primrec inst :: "(u32 \<Rightarrow> ty) \<Rightarrow> ty \<Rightarrow> ty" where
  "inst \<sigma> TyInt = TyInt" | "inst \<sigma> TyFloat = TyFloat" | "inst \<sigma> TyBool = TyBool" | "inst \<sigma> TyStr = TyStr"
| "inst \<sigma> TyUnit = TyUnit" | "inst \<sigma> TyVoid = TyVoid" | "inst \<sigma> TyBytes = TyBytes" | "inst \<sigma> TyJson = TyJson"
| "inst \<sigma> TyDb = TyDb" | "inst \<sigma> TyHttpServer = TyHttpServer" | "inst \<sigma> TyTcpStream = TyTcpStream"
| "inst \<sigma> TyTcpListener = TyTcpListener" | "inst \<sigma> TyResponse = TyResponse" | "inst \<sigma> TyHttpRequest = TyHttpRequest"
| "inst \<sigma> (TyOpaque n) = TyOpaque n" | "inst \<sigma> TyChan = TyChan" | "inst \<sigma> TyTaskJoin = TyTaskJoin"
| "inst \<sigma> (TyNamed n) = TyNamed n" | "inst \<sigma> TyError = TyError" | "inst \<sigma> TyNever = TyNever"
| "inst \<sigma> (TyVar x) = \<sigma> x"
| "inst \<sigma> (TyPtr m t) = TyPtr m (inst \<sigma> t)"
| "inst \<sigma> (TyTuple ts) = TyTuple (map (inst \<sigma>) ts)"
| "inst \<sigma> (TyOption t) = TyOption (inst \<sigma> t)"
| "inst \<sigma> (TyResult t e) = TyResult (inst \<sigma> t) (inst \<sigma> e)"
| "inst \<sigma> (TyFunc ps r) = TyFunc (map (inst \<sigma>) ps) (inst \<sigma> r)"
| "inst \<sigma> (TyArray t) = TyArray (inst \<sigma> t)"
| "inst \<sigma> (TyDict k v) = TyDict (inst \<sigma> k) (inst \<sigma> v)"
| "inst \<sigma> (TyUnion ts) = TyUnion (map (inst \<sigma>) ts)"
| "inst \<sigma> (TyStruct n ts) = TyStruct n (map (inst \<sigma>) ts)"
| "inst \<sigma> (TyEnum n ts) = TyEnum n (map (inst \<sigma>) ts)"
| "inst \<sigma> (TyRange t) = TyRange (inst \<sigma> t)"

text \<open>Types without unions, errors and the bottom type, on which unification is first-order.\<close>

primrec plain :: "ty \<Rightarrow> bool" where
  "plain TyInt = True" | "plain TyFloat = True" | "plain TyBool = True" | "plain TyStr = True" | "plain TyUnit = True"
| "plain TyVoid = True" | "plain TyBytes = True" | "plain TyJson = True" | "plain TyDb = True" | "plain TyHttpServer = True"
| "plain TyTcpStream = True" | "plain TyTcpListener = True" | "plain TyResponse = True" | "plain TyHttpRequest = True"
| "plain (TyOpaque _) = True" | "plain TyChan = True" | "plain TyTaskJoin = True" | "plain (TyNamed _) = True"
| "plain TyError = False" | "plain TyNever = False" | "plain (TyUnion ts) = False"
| "plain (TyVar x) = True"
| "plain (TyPtr _ t) = plain t"
| "plain (TyTuple ts) = list_all plain ts"
| "plain (TyOption t) = plain t"
| "plain (TyResult t e) = (plain t \<and> plain e)"
| "plain (TyFunc ps r) = (list_all plain ps \<and> plain r)"
| "plain (TyArray t) = plain t"
| "plain (TyDict k v) = (plain k \<and> plain v)"
| "plain (TyStruct _ ts) = list_all plain ts"
| "plain (TyEnum _ ts) = list_all plain ts"
| "plain (TyRange t) = plain t"

text \<open>Types without unions.\<close>

primrec union_free :: "ty \<Rightarrow> bool" where
  "union_free TyInt = True" | "union_free TyFloat = True" | "union_free TyBool = True" | "union_free TyStr = True"
| "union_free TyUnit = True" | "union_free TyVoid = True" | "union_free TyBytes = True" | "union_free TyJson = True"
| "union_free TyDb = True" | "union_free TyHttpServer = True" | "union_free TyTcpStream = True"
| "union_free TyTcpListener = True" | "union_free TyResponse = True" | "union_free TyHttpRequest = True"
| "union_free (TyOpaque _) = True" | "union_free TyChan = True" | "union_free TyTaskJoin = True"
| "union_free (TyNamed _) = True" | "union_free TyError = True" | "union_free TyNever = True"
| "union_free (TyUnion ts) = False"
| "union_free (TyVar x) = True"
| "union_free (TyPtr _ t) = union_free t"
| "union_free (TyTuple ts) = list_all union_free ts"
| "union_free (TyOption t) = union_free t"
| "union_free (TyResult t e) = (union_free t \<and> union_free e)"
| "union_free (TyFunc ps r) = (list_all union_free ps \<and> union_free r)"
| "union_free (TyArray t) = union_free t"
| "union_free (TyDict k v) = (union_free k \<and> union_free v)"
| "union_free (TyStruct _ ts) = list_all union_free ts"
| "union_free (TyEnum _ ts) = list_all union_free ts"
| "union_free (TyRange t) = union_free t"

lemma inst_ground: "tvars t = {} \<Longrightarrow> inst \<sigma> t = t"
  by (induction t) (auto intro: map_idI)

lemma finite_tvars [simp]: "finite (tvars t)"
  by (induction t) auto

end
