(* ===== verification/Vm_Op.thy ===== *)
theory Vm_Op
  imports Vm_Value Checker_Types
begin

text \<open>
  The instructions the virtual machine runs (\<open>crates/zz_runtime/src/vm/op.rs\<close>), the chunks that hold
  them (\<open>vm/chunk.rs\<close>) and the parts of the syntax tree they carry (\<open>crates/zz_frontend/src/ast\<close>):
  patterns and parameters. One constructor per variant, fields in the source's order.

  The operator enums of the syntax tree and of the IR have the same variants and are one type
  here. The variants are split over two types: \<open>vm_core\<close> has those that stand for themselves, \<open>vm_op\<close>
  adds those that refer to the constant pool or carry a chunk. Its two parameters are the type of
  such a reference and of a chunk, so that a function on chunks extends to instructions by the map
  function of the type. A chunk leaves out its identity and the instrumentation (\<open>id\<close>, \<open>source\<close>, \<open>cov_ids\<close>,
  \<open>cov_branch\<close>), which no translation reads.
\<close>

section \<open>Syntax carried by instructions\<close>

datatype lit = LInt i64 | LFloat f64 | LStr rstring | LBool bool

datatype ast_pattern =
    APWildcard span
  | APBinding rstring span
  | APLiteral lit span
  | APVariant rstring "ast_pattern option" span
  | APTuple "ast_pattern list" span
  | APOr "ast_pattern list" span

text \<open>
  A parameter: its name and its default. The default is an expression that is only ever compiled
  (\<open>Compiler::compile_default_expr\<close>); it is represented by the chunk it compiles to.
\<close>

datatype 'c vm_param = VmParam (vp_name: rstring) (vp_default: "'c option")

datatype take_home = HomeSlot u16 | HomeEnv rstring

section \<open>Instructions\<close>

datatype (plugins only:) vm_core =
    VPop
  | VSwap
  | VTruthy
  | VLoadVar rstring span
  | VLoadPath "rstring list" span
  | VDefineVar rstring
  | VStoreVar rstring span
  | VStorePath "rstring list" span
  | VLoadSlot u16
  | VStoreSlot u16
  | VTakeSlot u16
  | VTakeVar rstring span
  | VVecPush take_home span
  | VVecPushField take_home rstring span
  | VVecPushMethod take_home rstring span
  | VSetFieldTake take_home rstring span
  | VSetFieldIndexTake take_home rstring span
  | VStoreIndexTake take_home span
  | VCompoundIndexTake take_home binop span
  | VFieldBinopTake take_home rstring binop span
  | VGetFieldIndex take_home rstring span
  | VGetFieldSlotIdx take_home u16 u16 span
  | VLenField take_home rstring span
  | VIndexIntSlot u16 u16 u16 span
  | VIndexDictInt u16 u16 u16 span
  | VSlotAddInt u16 u16
  | VSlotInc u16
  | VSlotAddIntImm u16 i64
  | VSlotSubIntImm u16 i64
  | VSlotMulIntImm u16 i64
  | VSlotLessIntSlot u16 u16
  | VSlotLessIntImm u16 i64
  | VSlotCmpIntSlot u16 u16 binop
  | VSlotCmpIntImm u16 i64 binop
  | VSlotBinaryInt u16 u16 u16 binop
  | VSlotBinaryIntImm u16 u16 i64 binop
  | VPushSlotIntImm u16 i64 binop span
  | VJumpIfFalseSlotCmpIntImm u16 i64 binop nat span
  | VJumpIfFalseSlotCmpIntSlot u16 u16 binop nat span
  | VRegisterStruct rstring "rstring list"
  | VRegisterEnum rstring "(rstring \<times> bool) list"
  | VMakeEnum rstring rstring u16 span
  | VIntAdd span
  | VIntSub span
  | VIntMul span
  | VIntDiv span
  | VIntRem span
  | VIntNeg span
  | VIntLt span
  | VIntGt span
  | VIntLe span
  | VIntGe span
  | VIntEq span
  | VIntNe span
  | VBinOp binop span
  | VUnOp unop span
  | VJump nat
  | VJumpIfFalse nat
  | VJumpIfTrue nat
  | VJumpIfFalseBool nat span
  | VReturn
  | VForSetup nat nat span u8
  | VForNext "rstring list" nat nat bool span
  | VWhileSetup nat nat
  | VWhileCond nat span
  | VBreak span
  | VContinue span
  | VSetLoopResult
  | VSafepoint
  | VMakeArray u16
  | VUnpackTuple u8
  | VArrayPush span
  | VMakeDict u16
  | VIndexOp span
  | VStoreIndexOp span
  | VCompoundIndexOp binop span
  | VSliceOp span
  | VMakeRange span
  | VMakeStruct rstring "rstring list" span
  | VGetField rstring span
  | VGetFieldIdx u16 span
  | VSetField rstring span
  | VCompoundFieldOp rstring binop span
  | VSetFieldIdx u16 span
  | VMakeVariant rstring bool span
  | VMatchArm ast_pattern nat bool bool
  | VMatchGuard nat bool
  | VMatchError span
  | VIfLetMatch ast_pattern nat bool
  | VTryOp span
  | VElvis span
  | VElvisResult
  | VCall u16 span
  | VCallPath "rstring list" rstring u16 span span
  | VCallMethod rstring u16 span
  | VCallNative rstring u16 span
  | VConcat u16
  | VFormatValue span
  | VDbQuery u16 span
  | VEnterScope
  | VExitScope
  | VPopN u16 span
  | VDeferRecord

text \<open>The instructions that name a pooled constant or carry a chunk, and all others.\<close>

datatype (plugins only:) ('k, 'c) vm_op =
    VPushConst 'k
  | VSlotCmpConst u16 'k binop
  | VMakeFunc rstring "'c vm_param list" 'c "'c option list"
  | VMakeClosure "'c vm_param list" 'c "'c option list"
  | VSpawnClosure "'c vm_param list" 'c span "'c option list"
  | VCore vm_core

section \<open>Chunks\<close>

datatype (plugins only:) vm_chunk = VmChunk
  (vc_code: "(u32, vm_chunk) vm_op list")
  (vc_constants: "rt_value list")
  (vc_params: "vm_chunk vm_param list")
  (vc_spans: "span list")
  (vc_toplevel_slots: "(rstring \<times> u16) list")
  (vc_slot_types: "ty option list")
  (vc_fornext_slots: "u16 list list")

definition vm_chunk_new :: vm_chunk where
  "vm_chunk_new = VmChunk [] [] [] [] [] [] []"

end
