(* ===== verification/Vm_Machine.thy ===== *)
theory Vm_Machine
  imports Value_Ops Vm_Op
begin

text \<open>
  The dispatch loop of the virtual machine (\<open>run_loop\<close> of \<open>crates/zz_runtime/src/vm/runtime.rs\<close>) for the
  instructions that work on the operand stack, the frame slots and the loop records. The vector
  \<open>self.stack\<close> is a list with the top at the end; slot \<open>s\<close> of the running frame is the element at
  \<open>base + s\<close>. Instructions that reach for variables by name, call code or change frames leave the
  fragment (\<open>Left\<close>); so does the end of a chunk. A Rust panic is \<open>Panicked\<close>, an \<open>EvalError\<close> is \<open>Failed\<close>
  without its backtrace. The clock of the safepoints and the coverage counters are left out: a
  task that yields executes the same instruction again when it resumes.
\<close>

section \<open>State and effects\<close>

record 'e loop_info =
  li_exit :: nat
  li_header :: nat
  li_env :: 'e
  li_frame_idx :: nat
  li_stack_base :: nat
  li_slots :: nat

record 'e vm_frame =
  fr_stack :: "rt_value list"
  fr_loops :: "'e loop_info list"
  fr_env :: 'e

datatype stop = Failed eval_error | Panicked | Left

type_synonym ('e, 'a) vm_m = "'e vm_frame \<Rightarrow> (stop, 'a \<times> 'e vm_frame) result"

definition vm_return :: "'a \<Rightarrow> ('e, 'a) vm_m" where
  "vm_return x = (\<lambda>fr. Ok (x, fr))"

definition vm_bind :: "('e, 'a) vm_m \<Rightarrow> ('a \<Rightarrow> ('e, 'b) vm_m) \<Rightarrow> ('e, 'b) vm_m" where
  "vm_bind m f = (\<lambda>fr. res_bind (m fr) (\<lambda>(x, fr'). f x fr'))"

definition vm_stop :: "stop \<Rightarrow> ('e, 'a) vm_m" where
  "vm_stop s = (\<lambda>fr. Err s)"

definition vm_fail :: "string \<Rightarrow> span \<Rightarrow> ('e, 'a) vm_m" where
  "vm_fail msg sp = vm_stop (Failed (EvalError msg sp))"

text \<open>The question-mark operator on the result of an operation on values.\<close>

definition vm_eval :: "(eval_error, 'a) result \<Rightarrow> ('e, 'a) vm_m" where
  "vm_eval r = (case r of Inl e \<Rightarrow> vm_stop (Failed e) | Inr x \<Rightarrow> vm_return x)"

text \<open>\<open>unwrap\<close>.\<close>

definition vm_unwrap :: "'a option \<Rightarrow> ('e, 'a) vm_m" where
  "vm_unwrap r = (case r of None \<Rightarrow> vm_stop Panicked | Some x \<Rightarrow> vm_return x)"

definition vm_push :: "rt_value \<Rightarrow> ('e, unit) vm_m" where
  "vm_push v = (\<lambda>fr. Ok ((), fr\<lparr>fr_stack := fr_stack fr @ [v]\<rparr>))"

definition vm_pop :: "('e, rt_value) vm_m" where
  "vm_pop = (\<lambda>fr. if fr_stack fr = [] then Err Panicked else Ok (last (fr_stack fr), fr\<lparr>fr_stack := butlast (fr_stack fr)\<rparr>))"

text \<open>The \<open>n\<close> topmost values, popped one by one and reversed.\<close>

definition vm_pops :: "nat \<Rightarrow> ('e, rt_value list) vm_m" where
  "vm_pops n = (\<lambda>fr. let len = length (fr_stack fr) in
     if len < n then Err Panicked else Ok (drop (len - n) (fr_stack fr), fr\<lparr>fr_stack := take (len - n) (fr_stack fr)\<rparr>))"

definition vm_truncate :: "nat \<Rightarrow> ('e, unit) vm_m" where
  "vm_truncate n = (\<lambda>fr. Ok ((), fr\<lparr>fr_stack := take n (fr_stack fr)\<rparr>))"

definition slot_get :: "nat \<Rightarrow> u16 \<Rightarrow> ('e, rt_value) vm_m" where
  "slot_get base s = (\<lambda>fr. let i = base + unat s in
     if i < length (fr_stack fr) then Ok (fr_stack fr ! i, fr) else Err Panicked)"

definition slot_set :: "nat \<Rightarrow> u16 \<Rightarrow> rt_value \<Rightarrow> ('e, unit) vm_m" where
  "slot_set base s v = (\<lambda>fr. let i = base + unat s in
     if i < length (fr_stack fr) then Ok ((), fr\<lparr>fr_stack := (fr_stack fr)[i := v]\<rparr>) else Err Panicked)"

definition take_home_slot :: "nat \<Rightarrow> u16 \<Rightarrow> ('e, rt_value) vm_m" where
  "take_home_slot base s = vm_bind (slot_get base s) (\<lambda>v. vm_bind (slot_set base s VUnit) (\<lambda>_. vm_return v))"

text \<open>How an arm ends: it falls through to the next instruction, or it sets \<open>ip\<close>.\<close>

definition vm_next :: "('e, nat option) vm_m" where
  "vm_next = vm_return None"

definition vm_goto :: "nat \<Rightarrow> ('e, nat option) vm_m" where
  "vm_goto t = vm_return (Some t)"

definition push_next :: "rt_value \<Rightarrow> ('e, nat option) vm_m" where
  "push_next v = vm_bind (vm_push v) (\<lambda>_. vm_next)"

definition set_next :: "nat \<Rightarrow> u16 \<Rightarrow> rt_value \<Rightarrow> ('e, nat option) vm_m" where
  "set_next base s v = vm_bind (slot_set base s v) (\<lambda>_. vm_next)"

definition vm_pop2 :: "(rt_value \<Rightarrow> rt_value \<Rightarrow> ('e, 'a) vm_m) \<Rightarrow> ('e, 'a) vm_m" where
  "vm_pop2 f = vm_bind vm_pop (\<lambda>r. vm_bind vm_pop (\<lambda>l. f l r))"

section \<open>Integer fast paths\<close>

definition int_cmp :: "binop \<Rightarrow> i64 \<Rightarrow> i64 \<Rightarrow> bool option" where
  "int_cmp op a b = (case op of
       BEq \<Rightarrow> Some (a = b)
     | BNe \<Rightarrow> Some (a \<noteq> b)
     | BLt \<Rightarrow> Some (sint a < sint b)
     | BGt \<Rightarrow> Some (sint a > sint b)
     | BLe \<Rightarrow> Some (sint a \<le> sint b)
     | BGe \<Rightarrow> Some (sint a \<ge> sint b)
     | _ \<Rightarrow> None)"

text \<open>\<open>x = x op y\<close> on slots: \<open>f\<close> on two ints, the generic operator otherwise.\<close>

definition arith_fast :: "host \<Rightarrow> (i64 \<Rightarrow> i64 \<Rightarrow> i64) \<Rightarrow> binop \<Rightarrow> rt_value \<Rightarrow> rt_value \<Rightarrow> span \<Rightarrow> (eval_error, rt_value) result" where
  "arith_fast H f op l r sp = (case (l, r) of
       (VInt a, VInt b) \<Rightarrow> Ok (VInt (f a b))
     | _ \<Rightarrow> eval_binary H op l r sp)"

definition less_fast :: "host \<Rightarrow> rt_value \<Rightarrow> rt_value \<Rightarrow> span \<Rightarrow> (eval_error, rt_value) result" where
  "less_fast H l r sp = (case (l, r) of
       (VInt a, VInt b) \<Rightarrow> Ok (VBool (sint a < sint b))
     | _ \<Rightarrow> eval_binary H BLt l r sp)"

definition cmp_fast :: "host \<Rightarrow> binop \<Rightarrow> rt_value \<Rightarrow> rt_value \<Rightarrow> span \<Rightarrow> (eval_error, rt_value) result" where
  "cmp_fast H op l r sp = (case (l, r) of
       (VInt a, VInt b) \<Rightarrow> (case int_cmp op a b of
           Some c \<Rightarrow> Ok (VBool c)
         | None \<Rightarrow> eval_int_binary op a b sp)
     | _ \<Rightarrow> eval_binary H op l r sp)"

definition const_fast :: "host \<Rightarrow> binop \<Rightarrow> rt_value \<Rightarrow> rt_value \<Rightarrow> span \<Rightarrow> (eval_error, rt_value) result" where
  "const_fast H op l r sp = (case (case (l, r) of
         (VStr x, VStr y) \<Rightarrow> if op = BEq then Some (x = y) else if op = BNe then Some (x \<noteq> y) else None
       | (VInt x, VInt y) \<Rightarrow> int_cmp op x y
       | _ \<Rightarrow> None) of
       Some c \<Rightarrow> Ok (VBool c)
     | None \<Rightarrow> eval_binary H op l r sp)"

definition int_fast :: "host \<Rightarrow> binop \<Rightarrow> rt_value \<Rightarrow> rt_value \<Rightarrow> span \<Rightarrow> (eval_error, rt_value) result" where
  "int_fast H op l r sp = (case (l, r) of
       (VInt a, VInt b) \<Rightarrow> eval_int_binary op a b sp
     | _ \<Rightarrow> eval_binary H op l r sp)"

text \<open>\<open>IntDiv\<close> and \<open>IntRem\<close> write out the checks of the integer operator.\<close>

definition div_fast :: "host \<Rightarrow> rt_value \<Rightarrow> rt_value \<Rightarrow> span \<Rightarrow> (eval_error, rt_value) result" where
  "div_fast H l r sp = (case (l, r) of
       (VInt a, VInt b) \<Rightarrow>
         if b = 0 then Err (EvalError ''division by zero'' sp)
         else if a = i64_min \<and> b = - 1 then Err (EvalError ''integer overflow in division'' sp)
         else Ok (VInt (wrapping_div a b))
     | _ \<Rightarrow> eval_binary H BDiv l r sp)"

definition rem_fast :: "host \<Rightarrow> rt_value \<Rightarrow> rt_value \<Rightarrow> span \<Rightarrow> (eval_error, rt_value) result" where
  "rem_fast H l r sp = (case (l, r) of
       (VInt a, VInt b) \<Rightarrow>
         if b = 0 then Err (EvalError ''modulo by zero'' sp)
         else if a = i64_min \<and> b = - 1 then Err (EvalError ''integer overflow in modulo'' sp)
         else Ok (VInt (wrapping_rem a b))
     | _ \<Rightarrow> eval_binary H BRem l r sp)"

definition neg_fast :: "host \<Rightarrow> rt_value \<Rightarrow> span \<Rightarrow> (eval_error, rt_value) result" where
  "neg_fast H v sp = (case v of VInt a \<Rightarrow> Ok (VInt (- a)) | _ \<Rightarrow> eval_unary H UNeg v sp)"

definition pop_binary :: "(rt_value \<Rightarrow> rt_value \<Rightarrow> (eval_error, rt_value) result) \<Rightarrow> ('e, nat option) vm_m" where
  "pop_binary f = vm_pop2 (\<lambda>l r. vm_bind (vm_eval (f l r)) push_next)"

definition pop_unary :: "(rt_value \<Rightarrow> (eval_error, rt_value) result) \<Rightarrow> ('e, nat option) vm_m" where
  "pop_unary f = vm_bind vm_pop (\<lambda>v. vm_bind (vm_eval (f v)) push_next)"

definition slots_binary :: "nat \<Rightarrow> u16 \<Rightarrow> u16 \<Rightarrow> (rt_value \<Rightarrow> rt_value \<Rightarrow> (eval_error, rt_value) result) \<Rightarrow> ('e, rt_value) vm_m" where
  "slots_binary base a b f = vm_bind (slot_get base a) (\<lambda>l. vm_bind (slot_get base b) (\<lambda>r. vm_eval (f l r)))"

definition slot_binary :: "nat \<Rightarrow> u16 \<Rightarrow> rt_value \<Rightarrow> (rt_value \<Rightarrow> rt_value \<Rightarrow> (eval_error, rt_value) result) \<Rightarrow> ('e, rt_value) vm_m" where
  "slot_binary base a r f = vm_bind (slot_get base a) (\<lambda>l. vm_eval (f l r))"

definition branch_bool :: "string \<Rightarrow> nat \<Rightarrow> span \<Rightarrow> rt_value \<Rightarrow> ('e, nat option) vm_m" where
  "branch_bool msg t sp c = (case c of
       VBool b \<Rightarrow> if b then vm_next else vm_goto t
     | _ \<Rightarrow> vm_fail msg sp)"

definition if_not_bool :: string where
  "if_not_bool = ''`if` condition must be a bool''"

section \<open>Operations on a value kept in its home\<close>

text \<open>
  The home is a slot of the frame; a home in the environment leaves the fragment. A failing operation
  puts the value back, so that the model, which drops the state of a failed step, need not.
\<close>

definition direct_field :: "rt_value \<Rightarrow> rstring \<Rightarrow> rt_value option" where
  "direct_field v name = (case v of VObject _ fs \<Rightarrow> map_of fs name | _ \<Rightarrow> None)"

definition push_array :: "host \<Rightarrow> rt_value \<Rightarrow> rt_value \<Rightarrow> span \<Rightarrow> (eval_error, rt_value) result" where
  "push_array H v elem sp = (case v of
       VArray vs \<Rightarrow> Ok (VArray (vs @ [elem]))
     | _ \<Rightarrow> Err (EvalError (''`vec.push` expects an array, found `'' @ h_show H v @ ''`'') sp))"

text \<open>\<open>field_push_take\<close>: a field of the object itself, or else the promoted field.\<close>

definition field_push_take :: "host \<Rightarrow> rt_value \<Rightarrow> rstring \<Rightarrow> rt_value \<Rightarrow> span \<Rightarrow> (eval_error, rt_value) result" where
  "field_push_take H home field elem sp = (case home of
       VObject n fs \<Rightarrow> (case map_of fs field of
           Some v \<Rightarrow> res_bind (push_array H v elem sp) (\<lambda>w. (case put_field field w fs of
               Some fs' \<Rightarrow> Ok (VObject n fs')
             | None \<Rightarrow> Ok home))
         | None \<Rightarrow> res_bind (object_field H home field sp) (\<lambda>cur.
             res_bind (push_array H cur elem sp) (\<lambda>w. set_object_field H home field w sp)))
     | _ \<Rightarrow> res_bind (object_field H home field sp) (\<lambda>cur.
         res_bind (push_array H cur elem sp) (\<lambda>w. set_object_field H home field w sp)))"

definition set_field_index :: "host \<Rightarrow> rt_value \<Rightarrow> rstring \<Rightarrow> rt_value \<Rightarrow> rt_value \<Rightarrow> span \<Rightarrow> (eval_error, rt_value) result" where
  "set_field_index H taken field index v sp =
     res_bind (case direct_field taken field of Some w \<Rightarrow> Ok w | None \<Rightarrow> object_field H taken field sp) (\<lambda>field_val.
     res_bind (set_index H field_val index v sp) (\<lambda>field_val'.
     set_object_field H taken field field_val' sp))"

definition field_binop :: "host \<Rightarrow> rt_value \<Rightarrow> rstring \<Rightarrow> binop \<Rightarrow> rt_value \<Rightarrow> span \<Rightarrow> (eval_error, rt_value) result" where
  "field_binop H taken field op rhs sp =
     res_bind (object_field H taken field sp) (\<lambda>cur.
     res_bind (eval_binary H op cur rhs sp) (\<lambda>new. set_object_field H taken field new sp))"

definition compound_index :: "host \<Rightarrow> rt_value \<Rightarrow> rt_value \<Rightarrow> binop \<Rightarrow> rt_value \<Rightarrow> span \<Rightarrow> (eval_error, rt_value) result" where
  "compound_index H ov iv op rhs sp =
     res_bind (get_index H ov iv sp) (\<lambda>cur.
     res_bind (eval_binary H op cur rhs sp) (\<lambda>new. set_index H ov iv new sp))"

text \<open>\<open>GetFieldIndex\<close>: the element of a direct field, with the generic read for anything else.\<close>

definition get_field_index :: "host \<Rightarrow> rt_value \<Rightarrow> rstring \<Rightarrow> rt_value \<Rightarrow> span \<Rightarrow> (eval_error, rt_value) result" where
  "get_field_index H taken field index sp =
     (let generic = res_bind (object_field H taken field sp) (\<lambda>f. get_index H f index sp) in
      case (direct_field taken field, index) of
        (Some (VArray items), VInt i) \<Rightarrow> index_list (\<lambda>v. v) items i sp
      | (Some (VTuple items), VInt i) \<Rightarrow> index_list (\<lambda>v. v) items i sp
      | (Some (VDict d), key) \<Rightarrow> (case assoc_get (h_same H) d key of Some v \<Rightarrow> Ok v | None \<Rightarrow> generic)
      | _ \<Rightarrow> generic)"

definition field_at :: "rt_value \<Rightarrow> u16 \<Rightarrow> span \<Rightarrow> (eval_error, rt_value) result" where
  "field_at v idx sp = (case v of
       VObject n fs \<Rightarrow>
         if unat idx < length fs then Ok (snd (fs ! unat idx))
         else Err (EvalError (''struct `'' @ str_text n @ ''` field index '' @ show_nat (unat idx) @ '' out of bounds'') sp)
     | _ \<Rightarrow> Err (EvalError ''expected struct for indexed field access'' sp))"

definition set_field_at :: "rt_value \<Rightarrow> u16 \<Rightarrow> rt_value \<Rightarrow> span \<Rightarrow> (eval_error, rt_value) result" where
  "set_field_at ov idx v sp = (case ov of
       VObject n fs \<Rightarrow>
         if unat idx < length fs then Ok (VObject n (fs[unat idx := (fst (fs ! unat idx), v)]))
         else Err (EvalError (''struct `'' @ str_text n @ ''` field index '' @ show_nat (unat idx) @ '' out of bounds'') sp)
     | _ \<Rightarrow> Err (EvalError ''expected struct for indexed field access'' sp))"

definition len_field :: "host \<Rightarrow> rt_value \<Rightarrow> rstring \<Rightarrow> span \<Rightarrow> (eval_error, rt_value) result" where
  "len_field H taken field sp =
     res_bind (case direct_field taken field of Some v \<Rightarrow> Ok v | None \<Rightarrow> object_field H taken field sp) (\<lambda>v.
     case value_len v of
       Some n \<Rightarrow> Ok (VInt n)
     | None \<Rightarrow> Err (len_error H v sp))"

text \<open>Take the value out of slot \<open>s\<close>, compute, put the new value back.\<close>

definition update_home :: "nat \<Rightarrow> take_home \<Rightarrow> (rt_value \<Rightarrow> (eval_error, rt_value) result) \<Rightarrow> ('e, nat option) vm_m" where
  "update_home base home f = (case home of
       HomeSlot s \<Rightarrow> vm_bind (take_home_slot base s) (\<lambda>v. vm_bind (vm_eval (f v)) (set_next base s))
     | HomeEnv _ \<Rightarrow> vm_stop Left)"

definition read_home :: "nat \<Rightarrow> take_home \<Rightarrow> (rt_value \<Rightarrow> (eval_error, rt_value) result) \<Rightarrow> ('e, rt_value) vm_m" where
  "read_home base home f = (case home of
       HomeSlot s \<Rightarrow> vm_bind (take_home_slot base s) (\<lambda>v. vm_bind (vm_eval (f v)) (\<lambda>r.
         vm_bind (slot_set base s v) (\<lambda>_. vm_return r)))
     | HomeEnv _ \<Rightarrow> vm_stop Left)"

definition pop_home :: "take_home \<Rightarrow> (rt_value \<Rightarrow> ('e, 'a) vm_m) \<Rightarrow> ('e, 'a) vm_m" where
  "pop_home home f = (case home of HomeSlot _ \<Rightarrow> vm_bind vm_pop f | HomeEnv _ \<Rightarrow> vm_stop Left)"

section \<open>Loops\<close>

definition push_loop :: "nat \<Rightarrow> nat \<Rightarrow> nat \<Rightarrow> nat \<Rightarrow> nat \<Rightarrow> ('e, unit) vm_m" where
  "push_loop exit header fidx sbase slots = (\<lambda>fr. Ok ((), fr\<lparr>fr_loops := fr_loops fr @
     [\<lparr>li_exit = exit, li_header = header, li_env = fr_env fr, li_frame_idx = fidx, li_stack_base = sbase,
       li_slots = slots\<rparr>]\<rparr>))"

definition pop_loop :: "('e, 'e loop_info option) vm_m" where
  "pop_loop = (\<lambda>fr. if fr_loops fr = [] then Ok (None, fr)
     else Ok (Some (last (fr_loops fr)), fr\<lparr>fr_loops := butlast (fr_loops fr)\<rparr>))"

definition last_loop :: "('e, 'e loop_info option) vm_m" where
  "last_loop = (\<lambda>fr. Ok (if fr_loops fr = [] then None else Some (last (fr_loops fr)), fr))"

definition vm_set_env :: "'e \<Rightarrow> ('e, unit) vm_m" where
  "vm_set_env env = (\<lambda>fr. Ok ((), fr\<lparr>fr_env := env\<rparr>))"

definition vm_depth :: "('e, nat) vm_m" where
  "vm_depth = (\<lambda>fr. Ok (length (fr_stack fr), fr))"

text \<open>The end of a loop: its record is dropped and the stack cut back to the result value.\<close>

definition leave_loop :: "nat \<Rightarrow> ('e, nat option) vm_m" where
  "leave_loop exit = vm_bind pop_loop (\<lambda>l. vm_bind (vm_unwrap l) (\<lambda>li.
     vm_bind (vm_truncate (li_stack_base li + 1)) (\<lambda>_. vm_bind (vm_set_env (li_env li)) (\<lambda>_. vm_goto exit))))"

definition for_setup :: "host \<Rightarrow> nat \<Rightarrow> nat \<Rightarrow> nat \<Rightarrow> span \<Rightarrow> u8 \<Rightarrow> ('e, nat option) vm_m" where
  "for_setup H fidx exit header sp num_vars =
     vm_bind vm_pop (\<lambda>it.
     let start = (\<lambda>idx. vm_bind vm_depth (\<lambda>len.
       if len = 0 then vm_stop Panicked
       else vm_bind (push_loop exit header fidx (len - 1) (2 + unat num_vars)) (\<lambda>_.
         vm_bind (vm_push it) (\<lambda>_. vm_bind (vm_push (VInt idx)) (\<lambda>_.
         (\<lambda>fr. Ok (None, fr\<lparr>fr_stack := fr_stack fr @ replicate (unat num_vars) VUnit\<rparr>)))))))
     in case it of
         VArray _ \<Rightarrow> start 0
       | VBytes _ \<Rightarrow> start 0
       | VRange a _ _ \<Rightarrow> start a
       | VDict _ \<Rightarrow> start 0
       | _ \<Rightarrow> vm_fail (''cannot iterate a value of type `'' @ h_show H it @ ''`'') sp)"

text \<open>
  The in-place step of a loop with one variable over a range, an array or bytes: the iteration is over,
  or there is a next index and a value for the variable. An index out of range panics.
\<close>

datatype for_step = ForDone | ForLive i64 rt_value | ForPanic | ForOther

definition for_fast :: "rt_value \<Rightarrow> i64 \<Rightarrow> for_step" where
  "for_fast iterable i = (case iterable of
       VRange _ stop step \<Rightarrow>
         if (sint step > 0 \<and> sint i \<ge> sint stop) \<or> (sint step \<le> 0 \<and> sint i \<le> sint stop) then ForDone
         else ForLive (i + step) (VInt i)
     | VArray arr \<Rightarrow>
         if sint i \<ge> int (length arr) then ForDone
         else if unat i < length arr then ForLive (i + 1) (arr ! unat i) else ForPanic
     | VBytes b \<Rightarrow>
         if sint i \<ge> int (length b) then ForDone
         else if unat i < length b then ForLive (i + 1) (VInt (ucast (b ! unat i))) else ForPanic
     | _ \<Rightarrow> ForOther)"

definition for_next_fast :: "nat \<Rightarrow> nat \<Rightarrow> 'e vm_frame \<Rightarrow> (stop, nat option \<times> 'e vm_frame) result option" where
  "for_next_fast exit body fr =
     (let st = fr_stack fr; len = length st in
      if len < 3 then None
      else (case st ! (len - 2) of
          VInt i \<Rightarrow> (case for_fast (st ! (len - 3)) i of
              ForDone \<Rightarrow> Some (leave_loop exit fr)
            | ForLive i' v \<Rightarrow> Some (Ok (Some body, fr\<lparr>fr_stack := st[len - 2 := VInt i', len - 1 := v]\<rparr>))
            | ForPanic \<Rightarrow> Some (Err Panicked)
            | ForOther \<Rightarrow> None)
        | _ \<Rightarrow> None))"

text \<open>The generic step: the values of one or two variables and the next index.\<close>

definition for_pair :: "rt_value \<Rightarrow> rt_value list option" where
  "for_pair item = (case item of
       VTuple pair \<Rightarrow> Some pair
     | VArray items \<Rightarrow> if length items = 2 then Some items else None
     | _ \<Rightarrow> None)"

definition not_a_pair :: string where
  "not_a_pair = ''cannot unpack a non-pair value into 2 loop variables (expected `enumerate()` pairs)''"

definition for_item :: "nat \<Rightarrow> rt_value \<Rightarrow> span \<Rightarrow> (stop, rt_value list) result" where
  "for_item num_vars item sp =
     (if num_vars = 2 then (case for_pair item of
          Some pair \<Rightarrow> if length pair < 2 then Err Panicked else Ok [pair ! (length pair - 2), last pair]
        | None \<Rightarrow> Err (Failed (EvalError not_a_pair sp)))
      else Ok [item])"

definition for_generic :: "nat \<Rightarrow> rt_value \<Rightarrow> rt_value \<Rightarrow> span \<Rightarrow> (stop, (i64 \<times> rt_value list) option) result" where
  "for_generic num_vars iterable idx sp = (case (iterable, idx) of
       (VRange _ stop step, VInt i) \<Rightarrow>
         Ok (if (if sint step > 0 then sint i \<ge> sint stop else sint i \<le> sint stop) then None else Some (i + step, [VInt i]))
     | (VArray arr, VInt i) \<Rightarrow>
         if sint i \<ge> int (length arr) then Ok None
         else if unat i < length arr
         then res_bind (for_item num_vars (arr ! unat i) sp) (\<lambda>vs. Ok (Some (i + 1, vs)))
         else Err Panicked
     | (VBytes b, VInt i) \<Rightarrow>
         if sint i \<ge> int (length b) then Ok None
         else if unat i < length b then Ok (Some (i + 1, [VInt (ucast (b ! unat i))]))
         else Err Panicked
     | (VDict pairs, VInt i) \<Rightarrow>
         if unat i \<ge> length pairs then Ok None
         else Ok (Some (i + 1, if num_vars = 2 then [fst (pairs ! unat i), snd (pairs ! unat i)] else [fst (pairs ! unat i)]))
     | _ \<Rightarrow> Err Panicked)"

definition for_next_generic :: "nat \<Rightarrow> nat \<Rightarrow> nat \<Rightarrow> span \<Rightarrow> ('e, nat option) vm_m" where
  "for_next_generic num_vars exit body sp fr =
     (let st = fr_stack fr; len = length st in
      if len < num_vars + 2 then Err Panicked
      else res_bind (for_generic num_vars (st ! (len - num_vars - 2)) (st ! (len - num_vars - 1)) sp) (\<lambda>r.
        let rest = take (len - num_vars - 1) st in
        case r of
          None \<Rightarrow> leave_loop exit (fr\<lparr>fr_stack := rest\<rparr>)
        | Some (i, vs) \<Rightarrow> Ok (Some body, fr\<lparr>fr_stack := rest @ VInt i # vs\<rparr>)))"

definition for_next :: "rstring list \<Rightarrow> nat \<Rightarrow> nat \<Rightarrow> span \<Rightarrow> ('e, nat option) vm_m" where
  "for_next vars exit body sp = (\<lambda>fr. case (if length vars = 1 then for_next_fast exit body fr else None) of
       Some r \<Rightarrow> r
     | None \<Rightarrow> for_next_generic (length vars) exit body sp fr)"

definition vm_break :: "nat \<Rightarrow> span \<Rightarrow> ('e, nat option) vm_m" where
  "vm_break fidx sp = vm_bind pop_loop (\<lambda>l. case l of
       None \<Rightarrow> vm_fail ''`break` outside of a loop'' sp
     | Some li \<Rightarrow>
         if li_frame_idx li \<noteq> fidx then vm_fail ''`break` outside of a loop'' sp
         else vm_bind (vm_truncate (li_stack_base li + 1)) (\<lambda>_.
           vm_bind (vm_set_env (li_env li)) (\<lambda>_. vm_goto (li_exit li))))"

definition vm_continue :: "nat \<Rightarrow> span \<Rightarrow> ('e, nat option) vm_m" where
  "vm_continue fidx sp = vm_bind last_loop (\<lambda>l. case l of
       None \<Rightarrow> vm_fail ''`continue` outside of a loop'' sp
     | Some li \<Rightarrow>
         if li_frame_idx li \<noteq> fidx then vm_fail ''`continue` outside of a loop'' sp
         else vm_bind (vm_truncate (li_stack_base li + 1 + li_slots li)) (\<lambda>_.
           vm_bind (vm_set_env (li_env li)) (\<lambda>_. vm_goto (li_header li))))"

definition while_cond :: "nat \<Rightarrow> span \<Rightarrow> ('e, nat option) vm_m" where
  "while_cond exit sp = vm_bind vm_pop (\<lambda>c. case c of
       VBool b \<Rightarrow> if b then vm_next else leave_loop exit
     | _ \<Rightarrow> vm_fail ''`while` condition must be a bool'' sp)"

definition set_loop_result :: "('e, nat option) vm_m" where
  "set_loop_result = vm_bind vm_pop (\<lambda>v. vm_bind last_loop (\<lambda>l. vm_bind (vm_unwrap l) (\<lambda>li.
     (\<lambda>fr. if li_stack_base li < length (fr_stack fr)
       then Ok (None, fr\<lparr>fr_stack := (fr_stack fr)[li_stack_base li := v]\<rparr>) else Err Panicked))))"

section \<open>Data\<close>

definition unpack_tuple :: "host \<Rightarrow> u8 \<Rightarrow> ('e, nat option) vm_m" where
  "unpack_tuple H n = vm_bind vm_pop (\<lambda>v. case v of
       VArray items \<Rightarrow>
         if length items \<noteq> unat n
         then vm_fail (''expected tuple with '' @ show_nat (unat n) @ '' elements, found '' @ show_nat (length items)) (Span 0 0)
         else (\<lambda>fr. Ok (None, fr\<lparr>fr_stack := fr_stack fr @ rev items\<rparr>))
     | _ \<Rightarrow> vm_fail (''cannot unpack a value of type `'' @ h_show H v @ ''`'') (Span 0 0))"

definition array_push :: "host \<Rightarrow> rt_value \<Rightarrow> rt_value \<Rightarrow> span \<Rightarrow> (eval_error, rt_value) result" where
  "array_push H arr v sp = (case arr of
       VArray a \<Rightarrow> Ok (VArray (a @ [v]))
     | _ \<Rightarrow> Err (EvalError (''ArrayPush: expected array, found `'' @ h_show H arr @ ''`'') sp))"

fun pair_up :: "'a list \<Rightarrow> ('a \<times> 'a) list" where
  "pair_up (k # v # xs) = (k, v) # pair_up xs"
| "pair_up _ = []"

definition slice_bound :: "host \<Rightarrow> rt_value \<Rightarrow> span \<Rightarrow> (eval_error, i64 option) result" where
  "slice_bound H v sp = (case v of
       VInt i \<Rightarrow> Ok (Some i)
     | VUnit \<Rightarrow> Ok None
     | _ \<Rightarrow> Err (EvalError (''slice bound must be `int`, found `'' @ h_show H v @ ''`'') sp))"

definition make_range :: "rt_value \<Rightarrow> rt_value \<Rightarrow> span \<Rightarrow> (eval_error, rt_value) result" where
  "make_range s e sp = (case (s, e) of
       (VInt a, VInt b) \<Rightarrow> Ok (VRange a b 1)
     | _ \<Rightarrow> Err (EvalError ''range bounds must be integers'' sp))"

definition make_variant :: "rstring \<Rightarrow> rt_value option \<Rightarrow> span \<Rightarrow> (eval_error, rt_value) result" where
  "make_variant name av sp =
     (let name = str_text name in
      if name = ''ok'' then (case av of Some v \<Rightarrow> Ok (VResult (Inr v)) | None \<Rightarrow> Err (EvalError ''`.ok` requires an argument'' sp))
      else if name = ''err'' then (case av of Some v \<Rightarrow> Ok (VResult (Inl v)) | None \<Rightarrow> Err (EvalError ''`.err` requires an argument'' sp))
      else if name = ''some'' then (case av of Some v \<Rightarrow> Ok (VOption (Some v)) | None \<Rightarrow> Err (EvalError ''`.some` requires an argument'' sp))
      else if name = ''none'' then (case av of None \<Rightarrow> Ok (VOption None) | Some _ \<Rightarrow> Err (EvalError ''`.none` takes no argument'' sp))
      else Err (EvalError (''unknown variant constructor `.'' @ name @ ''`'') sp))"

definition elvis_test :: "rt_value \<Rightarrow> bool \<times> rt_value" where
  "elvis_test v = (case v of
       VOption (Some inner) \<Rightarrow> (True, inner)
     | VOption None \<Rightarrow> (False, VUnit)
     | VResult (Inr inner) \<Rightarrow> (True, inner)
     | VResult (Inl _) \<Rightarrow> (False, VUnit)
     | _ \<Rightarrow> (True, v))"

definition pop_n :: "u16 \<Rightarrow> span \<Rightarrow> ('e, nat option) vm_m" where
  "pop_n n sp = (\<lambda>fr. let len = length (fr_stack fr); cut = unat n + 1 in
     if len < cut
     then Err (Failed (EvalError (''block cleanup drops '' @ show_nat cut @ '' values from a '' @ show_nat len @ ''-deep stack'') sp))
     else Ok (None, fr\<lparr>fr_stack := take (len - cut) (fr_stack fr) @ [last (fr_stack fr)]\<rparr>))"

definition db_query :: "u16 \<Rightarrow> span \<Rightarrow> ('e, nat option) vm_m" where
  "db_query n sp = (\<lambda>fr. if length (fr_stack fr) < unat n + 1
     then Err (Failed (EvalError ''db query stack underflow in DbQuery'' sp)) else Ok (None, fr))"

section \<open>Dispatch\<close>

text \<open>\<open>base\<close> is the stack base of the running frame and \<open>fidx\<close> its index.\<close>

definition exec_core :: "host \<Rightarrow> nat \<Rightarrow> nat \<Rightarrow> vm_core \<Rightarrow> ('e, nat option) vm_m" where
  "exec_core H base fidx c = (case c of
       VPop \<Rightarrow> (\<lambda>fr. Ok (None, fr\<lparr>fr_stack := butlast (fr_stack fr)\<rparr>))
     | VSwap \<Rightarrow> vm_pop2 (\<lambda>l r. vm_bind (vm_push r) (\<lambda>_. push_next l))
     | VTruthy \<Rightarrow> vm_bind vm_pop (\<lambda>v. push_next (VBool (is_truthy v)))
     | VLoadSlot s \<Rightarrow> vm_bind (slot_get base s) push_next
     | VStoreSlot s \<Rightarrow> vm_bind vm_pop (set_next base s)
     | VTakeSlot s \<Rightarrow> vm_bind (take_home_slot base s) push_next
     | VVecPush h sp \<Rightarrow> pop_home h (\<lambda>elem. update_home base h (\<lambda>v. push_array H v elem sp))
     | VVecPushField h n sp \<Rightarrow> pop_home h (\<lambda>elem. update_home base h (\<lambda>v. field_push_take H v n elem sp))
     | VVecPushMethod h _ sp \<Rightarrow> pop_home h (\<lambda>elem. case h of
           HomeSlot s \<Rightarrow> vm_bind (take_home_slot base s) (\<lambda>v. case v of
               VArray vs \<Rightarrow> set_next base s (VArray (vs @ [elem]))
             | _ \<Rightarrow> vm_stop Left)
         | HomeEnv _ \<Rightarrow> vm_stop Left)
     | VSetFieldTake h n sp \<Rightarrow> pop_home h (\<lambda>v. update_home base h (\<lambda>obj. set_object_field H obj n v sp))
     | VSetFieldIndexTake h n sp \<Rightarrow> pop_home h (\<lambda>v. vm_bind vm_pop (\<lambda>ix.
         update_home base h (\<lambda>obj. set_field_index H obj n ix v sp)))
     | VStoreIndexTake h sp \<Rightarrow> pop_home h (\<lambda>v. vm_bind vm_pop (\<lambda>ix. update_home base h (\<lambda>obj. set_index H obj ix v sp)))
     | VCompoundIndexTake h op sp \<Rightarrow> pop_home h (\<lambda>rhs. vm_bind vm_pop (\<lambda>ix.
         update_home base h (\<lambda>obj. compound_index H obj ix op rhs sp)))
     | VFieldBinopTake h n op sp \<Rightarrow> pop_home h (\<lambda>rhs. update_home base h (\<lambda>obj. field_binop H obj n op rhs sp))
     | VGetFieldIndex h n sp \<Rightarrow> pop_home h (\<lambda>ix. vm_bind (read_home base h (\<lambda>obj. get_field_index H obj n ix sp)) push_next)
     | VGetFieldSlotIdx h idx dst sp \<Rightarrow> vm_bind (read_home base h (\<lambda>obj. field_at obj idx sp)) (set_next base dst)
     | VLenField h n sp \<Rightarrow> vm_bind (read_home base h (\<lambda>obj. len_field H obj n sp)) push_next
     | VIndexIntSlot arr idx dst sp \<Rightarrow> vm_bind (slots_binary base arr idx (\<lambda>ov iv. get_index H ov iv sp)) (set_next base dst)
     | VIndexDictInt dict key dst sp \<Rightarrow> vm_bind (slots_binary base dict key (\<lambda>ov iv. case ov of
           VDict _ \<Rightarrow> get_index H ov iv sp
         | _ \<Rightarrow> Err (EvalError ''expected dict for indexed access'' sp))) (set_next base dst)
     | VSlotAddInt dst src \<Rightarrow> vm_bind (slots_binary base dst src (\<lambda>l r. arith_fast H (+) BAdd l r (Span 0 0))) (set_next base dst)
     | VSlotInc s \<Rightarrow> vm_bind (slot_binary base s (VInt 1) (\<lambda>l r. arith_fast H (+) BAdd l r (Span 0 0))) (set_next base s)
     | VSlotAddIntImm dst i \<Rightarrow> vm_bind (slot_binary base dst (VInt i) (\<lambda>l r. arith_fast H (+) BAdd l r (Span 0 0))) (set_next base dst)
     | VSlotSubIntImm dst i \<Rightarrow> vm_bind (slot_binary base dst (VInt i) (\<lambda>l r. arith_fast H (-) BSub l r (Span 0 0))) (set_next base dst)
     | VSlotMulIntImm dst i \<Rightarrow> vm_bind (slot_binary base dst (VInt i) (\<lambda>l r. arith_fast H (*) BMul l r (Span 0 0))) (set_next base dst)
     | VSlotLessIntSlot a b \<Rightarrow> vm_bind (slots_binary base a b (\<lambda>l r. less_fast H l r (Span 0 0))) push_next
     | VSlotLessIntImm a i \<Rightarrow> vm_bind (slot_binary base a (VInt i) (\<lambda>l r. less_fast H l r (Span 0 0))) push_next
     | VSlotCmpIntSlot a b op \<Rightarrow> vm_bind (slots_binary base a b (\<lambda>l r. cmp_fast H op l r (Span 0 0))) push_next
     | VSlotCmpIntImm a i op \<Rightarrow> vm_bind (slot_binary base a (VInt i) (\<lambda>l r. cmp_fast H op l r (Span 0 0))) push_next
     | VSlotBinaryInt dst lhs rhs op \<Rightarrow> vm_bind (slots_binary base lhs rhs (\<lambda>l r. int_fast H op l r (Span 0 0))) (set_next base dst)
     | VSlotBinaryIntImm dst lhs i op \<Rightarrow> vm_bind (slot_binary base lhs (VInt i) (\<lambda>l r. int_fast H op l r (Span 0 0))) (set_next base dst)
     | VPushSlotIntImm a i op sp \<Rightarrow> vm_bind (slot_binary base a (VInt i) (\<lambda>l r. int_fast H op l r sp)) push_next
     | VJumpIfFalseSlotCmpIntImm a i op t sp \<Rightarrow>
         vm_bind (slot_binary base a (VInt i) (\<lambda>l r. cmp_fast H op l r sp)) (branch_bool if_not_bool t sp)
     | VJumpIfFalseSlotCmpIntSlot a b op t sp \<Rightarrow>
         vm_bind (slots_binary base a b (\<lambda>l r. cmp_fast H op l r sp)) (branch_bool if_not_bool t sp)
     | VBinOp op sp \<Rightarrow> pop_binary (\<lambda>l r. eval_binary H op l r sp)
     | VUnOp op sp \<Rightarrow> pop_unary (\<lambda>v. eval_unary H op v sp)
     | VIntAdd sp \<Rightarrow> pop_binary (\<lambda>l r. arith_fast H (+) BAdd l r sp)
     | VIntSub sp \<Rightarrow> pop_binary (\<lambda>l r. arith_fast H (-) BSub l r sp)
     | VIntMul sp \<Rightarrow> pop_binary (\<lambda>l r. arith_fast H (*) BMul l r sp)
     | VIntDiv sp \<Rightarrow> pop_binary (\<lambda>l r. div_fast H l r sp)
     | VIntRem sp \<Rightarrow> pop_binary (\<lambda>l r. rem_fast H l r sp)
     | VIntNeg sp \<Rightarrow> pop_unary (\<lambda>v. neg_fast H v sp)
     | VIntLt sp \<Rightarrow> pop_binary (\<lambda>l r. cmp_fast H BLt l r sp)
     | VIntGt sp \<Rightarrow> pop_binary (\<lambda>l r. cmp_fast H BGt l r sp)
     | VIntLe sp \<Rightarrow> pop_binary (\<lambda>l r. cmp_fast H BLe l r sp)
     | VIntGe sp \<Rightarrow> pop_binary (\<lambda>l r. cmp_fast H BGe l r sp)
     | VIntEq sp \<Rightarrow> pop_binary (\<lambda>l r. cmp_fast H BEq l r sp)
     | VIntNe sp \<Rightarrow> pop_binary (\<lambda>l r. cmp_fast H BNe l r sp)
     | VJump t \<Rightarrow> vm_goto t
     | VSafepoint \<Rightarrow> vm_next
     | VJumpIfFalse t \<Rightarrow> vm_bind vm_pop (\<lambda>v. if is_truthy v then vm_next else vm_goto t)
     | VJumpIfTrue t \<Rightarrow> vm_bind vm_pop (\<lambda>v. if is_truthy v then vm_goto t else vm_next)
     | VJumpIfFalseBool t sp \<Rightarrow> vm_bind vm_pop (branch_bool if_not_bool t sp)
     | VForSetup exit header sp n \<Rightarrow> for_setup H fidx exit header sp n
     | VForNext vars exit body in_env sp \<Rightarrow> if in_env then vm_stop Left else for_next vars exit body sp
     | VWhileSetup exit header \<Rightarrow> vm_bind vm_depth (\<lambda>len. vm_bind (push_loop exit header fidx len 0) (\<lambda>_. vm_next))
     | VWhileCond exit sp \<Rightarrow> while_cond exit sp
     | VBreak sp \<Rightarrow> vm_break fidx sp
     | VContinue sp \<Rightarrow> vm_continue fidx sp
     | VSetLoopResult \<Rightarrow> set_loop_result
     | VMakeArray n \<Rightarrow> vm_bind (vm_pops (unat n)) (\<lambda>items. push_next (VArray items))
     | VUnpackTuple n \<Rightarrow> unpack_tuple H n
     | VArrayPush sp \<Rightarrow> pop_binary (\<lambda>arr v. array_push H arr v sp)
     | VMakeDict n \<Rightarrow> vm_bind (vm_pops (2 * unat n)) (\<lambda>kvs. push_next (VDict (pair_up kvs)))
     | VIndexOp sp \<Rightarrow> pop_binary (\<lambda>ov iv. get_index H ov iv sp)
     | VStoreIndexOp sp \<Rightarrow> vm_bind vm_pop (\<lambda>v. pop_binary (\<lambda>ov iv. set_index H ov iv v sp))
     | VCompoundIndexOp op sp \<Rightarrow> vm_bind vm_pop (\<lambda>rhs. pop_binary (\<lambda>ov iv. compound_index H ov iv op rhs sp))
     | VSliceOp sp \<Rightarrow> vm_bind vm_pop (\<lambda>e. pop_binary (\<lambda>ov s.
         res_bind (slice_bound H s sp) (\<lambda>a. res_bind (slice_bound H e sp) (\<lambda>b. slice_value ov a b sp))))
     | VMakeRange sp \<Rightarrow> pop_binary (\<lambda>s e. make_range s e sp)
     | VGetField n sp \<Rightarrow> pop_unary (\<lambda>ov. object_field H ov n sp)
     | VGetFieldIdx i sp \<Rightarrow> pop_unary (\<lambda>ov. field_at ov i sp)
     | VSetField n sp \<Rightarrow> pop_binary (\<lambda>v ov. set_object_field H ov n v sp)
     | VCompoundFieldOp n op sp \<Rightarrow> pop_binary (\<lambda>ov rhs. field_binop H ov n op rhs sp)
     | VSetFieldIdx i sp \<Rightarrow> pop_binary (\<lambda>v ov. set_field_at ov i v sp)
     | VMakeVariant n has_arg sp \<Rightarrow>
         if has_arg then pop_unary (\<lambda>v. make_variant n (Some v) sp)
         else vm_bind (vm_eval (make_variant n None sp)) push_next
     | VMatchError sp \<Rightarrow> vm_fail ''non-exhaustive match: no arm matched'' sp
     | VElvis _ \<Rightarrow> vm_bind vm_pop (\<lambda>v. vm_bind (vm_push (VBool (fst (elvis_test v)))) (\<lambda>_. push_next (snd (elvis_test v))))
     | VElvisResult \<Rightarrow> vm_bind vm_pop (\<lambda>right. vm_pop2 (\<lambda>flag inner.
         push_next (if is_truthy flag then inner else right)))
     | VPopN n sp \<Rightarrow> pop_n n sp
     | VDbQuery n sp \<Rightarrow> db_query n sp
     | _ \<Rightarrow> vm_stop Left)"

text \<open>\<open>look\<close> is the constant pool; an index out of range panics.\<close>

definition exec_op :: "host \<Rightarrow> nat \<Rightarrow> nat \<Rightarrow> ('k \<Rightarrow> rt_value option) \<Rightarrow> ('k, 'c) vm_op \<Rightarrow> ('e, nat option) vm_m" where
  "exec_op H base fidx look i = (case i of
       VPushConst k \<Rightarrow> vm_bind (vm_unwrap (look k)) push_next
     | VSlotCmpConst a k op \<Rightarrow> vm_bind (vm_unwrap (look k)) (\<lambda>r.
         vm_bind (slot_binary base a r (\<lambda>l r. const_fast H op l r (Span 0 0))) push_next)
     | VCore c \<Rightarrow> exec_core H base fidx c
     | _ \<Rightarrow> vm_stop Left)"

text \<open>One turn of the loop at \<open>ip\<close>; \<open>n\<close> turns, unless the run stops before.\<close>

definition vm_step :: "host \<Rightarrow> nat \<Rightarrow> nat \<Rightarrow> ('k \<Rightarrow> rt_value option) \<Rightarrow> ('k, 'c) vm_op list \<Rightarrow> nat \<Rightarrow> 'e vm_frame \<Rightarrow>
    (stop, nat \<times> 'e vm_frame) result" where
  "vm_step H base fidx look code ip fr =
     (if ip \<ge> length code then Err Left
      else res_bind (exec_op H base fidx look (code ! ip) fr) (\<lambda>(t, fr').
        Ok (case t of None \<Rightarrow> ip + 1 | Some t \<Rightarrow> t, fr')))"

end
