(* ===== verification/Verify_Depth.thy ===== *)
theory Verify_Depth
  imports Ir_Module
begin

text \<open>
  The depth half of \<open>crates/zz_ir/src/verify.rs\<close>: the net stack effect of an instruction, its jump
  targets, and \<open>simulate\<close>, the worklist that assigns one operand-stack depth to every reachable
  instruction. The worklist is a Rust \<open>Vec\<close> used as a stack; here its top is the head of a list.

  A Rust panic (an index out of range, \<open>expect\<close> on \<open>None\<close>) is the error \<open>ir_panic\<close>, so that the
  absence of panics is a theorem. Depths are \<open>i64\<close> in the source; one instruction moves them by
  at most 131072, so they are plain integers here.
\<close>

section \<open>Effects and edges\<close>

primrec effect :: "op \<Rightarrow> int" where
  "effect (PushConst _) = 1"
| "effect Pop = - 1"
| "effect Swap = 0"
| "effect (PopN n) = - int (unat n)"
| "effect Truthy = 0"
| "effect (LoadVar _) = 1"
| "effect (LoadPath _) = 1"
| "effect (DefineVar _) = 0"
| "effect (StoreVar _) = - 1"
| "effect (StorePath _) = - 1"
| "effect (LoadSlot _) = 1"
| "effect (StoreSlot _) = - 1"
| "effect (TakeVar _) = 1"
| "effect (VecPushField _ _ _) = - 1"
| "effect (VecPushMethod _ _ _) = - 1"
| "effect (SetFieldTake _ _ _) = - 1"
| "effect (SetFieldIndexTake _ _ _) = - 2"
| "effect (FieldBinopTake _ _ _ _) = - 1"
| "effect (StoreIndexTake _ _) = - 2"
| "effect (CompoundIndexTake _ _ _) = - 2"
| "effect (GetFieldIndex _ _ _) = 0"
| "effect (LenField _ _ _) = 1"
| "effect (GetFieldSlotIdx _ _ _ _) = 0"
| "effect (IndexIntSlot _ _ _) = 0"
| "effect (IndexDictInt _ _ _) = 0"
| "effect (SlotAddInt _ _) = 0"
| "effect (SlotInc _) = 0"
| "effect (SlotAddIntImm _ _) = 0"
| "effect (SlotSubIntImm _ _) = 0"
| "effect (SlotMulIntImm _ _) = 0"
| "effect (SlotLessIntSlot _ _) = 1"
| "effect (SlotLessIntImm _ _) = 1"
| "effect (SlotCmpIntSlot _ _ _) = 1"
| "effect (SlotCmpIntImm _ _ _) = 1"
| "effect (SlotCmpConst _ _ _) = 1"
| "effect (SlotBinaryInt _ _ _ _) = 0"
| "effect (SlotBinaryIntImm _ _ _ _) = 0"
| "effect (PushSlotIntImm _ _ _) = 1"
| "effect (JumpIfFalseSlotCmpIntImm _ _ _ _) = 0"
| "effect (JumpIfFalseSlotCmpIntSlot _ _ _ _) = 0"
| "effect IntAdd = - 1"
| "effect IntSub = - 1"
| "effect IntMul = - 1"
| "effect IntDiv = - 1"
| "effect IntRem = - 1"
| "effect IntNeg = 0"
| "effect (BinOp _) = - 1"
| "effect (UnOp _) = 0"
| "effect (Jump _) = 0"
| "effect (JumpIfFalse _) = - 1"
| "effect (JumpIfTrue _) = - 1"
| "effect (JumpIfFalseBool _) = - 1"
| "effect Return = - 1"
| "effect (ForSetup _ _ num_vars) = 1 + int (unat num_vars)"
| "effect (ForNext _ _ _ _) = 0"
| "effect (WhileSetup _ _) = 0"
| "effect (WhileCond _) = - 1"
| "effect Break = 0"
| "effect Continue = 0"
| "effect SetLoopResult = - 1"
| "effect Safepoint = 0"
| "effect (MakeArray n) = 1 - int (unat n)"
| "effect (UnpackTuple n) = int (unat n) - 1"
| "effect ArrayPush = - 1"
| "effect (MakeDict n) = 1 - 2 * int (unat n)"
| "effect IndexOp = - 1"
| "effect StoreIndexOp = - 2"
| "effect (CompoundIndexOp _) = - 2"
| "effect SliceOp = - 2"
| "effect MakeRange = - 1"
| "effect (MakeStruct _ fs) = 1 - int (length fs)"
| "effect (GetField _) = 0"
| "effect (GetFieldIdx _) = 0"
| "effect (SetField _) = - 1"
| "effect (SetFieldIdx _) = - 1"
| "effect (CompoundFieldOp _ _) = - 1"
| "effect (RegisterStruct _ _) = 1"
| "effect (RegisterEnum _ _) = 1"
| "effect (MakeEnum _ _ argc) = 1 - int (unat argc)"
| "effect (MakeClosure _) = 1"
| "effect (MakeFunc _) = 1"
| "effect (SpawnClosure _) = 1"
| "effect (MakeVariant _ has_arg) = (if has_arg then 0 else 1)"
| "effect (MatchArm _ _ _ _) = - 1"
| "effect (MatchGuard _ _) = - 1"
| "effect MatchError = 0"
| "effect (IfLetMatch _ _ _) = - 1"
| "effect TryOp = 0"
| "effect Elvis = 1"
| "effect ElvisResult = - 2"
| "effect (Call argc) = - int (unat argc)"
| "effect (CallPath _ argc _) = 1 - int (unat argc)"
| "effect (CallMethod _ argc) = - int (unat argc)"
| "effect (CallNative _ argc) = 1 - int (unat argc)"
| "effect (Concat n) = 1 - int (unat n)"
| "effect FormatValue = - 1"
| "effect (DbQuery _) = 0"
| "effect EnterScope = 0"
| "effect ExitScope = 0"
| "effect DeferRecord = - 1"

text \<open>Loop set-ups do not transfer control to their exit, so they have no targets.\<close>

definition jump_targets :: "op \<Rightarrow> u32 list" where
  "jump_targets op = (case op of
       Jump t \<Rightarrow> [t]
     | JumpIfFalse t \<Rightarrow> [t]
     | JumpIfTrue t \<Rightarrow> [t]
     | JumpIfFalseBool t \<Rightarrow> [t]
     | JumpIfFalseSlotCmpIntImm _ _ _ target \<Rightarrow> [target]
     | JumpIfFalseSlotCmpIntSlot _ _ _ target \<Rightarrow> [target]
     | ForNext _ exit_pc body _ \<Rightarrow> [exit_pc, body]
     | WhileCond exit_pc \<Rightarrow> [exit_pc]
     | MatchArm _ next_pc _ _ \<Rightarrow> [next_pc]
     | MatchGuard next_pc _ \<Rightarrow> [next_pc]
     | IfLetMatch _ els _ \<Rightarrow> [els]
     | _ \<Rightarrow> [])"

text \<open>Whether control can reach the next instruction.\<close>

definition falls_through :: "op \<Rightarrow> bool" where
  "falls_through op = (case op of
       Jump _ \<Rightarrow> False
     | Return \<Rightarrow> False
     | Break \<Rightarrow> False
     | Continue \<Rightarrow> False
     | MatchError \<Rightarrow> False
     | ForNext _ _ _ _ \<Rightarrow> False
     | _ \<Rightarrow> True)"

text \<open>The target a restoring match instruction reaches with its scrutinee pushed back.\<close>

definition miss_pushback :: "op \<Rightarrow> nat option" where
  "miss_pushback op = (case op of
       MatchArm _ next_pc _ restore \<Rightarrow> if restore then Some (unat next_pc) else None
     | IfLetMatch _ els _ \<Rightarrow> Some (unat els)
     | _ \<Rightarrow> None)"

definition is_swap :: "op \<Rightarrow> bool" where
  "is_swap op = (case op of Swap \<Rightarrow> True | _ \<Rightarrow> False)"

definition is_pop :: "op \<Rightarrow> bool" where
  "is_pop op = (case op of Pop \<Rightarrow> True | _ \<Rightarrow> False)"

text \<open>The depth after an instruction; \<open>Pop\<close> on an empty stack does nothing.\<close>

definition depth_after :: "op \<Rightarrow> int \<Rightarrow> int" where
  "depth_after op depth = (if is_pop op then max (depth - 1) 0 else depth + effect op)"

section \<open>The simulation\<close>

record sim =
  sim_depth :: "int option list"
  sim_work :: "nat list"
  sim_max :: int
  sim_exits :: "nat \<Rightarrow> int option"

definition ir_panic :: "string \<Rightarrow> ir_error" where
  "ir_panic what = ir_error_new (''panic: '' @ what)"

definition span_at :: "span list \<Rightarrow> nat \<Rightarrow> span" where
  "span_at spans pc = (case vec_get spans pc of Some s \<Rightarrow> s | None \<Rightarrow> Span 0 0)"

text \<open>\<open>entry(k).or_insert(v)\<close>.\<close>

definition or_insert :: "(nat \<Rightarrow> 'b option) \<Rightarrow> nat \<Rightarrow> 'b \<Rightarrow> (nat \<Rightarrow> 'b option)" where
  "or_insert m k v = (case m k of Some _ \<Rightarrow> m | None \<Rightarrow> m(k := Some v))"

definition record_exit :: "op \<Rightarrow> int \<Rightarrow> (nat \<Rightarrow> int option) \<Rightarrow> (nat \<Rightarrow> int option)" where
  "record_exit op depth exits = (case op of
       ForSetup exit_pc _ _ \<Rightarrow> or_insert exits (unat exit_pc) (depth - 1)
     | WhileSetup exit_pc _ \<Rightarrow> or_insert exits (unat exit_pc) (depth + 1)
     | _ \<Rightarrow> exits)"

text \<open>A control-flow edge: agree with the recorded depth or record it and visit the target.\<close>

definition flow_edge :: "nat \<Rightarrow> int \<Rightarrow> (int \<Rightarrow> ir_error) \<Rightarrow> sim \<Rightarrow> (ir_error, sim) result" where
  "flow_edge t d err s =
     (case vec_get (sim_depth s) t of
        None \<Rightarrow> Inl (ir_panic ''index out of bounds'')
      | Some (Some d') \<Rightarrow> if d' \<noteq> d then Inl (err d') else Inr s
      | Some None \<Rightarrow>
          Inr (s\<lparr>sim_depth := (sim_depth s)[t := Some d], sim_work := t # sim_work s\<rparr>))"

definition join_mismatch :: "nat \<Rightarrow> int \<Rightarrow> nat \<Rightarrow> span list \<Rightarrow> int \<Rightarrow> ir_error" where
  "join_mismatch t edge pc spans d =
     ir_error_spanned (''join depth mismatch at '' @ show_nat t @ '': have '' @ show_int d @
       '', edge '' @ show_int edge @ '' (from '' @ show_nat pc @ '')'') (span_at spans t)"

text \<open>The depth an edge to \<open>t\<close> carries, with the loop exits recorded so far.\<close>

definition edge_depth :: "op \<Rightarrow> int \<Rightarrow> (nat \<Rightarrow> int option) \<Rightarrow> nat \<Rightarrow> int" where
  "edge_depth op depth exits t =
     (if miss_pushback op = Some t then depth
      else case exits t of Some loop_depth \<Rightarrow> loop_depth | None \<Rightarrow> depth_after op depth)"

primrec jump_edges ::
  "nat \<Rightarrow> nat \<Rightarrow> op \<Rightarrow> int \<Rightarrow> span list \<Rightarrow> u32 list \<Rightarrow> sim \<Rightarrow> (ir_error, sim) result" where
  "jump_edges n pc op depth spans [] s = Inr s"
| "jump_edges n pc op depth spans (t # ts) s =
     (if unat t > n then Inl (ir_error_spanned ''jump target out of range'' (span_at spans pc))
      else if unat t = n then jump_edges n pc op depth spans ts s
      else
        (let d = edge_depth op depth (sim_exits s) (unat t) in
         res_bind (flow_edge (unat t) d (join_mismatch (unat t) d pc spans) s)
           (jump_edges n pc op depth spans ts)))"

text \<open>The body of the loop for one instruction.\<close>

definition sim_step :: "op list \<Rightarrow> span list \<Rightarrow> nat \<Rightarrow> sim \<Rightarrow> (ir_error, sim) result" where
  "sim_step code spans pc s =
     (case vec_get (sim_depth s) pc of
        Some (Some depth) \<Rightarrow>
          (case vec_get code pc of
             None \<Rightarrow> Inl (ir_panic ''index out of bounds'')
           | Some op \<Rightarrow>
               (let n = length code;
                    after = depth_after op depth;
                    s1 = s\<lparr>sim_exits := record_exit op depth (sim_exits s),
                           sim_max := max (sim_max s) after\<rparr>
                in
                res_bind (guard (is_swap op \<and> depth < 2)
                   (ir_error_spanned ''swap needs two stack values'' (span_at spans pc))) (\<lambda>_.
                res_bind (guard (after < 0)
                   (ir_error_spanned (''stack underflow at '' @ show_nat pc) (span_at spans pc))) (\<lambda>_.
                res_bind
                  (if falls_through op \<and> pc + 1 < n then
                     flow_edge (pc + 1) after
                       (\<lambda>_. ir_error_spanned ''join depth mismatch'' (span_at spans (pc + 1))) s1
                   else Inr s1)
                  (jump_edges n pc op depth spans (jump_targets op))))))
      | _ \<Rightarrow> Inl (ir_panic ''verifier worklist''))"

subsection \<open>Termination\<close>

text \<open>
  Every instruction enters the worklist at most once, when its depth is first recorded, so the
  unrecorded instructions and the worklist together shrink by one in each iteration.
\<close>

definition sim_left :: "sim \<Rightarrow> nat" where
  "sim_left s = length (filter (\<lambda>d. d = None) (sim_depth s)) + length (sim_work s)"

lemma count_None_update:
  "t < length ds \<Longrightarrow> ds ! t = None \<Longrightarrow>
     Suc (length (filter (\<lambda>d. d = None) (ds[t := Some x]))) = length (filter (\<lambda>d. d = None) ds)"
proof (induction ds arbitrary: t)
  case (Cons d ds)
  then show ?case by (cases t) auto
qed simp

lemma flow_edge_left: "flow_edge t d e s = Inr s' \<Longrightarrow> sim_left s' = sim_left s"
  using count_None_update [of t "sim_depth s" d]
  by (auto simp: flow_edge_def sim_left_def split: option.splits if_splits)

lemma jump_edges_left: "jump_edges n pc op depth spans ts s = Inr s' \<Longrightarrow> sim_left s' = sim_left s"
  by (induction ts arbitrary: s)
    (auto simp: Let_def split: if_splits dest: flow_edge_left)

lemma sim_step_left: "sim_step code spans pc s = Inr s' \<Longrightarrow> sim_left s' = sim_left s"
  by (auto simp: sim_step_def Let_def split: option.splits if_splits
      dest!: jump_edges_left flow_edge_left) (simp_all add: sim_left_def)

function sim_loop :: "op list \<Rightarrow> span list \<Rightarrow> sim \<Rightarrow> (ir_error, sim) result" where
  "sim_loop code spans s =
     (case sim_work s of
        [] \<Rightarrow> Inr s
      | pc # rest \<Rightarrow>
          (case sim_step code spans pc (s\<lparr>sim_work := rest\<rparr>) of
             Inl e \<Rightarrow> Inl e
           | Inr s' \<Rightarrow> sim_loop code spans s'))"
  by pat_completeness auto
termination
proof (relation "measure (\<lambda>(code, spans, s). sim_left s)")
  fix code spans s pc rest s'
  assume "sim_work s = pc # rest" "sim_step code spans pc (s\<lparr>sim_work := rest\<rparr>) = Inr s'"
  then show "((code, spans, s'), (code, spans, s)) \<in> measure (\<lambda>(code, spans, s). sim_left s)"
    by (auto simp: sim_left_def dest!: sim_step_left)
qed simp

declare sim_loop.simps [simp del]

definition sim_start :: "nat \<Rightarrow> sim" where
  "sim_start n = \<lparr>sim_depth = (replicate n None)[0 := Some 0], sim_work = [0], sim_max = 0,
                  sim_exits = (\<lambda>_. None)\<rparr>"

definition simulate :: "op list \<Rightarrow> span list \<Rightarrow> (ir_error, u32) result" where
  "simulate code spans =
     (if code = [] then Inr 0
      else res_bind (sim_loop code spans (sim_start (length code)))
             (\<lambda>s. Inr (word_of_int (sim_max s))))"

definition max_stack_for :: "op list \<Rightarrow> (ir_error, u32) result" where
  "max_stack_for code = simulate code (replicate (length code) (Span 0 0))"

section \<open>Soundness\<close>

text \<open>
  The edge condition the simulation establishes. An edge into a loop exit carries the depth the
  set-up recorded, or the plain depth if the set-up had not been visited yet.
\<close>

definition edge_ok :: "op \<Rightarrow> int \<Rightarrow> (nat \<Rightarrow> int option) \<Rightarrow> nat \<Rightarrow> int \<Rightarrow> bool" where
  "edge_ok op d exits t e \<longleftrightarrow>
     (if miss_pushback op = Some t then e = d else e = depth_after op d \<or> exits t = Some e)"

definition depth_ok :: "op list \<Rightarrow> sim \<Rightarrow> nat \<Rightarrow> int \<Rightarrow> bool" where
  "depth_ok code s pc d \<longleftrightarrow>
     (is_swap (code ! pc) \<longrightarrow> 2 \<le> d) \<and>
     0 \<le> depth_after (code ! pc) d \<and> depth_after (code ! pc) d \<le> sim_max s \<and>
     (falls_through (code ! pc) \<and> pc + 1 < length code \<longrightarrow>
        sim_depth s ! (pc + 1) = Some (depth_after (code ! pc) d)) \<and>
     (\<forall>t \<in> set (jump_targets (code ! pc)). unat t \<le> length code \<and>
        (unat t < length code \<longrightarrow>
           (\<exists>e. sim_depth s ! unat t = Some e \<and> edge_ok (code ! pc) d (sim_exits s) (unat t) e)))"

text \<open>The simulation only ever adds information.\<close>

definition sim_le :: "sim \<Rightarrow> sim \<Rightarrow> bool" where
  "sim_le s s' \<longleftrightarrow>
     length (sim_depth s') = length (sim_depth s) \<and>
     (\<forall>t d. t < length (sim_depth s) \<longrightarrow> sim_depth s ! t = Some d \<longrightarrow> sim_depth s' ! t = Some d) \<and>
     sim_exits s \<subseteq>\<^sub>m sim_exits s' \<and> sim_max s \<le> sim_max s'"

text \<open>Instructions whose depth was recorded between two states are in the worklist.\<close>

definition sim_queued :: "sim \<Rightarrow> sim \<Rightarrow> bool" where
  "sim_queued s s' \<longleftrightarrow>
     set (sim_work s) \<subseteq> set (sim_work s') \<and>
     (\<forall>t < length (sim_depth s). sim_depth s ! t = None \<longrightarrow> sim_depth s' ! t \<noteq> None \<longrightarrow> t \<in> set (sim_work s')) \<and>
     (\<forall>t \<in> set (sim_work s') - set (sim_work s). t < length (sim_depth s') \<and> sim_depth s' ! t \<noteq> None)"

lemma sim_le_refl [simp]: "sim_le s s"
  by (simp add: sim_le_def)

lemma sim_le_trans: "sim_le a b \<Longrightarrow> sim_le b c \<Longrightarrow> sim_le a c"
  unfolding sim_le_def by (auto intro: map_le_trans)

lemma sim_queued_refl [simp]: "sim_queued s s"
  by (simp add: sim_queued_def)

lemma sim_queued_trans:
  assumes "sim_queued a b" "sim_queued b c" "sim_le a b" "sim_le b c"
  shows "sim_queued a c"
  using assms unfolding sim_queued_def sim_le_def
  by (safe; (metis DiffI not_None_eq subsetD)?)

lemma depth_ok_mono:
  assumes "depth_ok code s pc d" "sim_le s s'" "length (sim_depth s) = length code"
  shows "depth_ok code s' pc d"
proof -
  have ex: "sim_exits s t = Some e \<Longrightarrow> sim_exits s' t = Some e" for t e
    using assms(2) by (auto simp: sim_le_def map_le_def dom_def)
  show ?thesis
    using assms unfolding depth_ok_def sim_le_def edge_ok_def
    by (auto simp: ex split: if_splits) (meson ex order_trans)+
qed

lemma flow_edge_facts:
  assumes "flow_edge t d err s = Inr s'"
  shows "sim_le s s'" "sim_queued s s'" "t < length (sim_depth s)" "sim_depth s' ! t = Some d"
    "sim_exits s' = sim_exits s" "sim_max s' = sim_max s"
  using assms
  by (auto simp: flow_edge_def sim_le_def sim_queued_def nth_list_update split: option.splits if_splits)

lemma jump_edges_facts:
  assumes "jump_edges n pc op depth spans ts s = Inr s'" "length (sim_depth s) = n"
  shows "sim_le s s' \<and> sim_queued s s' \<and> sim_exits s' = sim_exits s \<and> sim_max s' = sim_max s \<and>
    (\<forall>t \<in> set ts. unat t \<le> n \<and>
       (unat t < n \<longrightarrow> sim_depth s' ! unat t = Some (edge_depth op depth (sim_exits s) (unat t))))"
  using assms
proof (induction ts arbitrary: s)
  case (Cons t ts)
  show ?case
  proof (cases "unat t = n")
    case True
    with Cons show ?thesis by auto
  next
    case False
    with Cons.prems(1) obtain s1 where t: "unat t < n"
      and e: "flow_edge (unat t) (edge_depth op depth (sim_exits s) (unat t))
                (join_mismatch (unat t) (edge_depth op depth (sim_exits s) (unat t)) pc spans) s = Inr s1"
      and r: "jump_edges n pc op depth spans ts s1 = Inr s'"
      by (auto simp: Let_def split: if_splits)
    note f = flow_edge_facts [OF e]
    have "length (sim_depth s1) = n" using f(1) Cons.prems(2) by (simp add: sim_le_def)
    note IH = Cons.IH [OF r this]
    have le: "sim_le s1 s'" using IH by blast
    have "sim_depth s' ! unat t = Some (edge_depth op depth (sim_exits s) (unat t))"
      using le f t \<open>length (sim_depth s1) = n\<close> by (auto simp: sim_le_def)
    then show ?thesis
      using IH f t sim_le_trans [OF f(1) le] sim_queued_trans [OF f(2) _ f(1) le] by auto
  qed
qed simp

lemma record_exit_le: "exits \<subseteq>\<^sub>m record_exit op depth exits"
proof -
  have "exits \<subseteq>\<^sub>m or_insert exits k v" for k v
    by (auto simp: map_le_def or_insert_def split: option.splits)
  then show ?thesis by (simp add: record_exit_def split: op.splits)
qed

lemma sim_step_facts:
  assumes "sim_step code spans pc s = Inr s'" "sim_depth s ! pc = Some d"
    "length (sim_depth s) = length code"
  shows "sim_le s s' \<and> sim_queued s s' \<and> depth_ok code s' pc d \<and>
         sim_max s' = max (sim_max s) (depth_after (code ! pc) d)"
proof -
  let ?op = "code ! pc" and ?n = "length code"
  let ?s1 = "s\<lparr>sim_exits := record_exit ?op d (sim_exits s),
               sim_max := max (sim_max s) (depth_after ?op d)\<rparr>"
  from assms obtain s2 where pc: "pc < ?n"
    and sw: "is_swap ?op \<longrightarrow> 2 \<le> d" and af: "0 \<le> depth_after ?op d"
    and ft: "(if falls_through ?op \<and> pc + 1 < ?n then
                flow_edge (pc + 1) (depth_after ?op d)
                  (\<lambda>_. ir_error_spanned ''join depth mismatch'' (span_at spans (pc + 1))) ?s1
              else Inr ?s1) = Inr s2"
    and je: "jump_edges ?n pc ?op d spans (jump_targets ?op) s2 = Inr s'"
    by (auto simp: sim_step_def Let_def split: option.splits if_splits)
  have 1: "sim_le s ?s1" "sim_queued s ?s1"
    using record_exit_le by (auto simp: sim_le_def sim_queued_def)
  have 2: "sim_le ?s1 s2 \<and> sim_queued ?s1 s2 \<and> sim_exits s2 = sim_exits ?s1 \<and> sim_max s2 = sim_max ?s1 \<and>
      (falls_through ?op \<and> pc + 1 < ?n \<longrightarrow> sim_depth s2 ! (pc + 1) = Some (depth_after ?op d))"
    using ft by (auto split: if_splits dest: flow_edge_facts)
  have len: "length (sim_depth s2) = ?n" using 1 2 assms(3) by (simp add: sim_le_def)
  note 3 = jump_edges_facts [OF je len]
  have le: "sim_le s s'" using 1 2 3 sim_le_trans by blast
  have qu: "sim_queued s s'"
    using 1 2 3 sim_queued_trans sim_le_trans by blast
  have fall: "falls_through ?op \<and> pc + 1 < ?n \<longrightarrow> sim_depth s' ! (pc + 1) = Some (depth_after ?op d)"
    using 2 3 len by (auto simp: sim_le_def)
  have "depth_ok code s' pc d"
    unfolding depth_ok_def edge_ok_def
    using sw af fall 2 3 by (auto simp: edge_depth_def split: option.splits)
  with le qu 2 3 show ?thesis by simp
qed

text \<open>The invariant of the worklist loop.\<close>

definition sim_inv :: "op list \<Rightarrow> sim \<Rightarrow> bool" where
  "sim_inv code s \<longleftrightarrow>
     length (sim_depth s) = length code \<and> sim_depth s ! 0 = Some 0 \<and>
     (\<forall>pc \<in> set (sim_work s). pc < length code \<and> sim_depth s ! pc \<noteq> None) \<and>
     (\<forall>pc < length code. \<forall>d. sim_depth s ! pc = Some d \<longrightarrow> pc \<notin> set (sim_work s) \<longrightarrow> depth_ok code s pc d) \<and>
     (sim_max s = 0 \<or> (\<exists>pc < length code. \<exists>d. sim_depth s ! pc = Some d \<and> depth_after (code ! pc) d = sim_max s))"

lemma sim_inv_start: "code \<noteq> [] \<Longrightarrow> sim_inv code (sim_start (length code))"
  by (auto simp: sim_inv_def sim_start_def nth_list_update)

lemma sim_inv_step:
  assumes "sim_inv code s" "sim_work s = pc # rest"
    "sim_step code spans pc (s\<lparr>sim_work := rest\<rparr>) = Inr s'"
  shows "sim_inv code s'"
proof -
  let ?s = "s\<lparr>sim_work := rest\<rparr>"
  from assms(1,2) obtain d where d: "sim_depth ?s ! pc = Some d" "pc < length code"
    by (auto simp: sim_inv_def)
  have len: "length (sim_depth ?s) = length code" using assms(1) by (simp add: sim_inv_def)
  have f: "sim_le ?s s'" "sim_queued ?s s'" "depth_ok code s' pc d"
    "sim_max s' = max (sim_max s) (depth_after (code ! pc) d)"
    using sim_step_facts [OF assms(3) d(1) len] by simp_all
  have keep: "sim_depth s ! t = Some e \<Longrightarrow> t < length code \<Longrightarrow> sim_depth s' ! t = Some e" for t e
    using f(1) len by (simp add: sim_le_def)
  have len': "length (sim_depth s') = length code" using f(1) len by (simp add: sim_le_def)
  have work: "t < length code \<and> sim_depth s' ! t \<noteq> None" if t: "t \<in> set (sim_work s')" for t
  proof (cases "t \<in> set rest")
    case True
    with assms(1,2) obtain e where "t < length code" "sim_depth s ! t = Some e"
      by (auto simp: sim_inv_def)
    with keep show ?thesis by simp
  next
    case False
    with t f(2) len' show ?thesis by (simp add: sim_queued_def)
  qed
  have ok: "depth_ok code s' t e" if "t < length code" "sim_depth s' ! t = Some e" "t \<notin> set (sim_work s')" for t e
  proof (cases "t = pc")
    case True
    with that keep [OF d(1) [simplified] d(2)] f(3) show ?thesis by simp
  next
    case False
    from that f(2) len have "sim_depth s ! t \<noteq> None" "t \<notin> set rest"
      unfolding sim_queued_def by auto
    then obtain e' where e': "sim_depth s ! t = Some e'" by blast
    with keep that have "e' = e" by fastforce
    with e' assms(1,2) False \<open>t \<notin> set rest\<close> that(1) have "depth_ok code s t e"
      by (auto simp: sim_inv_def)
    then have "depth_ok code ?s t e" by (simp add: depth_ok_def)
    then show ?thesis using depth_ok_mono f(1) len by blast
  qed
  have max: "sim_max s' = 0 \<or> (\<exists>pc < length code. \<exists>d. sim_depth s' ! pc = Some d \<and> depth_after (code ! pc) d = sim_max s')"
    using f(4) d keep assms(1) unfolding sim_inv_def
    by (simp add: max_def) (metis)
  have zero: "sim_depth s' ! 0 = Some 0"
  proof (rule keep)
    show "sim_depth s ! 0 = Some 0" using assms(1) by (simp add: sim_inv_def)
    show "0 < length code" using d(2) by linarith
  qed
  show ?thesis
    unfolding sim_inv_def using len' zero work ok max by blast
qed

lemma sim_loop_inv:
  assumes "sim_inv code s" "sim_loop code spans s = Inr s'"
  shows "sim_inv code s' \<and> sim_work s' = []"
  using assms
proof (induction code spans s rule: sim_loop.induct)
  case (1 code spans s)
  note step = sim_loop.simps [of code spans s]
  show ?case
  proof (cases "sim_work s")
    case Nil
    with 1 step show ?thesis by simp
  next
    case (Cons pc rest)
    with 1 step obtain s1 where s1: "sim_step code spans pc (s\<lparr>sim_work := rest\<rparr>) = Inr s1"
      "sim_loop code spans s1 = Inr s'"
      by (auto split: sum.splits)
    from sim_inv_step [OF "1.prems"(1) Cons s1(1)] s1 Cons show ?thesis
      by (intro "1.IH") auto
  qed
qed

subsection \<open>Bounds\<close>

text \<open>
  One instruction pushes at most 256 values, so every depth is at most 256 times the number of
  instructions recorded so far, and \<open>max_depth as u32\<close> does not wrap on code the decoder admits.
\<close>

lemma neg_uint_le: "0 \<le> k \<Longrightarrow> - uint w \<le> k" "0 \<le> k \<Longrightarrow> - (2 * uint w) \<le> k"
proof -
  have "0 \<le> uint w" by simp
  then show "0 \<le> k \<Longrightarrow> - uint w \<le> k" "0 \<le> k \<Longrightarrow> - (2 * uint w) \<le> k" by linarith+
qed

lemma effect_le: "effect op \<le> 256"
proof (cases op)
  case (ForSetup a b c)
  have "uint c < 256" using uint_bounded [of c] by simp
  with ForSetup show ?thesis by simp
next
  case (UnpackTuple c)
  have "uint c < 256" using uint_bounded [of c] by simp
  with UnpackTuple show ?thesis by simp
qed (simp_all add: neg_uint_le)

lemma depth_after_le: "depth_after op d \<le> max 0 d + 256"
  using effect_le [of op] by (auto simp: depth_after_def max_def)

definition recorded :: "sim \<Rightarrow> nat" where
  "recorded s = length (filter (\<lambda>d. d \<noteq> None) (sim_depth s))"

lemma recorded_le: "recorded s \<le> length (sim_depth s)"
  by (simp add: recorded_def)

lemma count_Some_update:
  "t < length ds \<Longrightarrow> ds ! t = None \<Longrightarrow>
     length (filter (\<lambda>d. d \<noteq> None) (ds[t := Some x])) = Suc (length (filter (\<lambda>d. d \<noteq> None) ds))"
proof (induction ds arbitrary: t)
  case (Cons d ds)
  then show ?case by (cases t) auto
qed simp

definition sim_bounded :: "sim \<Rightarrow> bool" where
  "sim_bounded s \<longleftrightarrow>
     1 \<le> recorded s \<and>
     (\<forall>t < length (sim_depth s). \<forall>d. sim_depth s ! t = Some d \<longrightarrow> d + 256 \<le> 256 * int (recorded s)) \<and>
     (\<forall>t x. sim_exits s t = Some x \<longrightarrow> x \<le> 256 * int (recorded s)) \<and>
     sim_max s \<le> 256 * int (recorded s)"

lemma flow_edge_bounded:
  assumes "flow_edge t d err s = Inr s'" "sim_bounded s" "d \<le> 256 * int (recorded s)"
  shows "sim_bounded s' \<and> recorded s \<le> recorded s'"
proof (cases "sim_depth s ! t")
  case None
  with assms(1) have t: "t < length (sim_depth s)"
    and s': "s' = s\<lparr>sim_depth := (sim_depth s)[t := Some d], sim_work := t # sim_work s\<rparr>"
    by (auto simp: flow_edge_def split: option.splits if_splits)
  have r: "recorded s' = Suc (recorded s)"
    using count_Some_update [OF t None, of d] by (simp add: recorded_def s')
  have "e + 256 \<le> 256 * int (Suc (recorded s))"
    if "k < length (sim_depth s)" "(sim_depth s)[t := Some d] ! k = Some e" for k e
  proof (cases "k = t")
    case False
    with that have "sim_depth s ! k = Some e" by simp
    with assms(2) that(1) have "e + 256 \<le> 256 * int (recorded s)" by (simp add: sim_bounded_def)
    then show ?thesis by simp
  qed (use that assms(3) in simp)
  moreover have "x \<le> 256 * int (Suc (recorded s))" if "sim_exits s k = Some x" for k x
  proof -
    from assms(2) that have "x \<le> 256 * int (recorded s)" unfolding sim_bounded_def by blast
    then show ?thesis by simp
  qed
  moreover have "sim_max s \<le> 256 * int (Suc (recorded s))"
    using assms(2) by (simp add: sim_bounded_def)
  ultimately show ?thesis
    unfolding sim_bounded_def r by (simp add: s')
next
  case (Some d')
  with assms show ?thesis
    by (auto simp: flow_edge_def split: option.splits if_splits)
qed

lemma edge_depth_bounded:
  assumes "sim_bounded s" "d + 256 \<le> 256 * int (recorded s)"
  shows "edge_depth op d (sim_exits s) t \<le> 256 * int (recorded s)"
    and "depth_after op d \<le> 256 * int (recorded s)"
proof -
  show after: "depth_after op d \<le> 256 * int (recorded s)"
    using depth_after_le [of op d] assms by (simp add: max_def sim_bounded_def split: if_splits)
  show "edge_depth op d (sim_exits s) t \<le> 256 * int (recorded s)"
    using after assms unfolding sim_bounded_def edge_depth_def by (auto split: option.splits)
qed

lemma jump_edges_bounded:
  assumes "jump_edges n pc op d spans ts s = Inr s'" "sim_bounded s" "d + 256 \<le> 256 * int (recorded s)"
  shows "sim_bounded s'"
  using assms
proof (induction ts arbitrary: s)
  case (Cons t ts)
  show ?case
  proof (cases "unat t = n")
    case True
    with Cons show ?thesis by (simp split: if_splits)
  next
    case False
    with Cons.prems(1) obtain s1 err where
      e: "flow_edge (unat t) (edge_depth op d (sim_exits s) (unat t)) err s = Inr s1"
      and r: "jump_edges n pc op d spans ts s1 = Inr s'"
      by (auto simp: Let_def split: if_splits)
    from flow_edge_bounded [OF e Cons.prems(2) edge_depth_bounded(1) [OF Cons.prems(2,3)]]
    have "sim_bounded s1" "recorded s \<le> recorded s1" by simp_all
    with Cons.IH [OF r] Cons.prems(3) show ?thesis by simp
  qed
qed simp

lemma sim_step_bounded:
  assumes "sim_step code spans pc s = Inr s'" "sim_bounded s"
  shows "sim_bounded s'"
proof -
  from assms(1) obtain d s2 where d: "pc < length (sim_depth s)" "sim_depth s ! pc = Some d"
    and ft: "(if falls_through (code ! pc) \<and> pc + 1 < length code then
                flow_edge (pc + 1) (depth_after (code ! pc) d)
                  (\<lambda>_. ir_error_spanned ''join depth mismatch'' (span_at spans (pc + 1)))
                  (s\<lparr>sim_exits := record_exit (code ! pc) d (sim_exits s),
                     sim_max := max (sim_max s) (depth_after (code ! pc) d)\<rparr>)
              else Inr (s\<lparr>sim_exits := record_exit (code ! pc) d (sim_exits s),
                     sim_max := max (sim_max s) (depth_after (code ! pc) d)\<rparr>)) = Inr s2"
    and je: "jump_edges (length code) pc (code ! pc) d spans (jump_targets (code ! pc)) s2 = Inr s'"
    by (auto simp: sim_step_def Let_def split: option.splits if_splits)
  let ?s1 = "s\<lparr>sim_exits := record_exit (code ! pc) d (sim_exits s),
               sim_max := max (sim_max s) (depth_after (code ! pc) d)\<rparr>"
  have b: "d + 256 \<le> 256 * int (recorded s)"
    using assms(2) d by (auto simp: sim_bounded_def)
  have rec: "recorded ?s1 = recorded s" by (simp add: recorded_def)
  have ex: "record_exit (code ! pc) d (sim_exits s) t = Some x \<Longrightarrow> x \<le> 256 * int (recorded s)" for t x
    using assms(2) b
    by (auto simp: record_exit_def or_insert_def sim_bounded_def split: op.splits option.splits if_splits)
  have b1: "sim_bounded ?s1"
    using assms(2) ex edge_depth_bounded(2) [OF assms(2) b, of "code ! pc"]
    unfolding sim_bounded_def rec by auto
  have "sim_bounded s2 \<and> recorded s \<le> recorded s2"
    using ft b1 flow_edge_bounded [of "pc + 1" "depth_after (code ! pc) d" _ ?s1 s2]
      edge_depth_bounded(2) [OF assms(2) b, of "code ! pc"] rec
    by (auto split: if_splits)
  with je b show ?thesis
    by (intro jump_edges_bounded [OF je]) auto
qed

lemma sim_loop_bounded:
  "sim_loop code spans s = Inr s' \<Longrightarrow> sim_bounded s \<Longrightarrow> sim_bounded s'"
proof (induction code spans s rule: sim_loop.induct)
  case (1 code spans s)
  have "sim_bounded (s\<lparr>sim_work := rest\<rparr>)" for rest
    using "1.prems"(2) by (simp add: sim_bounded_def recorded_def)
  note keep = this and step = sim_loop.simps [of code spans s]
  show ?case
  proof (cases "sim_work s")
    case Nil
    with 1 step show ?thesis by simp
  next
    case (Cons pc rest)
    with 1 step obtain s1 where s1: "sim_step code spans pc (s\<lparr>sim_work := rest\<rparr>) = Inr s1"
      "sim_loop code spans s1 = Inr s'"
      by (auto split: sum.splits)
    from sim_step_bounded [OF s1(1) keep] show ?thesis
      by (rule "1.IH" [OF Cons s1])
  qed
qed

lemma sim_bounded_start:
  assumes "0 < n" shows "sim_bounded (sim_start n)"
proof -
  have "recorded (sim_start n) = 1"
    using count_Some_update [of 0 "replicate n None" 0] assms
    by (simp add: recorded_def sim_start_def)
  then show ?thesis
    using assms by (auto simp: sim_bounded_def sim_start_def nth_list_update split: if_splits)
qed

subsection \<open>Loop exits\<close>

text \<open>The exit a loop set-up announces, and the depth its exit edges carry.\<close>

definition setup_exit :: "op \<Rightarrow> int \<Rightarrow> (nat \<times> int) option" where
  "setup_exit op d = (case op of
       ForSetup exit_pc _ _ \<Rightarrow> Some (unat exit_pc, d - 1)
     | WhileSetup exit_pc _ \<Rightarrow> Some (unat exit_pc, d + 1)
     | _ \<Rightarrow> None)"

lemma record_exit_origin:
  "record_exit op d m t = Some e \<Longrightarrow> m t = Some e \<or> setup_exit op d = Some (t, e)"
  by (auto simp: record_exit_def or_insert_def setup_exit_def split: op.splits option.splits if_splits)

definition exits_from :: "op list \<Rightarrow> (nat \<Rightarrow> int option) \<Rightarrow> (nat \<Rightarrow> int option) \<Rightarrow> bool" where
  "exits_from code D exits \<longleftrightarrow>
     (\<forall>t e. exits t = Some e \<longrightarrow>
        (\<exists>p < length code. \<exists>d. D p = Some d \<and> setup_exit (code ! p) d = Some (t, e)))"

lemma exits_fromD:
  assumes "exits_from code D exits" "exits t = Some e"
  obtains p d where "p < length code" "D p = Some d" "setup_exit (code ! p) d = Some (t, e)"
  using assms unfolding exits_from_def by blast

lemma exits_from_mono:
  assumes "exits_from code D exits" "\<And>t d. t < length code \<Longrightarrow> D t = Some d \<Longrightarrow> D' t = Some d"
  shows "exits_from code D' exits"
  using assms unfolding exits_from_def by blast

lemma sim_step_exits:
  assumes "sim_step code spans pc s = Inr s'" "sim_depth s ! pc = Some d"
    "length (sim_depth s) = length code"
  shows "sim_exits s' = record_exit (code ! pc) d (sim_exits s)"
proof -
  let ?s1 = "s\<lparr>sim_exits := record_exit (code ! pc) d (sim_exits s),
               sim_max := max (sim_max s) (depth_after (code ! pc) d)\<rparr>"
  from assms obtain s2 where ft: "(if falls_through (code ! pc) \<and> pc + 1 < length code then
                flow_edge (pc + 1) (depth_after (code ! pc) d)
                  (\<lambda>_. ir_error_spanned ''join depth mismatch'' (span_at spans (pc + 1))) ?s1
              else Inr ?s1) = Inr s2"
    and je: "jump_edges (length code) pc (code ! pc) d spans (jump_targets (code ! pc)) s2 = Inr s'"
    by (auto simp: sim_step_def Let_def split: option.splits if_splits)
  have "sim_exits s2 = sim_exits ?s1 \<and> length (sim_depth s2) = length (sim_depth ?s1)"
    using ft by (auto split: if_splits dest: flow_edge_facts simp: sim_le_def)
  with jump_edges_facts [OF je] assms(3) show ?thesis by simp
qed

lemma sim_step_exits_from:
  assumes "sim_step code spans pc s = Inr s'" "sim_depth s ! pc = Some d" "pc < length code"
    "length (sim_depth s) = length code" "exits_from code (nth (sim_depth s)) (sim_exits s)"
  shows "exits_from code (nth (sim_depth s')) (sim_exits s')"
proof -
  have le: "sim_le s s'" using sim_step_facts [OF assms(1,2,4)] by simp
  have keep: "sim_depth s' ! t = Some e" if "t < length code" "sim_depth s ! t = Some e" for t e
    using le that assms(4) by (simp add: sim_le_def)
  have old: "exits_from code (nth (sim_depth s')) (sim_exits s)"
    using exits_from_mono [OF assms(5)] keep by blast
  show ?thesis
    unfolding exits_from_def sim_step_exits [OF assms(1,2,4)]
  proof (intro allI impI)
    fix t e assume "record_exit (code ! pc) d (sim_exits s) t = Some e"
    then consider "sim_exits s t = Some e" | "setup_exit (code ! pc) d = Some (t, e)"
      using record_exit_origin by blast
    then show "\<exists>p < length code. \<exists>d. sim_depth s' ! p = Some d \<and> setup_exit (code ! p) d = Some (t, e)"
      using old keep [OF assms(3,2)] assms(3) unfolding exits_from_def by cases blast+
  qed
qed

lemma sim_loop_exits_from:
  "sim_loop code spans s = Inr s' \<Longrightarrow> sim_inv code s \<Longrightarrow>
     exits_from code (nth (sim_depth s)) (sim_exits s) \<Longrightarrow>
     exits_from code (nth (sim_depth s')) (sim_exits s')"
proof (induction code spans s rule: sim_loop.induct)
  case (1 code spans s)
  note step = sim_loop.simps [of code spans s]
  show ?case
  proof (cases "sim_work s")
    case Nil
    with 1 step show ?thesis by simp
  next
    case (Cons pc rest)
    with 1 step obtain s1 where s1: "sim_step code spans pc (s\<lparr>sim_work := rest\<rparr>) = Inr s1"
      "sim_loop code spans s1 = Inr s'"
      by (auto split: sum.splits)
    from "1.prems"(2) Cons obtain d where "sim_depth s ! pc = Some d" "pc < length code"
      "length (sim_depth s) = length code" by (auto simp: sim_inv_def)
    then have "exits_from code (nth (sim_depth s1)) (sim_exits s1)"
      using sim_step_exits_from [OF s1(1)] "1.prems"(3) by simp
    with "1.IH" [OF Cons s1] sim_inv_step [OF "1.prems"(2) Cons s1(1)] show ?thesis by simp
  qed
qed

subsection \<open>Certificates\<close>

text \<open>
  What a successful simulation certifies, without reference to the worklist: an assignment \<open>D\<close> of
  one depth to each instruction it reaches, closed under every edge, with \<open>M\<close> the least bound.
\<close>

definition cert_edge :: "op list \<Rightarrow> (nat \<Rightarrow> int option) \<Rightarrow> nat \<Rightarrow> int \<Rightarrow> nat \<Rightarrow> bool" where
  "cert_edge code D pc d t \<longleftrightarrow>
     (if miss_pushback (code ! pc) = Some t then D t = Some d
      else D t = Some (depth_after (code ! pc) d) \<or>
        (\<exists>p < length code. \<exists>dp e. D p = Some dp \<and> setup_exit (code ! p) dp = Some (t, e) \<and> D t = Some e))"

definition cert_at :: "op list \<Rightarrow> (nat \<Rightarrow> int option) \<Rightarrow> int \<Rightarrow> nat \<Rightarrow> int \<Rightarrow> bool" where
  "cert_at code D M pc d \<longleftrightarrow>
     (is_swap (code ! pc) \<longrightarrow> 2 \<le> d) \<and>
     0 \<le> depth_after (code ! pc) d \<and> depth_after (code ! pc) d \<le> M \<and>
     (falls_through (code ! pc) \<and> pc + 1 < length code \<longrightarrow>
        D (pc + 1) = Some (depth_after (code ! pc) d)) \<and>
     (\<forall>t \<in> set (jump_targets (code ! pc)). unat t \<le> length code \<and>
        (unat t < length code \<longrightarrow> cert_edge code D pc d (unat t)))"

definition depth_certificate :: "op list \<Rightarrow> (nat \<Rightarrow> int option) \<Rightarrow> int \<Rightarrow> bool" where
  "depth_certificate code D M \<longleftrightarrow>
     D 0 = Some 0 \<and>
     (\<forall>pc < length code. \<forall>d. D pc = Some d \<longrightarrow> cert_at code D M pc d) \<and>
     (M = 0 \<or> (\<exists>pc < length code. \<exists>d. D pc = Some d \<and> depth_after (code ! pc) d = M))"

lemma depth_ok_cert:
  assumes "depth_ok code s pc d" "exits_from code (nth (sim_depth s)) (sim_exits s)"
  shows "cert_at code (nth (sim_depth s)) (sim_max s) pc d"
proof -
  have "cert_edge code (nth (sim_depth s)) pc d (unat t)"
    if "t \<in> set (jump_targets (code ! pc))" "unat t < length code" for t
  proof -
    from assms(1) that obtain e where e: "sim_depth s ! unat t = Some e"
      "edge_ok (code ! pc) d (sim_exits s) (unat t) e"
      unfolding depth_ok_def by blast
    show ?thesis
    proof (cases "sim_exits s (unat t) = Some e")
      case True
      then obtain p dp where "p < length code" "sim_depth s ! p = Some dp"
        "setup_exit (code ! p) dp = Some (unat t, e)"
        using exits_fromD [OF assms(2)] by blast
      with e show ?thesis by (auto simp: edge_ok_def cert_edge_def split: if_splits)
    qed (use e in \<open>auto simp: edge_ok_def cert_edge_def split: if_splits\<close>)
  qed
  with assms(1) show ?thesis by (simp add: depth_ok_def cert_at_def)
qed

lemma sim_loop_certificate:
  assumes "sim_loop code spans (sim_start (length code)) = Inr s" "code \<noteq> []"
  shows "depth_certificate code (nth (sim_depth s)) (sim_max s)"
proof -
  have inv: "sim_inv code s" and fin: "sim_work s = []"
    using sim_loop_inv [OF sim_inv_start [OF assms(2)] assms(1)] by simp_all
  have ex: "exits_from code (nth (sim_depth s)) (sim_exits s)"
    by (rule sim_loop_exits_from [OF assms(1) sim_inv_start [OF assms(2)]])
      (simp add: exits_from_def sim_start_def)
  have "cert_at code (nth (sim_depth s)) (sim_max s) pc d"
    if "pc < length code" "sim_depth s ! pc = Some d" for pc d
    using inv fin that by (intro depth_ok_cert [OF _ ex]) (simp add: sim_inv_def)
  with inv show ?thesis by (simp add: depth_certificate_def sim_inv_def)
qed

lemma sim_loop_max:
  assumes "sim_loop code spans (sim_start (length code)) = Inr s" "code \<noteq> []"
  shows "0 \<le> sim_max s \<and> sim_max s \<le> 256 * int (length code)"
proof -
  have inv: "sim_inv code s"
    using sim_loop_inv [OF sim_inv_start [OF assms(2)] assms(1)] by simp
  have "sim_bounded s"
    using sim_loop_bounded [OF assms(1)] sim_bounded_start assms(2) by simp
  moreover have "recorded s \<le> length code"
    using recorded_le [of s] inv by (simp add: sim_inv_def)
  ultimately have "sim_max s \<le> 256 * int (length code)" by (simp add: sim_bounded_def)
  moreover have "0 \<le> sim_max s"
    using sim_loop_certificate [OF assms] by (auto simp: depth_certificate_def cert_at_def)
  ultimately show ?thesis by simp
qed

subsection \<open>Paths\<close>

text \<open>
  The depths along the paths of the control-flow graph. Edges into a loop exit are left out: there
  the virtual machine cuts the stack back to the depth its loop frame holds.
\<close>

definition loop_exits :: "op list \<Rightarrow> nat set" where
  "loop_exits code = {t. \<exists>op \<in> set code. \<exists>e. setup_exit op 0 = Some (t, e)}"

inductive depth_path :: "op list \<Rightarrow> nat \<Rightarrow> int \<Rightarrow> bool" for code where
  start: "code \<noteq> [] \<Longrightarrow> depth_path code 0 0"
| fall: "depth_path code pc d \<Longrightarrow> falls_through (code ! pc) \<Longrightarrow> pc + 1 < length code \<Longrightarrow>
    depth_path code (pc + 1) (depth_after (code ! pc) d)"
| miss: "depth_path code pc d \<Longrightarrow> t \<in> set (jump_targets (code ! pc)) \<Longrightarrow> unat t < length code \<Longrightarrow>
    miss_pushback (code ! pc) = Some (unat t) \<Longrightarrow> depth_path code (unat t) d"
| jump: "depth_path code pc d \<Longrightarrow> t \<in> set (jump_targets (code ! pc)) \<Longrightarrow> unat t < length code \<Longrightarrow>
    miss_pushback (code ! pc) \<noteq> Some (unat t) \<Longrightarrow> unat t \<notin> loop_exits code \<Longrightarrow>
    depth_path code (unat t) (depth_after (code ! pc) d)"

lemma setup_exit_target: "setup_exit op d = Some (t, e) \<Longrightarrow> \<exists>e'. setup_exit op d' = Some (t, e')"
  by (auto simp: setup_exit_def split: op.splits)

lemma cert_edge_plain:
  assumes "cert_edge code D pc d t" "miss_pushback (code ! pc) \<noteq> Some t" "t \<notin> loop_exits code"
  shows "D t = Some (depth_after (code ! pc) d)"
  using assms setup_exit_target unfolding cert_edge_def loop_exits_def
  by (auto simp: in_set_conv_nth) (metis nth_mem)

lemma certificate_path:
  assumes "depth_certificate code D M" "depth_path code pc d"
  shows "pc < length code \<and> D pc = Some d"
  using assms(2)
proof induction
  case start
  with assms(1) show ?case by (simp add: depth_certificate_def)
next
  case (fall pc d)
  with assms(1) have "cert_at code D M pc d" by (simp add: depth_certificate_def)
  with fall show ?case by (simp add: cert_at_def)
next
  case (miss pc d t)
  with assms(1) have "cert_at code D M pc d" by (simp add: depth_certificate_def)
  with miss have "cert_edge code D pc d (unat t)" by (simp add: cert_at_def)
  with miss show ?case by (simp add: cert_edge_def)
next
  case (jump pc d t)
  with assms(1) have "cert_at code D M pc d" by (simp add: depth_certificate_def)
  with jump have "cert_edge code D pc d (unat t)" by (simp add: cert_at_def)
  with jump cert_edge_plain show ?case by blast
qed

lemma simulate_certificate:
  assumes "simulate code spans = Inr M" "code \<noteq> []" "length code \<le> 10000000"
  shows "\<exists>D. depth_certificate code D (int (unat M))"
proof -
  from assms obtain s where s: "sim_loop code spans (sim_start (length code)) = Inr s"
    and M: "M = word_of_int (sim_max s)"
    by (cases "sim_loop code spans (sim_start (length code))") (auto simp: simulate_def)
  have "0 \<le> sim_max s" "sim_max s < 2 ^ 32"
    using sim_loop_max [OF s assms(2)] assms(3) by auto
  then have "int (unat M) = sim_max s"
    by (simp add: M word_of_int_inverse [where 'a = 32] unat_eq_nat_uint uint_word_of_int)
  with sim_loop_certificate [OF s assms(2)] show ?thesis by metis
qed

subsection \<open>Errors\<close>

text \<open>Every failure is a diagnosis attached to an instruction, so no index or \<open>expect\<close> panics.\<close>

definition diagnosed :: "nat \<Rightarrow> span list \<Rightarrow> ir_error \<Rightarrow> bool" where
  "diagnosed n spans e \<longleftrightarrow> (\<exists>pc < n. \<exists>m. e = ir_error_spanned m (span_at spans pc))"

lemma diagnosedI [intro]: "pc < n \<Longrightarrow> diagnosed n spans (ir_error_spanned m (span_at spans pc))"
  by (auto simp: diagnosed_def)

lemma diagnosed_not_panic: "diagnosed n spans e \<Longrightarrow> e \<noteq> ir_panic w"
  by (auto simp: diagnosed_def ir_panic_def ir_error_new_def ir_error_spanned_def)

lemma flow_edge_diagnosed:
  assumes "flow_edge t d err s = Inl e" "t < length (sim_depth s)" "\<And>x. diagnosed n spans (err x)"
  shows "diagnosed n spans e"
  using assms by (auto simp: flow_edge_def split: option.splits if_splits)

lemma jump_edges_diagnosed:
  assumes "jump_edges n pc op d spans ts s = Inl e" "length (sim_depth s) = n" "pc < n"
  shows "diagnosed n spans e"
  using assms
proof (induction ts arbitrary: s)
  case (Cons t ts)
  let ?d = "edge_depth op d (sim_exits s) (unat t)"
  let ?r = "flow_edge (unat t) ?d (join_mismatch (unat t) ?d pc spans) s"
  consider "unat t > n" | "unat t = n" | "unat t < n" by linarith
  then show ?case
  proof cases
    case 3
    show ?thesis
    proof (cases ?r)
      case (Inl e')
      with Cons.prems 3 have r: "?r = Inl e" by (simp add: Let_def)
      have "diagnosed n spans (join_mismatch (unat t) ?d pc spans x)" for x
        unfolding join_mismatch_def using 3 by (rule diagnosedI)
      with flow_edge_diagnosed [OF r] 3 Cons.prems(2) show ?thesis by simp
    next
      case (Inr s1)
      with flow_edge_facts(1) [OF Inr] Cons 3 show ?thesis
        by (simp add: Let_def sim_le_def)
    qed
  qed (use Cons in auto)
qed simp

lemma sim_step_diagnosed:
  assumes "sim_step code spans pc s = Inl e" "sim_depth s ! pc = Some d" "pc < length code"
    "length (sim_depth s) = length code"
  shows "diagnosed (length code) spans e"
proof -
  let ?op = "code ! pc" and ?n = "length code"
  let ?s1 = "s\<lparr>sim_exits := record_exit ?op d (sim_exits s),
               sim_max := max (sim_max s) (depth_after ?op d)\<rparr>"
  let ?f = "if falls_through ?op \<and> pc + 1 < ?n then
                flow_edge (pc + 1) (depth_after ?op d)
                  (\<lambda>_. ir_error_spanned ''join depth mismatch'' (span_at spans (pc + 1))) ?s1
              else Inr ?s1"
  have eq: "sim_step code spans pc s =
      res_bind (guard (is_swap ?op \<and> d < 2)
         (ir_error_spanned ''swap needs two stack values'' (span_at spans pc))) (\<lambda>_.
      res_bind (guard (depth_after ?op d < 0)
         (ir_error_spanned (''stack underflow at '' @ show_nat pc) (span_at spans pc))) (\<lambda>_.
      res_bind ?f (jump_edges ?n pc ?op d spans (jump_targets ?op))))"
  proof -
    have "vec_get (sim_depth s) pc = Some (Some d)" "vec_get code pc = Some ?op"
      using assms(2-4) by (simp_all add: vec_get_def)
    then show ?thesis unfolding sim_step_def Let_def by (simp only: option.case)
  qed
  consider m where "e = ir_error_spanned m (span_at spans pc)" | "?f = Inl e"
    | s2 where "?f = Inr s2" "jump_edges ?n pc ?op d spans (jump_targets ?op) s2 = Inl e"
    using assms(1) unfolding eq by (cases ?f) (auto simp: guard_def split: if_splits)
  then show ?thesis
  proof cases
    case 1
    with assms(3) show ?thesis by blast
  next
    case 2
    then have lt: "pc + 1 < ?n" and "flow_edge (pc + 1) (depth_after ?op d)
       (\<lambda>_. ir_error_spanned ''join depth mismatch'' (span_at spans (pc + 1))) ?s1 = Inl e"
      by (auto split: if_splits)
    from flow_edge_diagnosed [OF this(2)] lt assms(4) show ?thesis by (simp add: diagnosedI)
  next
    case (3 s2)
    have "length (sim_depth s2) = ?n"
      using 3(1) assms(4) flow_edge_facts(1) [of "pc + 1" "depth_after ?op d" _ ?s1 s2]
      by (auto simp: sim_le_def split: if_splits)
    with jump_edges_diagnosed [OF 3(2)] assms(3) show ?thesis by blast
  qed
qed

lemma sim_loop_diagnosed:
  "sim_loop code spans s = Inl e \<Longrightarrow> sim_inv code s \<Longrightarrow> diagnosed (length code) spans e"
proof (induction code spans s rule: sim_loop.induct)
  case (1 code spans s)
  note step = sim_loop.simps [of code spans s]
  show ?case
  proof (cases "sim_work s")
    case Nil
    with 1 step show ?thesis by simp
  next
    case (Cons pc rest)
    let ?r = "sim_step code spans pc (s\<lparr>sim_work := rest\<rparr>)"
    from "1.prems"(2) Cons obtain d where d: "sim_depth s ! pc = Some d" "pc < length code"
      "length (sim_depth s) = length code" by (auto simp: sim_inv_def)
    show ?thesis
    proof (cases ?r)
      case (Inl e')
      with 1 step Cons have "e' = e" by simp
      with Inl sim_step_diagnosed [of code spans pc _ e d] d show ?thesis by simp
    next
      case (Inr s1)
      with 1 step Cons have "sim_loop code spans s1 = Inl e" by simp
      with "1.IH" [OF Cons Inr] sim_inv_step [OF "1.prems"(2) Cons Inr] show ?thesis by simp
    qed
  qed
qed

lemma simulate_diagnosed:
  assumes "simulate code spans = Inl e" shows "diagnosed (length code) spans e"
proof (cases "code = []")
  case False
  with assms have "sim_loop code spans (sim_start (length code)) = Inl e"
    by (cases "sim_loop code spans (sim_start (length code))") (auto simp: simulate_def)
  with sim_loop_diagnosed sim_inv_start False show ?thesis by blast
qed (use assms in \<open>simp add: simulate_def\<close>)

end
