(* ===== verification/Verify_Infer.thy ===== *)
theory Verify_Infer
  imports Verify_Depth Verify_Types
begin

text \<open>
  The inference walk of \<open>crates/zz_ir/src/verify.rs\<close> (\<open>infer_func\<close>): a transfer function per
  instruction over stacks of abstract values, the successor edges, and the worklist that joins
  states until nothing changes. The head of a list is the top of the operand stack and the next
  element of the worklist (both are the end of a Rust \<open>Vec\<close>).
\<close>

section \<open>Context and checks\<close>

text \<open>What the closures of \<open>infer_func\<close> capture.\<close>

record infer_ctx =
  ic_module :: module_
  ic_func :: func_def
  ic_funcs_by_name :: "rstring \<Rightarrow> nat option"
  ic_prims :: prim_ids

abbreviation ic_span :: "infer_ctx \<Rightarrow> nat \<Rightarrow> span" where
  "ic_span cx pc \<equiv> span_at (fd_spans (ic_func cx)) pc"

abbreviation ic_of_id :: "infer_ctx \<Rightarrow> type_id \<Rightarrow> tv" where
  "ic_of_id cx \<equiv> tv_of_id (ic_module cx)"

abbreviation ic_prim :: "infer_ctx \<Rightarrow> type_id option \<Rightarrow> tv" where
  "ic_prim cx \<equiv> prim_tv (ic_module cx)"

definition tv_opt :: "tv \<Rightarrow> ir_type option" where
  "tv_opt v = (case v of TvU \<Rightarrow> None | TvT t \<Rightarrow> Some t)"

definition declared :: "infer_ctx \<Rightarrow> u16 \<Rightarrow> (ir_error, tv) result" where
  "declared cx s = (case vec_get (fd_locals (ic_func cx)) (unat s) of
       Some i \<Rightarrow> Inr (ic_of_id cx i)
     | None \<Rightarrow> Inl (ir_error_spanned (''slot '' @ show_nat (unat s) @ '' out of range for locals table'')
                     (ic_span cx 0)))"

definition check_store :: "infer_ctx \<Rightarrow> tv \<Rightarrow> u16 \<Rightarrow> span \<Rightarrow> (ir_error, unit) result" where
  "check_store cx inferred s sp =
     res_bind (declared cx s) (\<lambda>d.
       guard (\<not> compatible_tv (ic_module cx) inferred d)
         (IrError (MsgStore s (tv_opt inferred) (tv_opt d)) (Some sp)))"

definition check_exact_bool :: "tv \<Rightarrow> string \<Rightarrow> span \<Rightarrow> (ir_error, unit) result" where
  "check_exact_bool v what sp = (case v of
       TvT t \<Rightarrow> guard (t \<noteq> TBool \<and> t \<noteq> TError) (ir_error_spanned (''type mismatch: '' @ what) sp)
     | TvU \<Rightarrow> Inr ())"

definition check_exact_int :: "tv \<Rightarrow> string \<Rightarrow> span \<Rightarrow> (ir_error, unit) result" where
  "check_exact_int v what sp = (case v of
       TvT t \<Rightarrow> guard (t \<noteq> TInt \<and> t \<noteq> TError) (ir_error_spanned (''type mismatch: '' @ what) sp)
     | TvU \<Rightarrow> Inr ())"

definition pop_tv :: "infer_ctx \<Rightarrow> nat \<Rightarrow> tv list \<Rightarrow> (ir_error, tv \<times> tv list) result" where
  "pop_tv cx pc st = (case st of
       v # rest \<Rightarrow> Inr (v, rest)
     | [] \<Rightarrow> Inl (ir_error_spanned (''stack underflow at '' @ show_nat pc) (ic_span cx pc)))"

text \<open>\<open>for _ in 0..n { pop(..)?; }\<close>.\<close>

primrec pops_tv :: "infer_ctx \<Rightarrow> nat \<Rightarrow> nat \<Rightarrow> tv list \<Rightarrow> (ir_error, tv list) result" where
  "pops_tv cx pc 0 st = Inr st"
| "pops_tv cx pc (Suc n) st = res_bind (pop_tv cx pc st) (\<lambda>(_, rest). pops_tv cx pc n rest)"

text \<open>\<open>if st.len() < n { return Err("stack underflow") }\<close>.\<close>

definition need :: "infer_ctx \<Rightarrow> nat \<Rightarrow> nat \<Rightarrow> tv list \<Rightarrow> (ir_error, unit) result" where
  "need cx pc n st = guard (length st < n) (ir_error_spanned ''stack underflow'' (ic_span cx pc))"

definition func_display :: "infer_ctx \<Rightarrow> rstring" where
  "func_display cx = (case vec_get (m_strings (ic_module cx)) (str_ix (fd_name (ic_func cx))) of
       Some s \<Rightarrow> s | None \<Rightarrow> [])"

text \<open>The check of a value against the declared return type, on its three occasions.\<close>

definition check_return :: "infer_ctx \<Rightarrow> string \<Rightarrow> nat \<Rightarrow> tv \<Rightarrow> (ir_error, unit) result" where
  "check_return cx what pc v =
     (let ret = ic_of_id cx (sig_ret (fd_sig (ic_func cx))) in
      guard (\<not> compatible_tv (ic_module cx) v ret)
        (IrError (MsgReturn what (func_display cx) pc (tv_opt v) (tv_opt ret)) (Some (ic_span cx pc))))"

text \<open>The top value, if there is one, as the implicit result.\<close>

definition check_top :: "infer_ctx \<Rightarrow> string \<Rightarrow> nat \<Rightarrow> tv list \<Rightarrow> (ir_error, unit) result" where
  "check_top cx what pc st = (case st of [] \<Rightarrow> Inr () | v # _ \<Rightarrow> check_return cx what pc v)"

section \<open>Compound transfers\<close>

definition push_const :: "infer_ctx \<Rightarrow> const_id \<Rightarrow> tv list \<Rightarrow> (ir_error, tv list) result" where
  "push_const cx c st = (case tv_of_const (Suc (const_ix c)) (ic_module cx) c [] of
       Some (t, _) \<Rightarrow> Inr (t # st)
     | None \<Rightarrow> Inl (ir_panic ''stack overflow''))"

definition infer_binop :: "infer_ctx \<Rightarrow> nat \<Rightarrow> binop \<Rightarrow> tv list \<Rightarrow> (ir_error, tv list) result" where
  "infer_binop cx pc b st =
     res_bind (pop_tv cx pc st) (\<lambda>(r, st).
     res_bind (pop_tv cx pc st) (\<lambda>(l, st).
       Inr (binop_tv (ic_module cx) (ic_prims cx) b l r # st)))"

definition infer_unop :: "infer_ctx \<Rightarrow> nat \<Rightarrow> unop \<Rightarrow> tv list \<Rightarrow> (ir_error, tv list) result" where
  "infer_unop cx pc u st =
     res_bind (pop_tv cx pc st) (\<lambda>(v, st). Inr (unop_tv (ic_module cx) (ic_prims cx) u v # st))"

definition iterable :: "tv \<Rightarrow> bool" where
  "iterable it = (case it of
       TvU \<Rightarrow> True
     | TvT t \<Rightarrow> (case t of
           TRange _ \<Rightarrow> True
         | TArray _ \<Rightarrow> True
         | TBytes \<Rightarrow> True
         | TDict _ _ \<Rightarrow> True
         | TError \<Rightarrow> True
         | _ \<Rightarrow> False))"

definition infer_for_setup :: "infer_ctx \<Rightarrow> nat \<Rightarrow> nat \<Rightarrow> tv list \<Rightarrow> (ir_error, tv list) result" where
  "infer_for_setup cx pc num_vars st =
     res_bind (pop_tv cx pc st) (\<lambda>(it, st).
     res_bind (guard (\<not> iterable it)
        (ir_error_spanned ''type mismatch: cannot iterate non-iterable'' (ic_span cx pc))) (\<lambda>_.
       Inr (replicate num_vars (ic_prim cx (prims_unit (ic_prims cx))) @
            ic_prim cx (prims_int (ic_prims cx)) # it # st)))"

definition infer_for_next :: "infer_ctx \<Rightarrow> nat \<Rightarrow> nat \<Rightarrow> tv list \<Rightarrow> (ir_error, tv list) result" where
  "infer_for_next cx pc nvars st =
     res_bind (need cx pc (nvars + 2) st) (\<lambda>_.
       case drop nvars st of
         [] \<Rightarrow> Inl (ir_panic ''unwrap on None'')
       | idx # rest \<Rightarrow>
           res_bind (check_exact_int idx ''for index must be int'' (ic_span cx pc)) (\<lambda>_.
             let it = (case rest of [] \<Rightarrow> TvU | t # _ \<Rightarrow> t);
                 elems = iter_elem_tv (ic_module cx) (ic_prims cx) it nvars
             in Inr (rev elems @ ic_prim cx (prims_int (ic_prims cx)) # rest)))"

text \<open>\<open>module.types.iter().position(..)\<close> as a table id, with \<open>u32::MAX\<close> when there is none.\<close>

definition type_id_or_max :: "module_ \<Rightarrow> ir_type \<Rightarrow> type_id" where
  "type_id_or_max m t = (case type_pos m t of Some i \<Rightarrow> nth_type_id i | None \<Rightarrow> TypeId (- 1))"

definition infer_make_array :: "infer_ctx \<Rightarrow> nat \<Rightarrow> nat \<Rightarrow> tv list \<Rightarrow> (ir_error, tv list) result" where
  "infer_make_array cx pc k st =
     res_bind (need cx pc k st) (\<lambda>_.
       Inr ((case foldl join_opt None (take k st) of
               Some (TvT t) \<Rightarrow> scan_prim (ic_module cx) (TArray (type_id_or_max (ic_module cx) t))
             | _ \<Rightarrow> TvU) # drop k st))"

definition infer_unpack :: "infer_ctx \<Rightarrow> nat \<Rightarrow> nat \<Rightarrow> tv list \<Rightarrow> (ir_error, tv list) result" where
  "infer_unpack cx pc k st =
     res_bind (pop_tv cx pc st) (\<lambda>(v, st).
       Inr (replicate k (case v of
              TvT t \<Rightarrow> (case t of TArray e \<Rightarrow> ic_of_id cx e | _ \<Rightarrow> TvU)
            | TvU \<Rightarrow> TvU) @ st))"

definition push_elem :: "module_ \<Rightarrow> tv \<Rightarrow> tv \<Rightarrow> tv" where
  "push_elem m a v = (case a of
       TvU \<Rightarrow> TvU
     | TvT at \<Rightarrow> (case at of
           TArray e \<Rightarrow> (case v of
               TvT t \<Rightarrow> if expand m e = Some t then TvT (TArray e) else TvU
             | TvU \<Rightarrow> TvU)
         | _ \<Rightarrow> TvU))"

definition infer_array_push :: "infer_ctx \<Rightarrow> nat \<Rightarrow> tv list \<Rightarrow> (ir_error, tv list) result" where
  "infer_array_push cx pc st =
     res_bind (pop_tv cx pc st) (\<lambda>(v, st).
     res_bind (pop_tv cx pc st) (\<lambda>(a, st).
       Inr (push_elem (ic_module cx) a v # st)))"

fun dict_elems ::
  "nat \<Rightarrow> tv option \<Rightarrow> tv option \<Rightarrow> tv list \<Rightarrow> (ir_error, tv option \<times> tv option \<times> tv list) result" where
  "dict_elems 0 kt vt st = Inr (kt, vt, st)"
| "dict_elems (Suc k) kt vt (v # kk # st) = dict_elems k (join_opt kt kk) (join_opt vt v) st"
| "dict_elems (Suc k) kt vt _ = Inl (ir_panic ''unwrap on None'')"

definition dict_tv :: "module_ \<Rightarrow> tv option \<Rightarrow> tv option \<Rightarrow> tv" where
  "dict_tv m kt vt = (case (kt, vt) of
       (Some (TvT a), Some (TvT b)) \<Rightarrow>
         (case (type_pos m a, type_pos m b) of
            (Some x, Some y) \<Rightarrow> scan_prim m (TDict (nth_type_id x) (nth_type_id y))
          | _ \<Rightarrow> TvU)
     | _ \<Rightarrow> TvU)"

definition infer_make_dict :: "infer_ctx \<Rightarrow> nat \<Rightarrow> nat \<Rightarrow> tv list \<Rightarrow> (ir_error, tv list) result" where
  "infer_make_dict cx pc k st =
     res_bind (need cx pc (2 * k) st) (\<lambda>_.
     res_bind (dict_elems k None None st) (\<lambda>(kt, vt, st).
       Inr (dict_tv (ic_module cx) kt vt # st)))"

definition infer_index :: "infer_ctx \<Rightarrow> nat \<Rightarrow> tv list \<Rightarrow> (ir_error, tv list) result" where
  "infer_index cx pc st =
     res_bind (pop_tv cx pc st) (\<lambda>(_, st).
     res_bind (pop_tv cx pc st) (\<lambda>(ob, st).
       Inr (index_tv (ic_module cx) (ic_prims cx) ob # st)))"

text \<open>Pop \<open>k\<close> values and keep the object below them.\<close>

definition infer_keep_object :: "infer_ctx \<Rightarrow> nat \<Rightarrow> nat \<Rightarrow> tv list \<Rightarrow> (ir_error, tv list) result" where
  "infer_keep_object cx pc k st =
     res_bind (pops_tv cx pc k st) (\<lambda>st.
     res_bind (pop_tv cx pc st) (\<lambda>(ob, st). Inr (ob # st)))"

definition slice_tv :: "tv \<Rightarrow> tv" where
  "slice_tv ob = (case ob of
       TvU \<Rightarrow> TvU
     | TvT t \<Rightarrow> (case t of TArray _ \<Rightarrow> ob | TBytes \<Rightarrow> ob | TStr \<Rightarrow> ob | _ \<Rightarrow> TvU))"

definition infer_slice :: "infer_ctx \<Rightarrow> nat \<Rightarrow> tv list \<Rightarrow> (ir_error, tv list) result" where
  "infer_slice cx pc st =
     res_bind (pops_tv cx pc 2 st) (\<lambda>st.
     res_bind (pop_tv cx pc st) (\<lambda>(ob, st). Inr (slice_tv ob # st)))"

definition infer_range :: "infer_ctx \<Rightarrow> nat \<Rightarrow> tv list \<Rightarrow> (ir_error, tv list) result" where
  "infer_range cx pc st =
     res_bind (pops_tv cx pc 2 st) (\<lambda>st.
       Inr (scan_prim (ic_module cx)
              (case prims_int (ic_prims cx) of Some i \<Rightarrow> TRange i | None \<Rightarrow> TUnknown) # st))"

definition field_type :: "tv \<Rightarrow> ir_type" where
  "field_type v = (case v of TvT t \<Rightarrow> t | TvU \<Rightarrow> TUnknown)"

definition infer_make_struct :: "infer_ctx \<Rightarrow> nat \<Rightarrow> str_id \<Rightarrow> nat \<Rightarrow> tv list \<Rightarrow> (ir_error, tv list) result" where
  "infer_make_struct cx pc name nfields st =
     res_bind (need cx pc nfields st) (\<lambda>_.
       let args = rev (map field_type (take nfields st)) in
       Inr ((case those (map (type_pos (ic_module cx)) args) of
               Some ids \<Rightarrow> scan_prim (ic_module cx) (TStruct name (map nth_type_id ids))
             | None \<Rightarrow> TvU) # drop nfields st))"

text \<open>The payload of an option or result, as \<open>?\<close> and \<open>?:\<close> see it.\<close>

definition payload :: "tv \<Rightarrow> type_id option" where
  "payload v = (case v of
       TvU \<Rightarrow> None
     | TvT t \<Rightarrow> (case t of TOption i \<Rightarrow> Some i | TResult i _ \<Rightarrow> Some i | _ \<Rightarrow> None))"

definition infer_try :: "infer_ctx \<Rightarrow> nat \<Rightarrow> tv list \<Rightarrow> (ir_error, tv list) result" where
  "infer_try cx pc st =
     res_bind (pop_tv cx pc st) (\<lambda>(v, st).
       Inr ((case payload v of Some i \<Rightarrow> ic_of_id cx i | None \<Rightarrow> TvU) # st))"

definition infer_elvis :: "infer_ctx \<Rightarrow> nat \<Rightarrow> tv list \<Rightarrow> (ir_error, tv list) result" where
  "infer_elvis cx pc st =
     res_bind (pop_tv cx pc st) (\<lambda>(v, st).
       let b = ic_prim cx (prims_bool (ic_prims cx)); u = ic_prim cx (prims_unit (ic_prims cx)) in
       Inr ((case payload v of Some i \<Rightarrow> join_tv (ic_of_id cx i) u | None \<Rightarrow> v) # b # st))"

definition infer_elvis_result :: "infer_ctx \<Rightarrow> nat \<Rightarrow> tv list \<Rightarrow> (ir_error, tv list) result" where
  "infer_elvis_result cx pc st =
     res_bind (pop_tv cx pc st) (\<lambda>(r, st).
     res_bind (pop_tv cx pc st) (\<lambda>(i, st).
     res_bind (pop_tv cx pc st) (\<lambda>(_, st).
       Inr (join_tv i r # st))))"

text \<open>Pop a checked number of values and push a result.\<close>

definition infer_consume :: "infer_ctx \<Rightarrow> nat \<Rightarrow> nat \<Rightarrow> tv \<Rightarrow> tv list \<Rightarrow> (ir_error, tv list) result" where
  "infer_consume cx pc k v st = res_bind (need cx pc k st) (\<lambda>_. Inr (v # drop k st))"

definition show_rstring :: "rstring \<Rightarrow> string" where
  "show_rstring s = map (\<lambda>b. char_of (unat b)) s"

text \<open>\<open>join(".")\<close> of the path components; a dangling id contributes the empty string.\<close>

fun join_dot :: "rstring list \<Rightarrow> rstring" where
  "join_dot [] = []"
| "join_dot [s] = s"
| "join_dot (s # ss) = s @ 46 # join_dot ss"

definition path_name :: "module_ \<Rightarrow> str_id list \<Rightarrow> rstring" where
  "path_name m parts =
     join_dot (map (\<lambda>i. case vec_get (m_strings m) (str_ix i) of Some s \<Rightarrow> s | None \<Rightarrow> []) parts)"

definition check_args :: "infer_ctx \<Rightarrow> nat \<Rightarrow> rstring \<Rightarrow> func_def \<Rightarrow> tv list \<Rightarrow> (ir_error, unit) result" where
  "check_args cx pc name callee args =
     res_bind (guard (length args > length (sig_params (fd_sig callee)))
        (ir_error_spanned (''type mismatch: callpath '' @ show_rstring name @ '' takes at most '' @
           show_nat (length (sig_params (fd_sig callee))) @ '' args, got '' @ show_nat (length args))
           (ic_span cx pc))) (\<lambda>_.
       all_ok (\<lambda>(a, p). guard (\<not> compatible_tv (ic_module cx) a (ic_of_id cx p))
           (ir_error_spanned (''type mismatch: callpath '' @ show_rstring name @ '' argument type mismatch'')
              (ic_span cx pc)))
         (zip args (sig_params (fd_sig callee))))"

definition infer_call_path :: "infer_ctx \<Rightarrow> nat \<Rightarrow> str_id list \<Rightarrow> nat \<Rightarrow> tv list \<Rightarrow> (ir_error, tv list) result" where
  "infer_call_path cx pc parts argc st =
     res_bind (need cx pc argc st) (\<lambda>_.
       let args = rev (take argc st); name = path_name (ic_module cx) parts in
       case ic_funcs_by_name cx name of
         None \<Rightarrow> Inr (TvU # drop argc st)
       | Some tgt \<Rightarrow>
           (case vec_get (m_funcs (ic_module cx)) tgt of
              None \<Rightarrow> Inl (ir_panic ''index out of bounds'')
            | Some callee \<Rightarrow>
                res_bind (check_args cx pc name callee args) (\<lambda>_.
                  Inr (ic_of_id cx (sig_ret (fd_sig callee)) # drop argc st))))"

text \<open>\<open>DbQuery\<close> pops the parameters and the template and pushes template then parameters.\<close>

definition infer_db_query :: "infer_ctx \<Rightarrow> nat \<Rightarrow> nat \<Rightarrow> tv list \<Rightarrow> (ir_error, tv list) result" where
  "infer_db_query cx pc nparams st =
     res_bind (need cx pc (nparams + 1) st) (\<lambda>_.
       let tmp = take (nparams + 1) st in
       Inr (rev (last tmp # rev (butlast tmp)) @ drop (nparams + 1) st))"

text \<open>A slot must exist; the stack is unchanged or grows by a primitive.\<close>

definition need_slots :: "infer_ctx \<Rightarrow> u16 list \<Rightarrow> (ir_error, unit) result" where
  "need_slots cx ss = all_ok (\<lambda>s. res_bind (declared cx s) (\<lambda>_. Inr ())) ss"

definition infer_slots :: "infer_ctx \<Rightarrow> u16 list \<Rightarrow> tv list \<Rightarrow> tv list \<Rightarrow> (ir_error, tv list) result" where
  "infer_slots cx ss push st = res_bind (need_slots cx ss) (\<lambda>_. Inr (push @ st))"

section \<open>The transfer function\<close>

text \<open>
  One arm per instruction: the stack before to the stack after, or the error. \<open>Pop\<close> on an empty
  stack does nothing and \<open>DefineVar\<close> leaves its value in place.
\<close>

primrec infer_op :: "op \<Rightarrow> infer_ctx \<Rightarrow> nat \<Rightarrow> tv list \<Rightarrow> (ir_error, tv list) result" where
  "infer_op (PushConst c) cx pc st = push_const cx c st"
| "infer_op Pop cx pc st = Inr (tl st)"
| "infer_op Swap cx pc st =
     (case st of
         a # b # rest \<Rightarrow> Inr (b # a # rest)
       | _ \<Rightarrow> Inl (ir_error_spanned ''swap needs two stack values'' (ic_span cx pc)))"
| "infer_op (PopN k) cx pc st =
     res_bind (need cx pc (unat k + 1) st) (\<lambda>_.
       case st of
         [] \<Rightarrow> Inl (ir_panic ''unwrap on None'')
       | v # rest \<Rightarrow> Inr (v # drop (unat k) rest))"
| "infer_op Truthy cx pc st =
     res_bind (pop_tv cx pc st) (\<lambda>(_, st). Inr (ic_prim cx (prims_bool (ic_prims cx)) # st))"
| "infer_op (LoadVar _) cx pc st = Inr (TvU # st)"
| "infer_op (LoadPath _) cx pc st = Inr (TvU # st)"
| "infer_op (DefineVar _) cx pc st = Inr st"
| "infer_op (StoreVar _) cx pc st = pops_tv cx pc 1 st"
| "infer_op (StorePath _) cx pc st = pops_tv cx pc 1 st"
| "infer_op (LoadSlot s) cx pc st = res_bind (declared cx s) (\<lambda>t. Inr (t # st))"
| "infer_op (StoreSlot s) cx pc st =
     res_bind (pop_tv cx pc st) (\<lambda>(v, st).
       if is_take_store (fd_code (ic_func cx)) (m_consts (ic_module cx)) pc s then Inr st
       else res_bind (check_store cx v s (ic_span cx pc)) (\<lambda>_. Inr st))"
| "infer_op (TakeVar _) cx pc st = Inr (TvU # st)"
| "infer_op (VecPushField _ _ _) cx pc st = pops_tv cx pc 1 st"
| "infer_op (VecPushMethod _ _ _) cx pc st = pops_tv cx pc 1 st"
| "infer_op (SetFieldTake _ _ _) cx pc st = pops_tv cx pc 1 st"
| "infer_op (SetFieldIndexTake _ _ _) cx pc st = pops_tv cx pc 2 st"
| "infer_op (FieldBinopTake _ _ _ _) cx pc st = pops_tv cx pc 1 st"
| "infer_op (StoreIndexTake _ _) cx pc st = pops_tv cx pc 2 st"
| "infer_op (CompoundIndexTake _ _ _) cx pc st = pops_tv cx pc 2 st"
| "infer_op (GetFieldIndex _ _ _) cx pc st =
     res_bind (pop_tv cx pc st) (\<lambda>(_, st). Inr (TvU # st))"
| "infer_op (LenField _ _ _) cx pc st = Inr (TvU # st)"
| "infer_op (GetFieldSlotIdx _ _ _ dst) cx pc st = infer_slots cx [dst] [] st"
| "infer_op (IndexIntSlot _ _ dst) cx pc st = infer_slots cx [dst] [] st"
| "infer_op (IndexDictInt _ _ dst) cx pc st = infer_slots cx [dst] [] st"
| "infer_op (SlotAddInt dst src) cx pc st = infer_slots cx [dst, src] [] st"
| "infer_op (SlotInc s) cx pc st = infer_slots cx [s] [] st"
| "infer_op (SlotAddIntImm dst _) cx pc st = infer_slots cx [dst] [] st"
| "infer_op (SlotSubIntImm dst _) cx pc st = infer_slots cx [dst] [] st"
| "infer_op (SlotMulIntImm dst _) cx pc st = infer_slots cx [dst] [] st"
| "infer_op (SlotLessIntSlot a b) cx pc st =
     infer_slots cx [a, b] [ic_prim cx (prims_bool (ic_prims cx))] st"
| "infer_op (SlotLessIntImm a _) cx pc st =
     infer_slots cx [a] [ic_prim cx (prims_bool (ic_prims cx))] st"
| "infer_op (SlotCmpIntSlot a b _) cx pc st =
     infer_slots cx [a, b] [ic_prim cx (prims_bool (ic_prims cx))] st"
| "infer_op (SlotCmpIntImm a _ _) cx pc st =
     infer_slots cx [a] [ic_prim cx (prims_bool (ic_prims cx))] st"
| "infer_op (SlotCmpConst a k _) cx pc st =
     res_bind (need_slots cx [a]) (\<lambda>_.
     res_bind (guard (const_ix k \<ge> length (m_consts (ic_module cx)))
        (ir_error_spanned ''const id out of range'' (ic_span cx pc))) (\<lambda>_.
       Inr ([ic_prim cx (prims_bool (ic_prims cx))] @ st)))"
| "infer_op (SlotBinaryInt dst lhs rhs _) cx pc st = infer_slots cx [dst, lhs, rhs] [] st"
| "infer_op (SlotBinaryIntImm dst lhs _ _) cx pc st = infer_slots cx [dst, lhs] [] st"
| "infer_op (PushSlotIntImm a _ _) cx pc st = infer_slots cx [a] [ic_prim cx (prims_int (ic_prims cx))] st"
| "infer_op (JumpIfFalseSlotCmpIntImm a _ _ _) cx pc st = infer_slots cx [a] [] st"
| "infer_op (JumpIfFalseSlotCmpIntSlot a b _ _) cx pc st = infer_slots cx [a, b] [] st"
| "infer_op IntAdd cx pc st = infer_binop cx pc BAdd st"
| "infer_op IntSub cx pc st = infer_binop cx pc BSub st"
| "infer_op IntMul cx pc st = infer_binop cx pc BMul st"
| "infer_op IntDiv cx pc st = infer_binop cx pc BDiv st"
| "infer_op IntRem cx pc st = infer_binop cx pc BRem st"
| "infer_op IntNeg cx pc st = infer_unop cx pc UNeg st"
| "infer_op (BinOp b) cx pc st = infer_binop cx pc b st"
| "infer_op (UnOp u) cx pc st = infer_unop cx pc u st"
| "infer_op (Jump _) cx pc st = Inr st"
| "infer_op (JumpIfFalse _) cx pc st = pops_tv cx pc 1 st"
| "infer_op (JumpIfTrue _) cx pc st = pops_tv cx pc 1 st"
| "infer_op (JumpIfFalseBool _) cx pc st =
     res_bind (pop_tv cx pc st) (\<lambda>(v, st).
     res_bind (check_exact_bool v ''non-bool `if` condition'' (ic_span cx pc)) (\<lambda>_. Inr st))"
| "infer_op Return cx pc st =
     res_bind (pop_tv cx pc st) (\<lambda>(v, st).
     res_bind (check_return cx ''return type'' pc v) (\<lambda>_. Inr st))"
| "infer_op (ForSetup _ _ num_vars) cx pc st = infer_for_setup cx pc (unat num_vars) st"
| "infer_op (ForNext vars _ _ _) cx pc st = infer_for_next cx pc (length vars) st"
| "infer_op (WhileSetup _ _) cx pc st = Inr st"
| "infer_op (WhileCond _) cx pc st =
     res_bind (pop_tv cx pc st) (\<lambda>(v, st).
     res_bind (check_exact_bool v ''`while` condition must be a bool'' (ic_span cx pc)) (\<lambda>_. Inr st))"
| "infer_op Break cx pc st = Inr st"
| "infer_op Continue cx pc st = Inr st"
| "infer_op SetLoopResult cx pc st = pops_tv cx pc 1 st"
| "infer_op Safepoint cx pc st = Inr st"
| "infer_op (MakeArray k) cx pc st = infer_make_array cx pc (unat k) st"
| "infer_op (UnpackTuple k) cx pc st = infer_unpack cx pc (unat k) st"
| "infer_op ArrayPush cx pc st = infer_array_push cx pc st"
| "infer_op (MakeDict k) cx pc st = infer_make_dict cx pc (unat k) st"
| "infer_op IndexOp cx pc st = infer_index cx pc st"
| "infer_op StoreIndexOp cx pc st = infer_keep_object cx pc 2 st"
| "infer_op (CompoundIndexOp _) cx pc st = infer_keep_object cx pc 2 st"
| "infer_op SliceOp cx pc st = infer_slice cx pc st"
| "infer_op MakeRange cx pc st = infer_range cx pc st"
| "infer_op (MakeStruct name fs) cx pc st = infer_make_struct cx pc name (length fs) st"
| "infer_op (GetField _) cx pc st =
     res_bind (pop_tv cx pc st) (\<lambda>(_, st). Inr (TvU # st))"
| "infer_op (GetFieldIdx _) cx pc st =
     res_bind (pop_tv cx pc st) (\<lambda>(_, st). Inr (TvU # st))"
| "infer_op (SetField _) cx pc st = infer_keep_object cx pc 1 st"
| "infer_op (SetFieldIdx _) cx pc st = infer_keep_object cx pc 1 st"
| "infer_op (CompoundFieldOp _ _) cx pc st = infer_keep_object cx pc 1 st"
| "infer_op (RegisterStruct _ _) cx pc st = Inr (ic_prim cx (prims_unit (ic_prims cx)) # st)"
| "infer_op (RegisterEnum _ _) cx pc st = Inr (ic_prim cx (prims_unit (ic_prims cx)) # st)"
| "infer_op (MakeEnum _ _ argc) cx pc st =
     res_bind (pops_tv cx pc (unat argc) st) (\<lambda>st. Inr (TvU # st))"
| "infer_op (MakeClosure _) cx pc st = Inr (TvU # st)"
| "infer_op (MakeFunc _) cx pc st = Inr (TvU # st)"
| "infer_op (SpawnClosure _) cx pc st = Inr (TvU # st)"
| "infer_op (MakeVariant _ has_arg) cx pc st =
     res_bind (pops_tv cx pc (if has_arg then 1 else 0) st) (\<lambda>st. Inr (TvU # st))"
| "infer_op (MatchArm _ _ _ _) cx pc st = pops_tv cx pc 1 st"
| "infer_op (MatchGuard _ _) cx pc st = pops_tv cx pc 1 st"
| "infer_op MatchError cx pc st = Inr st"
| "infer_op (IfLetMatch _ _ _) cx pc st = pops_tv cx pc 1 st"
| "infer_op TryOp cx pc st = infer_try cx pc st"
| "infer_op Elvis cx pc st = infer_elvis cx pc st"
| "infer_op ElvisResult cx pc st = infer_elvis_result cx pc st"
| "infer_op (Call argc) cx pc st = infer_consume cx pc (unat argc + 1) TvU st"
| "infer_op (CallPath parts argc _) cx pc st = infer_call_path cx pc parts (unat argc) st"
| "infer_op (CallMethod _ argc) cx pc st = infer_consume cx pc (unat argc + 1) TvU st"
| "infer_op (CallNative _ argc) cx pc st = infer_consume cx pc (unat argc) TvU st"
| "infer_op (Concat k) cx pc st =
     infer_consume cx pc (unat k) (ic_prim cx (prims_str (ic_prims cx))) st"
| "infer_op FormatValue cx pc st =
     infer_consume cx pc 2 (ic_prim cx (prims_str (ic_prims cx))) st"
| "infer_op (DbQuery nparams) cx pc st = infer_db_query cx pc (unat nparams) st"
| "infer_op EnterScope cx pc st = Inr st"
| "infer_op ExitScope cx pc st = Inr st"
| "infer_op DeferRecord cx pc st = pops_tv cx pc 1 st"

section \<open>Successors\<close>

definition is_loop_exit :: "op \<Rightarrow> nat \<Rightarrow> bool" where
  "is_loop_exit op t = (case op of
       ForNext _ exit_pc _ _ \<Rightarrow> unat exit_pc = t
     | WhileCond exit_pc \<Rightarrow> unat exit_pc = t
     | _ \<Rightarrow> False)"

definition record_len :: "op \<Rightarrow> nat \<Rightarrow> (nat \<Rightarrow> nat option) \<Rightarrow> (nat \<Rightarrow> nat option)" where
  "record_len op len exits = (case op of
       ForSetup exit_pc _ _ \<Rightarrow> exits(unat exit_pc := Some (len - 1))
     | WhileSetup exit_pc _ \<Rightarrow> exits(unat exit_pc := Some (len + 1))
     | _ \<Rightarrow> exits)"

text \<open>\<open>truncate(want)\<close>, then the new top, if any, becomes unknown.\<close>

definition cut_state :: "nat \<Rightarrow> tv list \<Rightarrow> tv list" where
  "cut_state want st = (case drop (length st - want) st of [] \<Rightarrow> [] | _ # rest \<Rightarrow> TvU # rest)"

definition exit_state :: "(nat \<Rightarrow> nat option) \<Rightarrow> nat \<Rightarrow> tv list \<Rightarrow> tv list" where
  "exit_state exits t st = (case exits t of Some want \<Rightarrow> cut_state want st | None \<Rightarrow> st)"

text \<open>The loop over the jump targets: \<open>st0\<close> is the state before the instruction, \<open>st\<close> after it.\<close>

primrec jump_succs ::
  "infer_ctx \<Rightarrow> nat \<Rightarrow> op \<Rightarrow> (nat \<Rightarrow> nat option) \<Rightarrow> tv list \<Rightarrow> tv list \<Rightarrow> u32 list \<Rightarrow>
     (ir_error, (nat \<times> tv list) list) result" where
  "jump_succs cx pc op exits st0 st [] = Inr []"
| "jump_succs cx pc op exits st0 st (t # ts) =
     (let n = length (fd_code (ic_func cx)); t = unat t in
      if t > n then Inl (ir_error_spanned ''jump target out of range'' (ic_span cx pc))
      else if t = n then
        res_bind (check_top cx ''terminal-edge return'' pc st) (\<lambda>_.
          jump_succs cx pc op exits st0 st ts)
      else
        res_bind (jump_succs cx pc op exits st0 st ts) (\<lambda>rest.
          Inr ((t, if miss_pushback op = Some t then st0
                   else if is_loop_exit op t then exit_state exits t st
                   else st) # rest)))"

text \<open>Everything one visit computes before it merges: transfer, edges and the implicit return.\<close>

definition infer_edges ::
  "infer_ctx \<Rightarrow> nat \<Rightarrow> (nat \<Rightarrow> nat option) \<Rightarrow> tv list \<Rightarrow> (ir_error, (nat \<times> tv list) list) result" where
  "infer_edges cx pc exits st0 =
     (let code = fd_code (ic_func cx); op = code ! pc in
      res_bind (infer_op op cx pc st0) (\<lambda>st.
      res_bind (jump_succs cx pc op exits st0 st (jump_targets op)) (\<lambda>jumps.
      res_bind (if pc + 1 = length code \<and> falls_through op then check_top cx ''falloff return'' pc st
                else Inr ()) (\<lambda>_.
        Inr ((if falls_through op \<and> pc + 1 < length code then [(pc + 1, st)] else []) @ jumps)))))"

section \<open>The worklist\<close>

record inf =
  inf_states :: "tv list option list"
  inf_work :: "nat list"
  inf_exits :: "nat \<Rightarrow> nat option"

text \<open>One iteration of the final loop of a visit.\<close>

definition merge_edge :: "infer_ctx \<Rightarrow> nat \<times> tv list \<Rightarrow> inf \<Rightarrow> (ir_error, inf) result" where
  "merge_edge cx = (\<lambda>(t, state) s.
     (case vec_get (inf_states s) t of
        None \<Rightarrow> Inl (ir_panic ''index out of bounds'')
      | Some None \<Rightarrow>
          Inr (s\<lparr>inf_states := (inf_states s)[t := Some state], inf_work := t # inf_work s\<rparr>)
      | Some (Some cur) \<Rightarrow>
          if length cur \<noteq> length state then
            Inl (ir_error_spanned ''join state length mismatch'' (ic_span cx t))
          else
            (let merged = join_state cur state in
             if merged \<noteq> cur then
               Inr (s\<lparr>inf_states := (inf_states s)[t := Some merged], inf_work := t # inf_work s\<rparr>)
             else Inr s)))"

primrec merge_edges :: "infer_ctx \<Rightarrow> (nat \<times> tv list) list \<Rightarrow> inf \<Rightarrow> (ir_error, inf) result" where
  "merge_edges cx [] s = Inr s"
| "merge_edges cx (e # es) s = res_bind (merge_edge cx e s) (merge_edges cx es)"

definition infer_step :: "infer_ctx \<Rightarrow> nat \<Rightarrow> inf \<Rightarrow> (ir_error, inf) result" where
  "infer_step cx pc s =
     (case vec_get (inf_states s) pc of
        None \<Rightarrow> Inl (ir_panic ''index out of bounds'')
      | Some None \<Rightarrow> Inr s
      | Some (Some st) \<Rightarrow>
          (case vec_get (fd_code (ic_func cx)) pc of
             None \<Rightarrow> Inl (ir_panic ''index out of bounds'')
           | Some op \<Rightarrow>
               (let exits = record_len op (length st) (inf_exits s) in
                res_bind (infer_edges cx pc exits st) (\<lambda>es.
                  merge_edges cx es (s\<lparr>inf_exits := exits\<rparr>)))))"

subsection \<open>Termination\<close>

text \<open>
  A merge either records a first state, or turns at least one known value of an existing state into
  an unknown one, or changes nothing; a visit that changes nothing shortens the worklist.
\<close>

definition unseen :: "inf \<Rightarrow> nat" where
  "unseen s = length (filter (\<lambda>x. x = None) (inf_states s))"

definition known :: "tv list option \<Rightarrow> nat" where
  "known x = (case x of None \<Rightarrow> 0 | Some st \<Rightarrow> length (filter (\<lambda>v. v \<noteq> TvU) st))"

definition knowledge :: "inf \<Rightarrow> nat" where
  "knowledge s = sum_list (map known (inf_states s))"

definition inf_less :: "inf \<Rightarrow> inf \<Rightarrow> bool" where
  "inf_less s' s \<longleftrightarrow> unseen s' < unseen s \<or> unseen s' = unseen s \<and> knowledge s' < knowledge s"

lemma inf_less_trans: "inf_less a b \<Longrightarrow> inf_less b c \<Longrightarrow> inf_less a c"
  by (auto simp: inf_less_def)

lemma known_join:
  "length a = length b \<Longrightarrow> known (Some (join_state a b)) \<le> known (Some a) \<and>
     (join_state a b \<noteq> a \<longrightarrow> known (Some (join_state a b)) < known (Some a))"
proof (induction a b rule: list_induct2)
  case (Cons x xs y ys)
  then show ?case by (auto simp: join_state_def join_tv_def known_def)
qed (simp add: join_state_def)

lemma length_filter_update:
  "t < length xs \<Longrightarrow> P (xs ! t) = P y \<Longrightarrow> length (filter P (xs[t := y])) = length (filter P xs)"
proof (induction xs arbitrary: t)
  case (Cons x xs)
  then show ?case by (cases t) auto
qed simp

lemma merge_edge_less: "merge_edge cx e s = Inr s' \<Longrightarrow> s' = s \<or> inf_less s' s"
proof -
  assume m: "merge_edge cx e s = Inr s'"
  obtain t state where e: "e = (t, state)" by fastforce
  have t: "t < length (inf_states s)"
    using m e by (auto simp: merge_edge_def split: option.splits)
  show ?thesis
  proof (cases "inf_states s ! t")
    case None
    with m e t have "s' = s\<lparr>inf_states := (inf_states s)[t := Some state], inf_work := t # inf_work s\<rparr>"
      by (simp add: merge_edge_def split: option.splits)
    with count_None_update [OF t None, of state] show ?thesis
      by (simp add: inf_less_def unseen_def)
  next
    case (Some cur)
    then have len: "length cur = length state" and
      "join_state cur state \<noteq> cur \<Longrightarrow>
         s' = s\<lparr>inf_states := (inf_states s)[t := Some (join_state cur state)], inf_work := t # inf_work s\<rparr>"
      "join_state cur state = cur \<Longrightarrow> s' = s"
      using m e t by (auto simp: merge_edge_def Let_def split: option.splits if_splits)
    moreover have "unseen (s\<lparr>inf_states := (inf_states s)[t := Some x], inf_work := w\<rparr>) = unseen s" for x w
      using t Some unfolding unseen_def
      by (simp add: length_filter_update)
    ultimately show ?thesis
      using known_join [OF len] t Some sum_list_update [of t "map known (inf_states s)"]
        member_le_sum_list [of "known (Some cur)" "map known (inf_states s)"]
      by (force simp: inf_less_def knowledge_def map_update in_set_conv_nth)
  qed
qed

lemma merge_edges_less: "merge_edges cx es s = Inr s' \<Longrightarrow> s' = s \<or> inf_less s' s"
proof (induction es arbitrary: s)
  case (Cons e es)
  then obtain s1 where "merge_edge cx e s = Inr s1" "merge_edges cx es s1 = Inr s'" by auto
  with Cons.IH [OF this(2)] merge_edge_less [OF this(1)] inf_less_trans show ?case by blast
qed simp

lemma infer_step_less:
  assumes "infer_step cx pc s = Inr s'"
  shows "inf_states s' = inf_states s \<and> inf_work s' = inf_work s \<or> inf_less s' s"
proof -
  have *: "inf_less s' s" if "inf_less s' (s\<lparr>inf_exits := x\<rparr>)" for x
    using that by (simp add: inf_less_def unseen_def knowledge_def)
  from assms show ?thesis
    by (auto simp: infer_step_def Let_def split: option.splits dest!: merge_edges_less *)
qed

function infer_loop :: "infer_ctx \<Rightarrow> inf \<Rightarrow> (ir_error, inf) result" where
  "infer_loop cx s =
     (case inf_work s of
        [] \<Rightarrow> Inr s
      | pc # rest \<Rightarrow>
          (case infer_step cx pc (s\<lparr>inf_work := rest\<rparr>) of
             Inl e \<Rightarrow> Inl e
           | Inr s' \<Rightarrow> infer_loop cx s'))"
  by pat_completeness auto
termination
proof (relation "measures [\<lambda>(cx, s). unseen s, \<lambda>(cx, s). knowledge s, \<lambda>(cx, s). length (inf_work s)]")
  fix cx s pc rest s'
  assume w: "inf_work s = pc # rest" and st: "infer_step cx pc (s\<lparr>inf_work := rest\<rparr>) = Inr s'"
  from infer_step_less [OF st] w
  show "((cx, s'), (cx, s)) \<in>
      measures [\<lambda>(cx, s). unseen s, \<lambda>(cx, s). knowledge s, \<lambda>(cx, s). length (inf_work s)]"
    by (auto simp: inf_less_def unseen_def knowledge_def)
qed simp

declare infer_loop.simps [simp del]

definition inf_start :: "nat \<Rightarrow> inf" where
  "inf_start n = \<lparr>inf_states = (replicate n None)[0 := Some []], inf_work = [0], inf_exits = (\<lambda>_. None)\<rparr>"

definition infer_func :: "infer_ctx \<Rightarrow> (ir_error, unit) result" where
  "infer_func cx =
     (let n = length (fd_code (ic_func cx)) in
      if n = 0 then Inr ()
      else res_bind (infer_loop cx (inf_start n)) (\<lambda>_. Inr ()))"

section \<open>Heights\<close>

text \<open>
  The transfer function moves the height of the stack exactly as the depth simulation says: the two
  halves of the verifier agree on every instruction.
\<close>

named_theorems infer_defs

lemmas [infer_defs] = need_def push_const_def infer_binop_def infer_unop_def
  infer_for_setup_def infer_make_array_def infer_unpack_def infer_array_push_def
  infer_make_dict_def infer_index_def infer_keep_object_def infer_slice_def infer_range_def
  infer_make_struct_def infer_try_def infer_elvis_def infer_elvis_result_def infer_consume_def
  infer_call_path_def infer_db_query_def infer_slots_def

lemma pop_tv_Ok [simp]: "pop_tv cx pc st = Inr x \<longleftrightarrow> st = fst x # snd x"
  by (cases x) (auto simp: pop_tv_def split: list.splits)

lemma pops_tv_length: "pops_tv cx pc n st = Inr st' \<Longrightarrow> length st = length st' + n"
  by (induction n arbitrary: st) auto

lemma dict_elems_length: "dict_elems k kt vt st = Inr (kt', vt', st') \<Longrightarrow> length st = length st' + 2 * k"
  by (induction k kt vt st rule: dict_elems.induct) auto

lemma length_iter_elem_tv [simp]: "length (iter_elem_tv m prims it n) = n"
  by (auto simp: iter_elem_tv_def split: tv.splits ir_type.splits)

lemma infer_for_next_height: "infer_for_next cx pc n st = Inr st' \<Longrightarrow> length st' = length st"
proof -
  assume "infer_for_next cx pc n st = Inr st'"
  then obtain idx rest where "drop n st = idx # rest" "length st' = n + Suc (length rest)"
    by (auto simp: infer_for_next_def Let_def split: list.splits)
  then show ?thesis by (metis length_drop length_Cons add.commute diff_add_inverse2 le_add_diff_inverse
        linorder_le_cases drop_all list.distinct(1))
qed

lemma infer_op_height:
  assumes "infer_op op cx pc st = Inr st'"
  shows "int (length st') = depth_after op (int (length st))"
  using assms
  by (cases op)
    (auto simp: depth_after_def is_pop_def infer_defs Let_def
      split: list.splits option.splits if_splits prod.splits
      dest!: pops_tv_length dict_elems_length infer_for_next_height)

section \<open>Soundness of the worklist\<close>

definition states_le :: "tv list option list \<Rightarrow> tv list option list \<Rightarrow> bool" where
  "states_le S S' \<longleftrightarrow> length S' = length S \<and>
     (\<forall>t < length S. \<forall>x. S ! t = Some x \<longrightarrow> (\<exists>y. S' ! t = Some y \<and> state_le x y))"

definition covered :: "tv list option list \<Rightarrow> nat \<times> tv list \<Rightarrow> bool" where
  "covered S e \<longleftrightarrow> fst e < length S \<and> (\<exists>y. S ! fst e = Some y \<and> state_le (snd e) y)"

definition inf_queued :: "inf \<Rightarrow> inf \<Rightarrow> bool" where
  "inf_queued s s' \<longleftrightarrow>
     set (inf_work s) \<subseteq> set (inf_work s') \<and>
     (\<forall>t < length (inf_states s). inf_states s' ! t \<noteq> inf_states s ! t \<longrightarrow> t \<in> set (inf_work s')) \<and>
     (\<forall>t \<in> set (inf_work s') - set (inf_work s). t < length (inf_states s') \<and> inf_states s' ! t \<noteq> None)"

lemma states_le_refl [simp]: "states_le S S"
  by (auto simp: states_le_def tvj.stack_refl)

lemma states_le_trans: "states_le A B \<Longrightarrow> states_le B C \<Longrightarrow> states_le A C"
  unfolding states_le_def by (metis tvj.stack_trans)

lemma covered_mono: "covered S e \<Longrightarrow> states_le S S' \<Longrightarrow> covered S' e"
  unfolding covered_def states_le_def by (metis tvj.stack_trans)

lemma inf_queued_refl [simp]: "inf_queued s s"
  by (simp add: inf_queued_def)

lemma inf_queued_trans:
  assumes "inf_queued a b" "inf_queued b c" "states_le (inf_states a) (inf_states b)"
    "states_le (inf_states b) (inf_states c)"
  shows "inf_queued a c"
proof -
  have keep: "inf_states b ! t \<noteq> None \<Longrightarrow> t < length (inf_states b) \<Longrightarrow> inf_states c ! t \<noteq> None" for t
    using assms(4) by (auto simp: states_le_def)
  show ?thesis
    using assms keep unfolding inf_queued_def states_le_def
    by (safe; (metis DiffI not_None_eq subsetD)?)
qed

lemma merge_edge_facts:
  assumes "merge_edge cx e s = Inr s'"
  shows "states_le (inf_states s) (inf_states s') \<and> inf_queued s s' \<and> covered (inf_states s') e \<and>
         inf_exits s' = inf_exits s"
proof -
  obtain t state where e: "e = (t, state)" by fastforce
  have t: "t < length (inf_states s)"
    using assms e by (auto simp: merge_edge_def split: option.splits)
  have upd: ?thesis
    if s': "s' = s\<lparr>inf_states := (inf_states s)[t := Some x], inf_work := t # inf_work s\<rparr>"
      and x: "state_le state x" and old: "\<And>y. inf_states s ! t = Some y \<Longrightarrow> state_le y x" for x
    using t x old unfolding s' e states_le_def inf_queued_def covered_def
    by (auto simp: nth_list_update tvj.stack_refl)
  show ?thesis
  proof (cases "inf_states s ! t")
    case None
    with assms e t show ?thesis
      by (intro upd [of state]) (auto simp: merge_edge_def tvj.stack_refl split: option.splits)
  next
    case (Some cur)
    then have len: "length cur = length state"
      and ch: "join_state cur state \<noteq> cur \<Longrightarrow>
         s' = s\<lparr>inf_states := (inf_states s)[t := Some (join_state cur state)], inf_work := t # inf_work s\<rparr>"
      and same: "join_state cur state = cur \<Longrightarrow> s' = s"
      using assms e t by (auto simp: merge_edge_def Let_def split: option.splits if_splits)
    show ?thesis
    proof (cases "join_state cur state = cur")
      case True
      with join_state_absorb [OF len] same Some t e show ?thesis by (simp add: covered_def)
    next
      case False
      with ch Some join_state_ub1 [OF len] join_state_ub2 [OF len] show ?thesis
        by (intro upd [of "join_state cur state"]) auto
    qed
  qed
qed

lemma merge_edges_facts:
  assumes "merge_edges cx es s = Inr s'"
  shows "states_le (inf_states s) (inf_states s') \<and> inf_queued s s' \<and>
         (\<forall>e \<in> set es. covered (inf_states s') e) \<and> inf_exits s' = inf_exits s"
  using assms
proof (induction es arbitrary: s)
  case (Cons e es)
  then obtain s1 where s1: "merge_edge cx e s = Inr s1" "merge_edges cx es s1 = Inr s'" by auto
  from merge_edge_facts [OF s1(1)] Cons.IH [OF s1(2)] show ?case
    by (auto intro: states_le_trans inf_queued_trans covered_mono)
qed simp

text \<open>The height a loop set-up announces for its exit.\<close>

definition setup_len :: "op \<Rightarrow> nat \<Rightarrow> (nat \<times> nat) option" where
  "setup_len op len = (case op of
       ForSetup exit_pc _ _ \<Rightarrow> Some (unat exit_pc, len - 1)
     | WhileSetup exit_pc _ \<Rightarrow> Some (unat exit_pc, len + 1)
     | _ \<Rightarrow> None)"

lemma record_len_origin:
  "record_len op len m t = Some w \<Longrightarrow> m t = Some w \<or> setup_len op len = Some (t, w)"
  by (auto simp: record_len_def setup_len_def split: op.splits if_splits)

definition lens_from :: "op list \<Rightarrow> tv list option list \<Rightarrow> (nat \<Rightarrow> nat option) \<Rightarrow> bool" where
  "lens_from code S exits \<longleftrightarrow>
     (\<forall>t w. exits t = Some w \<longrightarrow>
        (\<exists>p < length S. \<exists>st. S ! p = Some st \<and> setup_len (code ! p) (length st) = Some (t, w)))"

lemma lens_from_mono: "lens_from code S exits \<Longrightarrow> states_le S S' \<Longrightarrow> lens_from code S' exits"
  unfolding lens_from_def states_le_def by (metis list_all2_lengthD)

text \<open>
  A visited instruction: its transfer succeeded on the recorded state, and every edge it computed, for
  exits that some set-up announced, is covered by the state recorded at the target.
\<close>

definition infer_ok :: "infer_ctx \<Rightarrow> tv list option list \<Rightarrow> nat \<Rightarrow> tv list \<Rightarrow> bool" where
  "infer_ok cx S pc st \<longleftrightarrow>
     (\<exists>exits es. lens_from (fd_code (ic_func cx)) S exits \<and> infer_edges cx pc exits st = Inr es \<and>
        (\<forall>e \<in> set es. covered S e))"

lemma infer_ok_mono: "infer_ok cx S pc st \<Longrightarrow> states_le S S' \<Longrightarrow> infer_ok cx S' pc st"
  unfolding infer_ok_def by (meson covered_mono lens_from_mono)

definition inf_inv :: "infer_ctx \<Rightarrow> inf \<Rightarrow> bool" where
  "inf_inv cx s \<longleftrightarrow>
     length (inf_states s) = length (fd_code (ic_func cx)) \<and> inf_states s ! 0 = Some [] \<and>
     lens_from (fd_code (ic_func cx)) (inf_states s) (inf_exits s) \<and>
     (\<forall>pc \<in> set (inf_work s). pc < length (inf_states s) \<and> inf_states s ! pc \<noteq> None) \<and>
     (\<forall>pc < length (inf_states s). \<forall>st. inf_states s ! pc = Some st \<longrightarrow> pc \<notin> set (inf_work s) \<longrightarrow>
        infer_ok cx (inf_states s) pc st)"

lemma infer_step_facts:
  assumes "infer_step cx pc s = Inr s'" "inf_states s ! pc = Some st" "pc < length (inf_states s)"
    "length (inf_states s) = length (fd_code (ic_func cx))"
    "lens_from (fd_code (ic_func cx)) (inf_states s) (inf_exits s)"
  shows "states_le (inf_states s) (inf_states s') \<and> inf_queued s s' \<and>
         lens_from (fd_code (ic_func cx)) (inf_states s') (inf_exits s') \<and>
         infer_ok cx (inf_states s') pc st"
proof -
  let ?code = "fd_code (ic_func cx)"
  let ?ex = "record_len (?code ! pc) (length st) (inf_exits s)"
  from assms(1-4) obtain es where es: "infer_edges cx pc ?ex st = Inr es"
    and me: "merge_edges cx es (s\<lparr>inf_exits := ?ex\<rparr>) = Inr s'"
    by (auto simp: infer_step_def Let_def split: option.splits)
  have f: "states_le (inf_states s) (inf_states s')" "inf_queued (s\<lparr>inf_exits := ?ex\<rparr>) s'"
    "\<forall>e \<in> set es. covered (inf_states s') e" "inf_exits s' = ?ex"
    using merge_edges_facts [OF me] by simp_all
  have "lens_from ?code (inf_states s) ?ex"
    unfolding lens_from_def
  proof (intro allI impI)
    fix t w assume "?ex t = Some w"
    then consider "inf_exits s t = Some w" | "setup_len (?code ! pc) (length st) = Some (t, w)"
      using record_len_origin by blast
    then show "\<exists>p < length (inf_states s). \<exists>st. inf_states s ! p = Some st \<and>
        setup_len (?code ! p) (length st) = Some (t, w)"
      using assms(2,3,5) unfolding lens_from_def by cases blast+
  qed
  then have "lens_from ?code (inf_states s') ?ex" using f(1) lens_from_mono by blast
  with f es show ?thesis by (auto simp: infer_ok_def inf_queued_def)
qed

lemma inf_inv_step:
  assumes "inf_inv cx s" "inf_work s = pc # rest" "infer_step cx pc (s\<lparr>inf_work := rest\<rparr>) = Inr s'"
  shows "inf_inv cx s'"
proof -
  let ?s = "s\<lparr>inf_work := rest\<rparr>"
  from assms(1,2) obtain st where st: "inf_states ?s ! pc = Some st" "pc < length (inf_states ?s)"
    "length (inf_states ?s) = length (fd_code (ic_func cx))"
    "lens_from (fd_code (ic_func cx)) (inf_states ?s) (inf_exits ?s)"
    by (auto simp: inf_inv_def)
  note f = infer_step_facts [OF assms(3) st]
  have le: "states_le (inf_states s) (inf_states s')" and q: "inf_queued ?s s'" using f by simp_all
  have len: "length (inf_states s') = length (inf_states s)" using le by (simp add: states_le_def)
  have work: "t < length (inf_states s') \<and> inf_states s' ! t \<noteq> None" if t: "t \<in> set (inf_work s')" for t
  proof (cases "t \<in> set rest")
    case True
    with assms(1,2) have "t < length (inf_states s)" "inf_states s ! t \<noteq> None"
      by (auto simp: inf_inv_def)
    with le show ?thesis by (auto simp: states_le_def)
  next
    case False
    with t q show ?thesis by (simp add: inf_queued_def)
  qed
  have ok: "infer_ok cx (inf_states s') t x"
    if t: "t < length (inf_states s')" "inf_states s' ! t = Some x" "t \<notin> set (inf_work s')" for t x
  proof -
    have same: "inf_states s ! t = Some x" and "t \<notin> set rest"
      using t q len unfolding inf_queued_def by auto
    show ?thesis
    proof (cases "t = pc")
      case True
      with same st(1) f show ?thesis by simp
    next
      case False
      with same \<open>t \<notin> set rest\<close> assms(1,2) t(1) len have "infer_ok cx (inf_states s) t x"
        by (auto simp: inf_inv_def)
      then show ?thesis using le infer_ok_mono by blast
    qed
  qed
  have "0 < length (inf_states s)" using st(2) by auto
  moreover have "inf_states s ! 0 = Some []" using assms(1) by (simp add: inf_inv_def)
  ultimately have "inf_states s' ! 0 = Some []"
    using le by (force simp: states_le_def)
  with f len st(3) work ok show ?thesis by (simp add: inf_inv_def)
qed

lemma infer_loop_inv:
  "infer_loop cx s = Inr s' \<Longrightarrow> inf_inv cx s \<Longrightarrow> inf_inv cx s' \<and> inf_work s' = []"
proof (induction cx s rule: infer_loop.induct)
  case (1 cx s)
  note step = infer_loop.simps [of cx s]
  show ?case
  proof (cases "inf_work s")
    case Nil
    with 1 step show ?thesis by simp
  next
    case (Cons pc rest)
    with 1 step obtain s1 where s1: "infer_step cx pc (s\<lparr>inf_work := rest\<rparr>) = Inr s1"
      "infer_loop cx s1 = Inr s'"
      by (auto split: sum.splits)
    from "1.IH" [OF Cons s1] inf_inv_step [OF "1.prems"(2) Cons s1(1)] show ?thesis by simp
  qed
qed

lemma inf_inv_start:
  "fd_code (ic_func cx) \<noteq> [] \<Longrightarrow> inf_inv cx (inf_start (length (fd_code (ic_func cx))))"
  by (auto simp: inf_inv_def inf_start_def nth_list_update lens_from_def)

text \<open>A typing of a function body, and that an accepted body has one.\<close>

definition typing :: "infer_ctx \<Rightarrow> tv list option list \<Rightarrow> bool" where
  "typing cx S \<longleftrightarrow>
     length S = length (fd_code (ic_func cx)) \<and> S ! 0 = Some [] \<and>
     (\<forall>pc < length S. \<forall>st. S ! pc = Some st \<longrightarrow> infer_ok cx S pc st)"

lemma infer_func_typing:
  assumes "infer_func cx = Inr ()" "fd_code (ic_func cx) \<noteq> []"
  shows "\<exists>S. typing cx S"
proof -
  from assms obtain s where s: "infer_loop cx (inf_start (length (fd_code (ic_func cx)))) = Inr s"
    by (auto simp: infer_func_def Let_def)
  from infer_loop_inv [OF s inf_inv_start [OF assms(2)]] have "typing cx (inf_states s)"
    by (simp add: inf_inv_def typing_def)
  then show ?thesis ..
qed

section \<open>Agreement with the depth simulation\<close>

lemma jump_succs_mem:
  assumes "jump_succs cx pc op exits st0 st ts = Inr es" "t \<in> set ts"
    "unat t < length (fd_code (ic_func cx))"
  shows "(unat t, if miss_pushback op = Some (unat t) then st0
                  else if is_loop_exit op (unat t) then exit_state exits (unat t) st else st) \<in> set es"
  using assms by (induction ts arbitrary: es) (auto simp: Let_def split: if_splits)

lemma infer_edgesD:
  assumes "infer_edges cx pc exits st0 = Inr es"
  obtains st jumps where "infer_op (fd_code (ic_func cx) ! pc) cx pc st0 = Inr st"
    "jump_succs cx pc (fd_code (ic_func cx) ! pc) exits st0 st
       (jump_targets (fd_code (ic_func cx) ! pc)) = Inr jumps" "set jumps \<subseteq> set es"
    "falls_through (fd_code (ic_func cx) ! pc) \<Longrightarrow> pc + 1 < length (fd_code (ic_func cx)) \<Longrightarrow>
       (pc + 1, st) \<in> set es"
  using assms by (auto simp: infer_edges_def Let_def)

lemma covered_height: "covered S (t, x) \<Longrightarrow> \<exists>y. S ! t = Some y \<and> length y = length x"
  by (auto simp: covered_def dest: list_all2_lengthD)

lemma lens_from_loop_exits:
  assumes "lens_from code S exits" "length S = length code" "t \<notin> loop_exits code"
  shows "exits t = None"
proof (rule ccontr)
  assume "exits t \<noteq> None"
  then obtain w where "exits t = Some w" by blast
  with assms(1) obtain p and st :: "tv list" where "p < length S" "setup_len (code ! p) (length st) = Some (t, w)"
    unfolding lens_from_def by blast
  with assms(2) have "setup_exit (code ! p) 0 = Some (t, snd (the (setup_exit (code ! p) 0)))" "code ! p \<in> set code"
    by (auto simp: setup_len_def setup_exit_def split: op.splits)
  with assms(3) show False unfolding loop_exits_def by blast
qed

lemma typing_edge:
  assumes "typing cx S" "S ! pc = Some st0" "pc < length (fd_code (ic_func cx))"
  shows "\<exists>st. infer_op (fd_code (ic_func cx) ! pc) cx pc st0 = Inr st \<and>
    (falls_through (fd_code (ic_func cx) ! pc) \<longrightarrow> pc + 1 < length (fd_code (ic_func cx)) \<longrightarrow>
       covered S (pc + 1, st)) \<and>
    (\<forall>t \<in> set (jump_targets (fd_code (ic_func cx) ! pc)). unat t < length (fd_code (ic_func cx)) \<longrightarrow>
       (miss_pushback (fd_code (ic_func cx) ! pc) = Some (unat t) \<longrightarrow> covered S (unat t, st0)) \<and>
       (miss_pushback (fd_code (ic_func cx) ! pc) \<noteq> Some (unat t) \<longrightarrow>
          unat t \<notin> loop_exits (fd_code (ic_func cx)) \<longrightarrow> covered S (unat t, st)))"
proof -
  let ?code = "fd_code (ic_func cx)"
  have len: "length S = length ?code" using assms(1) by (simp add: typing_def)
  have "infer_ok cx S pc st0" using assms len by (simp add: typing_def)
  then obtain exits es where ex: "lens_from ?code S exits"
    and es: "infer_edges cx pc exits st0 = Inr es" and cov: "\<And>e. e \<in> set es \<Longrightarrow> covered S e"
    unfolding infer_ok_def by blast
  from es obtain st jumps where st: "infer_op (?code ! pc) cx pc st0 = Inr st"
    and ju: "jump_succs cx pc (?code ! pc) exits st0 st (jump_targets (?code ! pc)) = Inr jumps"
    and sub: "set jumps \<subseteq> set es"
    and fall: "falls_through (?code ! pc) \<Longrightarrow> pc + 1 < length ?code \<Longrightarrow> (pc + 1, st) \<in> set es"
    by (rule infer_edgesD) blast
  have plain: "exit_state exits t st = st" if "t \<notin> loop_exits ?code" for t
    using lens_from_loop_exits [OF ex len that] by (simp add: exit_state_def)
  have "covered S (unat t, st0)" if "t \<in> set (jump_targets (?code ! pc))" "unat t < length ?code"
    "miss_pushback (?code ! pc) = Some (unat t)" for t
    using jump_succs_mem [OF ju that(1,2)] that(3) sub cov by auto
  moreover have "covered S (unat t, st)" if "t \<in> set (jump_targets (?code ! pc))" "unat t < length ?code"
    "miss_pushback (?code ! pc) \<noteq> Some (unat t)" "unat t \<notin> loop_exits ?code" for t
    using jump_succs_mem [OF ju that(1,2)] that(3) plain [OF that(4)] sub cov
    by (auto split: if_splits)
  ultimately show ?thesis using st fall cov by blast
qed

lemma typing_path:
  assumes "typing cx S" "depth_path (fd_code (ic_func cx)) pc d"
  shows "pc < length (fd_code (ic_func cx)) \<and> (\<exists>st. S ! pc = Some st \<and> int (length st) = d)"
  using assms(2)
proof induction
  case start
  with assms(1) show ?case by (simp add: typing_def)
next
  case (fall pc d)
  then obtain st0 where st0: "S ! pc = Some st0" "int (length st0) = d" by blast
  with typing_edge [OF assms(1) st0(1)] fall obtain st where
    "infer_op (fd_code (ic_func cx) ! pc) cx pc st0 = Inr st" "covered S (pc + 1, st)" by blast
  with infer_op_height [OF this(1)] covered_height st0(2) fall show ?case by metis
next
  case (miss pc d t)
  then obtain st0 where st0: "S ! pc = Some st0" "int (length st0) = d" by blast
  with typing_edge [OF assms(1) st0(1)] miss have "covered S (unat t, st0)" by blast
  with covered_height st0(2) miss show ?case by metis
next
  case (jump pc d t)
  then obtain st0 where st0: "S ! pc = Some st0" "int (length st0) = d" by blast
  with typing_edge [OF assms(1) st0(1)] jump obtain st where
    "infer_op (fd_code (ic_func cx) ! pc) cx pc st0 = Inr st" "covered S (unat t, st)" by blast
  with infer_op_height [OF this(1)] covered_height st0(2) jump show ?case by metis
qed

section \<open>Absence of panics\<close>

definition cx_ok :: "infer_ctx \<Rightarrow> bool" where
  "cx_ok cx \<longleftrightarrow> arrays_descend (m_consts (ic_module cx)) \<and>
     (\<forall>name t. ic_funcs_by_name cx name = Some t \<longrightarrow> t < length (m_funcs (ic_module cx)))"

lemma spanned_not_panic: "err_span e \<noteq> None \<Longrightarrow> e \<noteq> ir_panic w"
  by (auto simp: ir_panic_def ir_error_new_def)

lemma err_span_spanned [simp]: "err_span (ir_error_spanned m sp) = Some sp"
  by (simp add: ir_error_spanned_def)

lemma push_const_total: "cx_ok cx \<Longrightarrow> \<exists>t. push_const cx c st = Inr (t # st)"
  using tv_of_const_ok [of "ic_module cx" c "Suc (const_ix c)" "[]"]
  by (auto simp: push_const_def cx_ok_def)

lemma pop_tv_Err: "pop_tv cx pc st = Inl e \<Longrightarrow> err_span e \<noteq> None"
  by (auto simp: pop_tv_def split: list.splits)

lemma pops_tv_Err: "pops_tv cx pc n st = Inl e \<Longrightarrow> err_span e \<noteq> None"
  by (induction n arbitrary: st) (auto simp: res_bind_eq_Err dest: pop_tv_Err)

lemma check_Err:
  "declared cx s = Inl e \<Longrightarrow> err_span e \<noteq> None"
  "check_exact_bool v what sp = Inl e \<Longrightarrow> err_span e \<noteq> None"
  "check_exact_int v what sp = Inl e \<Longrightarrow> err_span e \<noteq> None"
  "check_return cx what pc v = Inl e \<Longrightarrow> err_span e \<noteq> None"
  "check_top cx what pc st = Inl e \<Longrightarrow> err_span e \<noteq> None"
  by (auto simp: declared_def check_exact_bool_def check_exact_int_def check_return_def check_top_def
      Let_def split: option.splits tv.splits list.splits)

lemma check_store_Err: "check_store cx v s sp = Inl e \<Longrightarrow> err_span e \<noteq> None"
  by (auto simp: check_store_def res_bind_eq_Err dest: check_Err)

lemma all_ok_Err: "all_ok f xs = Inl e \<Longrightarrow> \<exists>x \<in> set xs. f x = Inl e"
  by (induction xs) (auto simp: res_bind_eq_Err)

lemma need_slots_Err: "need_slots cx ss = Inl e \<Longrightarrow> err_span e \<noteq> None"
  by (auto simp: need_slots_def res_bind_eq_Err dest!: all_ok_Err dest: check_Err)

lemma check_args_Err: "check_args cx pc name callee args = Inl e \<Longrightarrow> err_span e \<noteq> None"
  by (auto simp: check_args_def res_bind_eq_Err dest!: all_ok_Err)

lemma dict_elems_total: "2 * k \<le> length st \<Longrightarrow> dict_elems k kt vt st \<noteq> Inl e"
  by (induction k kt vt st rule: dict_elems.induct) auto

lemma infer_for_next_Err: "infer_for_next cx pc n st = Inl e \<Longrightarrow> err_span e \<noteq> None"
  by (auto simp: infer_for_next_def need_def res_bind_eq_Err Let_def split: list.splits dest: check_Err)

lemma infer_call_path_Err:
  "cx_ok cx \<Longrightarrow> infer_call_path cx pc parts argc st = Inl e \<Longrightarrow> err_span e \<noteq> None"
proof -
  assume cx: "cx_ok cx" and e: "infer_call_path cx pc parts argc st = Inl e"
  show ?thesis
  proof (cases "ic_funcs_by_name cx (path_name (ic_module cx) parts)")
    case None
    with e show ?thesis by (auto simp: infer_call_path_def need_def res_bind_eq_Err)
  next
    case (Some t)
    with cx have "t < length (m_funcs (ic_module cx))" by (simp add: cx_ok_def)
    then have "vec_get (m_funcs (ic_module cx)) t = Some (m_funcs (ic_module cx) ! t)" by simp
    with e Some show ?thesis
      by (auto simp: infer_call_path_def need_def res_bind_eq_Err Let_def simp del: vec_get_eq_Some
          dest: check_args_Err)
  qed
qed

lemma infer_op_Err:
  assumes "cx_ok cx" "infer_op op cx pc st = Inl e"
  shows "err_span e \<noteq> None"
proof (cases op)
  case (PushConst c)
  with assms push_const_total [OF assms(1), of c st] show ?thesis by auto
next
  case (CallPath a b c)
  with assms show ?thesis by (auto dest: infer_call_path_Err)
next
  case (ForNext a b c d)
  with assms show ?thesis by (auto dest: infer_for_next_Err)
next
  case (MakeDict k)
  with assms show ?thesis
    by (auto simp: infer_make_dict_def need_def res_bind_eq_Err dict_elems_total)
qed (use assms in \<open>auto simp: res_bind_eq_Err infer_defs Let_def
      split: list.splits option.splits if_splits
      dest: pop_tv_Err pops_tv_Err check_Err check_store_Err need_slots_Err\<close>)

lemma jump_succs_Err: "jump_succs cx pc op exits st0 st ts = Inl e \<Longrightarrow> err_span e \<noteq> None"
  by (induction ts) (auto simp: Let_def res_bind_eq_Err split: if_splits dest: check_Err)

lemma jump_succs_range:
  "jump_succs cx pc op exits st0 st ts = Inr es \<Longrightarrow> x \<in> set es \<Longrightarrow> fst x < length (fd_code (ic_func cx))"
  by (induction ts arbitrary: es) (auto simp: Let_def split: if_splits)

lemma infer_edges_Err: "cx_ok cx \<Longrightarrow> infer_edges cx pc exits st = Inl e \<Longrightarrow> err_span e \<noteq> None"
  by (auto simp: infer_edges_def Let_def res_bind_eq_Err split: if_splits
      dest: infer_op_Err jump_succs_Err check_Err)

lemma infer_edges_range:
  "infer_edges cx pc exits st = Inr es \<Longrightarrow> x \<in> set es \<Longrightarrow> fst x < length (fd_code (ic_func cx))"
  by (auto simp: infer_edges_def Let_def split: if_splits dest: jump_succs_range)

lemma merge_edge_Err:
  assumes "merge_edge cx x s = Inl e" "fst x < length (inf_states s)"
  shows "err_span e \<noteq> None"
proof -
  obtain t state where x: "x = (t, state)" by fastforce
  with assms(2) have "vec_get (inf_states s) t = Some (inf_states s ! t)" by simp
  with assms(1) x show ?thesis
    by (auto simp: merge_edge_def Let_def simp del: vec_get_eq_Some split: option.splits if_splits)
qed

lemma merge_edges_Err:
  assumes "merge_edges cx es s = Inl e" "\<And>x. x \<in> set es \<Longrightarrow> fst x < length (inf_states s)"
  shows "err_span e \<noteq> None"
  using assms
proof (induction es arbitrary: s)
  case (Cons x es)
  show ?case
  proof (cases "merge_edge cx x s")
    case (Inl e')
    with Cons.prems merge_edge_Err [OF Inl] show ?thesis by simp
  next
    case (Inr s1)
    with merge_edge_facts [OF Inr] have "length (inf_states s1) = length (inf_states s)"
      by (simp add: states_le_def)
    with Inr Cons show ?thesis by simp
  qed
qed simp

lemma infer_step_Err:
  assumes "cx_ok cx" "infer_step cx pc s = Inl e" "pc < length (inf_states s)"
    "length (inf_states s) = length (fd_code (ic_func cx))"
  shows "err_span e \<noteq> None"
proof -
  let ?code = "fd_code (ic_func cx)"
  have "vec_get (inf_states s) pc = Some (inf_states s ! pc)" "vec_get ?code pc = Some (?code ! pc)"
    using assms(3,4) by simp_all
  with assms(2) obtain st where
    r: "res_bind (infer_edges cx pc (record_len (?code ! pc) (length st) (inf_exits s)) st)
       (\<lambda>es. merge_edges cx es (s\<lparr>inf_exits := record_len (?code ! pc) (length st) (inf_exits s)\<rparr>)) = Inl e"
    by (auto simp: infer_step_def Let_def simp del: vec_get_eq_Some split: option.splits)
  then consider
      "infer_edges cx pc (record_len (?code ! pc) (length st) (inf_exits s)) st = Inl e"
    | es where "infer_edges cx pc (record_len (?code ! pc) (length st) (inf_exits s)) st = Inr es"
        "merge_edges cx es (s\<lparr>inf_exits := record_len (?code ! pc) (length st) (inf_exits s)\<rparr>) = Inl e"
    by (auto simp: res_bind_eq_Err)
  then show ?thesis
  proof cases
    case 1
    then show ?thesis by (rule infer_edges_Err [OF assms(1)])
  next
    case 2
    show ?thesis
      by (rule merge_edges_Err [OF 2(2)]) (use infer_edges_range [OF 2(1)] assms(4) in simp)
  qed
qed

lemma infer_loop_Err:
  "infer_loop cx s = Inl e \<Longrightarrow> inf_inv cx s \<Longrightarrow> cx_ok cx \<Longrightarrow> err_span e \<noteq> None"
proof (induction cx s rule: infer_loop.induct)
  case (1 cx s)
  note step = infer_loop.simps [of cx s]
  show ?case
  proof (cases "inf_work s")
    case Nil
    with 1 step show ?thesis by simp
  next
    case (Cons pc rest)
    then have pc: "pc < length (inf_states s)" "length (inf_states s) = length (fd_code (ic_func cx))"
      using "1.prems"(2) by (auto simp: inf_inv_def)
    show ?thesis
    proof (cases "infer_step cx pc (s\<lparr>inf_work := rest\<rparr>)")
      case (Inl e')
      with 1 step Cons have "e' = e" by simp
      with infer_step_Err [OF "1.prems"(3) Inl] pc show ?thesis by simp
    next
      case (Inr s1)
      with 1 step Cons have "infer_loop cx s1 = Inl e" by simp
      from "1.IH" [OF Cons Inr this inf_inv_step [OF "1.prems"(2) Cons Inr] "1.prems"(3)]
      show ?thesis .
    qed
  qed
qed

lemma infer_func_Err:
  assumes "infer_func cx = Inl e" "cx_ok cx"
  shows "err_span e \<noteq> None"
proof -
  from assms(1) have "infer_loop cx (inf_start (length (fd_code (ic_func cx)))) = Inl e"
    "fd_code (ic_func cx) \<noteq> []"
    by (auto simp: infer_func_def Let_def res_bind_eq_Err split: if_splits)
  from infer_loop_Err [OF this(1) inf_inv_start [OF this(2)] assms(2)] show ?thesis .
qed

end
