(* ===== verification/Verify.thy ===== *)
theory Verify
  imports Verify_Infer
begin

text \<open>
  The module-level half of \<open>crates/zz_ir/src/verify.rs\<close>: id checks, the tables of a function
  (locals, parameters, loop variables), and \<open>verify\<close> itself.
\<close>

section \<open>Ids\<close>

definition check_str :: "module_ \<Rightarrow> str_id \<Rightarrow> string \<Rightarrow> span \<Rightarrow> (ir_error, unit) result" where
  "check_str m i what sp =
     (if str_ix i < length (m_strings m) then Inr ()
      else Inl (ir_error_spanned (what @ '': string id out of range'') sp))"

definition check_strs :: "module_ \<Rightarrow> str_id list \<Rightarrow> string \<Rightarrow> span \<Rightarrow> (ir_error, unit) result" where
  "check_strs m ids what sp = all_ok (\<lambda>i. check_str m i what sp) ids"

definition check_lit :: "module_ \<Rightarrow> const_id \<Rightarrow> span \<Rightarrow> (ir_error, unit) result" where
  "check_lit m i sp =
     (case vec_get (m_consts m) (const_ix i) of
        None \<Rightarrow> Inl (ir_error_spanned ''pattern literal: const id out of range'' sp)
      | Some c \<Rightarrow>
          (case c of
             CInt _ \<Rightarrow> Inr ()
           | CFloat _ \<Rightarrow> Inr ()
           | CStr _ \<Rightarrow> Inr ()
           | CBool _ \<Rightarrow> Inr ()
           | _ \<Rightarrow> Inl (ir_error_spanned ''pattern literal must be int/float/str/bool'' sp)))"

lemma all_ok_cong [fundef_cong]:
  "xs = ys \<Longrightarrow> (\<And>x. x \<in> set ys \<Longrightarrow> f x = g x) \<Longrightarrow> all_ok f xs = all_ok g ys"
proof (induction ys arbitrary: xs)
  case (Cons y ys)
  from Cons.IH [of ys] Cons.prems show ?case by simp
qed simp

fun check_pattern :: "module_ \<Rightarrow> pattern \<Rightarrow> span \<Rightarrow> (ir_error, unit) result" where
  "check_pattern m PWildcard sp = Inr ()"
| "check_pattern m (PBinding i) sp = check_str m i ''pattern binding'' sp"
| "check_pattern m (PLit i) sp = check_lit m i sp"
| "check_pattern m (PVariant name arg) sp =
     res_bind (check_str m name ''pattern variant'' sp) (\<lambda>_.
       case arg of Some p \<Rightarrow> check_pattern m p sp | None \<Rightarrow> Inr ())"
| "check_pattern m (PTuple pats) sp = all_ok (\<lambda>p. check_pattern m p sp) pats"
| "check_pattern m (POr pats) sp = all_ok (\<lambda>p. check_pattern m p sp) pats"

definition check_home ::
  "module_ \<Rightarrow> string \<Rightarrow> u16 option \<Rightarrow> str_id option \<Rightarrow> span \<Rightarrow> (ir_error, unit) result" where
  "check_home m what home_slot home_var sp =
     res_bind (guard ((home_slot \<noteq> None) = (home_var \<noteq> None))
        (ir_error_spanned (what @ '' must be a slot xor a var'') sp)) (\<lambda>_.
       case home_var of Some i \<Rightarrow> check_str m i what sp | None \<Rightarrow> Inr ())"

definition check_home_field ::
  "module_ \<Rightarrow> u16 option \<Rightarrow> str_id option \<Rightarrow> str_id \<Rightarrow> span \<Rightarrow> (ir_error, unit) result" where
  "check_home_field m home_slot home_var field sp =
     res_bind (check_home m ''push home'' home_slot home_var sp) (\<lambda>_.
       check_str m field ''push field/method'' sp)"

definition check_func_id :: "module_ \<Rightarrow> func_id \<Rightarrow> span \<Rightarrow> (ir_error, unit) result" where
  "check_func_id m f sp =
     guard (func_ix f \<ge> length (m_funcs m)) (ir_error_spanned ''func id out of range'' sp)"

text \<open>The \<open>match\<close> of the first loop of \<open>verify_func\<close>.\<close>

definition check_op_ids :: "module_ \<Rightarrow> op \<Rightarrow> span \<Rightarrow> (ir_error, unit) result" where
  "check_op_ids m op sp = (case op of
       PushConst i \<Rightarrow>
         guard (const_ix i \<ge> length (m_consts m)) (ir_error_spanned ''const id out of range'' sp)
     | LoadVar i \<Rightarrow> check_str m i ''variable name'' sp
     | DefineVar i \<Rightarrow> check_str m i ''variable name'' sp
     | StoreVar i \<Rightarrow> check_str m i ''variable name'' sp
     | TakeVar i \<Rightarrow> check_str m i ''variable name'' sp
     | LoadPath parts \<Rightarrow> check_strs m parts ''path component'' sp
     | StorePath parts \<Rightarrow> check_strs m parts ''path component'' sp
     | StoreIndexTake hs hv \<Rightarrow> check_home m ''take home'' hs hv sp
     | CompoundIndexTake hs hv _ \<Rightarrow> check_home m ''take home'' hs hv sp
     | VecPushField hs hv field \<Rightarrow> check_home_field m hs hv field sp
     | VecPushMethod hs hv field \<Rightarrow> check_home_field m hs hv field sp
     | SetFieldTake hs hv field \<Rightarrow> check_home_field m hs hv field sp
     | SetFieldIndexTake hs hv field \<Rightarrow> check_home_field m hs hv field sp
     | FieldBinopTake hs hv field _ \<Rightarrow> check_home_field m hs hv field sp
     | GetFieldIndex hs hv field \<Rightarrow> check_home_field m hs hv field sp
     | LenField hs hv field \<Rightarrow> check_home_field m hs hv field sp
     | GetFieldSlotIdx hs hv _ _ \<Rightarrow> check_home m ''push home'' hs hv sp
     | MakeStruct name fs \<Rightarrow>
         res_bind (check_str m name ''struct name'' sp) (\<lambda>_. check_strs m fs ''struct field'' sp)
     | GetField i \<Rightarrow> check_str m i ''field name'' sp
     | SetField i \<Rightarrow> check_str m i ''field name'' sp
     | CompoundFieldOp name _ \<Rightarrow> check_str m name ''field name'' sp
     | RegisterStruct name fs \<Rightarrow>
         res_bind (check_str m name ''struct name'' sp) (\<lambda>_. check_strs m fs ''struct field'' sp)
     | RegisterEnum name vs \<Rightarrow>
         res_bind (check_str m name ''enum name'' sp) (\<lambda>_. check_strs m (map fst vs) ''enum variant'' sp)
     | MakeEnum name variant _ \<Rightarrow>
         res_bind (check_str m name ''enum name'' sp) (\<lambda>_. check_str m variant ''enum variant'' sp)
     | MakeClosure f \<Rightarrow> check_func_id m f sp
     | MakeFunc f \<Rightarrow> check_func_id m f sp
     | SpawnClosure f \<Rightarrow> check_func_id m f sp
     | MakeVariant name _ \<Rightarrow> check_str m name ''variant name'' sp
     | MatchArm pat _ _ _ \<Rightarrow> check_pattern m pat sp
     | IfLetMatch pat _ _ \<Rightarrow> check_pattern m pat sp
     | CallPath parts _ _ \<Rightarrow> check_strs m parts ''call path component'' sp
     | CallMethod name _ \<Rightarrow> check_str m name ''call name'' sp
     | CallNative name _ \<Rightarrow> check_str m name ''call name'' sp
     | ForNext vars _ _ _ \<Rightarrow> check_strs m vars ''loop variable'' sp
     | _ \<Rightarrow> Inr ())"

definition check_op :: "module_ \<Rightarrow> nat \<Rightarrow> op \<Rightarrow> span \<Rightarrow> (ir_error, unit) result" where
  "check_op m n op sp =
     res_bind (check_op_ids m op sp) (\<lambda>_.
       all_ok (\<lambda>t. guard (unat t > n) (ir_error_spanned ''jump target out of range'' sp)) (jump_targets op))"

section \<open>The tables of a function\<close>

definition max_ref :: "nat option \<Rightarrow> nat \<Rightarrow> nat option" where
  "max_ref m s = Some (case m of None \<Rightarrow> s | Some m' \<Rightarrow> max m' s)"

definition maxref_of :: "func_def \<Rightarrow> nat option" where
  "maxref_of f =
     foldl (\<lambda>m (_, s). max_ref m (unat s))
       (foldl (\<lambda>m op. case slot_extent op of Some s \<Rightarrow> max_ref m (unat s) | None \<Rightarrow> m) None (fd_code f))
       (fd_toplevel_slots f)"

definition check_locals :: "module_ \<Rightarrow> func_def \<Rightarrow> (ir_error, unit) result" where
  "check_locals m f =
     (let referenced = (case maxref_of f of Some k \<Rightarrow> k + 1 | None \<Rightarrow> 0);
          slot_arity = unat (fd_arity f);
          expected = max referenced slot_arity
      in
      res_bind (guard (length (fd_locals f) < slot_arity)
         (ir_error_new ''locals: fewer slots than signature params'')) (\<lambda>_.
      res_bind (guard (length (fd_locals f) \<noteq> expected)
         (ir_error_new (''locals length mismatch: table has '' @ show_nat (length (fd_locals f)) @
            '', expected '' @ show_nat expected))) (\<lambda>_.
      res_bind (guard (length (sig_params (fd_sig f)) \<noteq> slot_arity \<or> length (fd_params f) \<noteq> slot_arity)
         (ir_error_new ''signature/params arity mismatch'')) (\<lambda>_.
        all_ok (\<lambda>i. guard (type_ix i \<ge> length (m_types m)) (ir_error_new ''locals: type id out of range''))
          (fd_locals f @ sig_params (fd_sig f))))))"

definition check_param_slot :: "module_ \<Rightarrow> func_def \<Rightarrow> nat \<times> type_id \<Rightarrow> (ir_error, unit) result" where
  "check_param_slot m f = (\<lambda>(i, t).
     (case vec_get (fd_locals f) i of
        None \<Rightarrow> Inl (ir_error_new ''locals: fewer slots than signature params'')
      | Some local \<Rightarrow>
          (case (expand m local, expand m t) of
             (Some a, Some b) \<Rightarrow>
               guard (a \<noteq> b) (ir_error_new (''locals: param slot '' @ show_nat i @ '' disagrees with signature''))
           | _ \<Rightarrow> Inl (ir_error_new ''locals: type id out of range''))))"

definition fornext_vars :: "op \<Rightarrow> str_id list option" where
  "fornext_vars op = (case op of ForNext vars _ _ _ \<Rightarrow> Some vars | _ \<Rightarrow> None)"

primrec check_vartab_entries :: "op list \<Rightarrow> u16 list list \<Rightarrow> (ir_error, unit) result" where
  "check_vartab_entries [] vit = Inr ()"
| "check_vartab_entries (op # ops) vit =
     (case fornext_vars op of
        None \<Rightarrow> check_vartab_entries ops vit
      | Some vars \<Rightarrow>
          (case vit of
             [] \<Rightarrow> Inl (ir_error_new ''vartab entry arity mismatch'')
           | entry # vit' \<Rightarrow>
               if length entry = length vars then check_vartab_entries ops vit'
               else Inl (ir_error_new ''vartab entry arity mismatch'')))"

definition check_vartab :: "func_def \<Rightarrow> (ir_error, unit) result" where
  "check_vartab f =
     (let nfornext = length (filter (\<lambda>op. fornext_vars op \<noteq> None) (fd_code f)) in
      res_bind (guard (length (fd_vartab f) \<noteq> nfornext)
         (ir_error_new (''vartab length mismatch: table has '' @ show_nat (length (fd_vartab f)) @
            '', code has '' @ show_nat nfornext @ '' for-loops''))) (\<lambda>_.
        check_vartab_entries (fd_code f) (fd_vartab f)))"

definition verify_func ::
  "module_ \<Rightarrow> nat \<Rightarrow> (rstring \<Rightarrow> nat option) \<Rightarrow> (ir_error, u32) result" where
  "verify_func m func_idx funcs_by_name =
     (case vec_get (m_funcs m) func_idx of
        None \<Rightarrow> Inl (ir_panic ''index out of bounds'')
      | Some f \<Rightarrow>
          (let n = length (fd_code f) in
           res_bind (guard (length (fd_spans f) \<noteq> n) (ir_error_new ''span/code length mismatch'')) (\<lambda>_.
           res_bind (all_ok (\<lambda>(pc, op). check_op m n op (span_at (fd_spans f) pc))
              (enumerate 0 (fd_code f))) (\<lambda>_.
           res_bind (simulate (fd_code f) (fd_spans f)) (\<lambda>observed.
           res_bind (guard (fd_max_stack f \<noteq> observed)
              (ir_error_new (''max_stack mismatch: declared '' @ show_nat (unat (fd_max_stack f)) @
                 '', observed '' @ show_nat (unat observed)))) (\<lambda>_.
           res_bind (check_locals m f) (\<lambda>_.
           res_bind (all_ok (check_param_slot m f) (enumerate 0 (sig_params (fd_sig f)))) (\<lambda>_.
           res_bind (check_vartab f) (\<lambda>_.
           res_bind (infer_func \<lparr>ic_module = m, ic_func = f, ic_funcs_by_name = funcs_by_name,
                                 ic_prims = prim_ids_of m\<rparr>) (\<lambda>_.
             Inr observed))))))))))"

section \<open>The tables of a module\<close>

definition name_index :: "module_ \<Rightarrow> rstring \<Rightarrow> nat option" where
  "name_index m =
     foldl (\<lambda>idx (i, f).
        case vec_get (m_strings m) (str_ix (fd_name f)) of
          Some name \<Rightarrow> (case idx name of Some _ \<Rightarrow> idx | None \<Rightarrow> idx(name \<mapsto> i))
        | None \<Rightarrow> idx)
       Map.empty (enumerate 0 (m_funcs m))"

definition bad_const :: "module_ \<Rightarrow> nat \<Rightarrow> const \<Rightarrow> bool" where
  "bad_const m i c = (case c of
       CArray items \<Rightarrow> list_ex (\<lambda>j. \<not> const_ix j < i) items
     | CDict ps \<Rightarrow> list_ex (\<lambda>(k, v). \<not> const_ix k < i \<or> \<not> const_ix v < i) ps
     | COption inner \<Rightarrow> (case inner of Some j \<Rightarrow> \<not> const_ix j < i | None \<Rightarrow> False)
     | CResult _ v \<Rightarrow> \<not> const_ix v < i
     | CStr s \<Rightarrow> str_ix s \<ge> length (m_strings m)
     | _ \<Rightarrow> False)"

definition check_consts :: "module_ \<Rightarrow> (ir_error, unit) result" where
  "check_consts m = all_ok (\<lambda>(i, c). guard (bad_const m i c)
       (ir_error_new (''const '' @ show_nat i @ '' references out-of-range id'')))
     (enumerate 0 (m_consts m))"

text \<open>The string a type names.\<close>

definition type_string :: "ir_type \<Rightarrow> str_id option" where
  "type_string t = (case t of
       TOpaque i \<Rightarrow> Some i
     | TNamed i \<Rightarrow> Some i
     | TStruct i _ \<Rightarrow> Some i
     | TEnum i _ \<Rightarrow> Some i
     | _ \<Rightarrow> None)"

definition check_type_entry :: "module_ \<Rightarrow> nat \<times> ir_type \<Rightarrow> (ir_error, unit) result" where
  "check_type_entry m = (\<lambda>(i, t).
     res_bind (all_ok (\<lambda>j.
        res_bind (guard (type_ix j \<ge> i)
           (ir_error_new (''type '' @ show_nat i @ '' references out-of-range id''))) (\<lambda>_.
          guard (type_ix j \<ge> length (m_types m))
            (ir_error_new (''type '' @ show_nat i @ '' references missing id'')))) (collect_ids t)) (\<lambda>_.
       case type_string t of
         Some s \<Rightarrow> guard (str_ix s \<ge> length (m_strings m))
           (ir_error_new (''type '' @ show_nat i @ '' references missing string''))
       | None \<Rightarrow> Inr ()))"

definition check_func_param :: "module_ \<Rightarrow> nat \<Rightarrow> param \<Rightarrow> (ir_error, unit) result" where
  "check_func_param m i p =
     res_bind (guard (str_ix (param_name p) \<ge> length (m_strings m))
        (ir_error_new (''func '' @ show_nat i @ '': param name out of range''))) (\<lambda>_.
       case param_default p of
         Some d \<Rightarrow> guard (func_ix d \<ge> length (m_funcs m))
           (ir_error_new (''func '' @ show_nat i @ '': default func out of range''))
       | None \<Rightarrow> Inr ())"

definition check_signature :: "module_ \<Rightarrow> nat \<times> func_def \<Rightarrow> (ir_error, unit) result" where
  "check_signature m = (\<lambda>(i, f).
     res_bind (all_ok (\<lambda>j. guard (type_ix j \<ge> length (m_types m))
          (ir_error_new (''func '' @ show_nat i @ '' signature: type id out of range'')))
        (sig_params (fd_sig f) @ [sig_ret (fd_sig f)])) (\<lambda>_.
     res_bind (guard (str_ix (fd_name f) \<ge> length (m_strings m))
        (ir_error_new (''func '' @ show_nat i @ '': name id out of range''))) (\<lambda>_.
     res_bind (all_ok (check_func_param m i) (fd_params f)) (\<lambda>_.
       all_ok (\<lambda>(name, _). guard (str_ix name \<ge> length (m_strings m))
          (ir_error_new (''func '' @ show_nat i @ '': slot name out of range'')))
        (fd_toplevel_slots f)))))"

definition verify :: "module_ \<Rightarrow> (ir_error, unit) result" where
  "verify m =
     res_bind (guard (m_funcs m = []) (ir_error_new ''empty function table'')) (\<lambda>_.
     res_bind (guard (func_ix (m_entry m) \<ge> length (m_funcs m))
        (ir_error_new ''entry func id out of range'')) (\<lambda>_.
     res_bind (check_consts m) (\<lambda>_.
     res_bind (all_ok (check_type_entry m) (enumerate 0 (m_types m))) (\<lambda>_.
     res_bind (all_ok (check_signature m) (enumerate 0 (m_funcs m))) (\<lambda>_.
       all_ok (\<lambda>idx. res_bind (verify_func m idx (name_index m)) (\<lambda>_. Inr ()))
         [0..<length (m_funcs m)])))))"

section \<open>What acceptance means\<close>

text \<open>Every id an instruction names, by table; the checks are stated against these.\<close>

fun pattern_strs :: "pattern \<Rightarrow> str_id list" where
  "pattern_strs (PBinding i) = [i]"
| "pattern_strs (PVariant name arg) = name # (case arg of Some p \<Rightarrow> pattern_strs p | None \<Rightarrow> [])"
| "pattern_strs (PTuple pats) = concat (map pattern_strs pats)"
| "pattern_strs (POr pats) = concat (map pattern_strs pats)"
| "pattern_strs _ = []"

fun pattern_lits :: "pattern \<Rightarrow> const_id list" where
  "pattern_lits (PLit i) = [i]"
| "pattern_lits (PVariant name arg) = (case arg of Some p \<Rightarrow> pattern_lits p | None \<Rightarrow> [])"
| "pattern_lits (PTuple pats) = concat (map pattern_lits pats)"
| "pattern_lits (POr pats) = concat (map pattern_lits pats)"
| "pattern_lits _ = []"

definition opt_list :: "'a option \<Rightarrow> 'a list" where
  "opt_list x = (case x of Some y \<Rightarrow> [y] | None \<Rightarrow> [])"

definition op_strs :: "op \<Rightarrow> str_id list" where
  "op_strs op = (case op of
       LoadVar i \<Rightarrow> [i]
     | DefineVar i \<Rightarrow> [i]
     | StoreVar i \<Rightarrow> [i]
     | TakeVar i \<Rightarrow> [i]
     | LoadPath parts \<Rightarrow> parts
     | StorePath parts \<Rightarrow> parts
     | StoreIndexTake _ hv \<Rightarrow> opt_list hv
     | CompoundIndexTake _ hv _ \<Rightarrow> opt_list hv
     | VecPushField _ hv field \<Rightarrow> field # opt_list hv
     | VecPushMethod _ hv field \<Rightarrow> field # opt_list hv
     | SetFieldTake _ hv field \<Rightarrow> field # opt_list hv
     | SetFieldIndexTake _ hv field \<Rightarrow> field # opt_list hv
     | FieldBinopTake _ hv field _ \<Rightarrow> field # opt_list hv
     | GetFieldIndex _ hv field \<Rightarrow> field # opt_list hv
     | LenField _ hv field \<Rightarrow> field # opt_list hv
     | GetFieldSlotIdx _ hv _ _ \<Rightarrow> opt_list hv
     | MakeStruct name fs \<Rightarrow> name # fs
     | GetField i \<Rightarrow> [i]
     | SetField i \<Rightarrow> [i]
     | CompoundFieldOp name _ \<Rightarrow> [name]
     | RegisterStruct name fs \<Rightarrow> name # fs
     | RegisterEnum name vs \<Rightarrow> name # map fst vs
     | MakeEnum name variant _ \<Rightarrow> [name, variant]
     | MakeVariant name _ \<Rightarrow> [name]
     | MatchArm pat _ _ _ \<Rightarrow> pattern_strs pat
     | IfLetMatch pat _ _ \<Rightarrow> pattern_strs pat
     | CallPath parts _ _ \<Rightarrow> parts
     | CallMethod name _ \<Rightarrow> [name]
     | CallNative name _ \<Rightarrow> [name]
     | ForNext vars _ _ _ \<Rightarrow> vars
     | _ \<Rightarrow> [])"

definition op_lits :: "op \<Rightarrow> const_id list" where
  "op_lits op = (case op of
       PushConst i \<Rightarrow> [i]
     | MatchArm pat _ _ _ \<Rightarrow> pattern_lits pat
     | IfLetMatch pat _ _ \<Rightarrow> pattern_lits pat
     | _ \<Rightarrow> [])"

definition op_funcs :: "op \<Rightarrow> func_id list" where
  "op_funcs op = (case op of
       MakeClosure f \<Rightarrow> [f]
     | MakeFunc f \<Rightarrow> [f]
     | SpawnClosure f \<Rightarrow> [f]
     | _ \<Rightarrow> [])"

definition ids_in_range :: "module_ \<Rightarrow> nat \<Rightarrow> op \<Rightarrow> bool" where
  "ids_in_range m n op \<longleftrightarrow>
     (\<forall>i \<in> set (op_strs op). str_ix i < length (m_strings m)) \<and>
     (\<forall>i \<in> set (op_lits op). const_ix i < length (m_consts m)) \<and>
     (\<forall>i \<in> set (op_funcs op). func_ix i < length (m_funcs m)) \<and>
     (\<forall>t \<in> set (jump_targets op). unat t \<le> n)"

lemma check_str_Ok [simp]: "check_str m i what sp = Inr u \<longleftrightarrow> str_ix i < length (m_strings m)"
  by (simp add: check_str_def)

lemma check_strs_Ok [simp]:
  "check_strs m ids what sp = Inr u \<longleftrightarrow> (\<forall>i \<in> set ids. str_ix i < length (m_strings m))"
  by (simp add: check_strs_def)

lemma check_lit_Ok: "check_lit m i sp = Inr u \<Longrightarrow> const_ix i < length (m_consts m)"
  by (auto simp: check_lit_def split: option.splits)

lemma check_home_Ok:
  "check_home m what hs hv sp = Inr u \<longleftrightarrow>
     (hs \<noteq> None) \<noteq> (hv \<noteq> None) \<and> (\<forall>i \<in> set (opt_list hv). str_ix i < length (m_strings m))"
  by (auto simp: check_home_def opt_list_def split: option.splits)

lemma check_home_field_Ok:
  "check_home_field m hs hv field sp = Inr u \<Longrightarrow>
     str_ix field < length (m_strings m) \<and> (\<forall>i \<in> set (opt_list hv). str_ix i < length (m_strings m))"
  by (auto simp: check_home_field_def check_home_Ok)

lemma check_pattern_Ok:
  "check_pattern m p sp = Inr () \<Longrightarrow>
     (\<forall>i \<in> set (pattern_strs p). str_ix i < length (m_strings m)) \<and>
     (\<forall>i \<in> set (pattern_lits p). const_ix i < length (m_consts m))"
proof (induction m p sp rule: check_pattern.induct)
  case (4 m name arg sp)
  then show ?case by (cases arg) auto
next
  case (5 m pats sp)
  then show ?case by fastforce
next
  case (6 m pats sp)
  then show ?case by fastforce
qed (auto dest: check_lit_Ok)

lemma check_op_Ok:
  assumes "check_op m n op sp = Inr ()"
  shows "ids_in_range m n op"
  using assms
  by (cases op)
    (auto simp: check_op_def check_op_ids_def ids_in_range_def op_strs_def op_lits_def op_funcs_def
      check_func_id_def check_home_Ok jump_targets_def not_less not_le
      dest!: check_home_field_Ok check_pattern_Ok)

lemma enumerate_mem: "i < length xs \<Longrightarrow> (i, xs ! i) \<in> set (enumerate 0 xs)"
  by (simp add: in_set_enumerate_eq)

lemma all_ok_enumerate:
  "all_ok f (enumerate 0 xs) = Inr () \<longleftrightarrow> (\<forall>i < length xs. f (i, xs ! i) = Inr ())"
  by (auto simp: in_set_enumerate_eq)

subsection \<open>Slots\<close>

lemma foldl_max_ref_mono: "\<exists>k'. foldl (\<lambda>m (_, s). max_ref m (unat s)) (Some k) ss = Some k' \<and> k \<le> k'"
proof (induction ss arbitrary: k)
  case (Cons s ss)
  from Cons.IH [of "max k (unat (snd s))"] show ?case
    by (cases s) (auto simp: max_ref_def)
qed simp

lemma foldl_extent_ge:
  assumes "op \<in> set ops" "s \<in> set (op_slots op)"
  shows "\<exists>k. foldl (\<lambda>m op. case slot_extent op of Some s \<Rightarrow> max_ref m (unat s) | None \<Rightarrow> m) m ops = Some k \<and>
     unat s \<le> k"
  using assms(1)
proof (induction ops rule: rev_induct)
  case (snoc o' ops)
  show ?case
  proof (cases "o' = op")
    case True
    with assms(2) slot_extent_None [of op] obtain x where "slot_extent op = Some x"
      by (cases "slot_extent op") auto
    moreover from slot_extent_ge [OF this assms(2)] have "unat s \<le> unat x"
      by (simp add: word_le_nat_alt)
    ultimately show ?thesis using True by (auto simp: max_ref_def split: option.splits)
  next
    case False
    with snoc obtain k where
      "foldl (\<lambda>m op. case slot_extent op of Some s \<Rightarrow> max_ref m (unat s) | None \<Rightarrow> m) m ops = Some k" "unat s \<le> k"
      by auto
    then show ?thesis by (auto simp: max_ref_def split: option.splits)
  qed
qed simp

lemma maxref_of_ge:
  assumes "op \<in> set (fd_code f)" "s \<in> set (op_slots op)"
  shows "\<exists>k. maxref_of f = Some k \<and> unat s \<le> k"
proof -
  obtain k where k: "foldl (\<lambda>m op. case slot_extent op of Some s \<Rightarrow> max_ref m (unat s) | None \<Rightarrow> m) None
      (fd_code f) = Some k" "unat s \<le> k"
    using foldl_extent_ge [OF assms, of None] by blast
  with foldl_max_ref_mono [of k "fd_toplevel_slots f"] show ?thesis
    by (auto simp: maxref_of_def)
qed

lemma check_locals_Ok:
  assumes "check_locals m f = Inr ()"
  shows "(\<forall>op \<in> set (fd_code f). \<forall>s \<in> set (op_slots op). unat s < length (fd_locals f)) \<and>
     unat (fd_arity f) \<le> length (fd_locals f) \<and>
     length (sig_params (fd_sig f)) = unat (fd_arity f) \<and> length (fd_params f) = unat (fd_arity f) \<and>
     (\<forall>i \<in> set (fd_locals f). type_ix i < length (m_types m))"
  using assms maxref_of_ge [of _ f]
  by (fastforce simp: check_locals_def Let_def not_less not_le)

subsection \<open>Functions\<close>

definition ctx_of :: "module_ \<Rightarrow> func_def \<Rightarrow> infer_ctx" where
  "ctx_of m f = \<lparr>ic_module = m, ic_func = f, ic_funcs_by_name = name_index m, ic_prims = prim_ids_of m\<rparr>"

lemma ctx_of_simps [simp]:
  "ic_module (ctx_of m f) = m" "ic_func (ctx_of m f) = f" "ic_funcs_by_name (ctx_of m f) = name_index m"
  by (simp_all add: ctx_of_def)

lemma check_vartab_entries_Ok:
  "check_vartab_entries ops vit = Inr () \<Longrightarrow>
     length vit = length (filter (\<lambda>op. fornext_vars op \<noteq> None) ops) \<Longrightarrow>
     list_all2 (\<lambda>entry vars. length entry = length vars) vit (List.map_filter fornext_vars ops)"
  by (induction ops arbitrary: vit) (auto simp: map_filter_simps split: option.splits list.splits if_splits)

lemma check_vartab_Ok:
  "check_vartab f = Inr () \<Longrightarrow>
     list_all2 (\<lambda>entry vars. length entry = length vars) (fd_vartab f) (List.map_filter fornext_vars (fd_code f))"
  by (auto simp: check_vartab_def Let_def intro: check_vartab_entries_Ok)

lemma verify_func_Ok:
  assumes "verify_func m k (name_index m) = Inr M"
  shows "k < length (m_funcs m) \<and>
    (let f = m_funcs m ! k in
       length (fd_spans f) = length (fd_code f) \<and>
       (\<forall>op \<in> set (fd_code f). ids_in_range m (length (fd_code f)) op) \<and>
       simulate (fd_code f) (fd_spans f) = Inr M \<and> fd_max_stack f = M \<and>
       check_locals m f = Inr () \<and> check_vartab f = Inr () \<and> infer_func (ctx_of m f) = Inr ())"
proof -
  have ids: "\<forall>op \<in> set (fd_code f). ids_in_range m n op"
    if "\<forall>x \<in> set (enumerate 0 (fd_code f)). (\<lambda>(pc, op). check_op m n op (g pc)) x = Inr ()" for f n g
  proof
    fix op assume "op \<in> set (fd_code f)"
    then obtain i where "i < length (fd_code f)" "fd_code f ! i = op" by (auto simp: in_set_conv_nth)
    with that enumerate_mem [of i "fd_code f"] have "check_op m n op (g i) = Inr ()" by auto
    then show "ids_in_range m n op" by (rule check_op_Ok)
  qed
  show ?thesis
    using assms
    by (auto simp: verify_func_def Let_def ctx_of_def split: option.splits dest!: ids)
qed

lemma verifyD:
  assumes "verify m = Inr ()"
  shows "m_funcs m \<noteq> []" "func_ix (m_entry m) < length (m_funcs m)" "check_consts m = Inr ()"
    "\<And>i. i < length (m_types m) \<Longrightarrow> check_type_entry m (i, m_types m ! i) = Inr ()"
    "\<And>i. i < length (m_funcs m) \<Longrightarrow> check_signature m (i, m_funcs m ! i) = Inr ()"
    "\<And>i. i < length (m_funcs m) \<Longrightarrow> \<exists>M. verify_func m i (name_index m) = Inr M"
  using assms by (auto simp: verify_def in_set_enumerate_eq not_le)

lemma verify_func_of:
  assumes "verify m = Inr ()" "f \<in> set (m_funcs m)"
  shows "length (fd_spans f) = length (fd_code f)"
    "\<And>op. op \<in> set (fd_code f) \<Longrightarrow> ids_in_range m (length (fd_code f)) op"
    "simulate (fd_code f) (fd_spans f) = Inr (fd_max_stack f)"
    "check_locals m f = Inr ()" "check_vartab f = Inr ()" "infer_func (ctx_of m f) = Inr ()"
proof -
  from assms(2) obtain k where k: "k < length (m_funcs m)" "m_funcs m ! k = f"
    by (auto simp: in_set_conv_nth)
  then obtain M where "verify_func m k (name_index m) = Inr M"
    using verifyD(6) [OF assms(1)] by blast
  from verify_func_Ok [OF this] k
  show "length (fd_spans f) = length (fd_code f)"
    "\<And>op. op \<in> set (fd_code f) \<Longrightarrow> ids_in_range m (length (fd_code f)) op"
    "simulate (fd_code f) (fd_spans f) = Inr (fd_max_stack f)"
    "check_locals m f = Inr ()" "check_vartab f = Inr ()" "infer_func (ctx_of m f) = Inr ()"
    by (auto simp: Let_def)
qed

subsection \<open>Tables\<close>

lemma check_consts_descend: "check_consts m = Inr () \<Longrightarrow> arrays_descend (m_consts m)"
proof -
  assume "check_consts m = Inr ()"
  then have ok: "\<not> bad_const m i (m_consts m ! i)" if "i < length (m_consts m)" for i
    using enumerate_mem [OF that] by (auto simp: check_consts_def)
  have "const_ix c < i" if "i < length (m_consts m)" "m_consts m ! i = CArray items" "c \<in> set items" for i items c
    using ok [OF that(1)] that(2,3) by (auto simp: bad_const_def list_ex_iff)
  then show ?thesis by (auto simp: arrays_descend_def)
qed

lemma check_type_entry_Ok:
  assumes "check_type_entry m (i, t) = Inr ()"
  shows "(\<forall>j \<in> set (collect_ids t). type_ix j < i) \<and> (\<forall>s. type_string t = Some s \<longrightarrow> str_ix s < length (m_strings m))"
  using assms by (auto simp: check_type_entry_def not_le split: option.splits)

lemma name_index_step:
  assumes "\<And>name t. idx name = Some t \<Longrightarrow> t < n" "\<And>i f. (i, f) \<in> set fs \<Longrightarrow> i < n"
    "foldl (\<lambda>idx (i, f).
        case vec_get strs (str_ix (fd_name f)) of
          Some name \<Rightarrow> (case idx name of Some _ \<Rightarrow> idx | None \<Rightarrow> idx(name \<mapsto> i))
        | None \<Rightarrow> idx) idx fs name = Some t"
  shows "t < n"
  using assms
proof (induction fs arbitrary: idx)
  case (Cons x fs)
  obtain i f where x: "x = (i, f)" by fastforce
  let ?idx = "case vec_get strs (str_ix (fd_name f)) of
          Some name \<Rightarrow> (case idx name of Some _ \<Rightarrow> idx | None \<Rightarrow> idx(name \<mapsto> i))
        | None \<Rightarrow> idx"
  have "?idx name = Some t \<Longrightarrow> t < n" for name t
    using Cons.prems(1,2) x by (auto split: option.splits if_splits)
  with Cons.IH [of ?idx] Cons.prems(2,3) x show ?case by auto
qed simp

lemma name_index_range: "name_index m name = Some t \<Longrightarrow> t < length (m_funcs m)"
  unfolding name_index_def
  by (erule name_index_step [rotated 2]) (auto simp: in_set_enumerate_eq)

lemma cx_ok_ctx_of: "check_consts m = Inr () \<Longrightarrow> cx_ok (ctx_of m f)"
  by (simp add: cx_ok_def check_consts_descend name_index_range)

section \<open>Absence of panics\<close>

definition no_panic :: "ir_error \<Rightarrow> bool" where
  "no_panic e \<longleftrightarrow> (\<forall>w. e \<noteq> ir_panic w)"

lemma no_panic_new [simp]: "c \<noteq> CHR ''p'' \<Longrightarrow> no_panic (ir_error_new (c # s))"
  by (simp add: no_panic_def ir_panic_def ir_error_new_def)

lemma no_panic_spanned: "err_span e \<noteq> None \<Longrightarrow> no_panic e"
  by (simp add: no_panic_def spanned_not_panic)

lemma no_panic_ir_spanned [simp]: "no_panic (ir_error_spanned w sp)"
  by (simp add: no_panic_spanned)

lemma check_str_Err: "check_str m i what sp = Inl e \<Longrightarrow> no_panic e"
  by (auto simp: check_str_def split: if_splits)

lemma check_strs_Err: "check_strs m ids what sp = Inl e \<Longrightarrow> no_panic e"
  by (auto simp: check_strs_def dest!: all_ok_Err check_str_Err)

lemma check_lit_Err: "check_lit m i sp = Inl e \<Longrightarrow> no_panic e"
  by (auto simp: check_lit_def split: option.splits const.splits)

lemma check_home_Err: "check_home m what hs hv sp = Inl e \<Longrightarrow> no_panic e"
  by (auto simp: check_home_def res_bind_eq_Err split: option.splits dest: check_str_Err)

lemma check_home_field_Err: "check_home_field m hs hv field sp = Inl e \<Longrightarrow> no_panic e"
  by (auto simp: check_home_field_def res_bind_eq_Err dest: check_str_Err check_home_Err)

lemma check_pattern_Err: "check_pattern m p sp = Inl e \<Longrightarrow> no_panic e"
proof (induction m p sp rule: check_pattern.induct)
  case (4 m name arg sp)
  then show ?case by (auto simp: res_bind_eq_Err split: option.splits dest: check_str_Err)
next
  case (5 m pats sp)
  then show ?case by (auto dest!: all_ok_Err)
next
  case (6 m pats sp)
  then show ?case by (auto dest!: all_ok_Err)
qed (auto dest: check_str_Err check_lit_Err)

lemma check_op_ids_Err: "check_op_ids m op sp = Inl e \<Longrightarrow> no_panic e"
  by (cases op)
    (auto simp: check_op_ids_def check_func_id_def res_bind_eq_Err
      dest: check_str_Err check_strs_Err check_home_Err check_home_field_Err check_pattern_Err)

lemma check_op_Err: "check_op m n op sp = Inl e \<Longrightarrow> no_panic e"
  by (auto simp: check_op_def res_bind_eq_Err dest!: all_ok_Err dest: check_op_ids_Err)

lemma check_locals_Err: "check_locals m f = Inl e \<Longrightarrow> no_panic e"
  by (auto simp: check_locals_def Let_def res_bind_eq_Err dest!: all_ok_Err)

lemma check_param_slot_Err: "check_param_slot m f x = Inl e \<Longrightarrow> no_panic e"
  by (auto simp: check_param_slot_def split: option.splits prod.splits)

lemma check_vartab_entries_Err: "check_vartab_entries ops vit = Inl e \<Longrightarrow> no_panic e"
  by (induction ops arbitrary: vit) (auto split: option.splits list.splits if_splits)

lemma check_vartab_Err: "check_vartab f = Inl e \<Longrightarrow> no_panic e"
  by (auto simp: check_vartab_def Let_def res_bind_eq_Err dest: check_vartab_entries_Err)

lemma simulate_Err: "simulate code spans = Inl e \<Longrightarrow> no_panic e"
  unfolding no_panic_def using simulate_diagnosed diagnosed_not_panic by blast

lemma verify_func_Err:
  assumes "verify_func m k (name_index m) = Inl e" "k < length (m_funcs m)" "check_consts m = Inr ()"
  shows "no_panic e"
proof -
  have inf: "infer_func \<lparr>ic_module = m, ic_func = f, ic_funcs_by_name = name_index m,
       ic_prims = prim_ids_of m\<rparr> = Inl e \<Longrightarrow> no_panic e" for f e
    using infer_func_Err [of "ctx_of m f"] cx_ok_ctx_of [OF assms(3)] no_panic_spanned
    by (simp add: ctx_of_def)
  have "vec_get (m_funcs m) k = Some (m_funcs m ! k)" using assms(2) by simp
  with assms(1) show ?thesis
    by (auto simp: verify_func_def Let_def res_bind_eq_Err simp del: vec_get_eq_Some
        dest!: all_ok_Err dest: check_op_Err simulate_Err check_locals_Err check_param_slot_Err
        check_vartab_Err inf)
qed

lemma check_consts_Err: "check_consts m = Inl e \<Longrightarrow> no_panic e"
  by (auto simp: check_consts_def dest!: all_ok_Err)

lemma check_type_entry_Err: "check_type_entry m x = Inl e \<Longrightarrow> no_panic e"
  by (auto simp: check_type_entry_def res_bind_eq_Err split: prod.splits option.splits dest!: all_ok_Err)

lemma check_signature_Err: "check_signature m x = Inl e \<Longrightarrow> no_panic e"
  by (auto simp: check_signature_def check_func_param_def res_bind_eq_Err
      split: prod.splits option.splits dest!: all_ok_Err)

lemma verify_Err: "verify m = Inl e \<Longrightarrow> no_panic e"
  by (auto simp: verify_def res_bind_eq_Err dest!: all_ok_Err
      dest: check_consts_Err check_type_entry_Err check_signature_Err verify_func_Err)

end
