(* ===== verification/Lower.thy ===== *)
theory Lower
  imports Verify Vm_Op
begin

text \<open>
  Lowering of virtual machine chunks to IR modules (\<open>crates/zz_ir/src/lower.rs\<close>): interning of
  strings, types and constants, desugaring of fused instructions, retargeting of jumps, and the
  lifting of nested chunks into the function table.

  The state is the record \<open>lowerer\<close>; a method of the source is a function of it that fails or
  returns a value and the new state, composed by \<open>lw_bind\<close>. The source indexes the function table
  only with ids it has just handed out. Messages that embed a rendered value or instruction keep
  their fixed text only.
\<close>

section \<open>State\<close>

record lowerer =
  lw_strings :: "rstring list"
  lw_str_ids :: "rstring \<Rightarrow> str_id option"
  lw_consts :: "const list"
  lw_types :: "ir_type list"
  lw_funcs :: "func_def list"

record checker_sig =
  cs_params :: "(string \<times> ty) list"
  cs_ret :: ty

type_synonym sig_table = "rstring \<Rightarrow> checker_sig option"

type_synonym 'a lw = "lowerer \<Rightarrow> (ir_error, 'a \<times> lowerer) result"

definition lowerer_new :: lowerer where
  "lowerer_new = \<lparr>lw_strings = [], lw_str_ids = Map.empty, lw_consts = [], lw_types = [], lw_funcs = []\<rparr>"

definition lw_return :: "'a \<Rightarrow> 'a lw" where
  "lw_return x = (\<lambda>l. Ok (x, l))"

definition lw_fail :: "string \<Rightarrow> 'a lw" where
  "lw_fail msg = (\<lambda>l. Err (ir_error_new msg))"

definition lw_bind :: "'a lw \<Rightarrow> ('a \<Rightarrow> 'b lw) \<Rightarrow> 'b lw" where
  "lw_bind m f = (\<lambda>l. res_bind (m l) (\<lambda>(x, l'). f x l'))"

text \<open>A computation that does not touch the tables.\<close>

definition lw_lift :: "(ir_error, 'a) result \<Rightarrow> 'a lw" where
  "lw_lift r = (\<lambda>l. res_bind r (\<lambda>x. Ok (x, l)))"

primrec lw_seq :: "'a lw list \<Rightarrow> 'a list lw" where
  "lw_seq [] = lw_return []"
| "lw_seq (m # ms) = lw_bind m (\<lambda>x. lw_bind (lw_seq ms) (\<lambda>xs. lw_return (x # xs)))"

text \<open>The UTF-8 bytes of an ASCII literal.\<close>

definition bytes :: "string \<Rightarrow> rstring" where
  "bytes s = map of_char s"

section \<open>Interning\<close>

definition intern :: "rstring \<Rightarrow> str_id lw" where
  "intern s l = (case lw_str_ids l s of
       Some i \<Rightarrow> Ok (i, l)
     | None \<Rightarrow>
         (let i = StrId (word_of_nat (length (lw_strings l))) in
          Ok (i, l\<lparr>lw_strings := lw_strings l @ [s], lw_str_ids := (lw_str_ids l)(s \<mapsto> i)\<rparr>)))"

definition add_type :: "ir_type \<Rightarrow> type_id lw" where
  "add_type t l = (case position (\<lambda>e. e = t) (lw_types l) of
       Some i \<Rightarrow> Ok (TypeId (word_of_nat i), l)
     | None \<Rightarrow> Ok (TypeId (word_of_nat (length (lw_types l))), l\<lparr>lw_types := lw_types l @ [t]\<rparr>))"

primrec intern_type :: "ty \<Rightarrow> type_id lw" where
  "intern_type TyInt = add_type TInt"
| "intern_type TyFloat = add_type TFloat"
| "intern_type TyBool = add_type TBool"
| "intern_type TyStr = add_type TStr"
| "intern_type TyUnit = add_type TUnit"
| "intern_type TyVoid = add_type TVoid"
| "intern_type TyBytes = add_type TBytes"
| "intern_type TyJson = add_type TJson"
| "intern_type TyDb = add_type TDb"
| "intern_type TyHttpServer = add_type THttpServer"
| "intern_type TyTcpStream = add_type TTcpStream"
| "intern_type TyTcpListener = add_type TTcpListener"
| "intern_type TyResponse = add_type TResponse"
| "intern_type TyHttpRequest = add_type THttpRequest"
| "intern_type TyChan = add_type TChan"
| "intern_type TyTaskJoin = add_type TTaskJoin"
| "intern_type TyError = add_type TError"
| "intern_type (TyTuple items) = lw_bind (lw_seq (map intern_type items)) (\<lambda>ids. add_type (TTuple ids))"
| "intern_type (TyOption inner) = lw_bind (intern_type inner) (\<lambda>i. add_type (TOption i))"
| "intern_type (TyResult a b) =
     lw_bind (intern_type a) (\<lambda>i. lw_bind (intern_type b) (\<lambda>j. add_type (TResult i j)))"
| "intern_type (TyFunc params ret) =
     lw_bind (lw_seq (map intern_type params)) (\<lambda>ids. lw_bind (intern_type ret) (\<lambda>r. add_type (TFunc ids r)))"
| "intern_type (TyArray inner) = lw_bind (intern_type inner) (\<lambda>i. add_type (TArray i))"
| "intern_type (TyDict k v) =
     lw_bind (intern_type k) (\<lambda>i. lw_bind (intern_type v) (\<lambda>j. add_type (TDict i j)))"
| "intern_type (TyUnion items) = lw_bind (lw_seq (map intern_type items)) (\<lambda>ids. add_type (TUnion ids))"
| "intern_type (TyRange inner) = lw_bind (intern_type inner) (\<lambda>i. add_type (TRange i))"
| "intern_type (TyOpaque tag) = lw_bind (intern (bytes tag)) (\<lambda>i. add_type (TOpaque i))"
| "intern_type (TyNamed name) = lw_bind (intern (bytes name)) (\<lambda>i. add_type (TNamed i))"
| "intern_type (TyVar n) = add_type (TVar n)"
| "intern_type (TyStruct name args) =
     lw_bind (intern (bytes name)) (\<lambda>i. lw_bind (lw_seq (map intern_type args)) (\<lambda>ids. add_type (TStruct i ids)))"
| "intern_type (TyEnum name args) =
     lw_bind (intern (bytes name)) (\<lambda>i. lw_bind (lw_seq (map intern_type args)) (\<lambda>ids. add_type (TEnum i ids)))"
| "intern_type (TyPtr mutable inner) = lw_bind (intern_type inner) (\<lambda>i. add_type (TPtr mutable i))"
| "intern_type TyNever = add_type TUnknown"

definition unknown :: "type_id lw" where
  "unknown = intern_type TyNever"

text \<open>The derived equality of \<open>Const\<close>: floats are compared as numbers, not as bit patterns.\<close>

fun const_eq :: "const \<Rightarrow> const \<Rightarrow> bool" where
  "const_eq (CFloat a) (CFloat b) = f64_eq a b"
| "const_eq a b = (a = b)"

definition intern_const :: "const \<Rightarrow> const_id lw" where
  "intern_const c l = (case position (\<lambda>e. const_eq e c) (lw_consts l) of
       Some i \<Rightarrow> Ok (ConstId (word_of_nat i), l)
     | None \<Rightarrow> Ok (ConstId (word_of_nat (length (lw_consts l))), l\<lparr>lw_consts := lw_consts l @ [c]\<rparr>))"

definition unit_const :: "const_id lw" where
  "unit_const = intern_const CUnit"

definition int_const :: "i64 \<Rightarrow> const_id lw" where
  "int_const i = intern_const (CInt i)"

definition lw_pair :: "'a lw \<times> 'b lw \<Rightarrow> ('a \<times> 'b) lw" where
  "lw_pair p = (case p of (k, v) \<Rightarrow> lw_bind k (\<lambda>i. lw_bind v (\<lambda>j. lw_return (i, j))))"

primrec lower_value :: "rt_value \<Rightarrow> const_id lw" where
  "lower_value VUnit = intern_const CUnit"
| "lower_value (VBool b) = intern_const (CBool b)"
| "lower_value (VInt i) = intern_const (CInt i)"
| "lower_value (VFloat f) = intern_const (CFloat f)"
| "lower_value (VStr s) = lw_bind (intern s) (\<lambda>i. intern_const (CStr i))"
| "lower_value (VArray items) = lw_bind (lw_seq (map lower_value items)) (\<lambda>ids. intern_const (CArray ids))"
| "lower_value (VDict pairs) =
     lw_bind (lw_seq (map lw_pair (map (map_prod lower_value lower_value) pairs))) (\<lambda>out. intern_const (CDict out))"
| "lower_value (VOption x) = (case map_option lower_value x of
       None \<Rightarrow> intern_const (COption None)
     | Some m \<Rightarrow> lw_bind m (\<lambda>i. intern_const (COption (Some i))))"
| "lower_value (VResult r) = (case map_sum lower_value lower_value r of
       Inr m \<Rightarrow> lw_bind m (\<lambda>i. intern_const (CResult True i))
     | Inl m \<Rightarrow> lw_bind m (\<lambda>i. intern_const (CResult False i)))"
| "lower_value (VHandle _ _) = lw_fail ''cannot pool non-literal constant''"
| "lower_value (VBytes _) = lw_fail ''cannot pool non-literal constant''"
| "lower_value (VObject _ _) = lw_fail ''cannot pool non-literal constant''"
| "lower_value (VRange _ _ _) = lw_fail ''cannot pool non-literal constant''"
| "lower_value (VTuple _) = lw_fail ''cannot pool non-literal constant''"

section \<open>Patterns, homes and parameters\<close>

primrec lower_lit :: "lit \<Rightarrow> const_id lw" where
  "lower_lit (LInt i) = int_const i"
| "lower_lit (LFloat f) = intern_const (CFloat f)"
| "lower_lit (LStr s) = lw_bind (intern s) (\<lambda>i. intern_const (CStr i))"
| "lower_lit (LBool b) = intern_const (CBool b)"

primrec lower_pattern :: "ast_pattern \<Rightarrow> pattern lw" where
  "lower_pattern (APWildcard _) = lw_return PWildcard"
| "lower_pattern (APBinding name _) = lw_bind (intern name) (\<lambda>i. lw_return (PBinding i))"
| "lower_pattern (APLiteral v _) = lw_bind (lower_lit v) (\<lambda>c. lw_return (PLit c))"
| "lower_pattern (APVariant name arg _) = lw_bind (intern name) (\<lambda>i. (case map_option lower_pattern arg of
       None \<Rightarrow> lw_return (PVariant i None)
     | Some m \<Rightarrow> lw_bind m (\<lambda>p. lw_return (PVariant i (Some p)))))"
| "lower_pattern (APTuple pats _) = lw_bind (lw_seq (map lower_pattern pats)) (\<lambda>ps. lw_return (PTuple ps))"
| "lower_pattern (APOr pats _) = lw_bind (lw_seq (map lower_pattern pats)) (\<lambda>ps. lw_return (POr ps))"

primrec lower_home :: "take_home \<Rightarrow> (u16 option \<times> str_id option) lw" where
  "lower_home (HomeSlot s) = lw_return (Some s, None)"
| "lower_home (HomeEnv name) = lw_bind (intern name) (\<lambda>i. lw_return (None, Some i))"

definition update_func :: "func_id \<Rightarrow> (func_def \<Rightarrow> func_def) \<Rightarrow> unit lw" where
  "update_func i f l = Ok ((), l\<lparr>lw_funcs := (lw_funcs l)[func_ix i := f (lw_funcs l ! func_ix i)]\<rparr>)"

text \<open>The translation of a nested chunk, given its name and arity.\<close>

type_synonym lift = "rstring \<Rightarrow> u32 \<Rightarrow> func_id lw"

definition owner_type :: "checker_sig option \<Rightarrow> nat \<Rightarrow> ty option" where
  "owner_type owner i = (case owner of
       None \<Rightarrow> None
     | Some s \<Rightarrow> map_option snd (vec_get (cs_params s) i))"

definition lower_default :: "checker_sig option \<Rightarrow> nat \<Rightarrow> lift vm_param \<Rightarrow> func_id option lw" where
  "lower_default owner i p = (case vp_default p of
       None \<Rightarrow> lw_return None
     | Some lift_default \<Rightarrow>
         lw_bind (lift_default (vp_name p) 0) (\<lambda>j.
         lw_bind (case owner_type owner i of Some t \<Rightarrow> intern_type t | None \<Rightarrow> unknown) (\<lambda>ret.
         lw_bind (update_func j (fd_sig_update (\<lambda>_. \<lparr>sig_params = [], sig_ret = ret\<rparr>))) (\<lambda>_.
         lw_return (Some j)))))"

primrec lower_params :: "checker_sig option \<Rightarrow> nat \<Rightarrow> lift vm_param list \<Rightarrow> param list lw" where
  "lower_params owner i [] = lw_return []"
| "lower_params owner i (p # ps) =
     lw_bind (lower_default owner i p) (\<lambda>d.
     lw_bind (intern (vp_name p)) (\<lambda>n.
     lw_bind (lower_params owner (Suc i) ps) (\<lambda>out.
     lw_return (\<lparr>param_name = n, param_default = d\<rparr> # out))))"

definition lowered_sig :: "checker_sig option \<Rightarrow> nat \<Rightarrow> func_sig lw" where
  "lowered_sig found arity = (case found of
       Some s \<Rightarrow>
         lw_bind (lw_seq (map (intern_type \<circ> snd) (cs_params s))) (\<lambda>ps.
         lw_bind (intern_type (cs_ret s)) (\<lambda>r.
         lw_return \<lparr>sig_params = ps, sig_ret = r\<rparr>))
     | None \<Rightarrow> lw_bind unknown (\<lambda>u. lw_return \<lparr>sig_params = replicate arity u, sig_ret = u\<rparr>))"

text \<open>The parameter slots of a locals table, as far as it reaches, get the types of the signature.\<close>

definition seed_locals :: "type_id list \<Rightarrow> type_id list \<Rightarrow> type_id list" where
  "seed_locals ps locals = take (length locals) ps @ drop (length ps) locals"

definition seal_sig :: "sig_table \<Rightarrow> func_id \<Rightarrow> rstring option \<Rightarrow> unit lw" where
  "seal_sig sigs i name l =
     (let arity = length (fd_params (lw_funcs l ! func_ix i));
          found = (case name of None \<Rightarrow> None | Some n \<Rightarrow> sigs n) in
      lw_bind (lowered_sig found arity) (\<lambda>sig. update_func i (\<lambda>f.
        f\<lparr>fd_sig := sig, fd_arity := word_of_nat arity, fd_locals := seed_locals (sig_params sig) (fd_locals f)\<rparr>)) l)"

section \<open>Expansion of instructions\<close>

abbreviation emit :: "op \<Rightarrow> op list lw" where
  "emit i \<equiv> lw_return [i]"

abbreviation with_home :: "take_home \<Rightarrow> (u16 option \<Rightarrow> str_id option \<Rightarrow> op list lw) \<Rightarrow> op list lw" where
  "with_home home f \<equiv> lw_bind (lower_home home) (\<lambda>(slot, var). f slot var)"

abbreviation with_str :: "rstring \<Rightarrow> (str_id \<Rightarrow> 'a lw) \<Rightarrow> 'a lw" where
  "with_str s f \<equiv> lw_bind (intern s) f"

abbreviation with_strs :: "rstring list \<Rightarrow> (str_id list \<Rightarrow> 'a lw) \<Rightarrow> 'a lw" where
  "with_strs ss f \<equiv> lw_bind (lw_seq (map intern ss)) f"

text \<open>The desugared \<open>VecPush\<close>: take the home, append the element, store the home again.\<close>

definition expand_vec_push :: "take_home \<Rightarrow> op list lw" where
  "expand_vec_push home =
     with_home home (\<lambda>slot var.
     lw_bind unit_const (\<lambda>u.
     lw_bind (case (slot, var) of
         (Some s, _) \<Rightarrow> lw_return [LoadSlot s, PushConst u, StoreSlot s]
       | (None, Some v) \<Rightarrow> lw_return [LoadVar v, PushConst u, StoreVar v]
       | (None, None) \<Rightarrow> lw_fail ''VecPush without a home'') (\<lambda>take.
     lw_bind (case home of
         HomeSlot s \<Rightarrow> lw_return (StoreSlot s)
       | HomeEnv name \<Rightarrow> with_str name (\<lambda>i. lw_return (StoreVar i))) (\<lambda>store.
     lw_return (take @ [Swap, ArrayPush, store])))))"

primrec expand_core :: "vm_core \<Rightarrow> op list lw" where
  "expand_core VPop = emit Pop"
| "expand_core VSwap = emit Swap"
| "expand_core (VPopN n _) = emit (PopN n)"
| "expand_core VTruthy = emit Truthy"
| "expand_core (VLoadVar name _) = with_str name (\<lambda>i. emit (LoadVar i))"
| "expand_core (VLoadPath parts _) = with_strs parts (\<lambda>is. emit (LoadPath is))"
| "expand_core (VDefineVar name) = with_str name (\<lambda>i. emit (DefineVar i))"
| "expand_core (VStoreVar name _) = with_str name (\<lambda>i. emit (StoreVar i))"
| "expand_core (VStorePath parts _) = with_strs parts (\<lambda>is. emit (StorePath is))"
| "expand_core (VLoadSlot s) = emit (LoadSlot s)"
| "expand_core (VStoreSlot s) = emit (StoreSlot s)"
| "expand_core (VTakeSlot s) = lw_bind unit_const (\<lambda>u. lw_return [LoadSlot s, PushConst u, StoreSlot s])"
| "expand_core (VTakeVar name _) = with_str name (\<lambda>i. emit (TakeVar i))"
| "expand_core (VVecPush home _) = expand_vec_push home"
| "expand_core (VVecPushField home field _) = with_home home (\<lambda>slot var. with_str field (\<lambda>i. emit (VecPushField slot var i)))"
| "expand_core (VVecPushMethod home field _) = with_home home (\<lambda>slot var. with_str field (\<lambda>i. emit (VecPushMethod slot var i)))"
| "expand_core (VSetFieldTake home field _) = with_home home (\<lambda>slot var. with_str field (\<lambda>i. emit (SetFieldTake slot var i)))"
| "expand_core (VSetFieldIndexTake home field _) = with_home home (\<lambda>slot var. with_str field (\<lambda>i. emit (SetFieldIndexTake slot var i)))"
| "expand_core (VStoreIndexTake home _) = with_home home (\<lambda>slot var. emit (StoreIndexTake slot var))"
| "expand_core (VCompoundIndexTake home bop _) = with_home home (\<lambda>slot var. emit (CompoundIndexTake slot var bop))"
| "expand_core (VFieldBinopTake home field bop _) = with_home home (\<lambda>slot var. with_str field (\<lambda>i. emit (FieldBinopTake slot var i bop)))"
| "expand_core (VGetFieldIndex home field _) = with_home home (\<lambda>slot var. with_str field (\<lambda>i. emit (GetFieldIndex slot var i)))"
| "expand_core (VLenField home field _) = with_home home (\<lambda>slot var. with_str field (\<lambda>i. emit (LenField slot var i)))"
| "expand_core (VGetFieldSlotIdx home idx dst _) = with_home home (\<lambda>slot var. emit (GetFieldSlotIdx slot var idx dst))"
| "expand_core (VIndexIntSlot arr idx dst _) = emit (IndexIntSlot arr idx dst)"
| "expand_core (VIndexDictInt dict key dst _) = emit (IndexDictInt dict key dst)"
| "expand_core (VSlotAddInt dst src) = emit (SlotAddInt dst src)"
| "expand_core (VSlotInc slot) = emit (SlotInc slot)"
| "expand_core (VSlotAddIntImm dst imm) = emit (SlotAddIntImm dst imm)"
| "expand_core (VSlotSubIntImm dst imm) = emit (SlotSubIntImm dst imm)"
| "expand_core (VSlotMulIntImm dst imm) = emit (SlotMulIntImm dst imm)"
| "expand_core (VSlotLessIntSlot a b) = emit (SlotLessIntSlot a b)"
| "expand_core (VSlotLessIntImm a imm) = emit (SlotLessIntImm a imm)"
| "expand_core (VSlotCmpIntSlot a b bop) = emit (SlotCmpIntSlot a b bop)"
| "expand_core (VSlotCmpIntImm a imm bop) = emit (SlotCmpIntImm a imm bop)"
| "expand_core (VJumpIfFalseSlotCmpIntImm a imm bop t _) = emit (JumpIfFalseSlotCmpIntImm a imm bop (word_of_nat t))"
| "expand_core (VJumpIfFalseSlotCmpIntSlot a b bop t _) = emit (JumpIfFalseSlotCmpIntSlot a b bop (word_of_nat t))"
| "expand_core (VPushSlotIntImm a imm bop _) = emit (PushSlotIntImm a imm bop)"
| "expand_core (VSlotBinaryInt dst lhs rhs bop) = emit (SlotBinaryInt dst lhs rhs bop)"
| "expand_core (VSlotBinaryIntImm dst lhs imm bop) = emit (SlotBinaryIntImm dst lhs imm bop)"
| "expand_core (VRegisterStruct name fs) = with_str name (\<lambda>i. with_strs fs (\<lambda>is. emit (RegisterStruct i is)))"
| "expand_core (VRegisterEnum name variants) = with_str name (\<lambda>i.
       lw_bind (lw_seq (map (\<lambda>(v, a). with_str v (\<lambda>j. lw_return (j, a))) variants)) (\<lambda>vs. emit (RegisterEnum i vs)))"
| "expand_core (VMakeEnum enum_name variant argc _) = with_str enum_name (\<lambda>i. with_str variant (\<lambda>j. emit (MakeEnum i j argc)))"
| "expand_core (VIntAdd _) = emit IntAdd"
| "expand_core (VIntSub _) = emit IntSub"
| "expand_core (VIntMul _) = emit IntMul"
| "expand_core (VIntDiv _) = emit IntDiv"
| "expand_core (VIntRem _) = emit IntRem"
| "expand_core (VIntNeg _) = emit IntNeg"
| "expand_core (VIntLt _) = emit (BinOp BLt)"
| "expand_core (VIntGt _) = emit (BinOp BGt)"
| "expand_core (VIntLe _) = emit (BinOp BLe)"
| "expand_core (VIntGe _) = emit (BinOp BGe)"
| "expand_core (VIntEq _) = emit (BinOp BEq)"
| "expand_core (VIntNe _) = emit (BinOp BNe)"
| "expand_core (VBinOp bop _) = emit (BinOp bop)"
| "expand_core (VUnOp uop _) = emit (UnOp uop)"
| "expand_core (VJump t) = emit (Jump (word_of_nat t))"
| "expand_core (VJumpIfFalse t) = emit (JumpIfFalse (word_of_nat t))"
| "expand_core (VJumpIfTrue t) = emit (JumpIfTrue (word_of_nat t))"
| "expand_core (VJumpIfFalseBool t _) = emit (JumpIfFalseBool (word_of_nat t))"
| "expand_core VReturn = emit Return"
| "expand_core (VForSetup exit header _ num_vars) = emit (ForSetup (word_of_nat exit) (word_of_nat header) num_vars)"
| "expand_core (VForNext vars exit body in_env _) = with_strs vars (\<lambda>is. emit (ForNext is (word_of_nat exit) (word_of_nat body) in_env))"
| "expand_core (VWhileSetup exit header) = emit (WhileSetup (word_of_nat exit) (word_of_nat header))"
| "expand_core (VWhileCond exit _) = emit (WhileCond (word_of_nat exit))"
| "expand_core (VBreak _) = emit Break"
| "expand_core (VContinue _) = emit Continue"
| "expand_core VSetLoopResult = emit SetLoopResult"
| "expand_core VSafepoint = emit Safepoint"
| "expand_core (VMakeArray n) = emit (MakeArray n)"
| "expand_core (VUnpackTuple n) = emit (UnpackTuple n)"
| "expand_core (VMakeDict n) = emit (MakeDict n)"
| "expand_core (VArrayPush _) = emit ArrayPush"
| "expand_core (VIndexOp _) = emit IndexOp"
| "expand_core (VStoreIndexOp _) = emit StoreIndexOp"
| "expand_core (VCompoundIndexOp bop _) = emit (CompoundIndexOp bop)"
| "expand_core (VSliceOp _) = emit SliceOp"
| "expand_core (VMakeRange _) = emit MakeRange"
| "expand_core (VMakeStruct name fs _) = with_str name (\<lambda>i. with_strs fs (\<lambda>is. emit (MakeStruct i is)))"
| "expand_core (VGetField name _) = with_str name (\<lambda>i. emit (GetField i))"
| "expand_core (VGetFieldIdx i _) = emit (GetFieldIdx i)"
| "expand_core (VSetField name _) = with_str name (\<lambda>i. emit (SetField i))"
| "expand_core (VSetFieldIdx i _) = emit (SetFieldIdx i)"
| "expand_core (VCompoundFieldOp name bop _) = with_str name (\<lambda>i. emit (CompoundFieldOp i bop))"
| "expand_core (VMakeVariant name has_arg _) = with_str name (\<lambda>i. emit (MakeVariant i has_arg))"
| "expand_core (VMatchArm pat nxt has_env restore) = lw_bind (lower_pattern pat) (\<lambda>p. emit (MatchArm p (word_of_nat nxt) has_env restore))"
| "expand_core (VMatchGuard nxt has_env) = emit (MatchGuard (word_of_nat nxt) has_env)"
| "expand_core (VMatchError _) = emit MatchError"
| "expand_core (VIfLetMatch pat els has_env) = lw_bind (lower_pattern pat) (\<lambda>p. emit (IfLetMatch p (word_of_nat els) has_env))"
| "expand_core (VTryOp _) = emit TryOp"
| "expand_core (VElvis _) = emit Elvis"
| "expand_core VElvisResult = emit ElvisResult"
| "expand_core (VCall argc _) = emit (Call argc)"
| "expand_core (VCallPath parts _ argc _ pspan) = with_strs parts (\<lambda>is. emit (CallPath is argc pspan))"
| "expand_core (VCallMethod name argc _) = with_str name (\<lambda>i. emit (CallMethod i argc))"
| "expand_core (VCallNative name argc _) = with_str name (\<lambda>i. emit (CallNative i argc))"
| "expand_core (VConcat n) = emit (Concat n)"
| "expand_core (VFormatValue _) = emit FormatValue"
| "expand_core (VDbQuery n _) = emit (DbQuery n)"
| "expand_core VEnterScope = emit EnterScope"
| "expand_core VExitScope = emit ExitScope"
| "expand_core VDeferRecord = emit DeferRecord"

text \<open>Lift a body, lower its parameters, seal its signature.\<close>

definition lift_function ::
  "sig_table \<Rightarrow> rstring \<Rightarrow> checker_sig option \<Rightarrow> rstring option \<Rightarrow> lift vm_param list \<Rightarrow> lift \<Rightarrow> func_id lw" where
  "lift_function sigs label owner name params lift_body =
     lw_bind (lift_body label (word_of_nat (length params))) (\<lambda>i.
     lw_bind (lower_params owner 0 params) (\<lambda>lowered.
     lw_bind (update_func i (fd_params_update (\<lambda>_. lowered))) (\<lambda>_.
     lw_bind (seal_sig sigs i name) (\<lambda>_. lw_return i))))"

definition pooled :: "string \<Rightarrow> rt_value list \<Rightarrow> u32 \<Rightarrow> const_id lw" where
  "pooled what pool k = (case vec_get pool (unat k) of
       None \<Rightarrow> lw_fail (what @ '' index out of range'')
     | Some v \<Rightarrow> lower_value v)"

definition expand_op :: "sig_table \<Rightarrow> rt_value list \<Rightarrow> (u32, lift) vm_op \<Rightarrow> op list lw" where
  "expand_op sigs pool i = (case i of
       VPushConst k \<Rightarrow> lw_bind (pooled ''PushConst'' pool k) (\<lambda>c. emit (PushConst c))
     | VSlotCmpConst a k bop \<Rightarrow> lw_bind (pooled ''SlotCmpConst'' pool k) (\<lambda>c. emit (SlotCmpConst a c bop))
     | VMakeFunc name params chunk _ \<Rightarrow>
         lw_bind (lift_function sigs name (sigs name) (Some name) params chunk) (\<lambda>j. emit (MakeFunc j))
     | VMakeClosure params chunk _ \<Rightarrow>
         lw_bind (lift_function sigs (bytes ''closure'') None None params chunk) (\<lambda>j. emit (MakeClosure j))
     | VSpawnClosure params chunk _ _ \<Rightarrow>
         lw_bind (lift_function sigs (bytes ''spawn'') None None params chunk) (\<lambda>j. emit (SpawnClosure j))
     | VCore c \<Rightarrow> expand_core c)"

definition expand_chunk :: "sig_table \<Rightarrow> rt_value list \<Rightarrow> (u32, lift) vm_op list \<Rightarrow> op list list lw" where
  "expand_chunk sigs pool code = lw_seq (map (expand_op sigs pool) code)"

section \<open>Retargeting\<close>

text \<open>Where each group of the expansion starts, and one past the end.\<close>

primrec bases :: "u32 \<Rightarrow> op list list \<Rightarrow> u32 list" where
  "bases pc [] = [pc]"
| "bases pc (g # gs) = pc # bases (pc + word_of_nat (length g)) gs"

definition remap_target :: "string \<Rightarrow> u32 list \<Rightarrow> u32 \<Rightarrow> (ir_error, u32) result" where
  "remap_target msg base t = (case vec_get base (unat t) of
       None \<Rightarrow> Err (ir_error_new msg)
     | Some b \<Rightarrow> Ok b)"

definition remap1 :: "u32 list \<Rightarrow> u32 \<Rightarrow> (u32 \<Rightarrow> op) \<Rightarrow> (ir_error, op) result" where
  "remap1 base t f = res_bind (remap_target ''jump target out of range'' base t) (\<lambda>t'. Ok (f t'))"

definition remap_header :: "u32 list \<Rightarrow> u32 \<Rightarrow> u32 \<Rightarrow> (u32 \<Rightarrow> u32 \<Rightarrow> op) \<Rightarrow> (ir_error, op) result" where
  "remap_header base exit header f =
     res_bind (remap_target ''jump target out of range'' base exit) (\<lambda>e.
     res_bind (remap_target ''loop header out of range'' base header) (\<lambda>h. Ok (f e h)))"

definition remap_op :: "u32 list \<Rightarrow> op \<Rightarrow> (ir_error, op) result" where
  "remap_op base i = (case i of
       Jump t \<Rightarrow> remap1 base t Jump
     | JumpIfFalse t \<Rightarrow> remap1 base t JumpIfFalse
     | JumpIfTrue t \<Rightarrow> remap1 base t JumpIfTrue
     | JumpIfFalseBool t \<Rightarrow> remap1 base t JumpIfFalseBool
     | ForSetup exit header n \<Rightarrow> remap_header base exit header (\<lambda>e h. ForSetup e h n)
     | ForNext vars exit body in_env \<Rightarrow>
         res_bind (remap_target ''jump target out of range'' base exit) (\<lambda>e.
         res_bind (remap_target ''jump target out of range'' base body) (\<lambda>b. Ok (ForNext vars e b in_env)))
     | WhileSetup exit header \<Rightarrow> remap_header base exit header WhileSetup
     | JumpIfFalseSlotCmpIntImm a imm bop t \<Rightarrow> remap1 base t (JumpIfFalseSlotCmpIntImm a imm bop)
     | JumpIfFalseSlotCmpIntSlot a b bop t \<Rightarrow> remap1 base t (JumpIfFalseSlotCmpIntSlot a b bop)
     | WhileCond t \<Rightarrow> remap1 base t WhileCond
     | MatchArm p t has_env restore \<Rightarrow> remap1 base t (\<lambda>t'. MatchArm p t' has_env restore)
     | MatchGuard t has_env \<Rightarrow> remap1 base t (\<lambda>t'. MatchGuard t' has_env)
     | IfLetMatch p t has_env \<Rightarrow> remap1 base t (\<lambda>t'. IfLetMatch p t' has_env)
     | _ \<Rightarrow> Ok i)"

primrec res_list :: "('e, 'a) result list \<Rightarrow> ('e, 'a list) result" where
  "res_list [] = Ok []"
| "res_list (r # rs) = res_bind r (\<lambda>x. res_bind (res_list rs) (\<lambda>xs. Ok (x # xs)))"

definition op_span :: "span list \<Rightarrow> nat \<Rightarrow> span" where
  "op_span spans pc = (case vec_get spans pc of None \<Rightarrow> Span 0 0 | Some s \<Rightarrow> s)"

text \<open>The spans of the flattened code: each instruction has the span of the one it came from.\<close>

primrec flat_spans :: "span list \<Rightarrow> nat \<Rightarrow> 'a list list \<Rightarrow> span list" where
  "flat_spans spans pc [] = []"
| "flat_spans spans pc (g # gs) = replicate (length g) (op_span spans pc) @ flat_spans spans (Suc pc) gs"

definition remap_and_flatten :: "op list list \<Rightarrow> span list \<Rightarrow> (ir_error, op list \<times> span list) result" where
  "remap_and_flatten expanded spans =
     res_bind (res_list (map (remap_op (bases 0 expanded)) (concat expanded))) (\<lambda>code.
     Ok (code, flat_spans spans 0 expanded))"

section \<open>Chunks\<close>

text \<open>The slots of the \<open>ForNext\<close> instructions, in order; their number must match.\<close>

fun is_for_next :: "('k, 'c) vm_op \<Rightarrow> bool" where
  "is_for_next (VCore (VForNext _ _ _ _ _)) = True"
| "is_for_next _ = False"

fun vartab_of :: "('k, 'c) vm_op list \<Rightarrow> u16 list list \<Rightarrow> (ir_error, u16 list list) result" where
  "vartab_of [] [] = Ok []"
| "vartab_of [] (_ # _) = Err (ir_error_new ''cannot lower: fornext_slots longer than ForNext ops'')"
| "vartab_of (i # is) slots =
     (if is_for_next i
      then (case slots of
          [] \<Rightarrow> Err (ir_error_new ''cannot lower: fornext_slots shorter than ForNext ops'')
        | v # vs \<Rightarrow> res_bind (vartab_of is vs) (\<lambda>t. Ok (v # t)))
      else vartab_of is slots)"

primrec record_locals :: "nat \<Rightarrow> ty option list \<Rightarrow> type_id list \<Rightarrow> type_id list lw" where
  "record_locals i [] locals = lw_return locals"
| "record_locals i (r # rs) locals = (case r of
       Some t \<Rightarrow>
         if i < length locals then lw_bind (intern_type t) (\<lambda>j. record_locals (Suc i) rs (locals[i := j]))
         else record_locals (Suc i) rs locals
     | None \<Rightarrow> record_locals (Suc i) rs locals)"

definition named_slots :: "op list \<Rightarrow> u16 list" where
  "named_slots code = concat (map (\<lambda>i. case slot_extent i of None \<Rightarrow> [] | Some s \<Rightarrow> [s]) code)"

definition local_count :: "op list \<Rightarrow> u16 list \<Rightarrow> u32 \<Rightarrow> nat" where
  "local_count code slots arity =
     max (case foldl max_slot None (named_slots code @ slots) of None \<Rightarrow> 0 | Some s \<Rightarrow> unat s + 1) (unat arity)"

definition reserved_func :: "u32 \<Rightarrow> func_def" where
  "reserved_func arity = \<lparr>fd_name = StrId (- 1), fd_arity = arity, fd_params = [],
     fd_sig = \<lparr>sig_params = [], sig_ret = TypeId (- 1)\<rparr>, fd_locals = [], fd_vartab = [],
     fd_toplevel_slots = [], fd_code = [], fd_spans = [], fd_max_stack = 0\<rparr>"

definition stack_bound :: "op list \<Rightarrow> (ir_error, u32) result" where
  "stack_bound code = (case max_stack_for code of
       Inl e \<Rightarrow> Err (ir_error_new ''cannot lower'')
     | Inr n \<Rightarrow> Ok n)"

text \<open>What is written into the reserved record of a function once its body is lowered.\<close>

definition lift_parts ::
  "sig_table \<Rightarrow> (u32, lift) vm_op list \<Rightarrow> rt_value list \<Rightarrow> span list \<Rightarrow> (rstring \<times> u16) list \<Rightarrow>
     ty option list \<Rightarrow> u16 list list \<Rightarrow> rstring \<Rightarrow> u32 \<Rightarrow> (func_def \<Rightarrow> func_def) lw" where
  "lift_parts sigs code pool spans slots slot_types fornext_slots name arity =
     lw_bind (expand_chunk sigs pool code) (\<lambda>expanded.
     lw_bind (lw_lift (remap_and_flatten expanded spans)) (\<lambda>(ir_code, ir_spans).
     lw_bind (lw_lift (stack_bound ir_code)) (\<lambda>max_stack.
     lw_bind (lw_seq (map (\<lambda>(n, s). with_str n (\<lambda>j. lw_return (j, s))) slots)) (\<lambda>toplevel.
     lw_bind unknown (\<lambda>u.
     lw_bind (record_locals 0 slot_types (replicate (local_count ir_code (map snd slots) arity) u)) (\<lambda>locals.
     lw_bind (intern name) (\<lambda>name_id.
     lw_bind (lw_lift (vartab_of code fornext_slots)) (\<lambda>vartab.
     lw_return (\<lambda>f. f\<lparr>fd_name := name_id, fd_code := ir_code, fd_spans := ir_spans,
       fd_max_stack := max_stack, fd_toplevel_slots := toplevel, fd_locals := locals,
       fd_vartab := vartab\<rparr>)))))))))"

definition lift_body ::
  "sig_table \<Rightarrow> (u32, lift) vm_op list \<Rightarrow> rt_value list \<Rightarrow> span list \<Rightarrow> (rstring \<times> u16) list \<Rightarrow>
     ty option list \<Rightarrow> u16 list list \<Rightarrow> lift" where
  "lift_body sigs code pool spans slots slot_types fornext_slots name arity l =
     (let i = FuncId (word_of_nat (length (lw_funcs l))) in
      lw_bind (lift_parts sigs code pool spans slots slot_types fornext_slots name arity) (\<lambda>parts.
      lw_bind (update_func i parts) (\<lambda>_. lw_return i)) (l\<lparr>lw_funcs := lw_funcs l @ [reserved_func arity]\<rparr>))"

primrec lift_chunk :: "sig_table \<Rightarrow> vm_chunk \<Rightarrow> lift" where
  "lift_chunk sigs (VmChunk code pool params spans slots slot_types fornext_slots) =
     lift_body sigs (map (map_vm_op (\<lambda>k. k) (lift_chunk sigs)) code) pool spans slots slot_types fornext_slots"

definition lower_typed :: "vm_chunk \<Rightarrow> sig_table \<Rightarrow> (ir_error, module_) result" where
  "lower_typed chunk sigs =
     res_bind (lift_chunk sigs chunk (bytes ''main'') 0 lowerer_new) (\<lambda>(entry, l).
     res_bind (seal_sig sigs entry None l) (\<lambda>(_, l').
     let m = \<lparr>m_types = lw_types l', m_strings = lw_strings l', m_consts = lw_consts l',
              m_funcs = lw_funcs l', m_entry = entry\<rparr> in
     res_bind (verify m) (\<lambda>_. Ok m)))"

definition lower :: "vm_chunk \<Rightarrow> (ir_error, module_) result" where
  "lower chunk = lower_typed chunk Map.empty"

end
