(* ===== verification/Raise.thy ===== *)
theory Raise
  imports Lower
begin

text \<open>
  Raising of IR modules back to chunks the virtual machine runs (\<open>crates/zz_ir/src/raise.rs\<close>): ids are
  resolved against the tables, every function rebuilds its own constant pool, and nested functions
  become nested chunks again.

  Two recursions follow ids of the module and stop at an id they have seen: \<open>raise_const\<close> threads
  the ids it has visited, \<open>raise_func\<close> keeps those it is inside of (the source pops an id when it is
  done with it, so the vector is the same before and after a successful call). Both take fuel
  here, one step per nesting level; the amounts chosen are never used up.
\<close>

section \<open>Tables\<close>

definition out_of_fuel :: ir_error where
  "out_of_fuel = ir_error_new ''out of fuel''"

definition rs_str :: "module_ \<Rightarrow> str_id \<Rightarrow> (ir_error, rstring) result" where
  "rs_str m i = (case vec_get (m_strings m) (str_ix i) of
       None \<Rightarrow> Err (ir_error_new ''raise: string id out of range (unverified module?)'')
     | Some s \<Rightarrow> Ok s)"

definition rs_strs :: "module_ \<Rightarrow> str_id list \<Rightarrow> (ir_error, rstring list) result" where
  "rs_strs m is = res_list (map (rs_str m) is)"

definition rs_func :: "module_ \<Rightarrow> func_id \<Rightarrow> (ir_error, func_def) result" where
  "rs_func m i = (case vec_get (m_funcs m) (func_ix i) of
       None \<Rightarrow> Err (ir_error_new ''raise: func id out of range (unverified module?)'')
     | Some f \<Rightarrow> Ok f)"

section \<open>Constants\<close>

text \<open>A loop over \<open>xs\<close> that threads a state.\<close>

primrec res_thread :: "('a \<Rightarrow> 's \<Rightarrow> ('e, 'b \<times> 's) result) \<Rightarrow> 'a list \<Rightarrow> 's \<Rightarrow> ('e, 'b list \<times> 's) result" where
  "res_thread f [] s = Ok ([], s)"
| "res_thread f (x # xs) s =
     res_bind (f x s) (\<lambda>(y, s'). res_bind (res_thread f xs s') (\<lambda>(ys, s''). Ok (y # ys, s'')))"

type_synonym const_raiser = "const_id \<Rightarrow> const_id list \<Rightarrow> (ir_error, rt_value \<times> const_id list) result"

text \<open>The constructor of a constant; \<open>rec\<close> raises the constants it refers to.\<close>

definition raise_const_node :: "module_ \<Rightarrow> const_raiser \<Rightarrow> const \<Rightarrow> const_id list \<Rightarrow> (ir_error, rt_value \<times> const_id list) result" where
  "raise_const_node m rec c seen = (case c of
       CUnit \<Rightarrow> Ok (VUnit, seen)
     | CBool b \<Rightarrow> Ok (VBool b, seen)
     | CInt i \<Rightarrow> Ok (VInt i, seen)
     | CFloat f \<Rightarrow> Ok (VFloat f, seen)
     | CStr s \<Rightarrow> res_bind (rs_str m s) (\<lambda>str. Ok (VStr str, seen))
     | CArray items \<Rightarrow> res_bind (res_thread rec items seen) (\<lambda>(vs, s). Ok (VArray vs, s))
     | CDict pairs \<Rightarrow>
         res_bind (res_thread (\<lambda>(k, v) s. res_bind (rec k s) (\<lambda>(x, s'). res_bind (rec v s') (\<lambda>(y, s''). Ok ((x, y), s''))))
           pairs seen) (\<lambda>(ps, s). Ok (VDict ps, s))
     | COption None \<Rightarrow> Ok (VOption None, seen)
     | COption (Some i) \<Rightarrow> res_bind (rec i seen) (\<lambda>(x, s). Ok (VOption (Some x), s))
     | CResult is_ok i \<Rightarrow> res_bind (rec i seen) (\<lambda>(x, s). Ok (VResult (if is_ok then Inr x else Inl x), s)))"

primrec raise_const_at :: "nat \<Rightarrow> module_ \<Rightarrow> const_raiser" where
  "raise_const_at 0 m = (\<lambda>i seen. Err out_of_fuel)"
| "raise_const_at (Suc n) m = (\<lambda>i seen.
     if i \<in> set seen then Err (ir_error_new ''raise: cyclic const pool'')
     else (case vec_get (m_consts m) (const_ix i) of
         None \<Rightarrow> Err (ir_error_new ''raise: const id out of range (unverified module?)'')
       | Some c \<Rightarrow> raise_const_node m (raise_const_at n m) c (seen @ [i])))"

definition raise_const :: "module_ \<Rightarrow> const_id \<Rightarrow> (ir_error, rt_value) result" where
  "raise_const m i = map_sum (\<lambda>e. e) fst (raise_const_at (length (m_consts m) + 1) m i [])"

section \<open>Patterns and homes\<close>

definition const_lit :: "module_ \<Rightarrow> const_id \<Rightarrow> (ir_error, lit) result" where
  "const_lit m i = (case vec_get (m_consts m) (const_ix i) of
       Some (CInt n) \<Rightarrow> Ok (LInt n)
     | Some (CFloat f) \<Rightarrow> Ok (LFloat f)
     | Some (CStr s) \<Rightarrow> res_bind (rs_str m s) (\<lambda>str. Ok (LStr str))
     | Some (CBool b) \<Rightarrow> Ok (LBool b)
     | _ \<Rightarrow> Err (ir_error_new ''raise: pattern literal is not int/float/str/bool''))"

abbreviation no_span :: span where
  "no_span \<equiv> Span 0 0"

primrec raise_pattern :: "module_ \<Rightarrow> pattern \<Rightarrow> (ir_error, ast_pattern) result" where
  "raise_pattern m PWildcard = Ok (APWildcard no_span)"
| "raise_pattern m (PBinding i) = res_bind (rs_str m i) (\<lambda>s. Ok (APBinding s no_span))"
| "raise_pattern m (PLit i) = res_bind (const_lit m i) (\<lambda>v. Ok (APLiteral v no_span))"
| "raise_pattern m (PVariant i arg) = res_bind (rs_str m i) (\<lambda>s. (case map_option (raise_pattern m) arg of
       None \<Rightarrow> Ok (APVariant s None no_span)
     | Some r \<Rightarrow> res_bind r (\<lambda>p. Ok (APVariant s (Some p) no_span))))"
| "raise_pattern m (PTuple ps) = res_bind (res_list (map (raise_pattern m) ps)) (\<lambda>qs. Ok (APTuple qs no_span))"
| "raise_pattern m (POr ps) = res_bind (res_list (map (raise_pattern m) ps)) (\<lambda>qs. Ok (APOr qs no_span))"

definition raise_home :: "module_ \<Rightarrow> u16 option \<Rightarrow> str_id option \<Rightarrow> (ir_error, take_home) result" where
  "raise_home m slot var = (case (slot, var) of
       (Some s, _) \<Rightarrow> Ok (HomeSlot s)
     | (None, Some v) \<Rightarrow> res_bind (rs_str m v) (\<lambda>n. Ok (HomeEnv n))
     | (None, None) \<Rightarrow> Err (ir_error_new ''raise: push home is neither slot nor var''))"

section \<open>Instructions\<close>

type_synonym raised = "(ir_error, (u32, vm_chunk) vm_op) result"

type_synonym func_raiser = "func_id \<Rightarrow> (ir_error, vm_chunk) result"

definition raise_default :: "func_raiser \<Rightarrow> func_id option \<Rightarrow> (ir_error, vm_chunk option) result" where
  "raise_default rec d = (case d of
       None \<Rightarrow> Ok None
     | Some i \<Rightarrow> res_bind (rec i) (\<lambda>c. Ok (Some c)))"

definition raise_closure_param :: "module_ \<Rightarrow> func_raiser \<Rightarrow> param \<Rightarrow> (ir_error, vm_chunk vm_param \<times> vm_chunk option) result" where
  "raise_closure_param m rec p =
     res_bind (rs_str m (param_name p)) (\<lambda>n.
     res_bind (raise_default rec (param_default p)) (\<lambda>d. Ok (VmParam n None, d)))"

definition raise_closure_params ::
  "module_ \<Rightarrow> func_raiser \<Rightarrow> func_id \<Rightarrow> (ir_error, vm_chunk vm_param list \<times> vm_chunk option list) result" where
  "raise_closure_params m rec i =
     res_bind (rs_func m i) (\<lambda>f.
     res_bind (res_list (map (raise_closure_param m rec) (fd_params f))) (\<lambda>ps. Ok (map fst ps, map snd ps)))"

definition raise_closure ::
  "module_ \<Rightarrow> func_raiser \<Rightarrow> func_id \<Rightarrow> (vm_chunk vm_param list \<Rightarrow> vm_chunk \<Rightarrow> vm_chunk option list \<Rightarrow> (u32, vm_chunk) vm_op) \<Rightarrow> raised" where
  "raise_closure m rec i f =
     res_bind (rec i) (\<lambda>chunk.
     res_bind (raise_closure_params m rec i) (\<lambda>(params, defaults). Ok (f params chunk defaults)))"

text \<open>\<open>parts.join(".")\<close>.\<close>

fun join_dots :: "rstring list \<Rightarrow> rstring" where
  "join_dots [] = []"
| "join_dots [x] = x"
| "join_dots (x # y # ys) = x @ [46] @ join_dots (y # ys)"

abbreviation core :: "vm_core \<Rightarrow> raised" where
  "core i \<equiv> Ok (VCore i)"

abbreviation rwith_home :: "module_ \<Rightarrow> u16 option \<Rightarrow> str_id option \<Rightarrow> (take_home \<Rightarrow> raised) \<Rightarrow> raised" where
  "rwith_home m slot var f \<equiv> res_bind (raise_home m slot var) f"

abbreviation rwith_str :: "module_ \<Rightarrow> str_id \<Rightarrow> (rstring \<Rightarrow> raised) \<Rightarrow> raised" where
  "rwith_str m i f \<equiv> res_bind (rs_str m i) f"

abbreviation rwith_strs :: "module_ \<Rightarrow> str_id list \<Rightarrow> (rstring list \<Rightarrow> raised) \<Rightarrow> raised" where
  "rwith_strs m is f \<equiv> res_bind (rs_strs m is) f"

primrec raise_op :: "module_ \<Rightarrow> func_raiser \<Rightarrow> op \<Rightarrow> raised" where
  "raise_op m rec (PushConst _) = Ok (VPushConst (- 1))"
| "raise_op m rec Pop = core VPop"
| "raise_op m rec Swap = core VSwap"
| "raise_op m rec (PopN n) = core (VPopN n no_span)"
| "raise_op m rec Truthy = core VTruthy"
| "raise_op m rec (LoadVar i) = rwith_str m i (\<lambda>name. core (VLoadVar name no_span))"
| "raise_op m rec (LoadPath is) = rwith_strs m is (\<lambda>parts. core (VLoadPath parts no_span))"
| "raise_op m rec (DefineVar i) = rwith_str m i (\<lambda>name. core (VDefineVar name))"
| "raise_op m rec (StoreVar i) = rwith_str m i (\<lambda>name. core (VStoreVar name no_span))"
| "raise_op m rec (StorePath is) = rwith_strs m is (\<lambda>parts. core (VStorePath parts no_span))"
| "raise_op m rec (LoadSlot s) = core (VLoadSlot s)"
| "raise_op m rec (StoreSlot s) = core (VStoreSlot s)"
| "raise_op m rec (TakeVar i) = rwith_str m i (\<lambda>name. core (VTakeVar name no_span))"
| "raise_op m rec (VecPushField slot var i) = rwith_home m slot var (\<lambda>home. rwith_str m i (\<lambda>field. core (VVecPushField home field no_span)))"
| "raise_op m rec (VecPushMethod slot var i) = rwith_home m slot var (\<lambda>home. rwith_str m i (\<lambda>field. core (VVecPushMethod home field no_span)))"
| "raise_op m rec (SetFieldTake slot var i) = rwith_home m slot var (\<lambda>home. rwith_str m i (\<lambda>field. core (VSetFieldTake home field no_span)))"
| "raise_op m rec (SetFieldIndexTake slot var i) = rwith_home m slot var (\<lambda>home. rwith_str m i (\<lambda>field. core (VSetFieldIndexTake home field no_span)))"
| "raise_op m rec (StoreIndexTake slot var) = rwith_home m slot var (\<lambda>home. core (VStoreIndexTake home no_span))"
| "raise_op m rec (CompoundIndexTake slot var bop) = rwith_home m slot var (\<lambda>home. core (VCompoundIndexTake home bop no_span))"
| "raise_op m rec (FieldBinopTake slot var i bop) = rwith_home m slot var (\<lambda>home. rwith_str m i (\<lambda>field. core (VFieldBinopTake home field bop no_span)))"
| "raise_op m rec (GetFieldIndex slot var i) = rwith_home m slot var (\<lambda>home. rwith_str m i (\<lambda>field. core (VGetFieldIndex home field no_span)))"
| "raise_op m rec (LenField slot var i) = rwith_home m slot var (\<lambda>home. rwith_str m i (\<lambda>field. core (VLenField home field no_span)))"
| "raise_op m rec (GetFieldSlotIdx slot var idx dst) = rwith_home m slot var (\<lambda>home. core (VGetFieldSlotIdx home idx dst no_span))"
| "raise_op m rec (IndexIntSlot arr idx dst) = core (VIndexIntSlot arr idx dst no_span)"
| "raise_op m rec (IndexDictInt dict key dst) = core (VIndexDictInt dict key dst no_span)"
| "raise_op m rec (SlotAddInt dst src) = core (VSlotAddInt dst src)"
| "raise_op m rec (SlotInc slot) = core (VSlotInc slot)"
| "raise_op m rec (SlotAddIntImm dst imm) = core (VSlotAddIntImm dst imm)"
| "raise_op m rec (SlotSubIntImm dst imm) = core (VSlotSubIntImm dst imm)"
| "raise_op m rec (SlotMulIntImm dst imm) = core (VSlotMulIntImm dst imm)"
| "raise_op m rec (SlotLessIntSlot a b) = core (VSlotLessIntSlot a b)"
| "raise_op m rec (SlotLessIntImm a imm) = core (VSlotLessIntImm a imm)"
| "raise_op m rec (SlotCmpIntSlot a b bop) = core (VSlotCmpIntSlot a b bop)"
| "raise_op m rec (SlotCmpIntImm a imm bop) = core (VSlotCmpIntImm a imm bop)"
| "raise_op m rec (JumpIfFalseSlotCmpIntImm a imm bop t) = core (VJumpIfFalseSlotCmpIntImm a imm bop (unat t) no_span)"
| "raise_op m rec (JumpIfFalseSlotCmpIntSlot a b bop t) = core (VJumpIfFalseSlotCmpIntSlot a b bop (unat t) no_span)"
| "raise_op m rec (PushSlotIntImm a imm bop) = core (VPushSlotIntImm a imm bop no_span)"
| "raise_op m rec (SlotCmpConst a k bop) = Ok (VSlotCmpConst a (const_id_0 k) bop)"
| "raise_op m rec (SlotBinaryInt dst lhs rhs bop) = core (VSlotBinaryInt dst lhs rhs bop)"
| "raise_op m rec (SlotBinaryIntImm dst lhs imm bop) = core (VSlotBinaryIntImm dst lhs imm bop)"
| "raise_op m rec IntAdd = core (VIntAdd no_span)"
| "raise_op m rec IntSub = core (VIntSub no_span)"
| "raise_op m rec IntMul = core (VIntMul no_span)"
| "raise_op m rec IntDiv = core (VIntDiv no_span)"
| "raise_op m rec IntRem = core (VIntRem no_span)"
| "raise_op m rec IntNeg = core (VIntNeg no_span)"
| "raise_op m rec (BinOp bop) = core (VBinOp bop no_span)"
| "raise_op m rec (UnOp uop) = core (VUnOp uop no_span)"
| "raise_op m rec (Jump t) = core (VJump (unat t))"
| "raise_op m rec (JumpIfFalse t) = core (VJumpIfFalse (unat t))"
| "raise_op m rec (JumpIfTrue t) = core (VJumpIfTrue (unat t))"
| "raise_op m rec (JumpIfFalseBool t) = core (VJumpIfFalseBool (unat t) no_span)"
| "raise_op m rec Return = core VReturn"
| "raise_op m rec (ForSetup exit header num_vars) = core (VForSetup (unat exit) (unat header) no_span num_vars)"
| "raise_op m rec (ForNext is exit body in_env) = rwith_strs m is (\<lambda>vars. core (VForNext vars (unat exit) (unat body) in_env no_span))"
| "raise_op m rec (WhileSetup exit header) = core (VWhileSetup (unat exit) (unat header))"
| "raise_op m rec (WhileCond exit) = core (VWhileCond (unat exit) no_span)"
| "raise_op m rec Break = core (VBreak no_span)"
| "raise_op m rec Continue = core (VContinue no_span)"
| "raise_op m rec SetLoopResult = core VSetLoopResult"
| "raise_op m rec Safepoint = core VSafepoint"
| "raise_op m rec (MakeArray n) = core (VMakeArray n)"
| "raise_op m rec (UnpackTuple n) = core (VUnpackTuple n)"
| "raise_op m rec (MakeDict n) = core (VMakeDict n)"
| "raise_op m rec ArrayPush = core (VArrayPush no_span)"
| "raise_op m rec IndexOp = core (VIndexOp no_span)"
| "raise_op m rec StoreIndexOp = core (VStoreIndexOp no_span)"
| "raise_op m rec SliceOp = core (VSliceOp no_span)"
| "raise_op m rec MakeRange = core (VMakeRange no_span)"
| "raise_op m rec MatchError = core (VMatchError no_span)"
| "raise_op m rec TryOp = core (VTryOp no_span)"
| "raise_op m rec Elvis = core (VElvis no_span)"
| "raise_op m rec FormatValue = core (VFormatValue no_span)"
| "raise_op m rec (CompoundIndexOp bop) = core (VCompoundIndexOp bop no_span)"
| "raise_op m rec (MakeStruct i is) = rwith_str m i (\<lambda>name. rwith_strs m is (\<lambda>fs. core (VMakeStruct name fs no_span)))"
| "raise_op m rec (GetField i) = rwith_str m i (\<lambda>name. core (VGetField name no_span))"
| "raise_op m rec (GetFieldIdx i) = core (VGetFieldIdx i no_span)"
| "raise_op m rec (SetField i) = rwith_str m i (\<lambda>name. core (VSetField name no_span))"
| "raise_op m rec (SetFieldIdx i) = core (VSetFieldIdx i no_span)"
| "raise_op m rec (CompoundFieldOp i bop) = rwith_str m i (\<lambda>name. core (VCompoundFieldOp name bop no_span))"
| "raise_op m rec (RegisterStruct i is) = rwith_str m i (\<lambda>name. rwith_strs m is (\<lambda>fs. core (VRegisterStruct name fs)))"
| "raise_op m rec (RegisterEnum i vs) = rwith_str m i (\<lambda>name. 
       res_bind (res_list (map (\<lambda>(v, a). res_bind (rs_str m v) (\<lambda>n. Ok (n, a))) vs)) (\<lambda>variants. core (VRegisterEnum name variants)))"
| "raise_op m rec (MakeEnum i j argc) = rwith_str m i (\<lambda>enum_name. rwith_str m j (\<lambda>variant. core (VMakeEnum enum_name variant argc no_span)))"
| "raise_op m rec (MakeClosure i) = raise_closure m rec i VMakeClosure"
| "raise_op m rec (MakeFunc i) = res_bind (rs_func m i) (\<lambda>f. rwith_str m (fd_name f) (\<lambda>name. raise_closure m rec i (VMakeFunc name)))"
| "raise_op m rec (SpawnClosure i) = raise_closure m rec i (\<lambda>params chunk defaults. VSpawnClosure params chunk no_span defaults)"
| "raise_op m rec (MakeVariant i has_arg) = rwith_str m i (\<lambda>name. core (VMakeVariant name has_arg no_span))"
| "raise_op m rec (MatchArm pat t has_env restore) = res_bind (raise_pattern m pat) (\<lambda>p. core (VMatchArm p (unat t) has_env restore))"
| "raise_op m rec (MatchGuard t has_env) = core (VMatchGuard (unat t) has_env)"
| "raise_op m rec (IfLetMatch pat t has_env) = res_bind (raise_pattern m pat) (\<lambda>p. core (VIfLetMatch p (unat t) has_env))"
| "raise_op m rec ElvisResult = core VElvisResult"
| "raise_op m rec (Call argc) = core (VCall argc no_span)"
| "raise_op m rec (CallPath is argc pspan) = rwith_strs m is (\<lambda>parts. core (VCallPath parts (join_dots parts) argc no_span pspan))"
| "raise_op m rec (CallMethod i argc) = rwith_str m i (\<lambda>name. core (VCallMethod name argc no_span))"
| "raise_op m rec (CallNative i argc) = rwith_str m i (\<lambda>name. core (VCallNative name argc no_span))"
| "raise_op m rec (Concat n) = core (VConcat n)"
| "raise_op m rec (DbQuery n) = core (VDbQuery n no_span)"
| "raise_op m rec EnterScope = core VEnterScope"
| "raise_op m rec ExitScope = core VExitScope"
| "raise_op m rec DeferRecord = core VDeferRecord"

section \<open>Functions\<close>

definition op_const :: "op \<Rightarrow> const_id option" where
  "op_const i = (case i of PushConst c \<Rightarrow> Some c | SlotCmpConst _ k _ \<Rightarrow> Some k | _ \<Rightarrow> None)"

text \<open>The constants a function uses, in the order of their first use.\<close>

primrec pool_order :: "module_ \<Rightarrow> op list \<Rightarrow> const_id list \<Rightarrow> (ir_error, const_id list) result" where
  "pool_order m [] order = Ok order"
| "pool_order m (i # is) order = (case op_const i of
       None \<Rightarrow> pool_order m is order
     | Some c \<Rightarrow>
         if c \<in> set order then pool_order m is order
         else if const_ix c \<ge> length (m_consts m) then Err (ir_error_new ''raise: const id out of range'')
         else pool_order m is (order @ [c]))"

definition reindex :: "u32 \<Rightarrow> (u32, 'c) vm_op \<Rightarrow> (u32, 'c) vm_op" where
  "reindex k v = (case v of
       VPushConst _ \<Rightarrow> VPushConst k
     | VSlotCmpConst a _ bop \<Rightarrow> VSlotCmpConst a k bop
     | other \<Rightarrow> other)"

definition raise_in_pool :: "module_ \<Rightarrow> func_raiser \<Rightarrow> const_id list \<Rightarrow> op \<Rightarrow> raised" where
  "raise_in_pool m rec order i =
     res_bind (raise_op m rec i) (\<lambda>v. (case op_const i of
         None \<Rightarrow> Ok v
       | Some c \<Rightarrow> (case position (\<lambda>x. x = c) order of
             None \<Rightarrow> Err (ir_error_new ''raise: const missing from pool order'')
           | Some k \<Rightarrow> Ok (reindex (word_of_nat k) v))))"

definition raise_body :: "module_ \<Rightarrow> func_raiser \<Rightarrow> func_def \<Rightarrow> (ir_error, vm_chunk) result" where
  "raise_body m rec f =
     res_bind (pool_order m (fd_code f) []) (\<lambda>order.
     res_bind (res_list (map (raise_const m) order)) (\<lambda>constants.
     res_bind (res_list (map (raise_in_pool m rec order) (fd_code f))) (\<lambda>code.
     res_bind (res_list (map (\<lambda>p. res_bind (rs_str m (param_name p)) (\<lambda>n. Ok (VmParam n None))) (fd_params f))) (\<lambda>params.
     res_bind (res_list (map (\<lambda>(n, s). res_bind (rs_str m n) (\<lambda>name. Ok (name, s))) (fd_toplevel_slots f))) (\<lambda>slots.
     Ok (VmChunk code constants params (fd_spans f) slots [] []))))))"

primrec raise_func :: "nat \<Rightarrow> module_ \<Rightarrow> func_id list \<Rightarrow> func_raiser" where
  "raise_func 0 m seen = (\<lambda>i. Err out_of_fuel)"
| "raise_func (Suc n) m seen = (\<lambda>i.
     if i \<in> set seen then Err (ir_error_new ''raise: cyclic func table'')
     else res_bind (rs_func m i) (raise_body m (raise_func n m (seen @ [i]))))"

definition raise :: "module_ \<Rightarrow> (ir_error, vm_chunk) result" where
  "raise m = raise_func (length (m_funcs m) + 1) m [] (m_entry m)"

end
