(* ===== verification/Reload.thy ===== *)
theory Reload
  imports Raise
begin

text \<open>
  What survives lowering and raising. The chunk that \<open>raise\<close> builds from a lowered module is compared
  with the original as a resolved chunk, in which an instruction names its constant by value. \<open>target\<close> computes the resolved chunk that lowering
  promises from the original: fused instructions are desugared, jumps follow the instructions they
  pointed at, spans inside instructions are gone, and default arguments are compiled chunks.
\<close>

section \<open>Resolved chunks\<close>

datatype (plugins only:) rchunk = RChunk
  (rc_code: "(rt_value, rchunk) vm_op list")
  (rc_spans: "span list")
  (rc_params: "rstring list")
  (rc_slots: "(rstring \<times> u16) list")

definition pool_value :: "rt_value list \<Rightarrow> u32 \<Rightarrow> rt_value" where
  "pool_value pool k = (case vec_get pool (unat k) of None \<Rightarrow> VUnit | Some v \<Rightarrow> v)"

primrec resolve_chunk :: "vm_chunk \<Rightarrow> rchunk" where
  "resolve_chunk (VmChunk code pool params spans slots slot_types fornext_slots) =
     RChunk (map (map_vm_op (pool_value pool) resolve_chunk) code) spans (map vp_name params) slots"

section \<open>What lowering promises\<close>

primrec erase_pattern :: "ast_pattern \<Rightarrow> ast_pattern" where
  "erase_pattern (APWildcard _) = APWildcard no_span"
| "erase_pattern (APBinding n _) = APBinding n no_span"
| "erase_pattern (APLiteral v _) = APLiteral v no_span"
| "erase_pattern (APVariant n p _) = APVariant n (map_option erase_pattern p) no_span"
| "erase_pattern (APTuple ps _) = APTuple (map erase_pattern ps) no_span"
| "erase_pattern (APOr ps _) = APOr (map erase_pattern ps) no_span"

text \<open>An instruction without its spans; a comparison of ints is the generic comparison.\<close>

definition erase_core :: "vm_core \<Rightarrow> vm_core" where
  "erase_core c = (case c of
       VLoadVar n _ \<Rightarrow> VLoadVar n no_span
     | VLoadPath ps _ \<Rightarrow> VLoadPath ps no_span
     | VStoreVar n _ \<Rightarrow> VStoreVar n no_span
     | VStorePath ps _ \<Rightarrow> VStorePath ps no_span
     | VTakeVar n _ \<Rightarrow> VTakeVar n no_span
     | VVecPushField h n _ \<Rightarrow> VVecPushField h n no_span
     | VVecPushMethod h n _ \<Rightarrow> VVecPushMethod h n no_span
     | VSetFieldTake h n _ \<Rightarrow> VSetFieldTake h n no_span
     | VSetFieldIndexTake h n _ \<Rightarrow> VSetFieldIndexTake h n no_span
     | VStoreIndexTake h _ \<Rightarrow> VStoreIndexTake h no_span
     | VCompoundIndexTake h b _ \<Rightarrow> VCompoundIndexTake h b no_span
     | VFieldBinopTake h n b _ \<Rightarrow> VFieldBinopTake h n b no_span
     | VGetFieldIndex h n _ \<Rightarrow> VGetFieldIndex h n no_span
     | VGetFieldSlotIdx h i d _ \<Rightarrow> VGetFieldSlotIdx h i d no_span
     | VLenField h n _ \<Rightarrow> VLenField h n no_span
     | VIndexIntSlot a i d _ \<Rightarrow> VIndexIntSlot a i d no_span
     | VIndexDictInt a i d _ \<Rightarrow> VIndexDictInt a i d no_span
     | VPushSlotIntImm a i b _ \<Rightarrow> VPushSlotIntImm a i b no_span
     | VJumpIfFalseSlotCmpIntImm a i b t _ \<Rightarrow> VJumpIfFalseSlotCmpIntImm a i b t no_span
     | VJumpIfFalseSlotCmpIntSlot a i b t _ \<Rightarrow> VJumpIfFalseSlotCmpIntSlot a i b t no_span
     | VMakeEnum e v n _ \<Rightarrow> VMakeEnum e v n no_span
     | VIntAdd _ \<Rightarrow> VIntAdd no_span
     | VIntSub _ \<Rightarrow> VIntSub no_span
     | VIntMul _ \<Rightarrow> VIntMul no_span
     | VIntDiv _ \<Rightarrow> VIntDiv no_span
     | VIntRem _ \<Rightarrow> VIntRem no_span
     | VIntNeg _ \<Rightarrow> VIntNeg no_span
     | VIntLt _ \<Rightarrow> VBinOp BLt no_span
     | VIntGt _ \<Rightarrow> VBinOp BGt no_span
     | VIntLe _ \<Rightarrow> VBinOp BLe no_span
     | VIntGe _ \<Rightarrow> VBinOp BGe no_span
     | VIntEq _ \<Rightarrow> VBinOp BEq no_span
     | VIntNe _ \<Rightarrow> VBinOp BNe no_span
     | VBinOp b _ \<Rightarrow> VBinOp b no_span
     | VUnOp u _ \<Rightarrow> VUnOp u no_span
     | VJumpIfFalseBool t _ \<Rightarrow> VJumpIfFalseBool t no_span
     | VForSetup e h _ n \<Rightarrow> VForSetup e h no_span n
     | VForNext vs e b i _ \<Rightarrow> VForNext vs e b i no_span
     | VWhileCond e _ \<Rightarrow> VWhileCond e no_span
     | VBreak _ \<Rightarrow> VBreak no_span
     | VContinue _ \<Rightarrow> VContinue no_span
     | VArrayPush _ \<Rightarrow> VArrayPush no_span
     | VIndexOp _ \<Rightarrow> VIndexOp no_span
     | VStoreIndexOp _ \<Rightarrow> VStoreIndexOp no_span
     | VCompoundIndexOp b _ \<Rightarrow> VCompoundIndexOp b no_span
     | VSliceOp _ \<Rightarrow> VSliceOp no_span
     | VMakeRange _ \<Rightarrow> VMakeRange no_span
     | VMakeStruct n fs _ \<Rightarrow> VMakeStruct n fs no_span
     | VGetField n _ \<Rightarrow> VGetField n no_span
     | VGetFieldIdx i _ \<Rightarrow> VGetFieldIdx i no_span
     | VSetField n _ \<Rightarrow> VSetField n no_span
     | VCompoundFieldOp n b _ \<Rightarrow> VCompoundFieldOp n b no_span
     | VSetFieldIdx i _ \<Rightarrow> VSetFieldIdx i no_span
     | VMakeVariant n a _ \<Rightarrow> VMakeVariant n a no_span
     | VMatchArm p t e r \<Rightarrow> VMatchArm (erase_pattern p) t e r
     | VMatchError _ \<Rightarrow> VMatchError no_span
     | VIfLetMatch p t e \<Rightarrow> VIfLetMatch (erase_pattern p) t e
     | VTryOp _ \<Rightarrow> VTryOp no_span
     | VElvis _ \<Rightarrow> VElvis no_span
     | VCall n _ \<Rightarrow> VCall n no_span
     | VCallPath ps _ n _ s \<Rightarrow> VCallPath ps (join_dots ps) n no_span s
     | VCallMethod f n _ \<Rightarrow> VCallMethod f n no_span
     | VCallNative f n _ \<Rightarrow> VCallNative f n no_span
     | VFormatValue _ \<Rightarrow> VFormatValue no_span
     | VDbQuery n _ \<Rightarrow> VDbQuery n no_span
     | VPopN n _ \<Rightarrow> VPopN n no_span
     | _ \<Rightarrow> c)"

definition load_home :: "take_home \<Rightarrow> vm_core" where
  "load_home h = (case h of HomeSlot s \<Rightarrow> VLoadSlot s | HomeEnv n \<Rightarrow> VLoadVar n no_span)"

definition store_home :: "take_home \<Rightarrow> vm_core" where
  "store_home h = (case h of HomeSlot s \<Rightarrow> VStoreSlot s | HomeEnv n \<Rightarrow> VStoreVar n no_span)"

definition take_from :: "take_home \<Rightarrow> (rt_value, 'c) vm_op list" where
  "take_from h = [VCore (load_home h), VPushConst VUnit, VCore (store_home h)]"

definition desugar_core :: "vm_core \<Rightarrow> (rt_value, 'c) vm_op list" where
  "desugar_core c = (case c of
       VTakeSlot s \<Rightarrow> take_from (HomeSlot s)
     | VVecPush h _ \<Rightarrow> take_from h @ [VCore VSwap, VCore (VArrayPush no_span), VCore (store_home h)]
     | _ \<Rightarrow> [VCore (erase_core c)])"

text \<open>
  A nested chunk is given as a function of its parameter names; those and the default chunks come
  from the instruction that creates the function.
\<close>

type_synonym named_chunk = "rstring list \<Rightarrow> rchunk"

definition bare_params :: "'c vm_param list \<Rightarrow> 'd vm_param list" where
  "bare_params ps = map (\<lambda>p. VmParam (vp_name p) None) ps"

definition default_chunks :: "named_chunk vm_param list \<Rightarrow> rchunk option list" where
  "default_chunks ps = map (\<lambda>p. map_option (\<lambda>d. d []) (vp_default p)) ps"

definition desugar_op :: "(rt_value, named_chunk) vm_op \<Rightarrow> (rt_value, rchunk) vm_op list" where
  "desugar_op i = (case i of
       VPushConst v \<Rightarrow> [VPushConst v]
     | VSlotCmpConst a v b \<Rightarrow> [VSlotCmpConst a v b]
     | VMakeFunc n ps c _ \<Rightarrow> [VMakeFunc n (bare_params ps) (c (map vp_name ps)) (default_chunks ps)]
     | VMakeClosure ps c _ \<Rightarrow> [VMakeClosure (bare_params ps) (c (map vp_name ps)) (default_chunks ps)]
     | VSpawnClosure ps c _ _ \<Rightarrow> [VSpawnClosure (bare_params ps) (c (map vp_name ps)) no_span (default_chunks ps)]
     | VCore c \<Rightarrow> desugar_core c)"

primrec offsets :: "nat \<Rightarrow> 'a list list \<Rightarrow> nat list" where
  "offsets pc [] = [pc]"
| "offsets pc (g # gs) = pc # offsets (pc + length g) gs"

definition retarget_core :: "(nat \<Rightarrow> nat) \<Rightarrow> vm_core \<Rightarrow> vm_core" where
  "retarget_core f c = (case c of
       VJump t \<Rightarrow> VJump (f t)
     | VJumpIfFalse t \<Rightarrow> VJumpIfFalse (f t)
     | VJumpIfTrue t \<Rightarrow> VJumpIfTrue (f t)
     | VJumpIfFalseBool t s \<Rightarrow> VJumpIfFalseBool (f t) s
     | VForSetup e h s n \<Rightarrow> VForSetup (f e) (f h) s n
     | VForNext vs e b i s \<Rightarrow> VForNext vs (f e) (f b) i s
     | VWhileSetup e h \<Rightarrow> VWhileSetup (f e) (f h)
     | VJumpIfFalseSlotCmpIntImm a i b t s \<Rightarrow> VJumpIfFalseSlotCmpIntImm a i b (f t) s
     | VJumpIfFalseSlotCmpIntSlot a i b t s \<Rightarrow> VJumpIfFalseSlotCmpIntSlot a i b (f t) s
     | VWhileCond t s \<Rightarrow> VWhileCond (f t) s
     | VMatchArm p t e r \<Rightarrow> VMatchArm p (f t) e r
     | VMatchGuard t e \<Rightarrow> VMatchGuard (f t) e
     | VIfLetMatch p t e \<Rightarrow> VIfLetMatch p (f t) e
     | _ \<Rightarrow> c)"

definition retarget :: "(nat \<Rightarrow> nat) \<Rightarrow> ('k, 'c) vm_op \<Rightarrow> ('k, 'c) vm_op" where
  "retarget f i = (case i of VCore c \<Rightarrow> VCore (retarget_core f c) | _ \<Rightarrow> i)"

primrec target :: "vm_chunk \<Rightarrow> named_chunk" where
  "target (VmChunk code pool params spans slots slot_types fornext_slots) = (\<lambda>names.
     let groups = map desugar_op (map (map_vm_op (pool_value pool) target) code) in
     RChunk (map (retarget (\<lambda>t. offsets 0 groups ! t)) (concat groups)) (flat_spans spans 0 groups) names slots)"

section \<open>Chunks the round trip covers\<close>

text \<open>
  Constants are literals without components, as the compiler pools them; a float is not the negative
  zero, which the pool identifies with zero; jump targets fit the 32 bits of the format.
\<close>

fun plain_value :: "rt_value \<Rightarrow> bool" where
  "plain_value VUnit = True"
| "plain_value (VBool _) = True"
| "plain_value (VInt _) = True"
| "plain_value (VFloat f) = (f \<noteq> neg_zero)"
| "plain_value (VStr _) = True"
| "plain_value _ = False"

primrec plain_pattern :: "ast_pattern \<Rightarrow> bool" where
  "plain_pattern (APWildcard _) = True"
| "plain_pattern (APBinding _ _) = True"
| "plain_pattern (APLiteral v _) = (v \<noteq> LFloat neg_zero)"
| "plain_pattern (APVariant _ p _) = pred_option id (map_option plain_pattern p)"
| "plain_pattern (APTuple ps _) = list_all id (map plain_pattern ps)"
| "plain_pattern (APOr ps _) = list_all id (map plain_pattern ps)"

definition core_targets :: "vm_core \<Rightarrow> nat list" where
  "core_targets c = (case c of
       VJump t \<Rightarrow> [t]
     | VJumpIfFalse t \<Rightarrow> [t]
     | VJumpIfTrue t \<Rightarrow> [t]
     | VJumpIfFalseBool t _ \<Rightarrow> [t]
     | VForSetup e h _ _ \<Rightarrow> [e, h]
     | VForNext _ e b _ _ \<Rightarrow> [e, b]
     | VWhileSetup e h \<Rightarrow> [e, h]
     | VJumpIfFalseSlotCmpIntImm _ _ _ t _ \<Rightarrow> [t]
     | VJumpIfFalseSlotCmpIntSlot _ _ _ t _ \<Rightarrow> [t]
     | VWhileCond t _ \<Rightarrow> [t]
     | VMatchArm _ t _ _ \<Rightarrow> [t]
     | VMatchGuard t _ \<Rightarrow> [t]
     | VIfLetMatch _ t _ \<Rightarrow> [t]
     | _ \<Rightarrow> [])"

definition core_patterns :: "vm_core \<Rightarrow> ast_pattern list" where
  "core_patterns c = (case c of VMatchArm p _ _ _ \<Rightarrow> [p] | VIfLetMatch p _ _ \<Rightarrow> [p] | _ \<Rightarrow> [])"

definition plain_core :: "vm_core \<Rightarrow> bool" where
  "plain_core c \<longleftrightarrow> list_all (\<lambda>t. t < 2 ^ 32) (core_targets c) \<and> list_all plain_pattern (core_patterns c)"

definition plain_params :: "bool vm_param list \<Rightarrow> bool" where
  "plain_params ps = list_all (\<lambda>p. pred_option id (vp_default p)) ps"

definition plain_op :: "(rt_value, bool) vm_op \<Rightarrow> bool" where
  "plain_op i = (case i of
       VPushConst v \<Rightarrow> plain_value v
     | VSlotCmpConst _ v _ \<Rightarrow> plain_value v
     | VMakeFunc _ ps c _ \<Rightarrow> c \<and> plain_params ps
     | VMakeClosure ps c _ \<Rightarrow> c \<and> plain_params ps
     | VSpawnClosure ps c _ _ \<Rightarrow> c \<and> plain_params ps
     | VCore c \<Rightarrow> plain_core c)"

primrec plain_chunk :: "vm_chunk \<Rightarrow> bool" where
  "plain_chunk (VmChunk code pool params spans slots slot_types fornext_slots) =
     list_all plain_op (map (map_vm_op (pool_value pool) plain_chunk) code)"

text \<open>Every id of the module and every code address fits the 32 bits it is written in.\<close>

definition fits_tables :: "module_ \<Rightarrow> bool" where
  "fits_tables m \<longleftrightarrow> length (m_strings m) \<le> 2 ^ 32 \<and> length (m_consts m) \<le> 2 ^ 32 \<and> length (m_funcs m) \<le> 2 ^ 32 \<and>
     list_all (\<lambda>f. length (fd_code f) < 2 ^ 32) (m_funcs m)"

end
