(* ===== verification/Vm_Sim.thy ===== *)
theory Vm_Sim
  imports Vm_Machine Reload
begin

text \<open>
  Replacing instructions by sequences of instructions keeps the behaviour of code. The locale
  \<open>expansion\<close> is the contract of one instruction with its replacement; under it a run of the original
  code is followed step by step by a run of the flattened replacement, in which every target is
  moved to where the instruction it named now starts.
\<close>

section \<open>Runs\<close>

primrec vm_steps :: "nat \<Rightarrow> host \<Rightarrow> nat \<Rightarrow> nat \<Rightarrow> ('k \<Rightarrow> rt_value option) \<Rightarrow> ('k, 'c) vm_op list \<Rightarrow> nat \<Rightarrow> 'e vm_frame \<Rightarrow>
    (stop, nat \<times> 'e vm_frame) result" where
  "vm_steps 0 H base fidx look code ip fr = Ok (ip, fr)"
| "vm_steps (Suc n) H base fidx look code ip fr =
     res_bind (vm_step H base fidx look code ip fr) (\<lambda>(ip', fr'). vm_steps n H base fidx look code ip' fr')"

lemma vm_steps_add:
  "vm_steps (m + n) H base fidx look code ip fr =
     res_bind (vm_steps m H base fidx look code ip fr) (\<lambda>(ip', fr'). vm_steps n H base fidx look code ip' fr')"
proof (induction m arbitrary: ip fr)
  case (Suc m)
  then show ?case by (cases "vm_step H base fidx look code ip fr") auto
qed simp

text \<open>A sequence, as the loop runs it: a jump leaves the sequence.\<close>

primrec exec_seq :: "host \<Rightarrow> nat \<Rightarrow> nat \<Rightarrow> ('k \<Rightarrow> rt_value option) \<Rightarrow> ('k, 'c) vm_op list \<Rightarrow> ('e, nat option) vm_m" where
  "exec_seq H base fidx look [] = vm_next"
| "exec_seq H base fidx look (i # is) = vm_bind (exec_op H base fidx look i) (\<lambda>t. case t of
       None \<Rightarrow> exec_seq H base fidx look is
     | Some t \<Rightarrow> vm_goto t)"

section \<open>Moved targets\<close>

definition map_loop :: "nat \<Rightarrow> (nat \<Rightarrow> nat) \<Rightarrow> 'e loop_info \<Rightarrow> 'e loop_info" where
  "map_loop fidx f li = (if li_frame_idx li = fidx then li\<lparr>li_exit := f (li_exit li), li_header := f (li_header li)\<rparr> else li)"

definition map_frame :: "nat \<Rightarrow> (nat \<Rightarrow> nat) \<Rightarrow> 'e vm_frame \<Rightarrow> 'e vm_frame" where
  "map_frame fidx f fr = fr\<lparr>fr_loops := map (map_loop fidx f) (fr_loops fr)\<rparr>"

lemma map_loop_simps [simp]:
  "li_frame_idx (map_loop fidx f li) = li_frame_idx li" "li_env (map_loop fidx f li) = li_env li"
  "li_stack_base (map_loop fidx f li) = li_stack_base li" "li_slots (map_loop fidx f li) = li_slots li"
  by (simp_all add: map_loop_def)

lemma map_frame_simps [simp]:
  "fr_stack (map_frame fidx f fr) = fr_stack fr" "fr_env (map_frame fidx f fr) = fr_env fr"
  "fr_loops (map_frame fidx f fr) = map (map_loop fidx f) (fr_loops fr)"
  "(map_frame fidx f fr)\<lparr>fr_stack := st\<rparr> = map_frame fidx f (fr\<lparr>fr_stack := st\<rparr>)"
  "(map_frame fidx f fr)\<lparr>fr_env := e\<rparr> = map_frame fidx f (fr\<lparr>fr_env := e\<rparr>)"
  by (simp_all add: map_frame_def)

text \<open>\<open>m'\<close> does on moved loop records what \<open>m\<close> does on the original ones; \<open>g\<close> moves the result.\<close>

definition moves :: "nat \<Rightarrow> (nat \<Rightarrow> nat) \<Rightarrow> ('a \<Rightarrow> 'b) \<Rightarrow> ('e, 'a) vm_m \<Rightarrow> ('e, 'b) vm_m \<Rightarrow> bool" where
  "moves fidx f g m m' \<longleftrightarrow> (\<forall>fr. m' (map_frame fidx f fr) = map_sum (\<lambda>s. s) (map_prod g (map_frame fidx f)) (m fr))"

named_theorems moves_intros \<open>how the effects of the machine move\<close>

lemma movesD: "moves fidx f g m m' \<Longrightarrow> m' (map_frame fidx f fr) = map_sum (\<lambda>s. s) (map_prod g (map_frame fidx f)) (m fr)"
  by (simp add: moves_def)

lemma moves_bind:
  assumes m: "moves fidx f g m m'" and k: "\<And>x. moves fidx f h (k x) (k' (g x))"
  shows "moves fidx f h (vm_bind m k) (vm_bind m' k')"
  unfolding moves_def
proof
  fix fr show "vm_bind m' k' (map_frame fidx f fr) = map_sum (\<lambda>s. s) (map_prod h (map_frame fidx f)) (vm_bind m k fr)"
    using movesD [OF m, of fr] movesD [OF k] by (cases "m fr") (auto simp: vm_bind_def)
qed

lemma moves_same [moves_intros]:
  assumes "moves fidx f (\<lambda>x. x) m m'" "\<And>x. moves fidx f h (k x) (k' x)"
  shows "moves fidx f h (vm_bind m k) (vm_bind m' k')"
  by (rule moves_bind [OF assms(1)]) (rule assms(2))

lemma moves_return [moves_intros]: "moves fidx f (\<lambda>x. x) (vm_return x) (vm_return x)"
  by (simp add: moves_def vm_return_def)

lemma moves_next [moves_intros]: "moves fidx f (map_option f) vm_next vm_next"
  by (simp add: moves_def vm_return_def vm_next_def)

lemma moves_goto [moves_intros]: "t' = f t \<Longrightarrow> moves fidx f (map_option f) (vm_goto t) (vm_goto t')"
  by (simp add: moves_def vm_return_def vm_goto_def)

lemma moves_stop [moves_intros]: "moves fidx f g (vm_stop s) (vm_stop s)" "moves fidx f g (vm_fail msg sp) (vm_fail msg sp)"
  by (simp_all add: moves_def vm_stop_def vm_fail_def)

lemma moves_eval [moves_intros]: "moves fidx f (\<lambda>x. x) (vm_eval r) (vm_eval r)"
  by (auto simp: moves_def vm_eval_def vm_stop_def vm_return_def split: sum.split)

lemma moves_unwrap [moves_intros]: "moves fidx f (\<lambda>x. x) (vm_unwrap r) (vm_unwrap r)"
  by (auto simp: moves_def vm_unwrap_def vm_stop_def vm_return_def split: option.split)

lemma moves_stack [moves_intros]:
  "moves fidx f (\<lambda>x. x) (vm_push v) (vm_push v)" "moves fidx f (\<lambda>x. x) vm_pop vm_pop"
  "moves fidx f (\<lambda>x. x) (vm_pops n) (vm_pops n)" "moves fidx f (\<lambda>x. x) (vm_truncate n) (vm_truncate n)"
  "moves fidx f (\<lambda>x. x) (slot_get base s) (slot_get base s)" "moves fidx f (\<lambda>x. x) (slot_set base s v) (slot_set base s v)"
  "moves fidx f (\<lambda>x. x) vm_depth vm_depth" "moves fidx f (\<lambda>x. x) (vm_set_env e) (vm_set_env e)"
  by (simp_all add: moves_def vm_push_def vm_pop_def vm_pops_def vm_truncate_def slot_get_def slot_set_def
      vm_depth_def vm_set_env_def Let_def)

lemma moves_derived [moves_intros]:
  "moves fidx f (\<lambda>x. x) (take_home_slot base s) (take_home_slot base s)"
  "moves fidx f (map_option f) (push_next v) (push_next v)"
  "moves fidx f (map_option f) (set_next base s v) (set_next base s v)"
  "moves fidx f (map_option f) (pop_binary g) (pop_binary g)"
  "moves fidx f (map_option f) (pop_unary h) (pop_unary h)"
  "moves fidx f (\<lambda>x. x) (slots_binary base a b g) (slots_binary base a b g)"
  "moves fidx f (\<lambda>x. x) (slot_binary base a r g) (slot_binary base a r g)"
  by (auto simp: take_home_slot_def push_next_def set_next_def pop_binary_def vm_pop2_def pop_unary_def slots_binary_def
      slot_binary_def intro!: moves_intros)

lemma moves_pop2 [moves_intros]: "(\<And>l r. moves fidx f g (k l r) (k' l r)) \<Longrightarrow> moves fidx f g (vm_pop2 k) (vm_pop2 k')"
  by (auto simp: vm_pop2_def intro!: moves_intros)

lemma moves_homes [moves_intros]:
  "moves fidx f (map_option f) (update_home base h g) (update_home base h g)"
  "moves fidx f (\<lambda>x. x) (read_home base h g) (read_home base h g)"
  "(\<And>v. moves fidx f u (k v) (k v)) \<Longrightarrow> moves fidx f u (pop_home h k) (pop_home h k)"
  by (auto simp: update_home_def read_home_def pop_home_def intro!: moves_intros split: take_home.split)

lemma moves_branch [moves_intros]:
  "t' = f t \<Longrightarrow> moves fidx f (map_option f) (branch_bool msg t sp c) (branch_bool msg t' sp c)"
  by (auto simp: branch_bool_def intro!: moves_intros split: rt_value.split)

lemma moves_loops [moves_intros]:
  "exit' = f exit \<Longrightarrow> header' = f header \<Longrightarrow>
     moves fidx f (\<lambda>x. x) (push_loop exit header fidx sb sl) (push_loop exit' header' fidx sb sl)"
  "moves fidx f (map_option (map_loop fidx f)) pop_loop pop_loop"
  "moves fidx f (map_option (map_loop fidx f)) last_loop last_loop"
  by (auto simp: moves_def push_loop_def pop_loop_def last_loop_def map_frame_def map_loop_def map_butlast last_map)

lemma moves_leave_loop [moves_intros]:
  assumes "exit' = f exit"
  shows "moves fidx f (map_option f) (leave_loop exit) (leave_loop exit')"
proof -
  have "moves fidx f (map_loop fidx f) (vm_unwrap l) (vm_unwrap (map_option (map_loop fidx f) l))" for l :: "'a loop_info option"
    by (cases l) (simp_all add: moves_def vm_unwrap_def vm_stop_def vm_return_def)
  then show ?thesis
    unfolding leave_loop_def by (intro moves_bind [OF moves_loops(2)] moves_bind) (auto simp: assms intro!: moves_intros)
qed

lemma moves_fun: "(\<And>fr. k' (map_frame fidx f fr) = map_sum (\<lambda>s. s) (map_prod g (map_frame fidx f)) (k fr)) \<Longrightarrow> moves fidx f g k k'"
  by (simp add: moves_def)

lemma moves_frame [moves_intros]:
  "moves fidx f (map_option f) (\<lambda>fr. Ok (None, fr\<lparr>fr_stack := fr_stack fr @ xs\<rparr>)) (\<lambda>fr. Ok (None, fr\<lparr>fr_stack := fr_stack fr @ xs\<rparr>))"
  "moves fidx f (map_option f) (\<lambda>fr. Ok (None, fr\<lparr>fr_stack := butlast (fr_stack fr)\<rparr>)) (\<lambda>fr. Ok (None, fr\<lparr>fr_stack := butlast (fr_stack fr)\<rparr>))"
  by (simp_all add: moves_fun)

lemma moves_for_setup [moves_intros]:
  "exit' = f exit \<Longrightarrow> header' = f header \<Longrightarrow>
     moves fidx f (map_option f) (for_setup H fidx exit header sp n) (for_setup H fidx exit' header' sp n)"
  unfolding for_setup_def Let_def
  by (rule moves_same [OF moves_stack(2)])
    (auto intro!: moves_intros intro: moves_fun split: rt_value.split)

lemma moves_for_next [moves_intros]:
  assumes "exit' = f exit" "body' = f body"
  shows "moves fidx f (map_option f) (for_next vars exit body sp) (for_next vars exit' body' sp)"
proof (rule moves_fun)
  fix fr :: "'a vm_frame"
  note leave = movesD [OF moves_leave_loop [of exit' f exit fidx, OF assms(1)]]
  have "for_next_fast exit' body' (map_frame fidx f fr) =
      map_option (map_sum (\<lambda>s. s) (map_prod (map_option f) (map_frame fidx f))) (for_next_fast exit body fr)"
    by (auto simp: for_next_fast_def Let_def leave assms(2) split: rt_value.split for_step.split)
  moreover have "for_next_generic n exit' body' sp (map_frame fidx f fr) =
      map_sum (\<lambda>s. s) (map_prod (map_option f) (map_frame fidx f)) (for_next_generic n exit body sp fr)" for n
  proof (cases "for_generic n (fr_stack fr ! (length (fr_stack fr) - n - 2)) (fr_stack fr ! (length (fr_stack fr) - n - 1)) sp")
    case (Inr r)
    then show ?thesis by (cases r) (auto simp: for_next_generic_def Let_def leave assms(2))
  qed (simp add: for_next_generic_def Let_def)
  ultimately show "for_next vars exit' body' sp (map_frame fidx f fr) =
      map_sum (\<lambda>s. s) (map_prod (map_option f) (map_frame fidx f)) (for_next vars exit body sp fr)"
    by (auto simp: for_next_def split: option.split)
qed

lemma moves_option: "moves fidx f g a a' \<Longrightarrow> (\<And>x. moves fidx f g (b x) (b' (h x))) \<Longrightarrow>
    moves fidx f g (case l of None \<Rightarrow> a | Some x \<Rightarrow> b x) (case map_option h l of None \<Rightarrow> a' | Some x \<Rightarrow> b' x)"
  by (cases l) auto

lemma moves_break [moves_intros]: "moves fidx f (map_option f) (vm_break fidx sp) (vm_break fidx sp)"
  unfolding vm_break_def
  by (rule moves_bind [OF moves_loops(2)], rule moves_option) (auto intro!: moves_intros simp: map_loop_def)

lemma moves_continue [moves_intros]: "moves fidx f (map_option f) (vm_continue fidx sp) (vm_continue fidx sp)"
  unfolding vm_continue_def
  by (rule moves_bind [OF moves_loops(3)], rule moves_option) (auto intro!: moves_intros simp: map_loop_def)

lemma moves_while_cond [moves_intros]:
  "exit' = f exit \<Longrightarrow> moves fidx f (map_option f) (while_cond exit sp) (while_cond exit' sp)"
  unfolding while_cond_def by (auto intro!: moves_intros split: rt_value.split)

lemma moves_rest [moves_intros]:
  "moves fidx f (map_option f) (unpack_tuple H n) (unpack_tuple H n)"
  "moves fidx f (map_option f) (pop_n k sp) (pop_n k sp)"
  "moves fidx f (map_option f) (db_query k sp) (db_query k sp)"
  by (auto simp: unpack_tuple_def pop_n_def db_query_def Let_def intro!: moves_intros intro: moves_fun split: rt_value.split)

lemma moves_loop_result [moves_intros]: "moves fidx f (map_option f) set_loop_result set_loop_result"
proof -
  have *: "moves fidx f (map_loop fidx f) (vm_unwrap l) (vm_unwrap (map_option (map_loop fidx f) l))" for l :: "'a loop_info option"
    by (cases l) (simp_all add: moves_def vm_unwrap_def vm_stop_def vm_return_def)
  show ?thesis unfolding set_loop_result_def
    by (rule moves_same [OF moves_stack(2)], rule moves_bind [OF moves_loops(3)], rule moves_bind [OF *]) (rule moves_fun, simp)
qed

lemma moves_core: "moves fidx f (map_option f) (exec_core H base fidx c) (exec_core H base fidx (retarget_core f c))"
  by (cases c) (auto simp: exec_core_def retarget_core_def intro!: moves_intros split: take_home.split rt_value.split)

lemma moves_op: "moves fidx f (map_option f) (exec_op H base fidx look i) (exec_op H base fidx look (retarget f i))"
  by (cases i) (auto simp: exec_op_def retarget_def intro!: moves_intros moves_core)

section \<open>Targets in range\<close>

text \<open>The targets that a run can take: those of the code and those in the loop records of the frame.\<close>

definition op_targets :: "('k, 'c) vm_op \<Rightarrow> nat list" where
  "op_targets i = (case i of VCore c \<Rightarrow> core_targets c | _ \<Rightarrow> [])"

definition loops_in :: "nat \<Rightarrow> nat \<Rightarrow> 'e vm_frame \<Rightarrow> bool" where
  "loops_in n fidx fr \<longleftrightarrow> (\<forall>li \<in> set (fr_loops fr). li_frame_idx li = fidx \<longrightarrow> li_exit li \<le> n \<and> li_header li \<le> n)"

lemma retarget_core_id: "(\<And>t. t \<in> set (core_targets c) \<Longrightarrow> f t = t) \<Longrightarrow> retarget_core f c = c"
  by (cases c) (auto simp: retarget_core_def core_targets_def)

lemma retarget_id: "(\<And>t. t \<in> set (op_targets i) \<Longrightarrow> f t = t) \<Longrightarrow> retarget f i = i"
  by (cases i) (auto simp: retarget_def op_targets_def retarget_core_id)

lemma loops_in_min: "loops_in n fidx fr \<longleftrightarrow> map_frame fidx (min n) fr = fr"
proof -
  have "map_frame fidx (min n) fr = fr \<longleftrightarrow> map (map_loop fidx (min n)) (fr_loops fr) = fr_loops fr"
    by (cases fr) (simp add: map_frame_def)
  also have "\<dots> \<longleftrightarrow> (\<forall>li \<in> set (fr_loops fr). map_loop fidx (min n) li = li)"
    by (simp add: map_idI list_eq_iff_nth_eq all_set_conv_all_nth)
  also have "\<dots> \<longleftrightarrow> loops_in n fidx fr"
  proof -
    have "map_loop fidx (min n) li = li \<longleftrightarrow> (li_frame_idx li = fidx \<longrightarrow> li_exit li \<le> n \<and> li_header li \<le> n)" for li :: "'a loop_info"
      by (cases li) (auto simp: map_loop_def min_def)
    then show ?thesis by (simp add: loops_in_def)
  qed
  finally show ?thesis by simp
qed

text \<open>A step stays inside, since cutting the targets off at \<open>n\<close> changes nothing.\<close>

lemma exec_op_in:
  assumes "\<And>t. t \<in> set (op_targets i) \<Longrightarrow> t \<le> n" "loops_in n fidx fr" "exec_op H base fidx look i fr = Ok (t, fr')"
  shows "loops_in n fidx fr'" "t = Some u \<Longrightarrow> u \<le> n"
proof -
  have "retarget (min n) i = i" using assms(1) by (intro retarget_id) (simp add: min_absorb2)
  with movesD [OF moves_op [of fidx "min n" H base look i], of fr] assms(2,3)
  have "t = map_option (min n) t" "map_frame fidx (min n) fr' = fr'" by (simp_all add: loops_in_min)
  then show "loops_in n fidx fr'" "t = Some u \<Longrightarrow> u \<le> n" by (auto simp: loops_in_min)
qed

section \<open>Simulation\<close>

definition flatten_code :: "('k, 'c) vm_op list list \<Rightarrow> ('k, 'c) vm_op list" where
  "flatten_code gs = map (retarget (\<lambda>t. offsets 0 gs ! t)) (concat gs)"

lemma offsets_nth: "i \<le> length gs \<Longrightarrow> offsets pc gs ! i = pc + length (concat (take i gs))"
proof (induction gs arbitrary: pc i)
  case (Cons g gs)
  then show ?case by (cases i) auto
qed simp

text \<open>Running the instructions of a sequence where they stand in the flattened code.\<close>

lemma run_group:
  assumes "code' = pre @ map (retarget f) is @ post"
  shows "case exec_seq H base fidx look is fr of
      Inl s \<Rightarrow> \<exists>k. vm_steps k H base fidx look code' (length pre) (map_frame fidx f fr) = Err s
    | Inr (t, fr') \<Rightarrow> \<exists>k. (is \<noteq> [] \<longrightarrow> 0 < k) \<and> vm_steps k H base fidx look code' (length pre) (map_frame fidx f fr) =
        Ok (case t of None \<Rightarrow> length pre + length is | Some t \<Rightarrow> f t, map_frame fidx f fr')"
  using assms
proof (induction "is" arbitrary: pre fr)
  case Nil
  then show ?case by (auto simp: vm_next_def vm_return_def intro: exI [of _ 0])
next
  case (Cons i "is")
  have "exec_op H base fidx look (code' ! length pre) (map_frame fidx f fr) =
      map_sum (\<lambda>s. s) (map_prod (map_option f) (map_frame fidx f)) (exec_op H base fidx look i fr)"
    using Cons.prems movesD [OF moves_op] by (simp add: nth_append)
  then have step: "vm_step H base fidx look code' (length pre) (map_frame fidx f fr) = (case exec_op H base fidx look i fr of
      Inl s \<Rightarrow> Err s | Inr (t, fr') \<Rightarrow> Ok (case t of None \<Rightarrow> length pre + 1 | Some t \<Rightarrow> f t, map_frame fidx f fr'))"
    using Cons.prems by (auto simp: vm_step_def split: sum.split option.split)
  show ?case
  proof (cases "exec_op H base fidx look i fr")
    case (Inl s)
    with step show ?thesis by (auto simp: vm_bind_def intro!: exI [of _ 1])
  next
    case (Inr r)
    obtain t fr' where r: "r = (t, fr')" by (cases r)
    show ?thesis
    proof (cases t)
      case (Some u)
      with step Inr r show ?thesis by (auto simp: vm_bind_def vm_goto_def vm_return_def intro!: exI [of _ 1])
    next
      case None
      from Cons.prems have "code' = (pre @ [retarget f i]) @ map (retarget f) is @ post" by simp
      from Cons.IH [OF this, of fr']
      have IH: "case exec_seq H base fidx look is fr' of
          Inl s \<Rightarrow> \<exists>k. vm_steps k H base fidx look code' (Suc (length pre)) (map_frame fidx f fr') = Err s
        | Inr (t, fr'') \<Rightarrow> \<exists>k. (is \<noteq> [] \<longrightarrow> 0 < k) \<and> vm_steps k H base fidx look code' (Suc (length pre)) (map_frame fidx f fr') =
            Ok (case t of None \<Rightarrow> length pre + Suc (length is) | Some t \<Rightarrow> f t, map_frame fidx f fr'')"
        by (simp only: length_append length_Cons list.size add_Suc_right add_Suc add_0_right add_0)
      have "vm_steps (Suc k) H base fidx look code' (length pre) (map_frame fidx f fr) =
          vm_steps k H base fidx look code' (Suc (length pre)) (map_frame fidx f fr')" for k
        using step Inr r None by simp
      note suc = this
      have seq: "exec_seq H base fidx look (i # is) fr = exec_seq H base fidx look is fr'"
        using Inr r None by (simp add: vm_bind_def)
      show ?thesis
      proof (cases "exec_seq H base fidx look is fr'")
        case (Inl s)
        with IH obtain k where "vm_steps k H base fidx look code' (Suc (length pre)) (map_frame fidx f fr') = Err s" by auto
        then show ?thesis unfolding seq Inl sum.case by (intro exI [of _ "Suc k"]) (simp only: suc)
      next
        case (Inr q)
        obtain u fr'' where q: "q = (u, fr'')" by (cases q)
        with IH Inr obtain k where "vm_steps k H base fidx look code' (Suc (length pre)) (map_frame fidx f fr') =
            Ok (case u of None \<Rightarrow> length pre + Suc (length is) | Some t \<Rightarrow> f t, map_frame fidx f fr'')" by auto
        then show ?thesis unfolding seq Inr q sum.case prod.case by (intro exI [of _ "Suc k"]) (simp only: suc, simp split: option.split)
      qed
    qed
  qed
qed

text \<open>
  Outcomes agree, except that nothing is promised of code that panics. Of an error the message is
  compared, by \<open>msg\<close>.
\<close>

fun same_stop :: "(string \<Rightarrow> string \<Rightarrow> bool) \<Rightarrow> stop \<Rightarrow> stop \<Rightarrow> bool" where
  "same_stop msg (Failed e) (Failed e') = msg (ev_message e) (ev_message e')"
| "same_stop msg s s' = (s = s')"

definition refines :: "(string \<Rightarrow> string \<Rightarrow> bool) \<Rightarrow> (stop, 'a) result \<Rightarrow> (stop, 'a) result \<Rightarrow> bool" where
  "refines msg r r' \<longleftrightarrow> (case r of
       Inr x \<Rightarrow> r' = Ok x
     | Inl s \<Rightarrow> s = Panicked \<or> (\<exists>s'. r' = Err s' \<and> same_stop msg s s'))"

locale expansion =
  fixes msg :: "string \<Rightarrow> string \<Rightarrow> bool" and H :: host and base fidx :: nat and look :: "'k \<Rightarrow> rt_value option" and look' :: "'j \<Rightarrow> rt_value option"
    and g :: "('k, 'c) vm_op \<Rightarrow> ('j, 'd) vm_op list" and ok :: "('k, 'c) vm_op \<Rightarrow> bool" and env :: "'e itself"
  assumes nonempty: "ok i \<Longrightarrow> g i \<noteq> []"
    and refined: "ok i \<Longrightarrow> refines msg (exec_op H base fidx look i (fr :: 'e vm_frame)) (exec_seq H base fidx look' (g i) fr)"
begin

lemma simulate_step:
  fixes fr :: "'e vm_frame"
  assumes code: "list_all ok code" "code' = flatten_code (map g code)" "f = (\<lambda>t. offsets 0 (map g code) ! t)" and ip: "ip < length code"
  shows "case exec_op H base fidx look (code ! ip) fr of
      Inl s \<Rightarrow> s = Panicked \<or> (\<exists>k s'. vm_steps k H base fidx look' code' (f ip) (map_frame fidx f fr) = Err s' \<and> same_stop msg s s')
    | Inr (t, fr') \<Rightarrow> \<exists>k > 0. vm_steps k H base fidx look' code' (f ip) (map_frame fidx f fr) =
        Ok (f (case t of None \<Rightarrow> ip + 1 | Some t \<Rightarrow> t), map_frame fidx f fr')"
proof -
  from code(1) ip have ok: "ok (code ! ip)" by (simp add: list_all_length)
  let ?pre = "map (retarget f) (concat (map g (take ip code)))"
  have "map g code = map g (take ip code) @ g (code ! ip) # map g (drop (Suc ip) code)"
    using id_take_nth_drop [OF ip] by (metis list.simps(9) map_append)
  then have split: "code' = ?pre @ map (retarget f) (g (code ! ip)) @ map (retarget f) (concat (map g (drop (Suc ip) code)))"
    by (metis code(2,3) flatten_code_def concat.simps(2) concat_append map_append)
  have pre: "length ?pre = f ip" and suc: "f ip + length (g (code ! ip)) = f (ip + 1)"
    using ip by (simp_all add: code(3) offsets_nth take_map take_Suc_conv_app_nth)
  note run = run_group [OF split, of H base fidx look' fr, unfolded pre suc]
  show ?thesis
  proof (cases "exec_op H base fidx look (code ! ip) fr")
    case (Inl s)
    with refined [OF ok, of fr] have "s = Panicked \<or> (\<exists>s'. exec_seq H base fidx look' (g (code ! ip)) fr = Err s' \<and> same_stop msg s s')"
      by (simp add: refines_def)
    then show ?thesis
    proof (elim disjE exE conjE)
      fix s' assume "exec_seq H base fidx look' (g (code ! ip)) fr = Err s'" "same_stop msg s s'"
      with run Inl show ?thesis by auto
    qed (simp add: Inl)
  next
    case (Inr r)
    with refined [OF ok, of fr] have "exec_seq H base fidx look' (g (code ! ip)) fr = Ok r" by (simp add: refines_def)
    with run nonempty [OF ok] Inr show ?thesis by (cases r; cases "fst r") auto
  qed
qed

text \<open>A run of the original code is followed by a run of the expanded code that is at least as long.\<close>

lemma simulate_steps:
  fixes fr :: "'e vm_frame"
  assumes code: "list_all ok code" "code' = flatten_code (map g code)" "f = (\<lambda>t. offsets 0 (map g code) ! t)"
    and targets: "list_all (\<lambda>i. list_all (\<lambda>t. t \<le> length code) (op_targets i)) code"
    and start: "loops_in (length code) fidx fr" "ip \<le> length code"
  shows "case vm_steps n H base fidx look code ip fr of
      Inl s \<Rightarrow> s = Panicked \<or> (\<exists>k s'. vm_steps k H base fidx look' code' (f ip) (map_frame fidx f fr) = Err s' \<and> same_stop msg s s')
    | Inr (ip', fr') \<Rightarrow> \<exists>k \<ge> n. vm_steps k H base fidx look' code' (f ip) (map_frame fidx f fr) = Ok (f ip', map_frame fidx f fr')"
  using start
proof (induction n arbitrary: ip fr)
  case (Suc n)
  show ?case
  proof (cases "ip < length code")
    case False
    with Suc.prems have "ip = length code" by simp
    then have "f ip = length code'" by (simp add: code(2,3) flatten_code_def offsets_nth)
    then have stop': "vm_steps 1 H base fidx look' code' (f ip) (map_frame fidx f fr) = Err Left" by (simp add: vm_step_def)
    from False have stop: "vm_steps (Suc n) H base fidx look code ip fr = Err Left" by (simp add: vm_step_def)
    show ?thesis unfolding stop sum.case by (intro disjI2 exI conjI, rule stop') simp
  next
    case True
    note step = simulate_step [OF code True, of fr]
    show ?thesis
    proof (cases "exec_op H base fidx look (code ! ip) fr")
      case (Inl s)
      with step True show ?thesis by (simp add: vm_step_def)
    next
      case (Inr r)
      obtain t fr' where r: "r = (t, fr')" by (cases r)
      let ?ip' = "case t of None \<Rightarrow> ip + 1 | Some t \<Rightarrow> t"
      from targets True have bound: "\<And>t. t \<in> set (op_targets (code ! ip)) \<Longrightarrow> t \<le> length code" 
        by (metis (mono_tags, lifting) list_all_iff nth_mem)
      from Inr r have "exec_op H base fidx look (code ! ip) fr = Ok (t, fr')" by simp
      from exec_op_in [OF bound Suc.prems(1) this] True have inv: "loops_in (length code) fidx fr'" "?ip' \<le> length code" by (auto split: option.split)
      from step Inr r obtain j where j: "0 < j" "vm_steps j H base fidx look' code' (f ip) (map_frame fidx f fr) =
          Ok (f ?ip', map_frame fidx f fr')" by auto
      have first: "vm_steps (Suc n) H base fidx look code ip fr = vm_steps n H base fidx look code ?ip' fr'"
        using Inr r True by (simp add: vm_step_def)
      have rest: "vm_steps (j + k) H base fidx look' code' (f ip) (map_frame fidx f fr) =
          vm_steps k H base fidx look' code' (f ?ip') (map_frame fidx f fr')" for k using j(2) by (simp add: vm_steps_add)
      show ?thesis
      proof (cases "vm_steps n H base fidx look code ?ip' fr'")
        case (Inl s)
        with Suc.IH [OF inv] have "s = Panicked \<or> (\<exists>k s'. vm_steps k H base fidx look' code' (f ?ip') (map_frame fidx f fr') = Err s' \<and>
            same_stop msg s s')" by simp
        then show ?thesis unfolding first Inl sum.case by (metis rest)
      next
        case (Inr q)
        obtain ip'' fr'' where q: "q = (ip'', fr'')" by (cases q)
        from Suc.IH [OF inv] Inr q obtain k where "k \<ge> n" "vm_steps k H base fidx look' code' (f ?ip') (map_frame fidx f fr') =
            Ok (f ip'', map_frame fidx f fr'')" by auto
        with rest [of k] j(1) show ?thesis unfolding first Inr q sum.case prod.case by (intro exI [of _ "j + k"]) simp
      qed
    qed
  qed
qed (auto intro: exI [of _ 0])

end

end
