(* ===== verification/Vm_Desugar.thy ===== *)
theory Vm_Desugar
  imports Vm_Sim
begin

text \<open>
  The instructions that lowering desugars behave like what they are desugared to. Spans only reach
  error values, so erasing them keeps every outcome up to the span; the two fused instructions for
  taking a slot and pushing to an array are followed through the sequences that replace them.
\<close>

section \<open>Erased spans\<close>

text \<open>Results that differ at most in the span of an error.\<close>

definition same_result :: "(eval_error, 'a) result \<Rightarrow> (eval_error, 'a) result \<Rightarrow> bool" where
  "same_result r r' \<longleftrightarrow> map_sum ev_message (\<lambda>x. x) r = map_sum ev_message (\<lambda>x. x) r'"

named_theorems same_intros \<open>operations whose result depends on the span only in errors\<close>

lemma same_result_refl [same_intros]: "same_result r r"
  by (simp add: same_result_def)

lemma same_result_Err [same_intros]: "same_result (Err (EvalError m sp)) (Err (EvalError m sp'))"
  by (simp add: same_result_def)

lemma same_result_bind [same_intros]:
  assumes "same_result r r'" "\<And>x. same_result (f x) (f' x)"
  shows "same_result (res_bind r f) (res_bind r' f')"
  using assms by (cases r; cases r') (auto simp: same_result_def)

lemma same_int_binary [same_intros]: "same_result (eval_int_binary op a b sp) (eval_int_binary op a b sp')"
  by (cases op) (auto simp: eval_int_binary_def same_result_def unreachable_def)

lemma same_binary [same_intros]: "same_result (eval_binary H op l r sp) (eval_binary H op l r sp')"
proof -
  have "same_result (eval_float_binary H e op a b) (eval_float_binary H e' op a b)" if "ev_message e = ev_message e'" for e e' a b
    using that by (cases op) (auto simp: eval_float_binary_def same_result_def)
  moreover have "same_result (eval_str_binary op a b sp) (eval_str_binary op a b sp')" for a b
    by (cases op) (auto simp: eval_str_binary_def same_result_def unsupported_def)
  ultimately show ?thesis
    by (auto simp: eval_binary_def eval_mixed_binary_def unsupported_def non_numeric_def intro!: same_intros
        split: rt_value.split option.split)
qed

lemma same_unary [same_intros]: "same_result (eval_unary H op v sp) (eval_unary H op v sp')"
  by (auto simp: eval_unary_def intro!: same_intros split: unop.split rt_value.split)

lemma same_index [same_intros]:
  "same_result (normalize_index i n sp) (normalize_index i n sp')"
  "same_result (index_list f xs i sp) (index_list f xs i sp')"
  by (auto simp: normalize_index_def index_list_def Let_def intro!: same_intros)

lemma same_get_index [same_intros]: "same_result (get_index H ov iv sp) (get_index H ov iv sp')"
  by (auto simp: get_index_def Let_def intro!: same_intros split: rt_value.split option.split)

lemma same_set_index [same_intros]: "same_result (set_index H ov iv v sp) (set_index H ov iv v sp')"
  by (auto simp: set_index_def Let_def intro!: same_intros split: rt_value.split)

lemma same_fields [same_intros]:
  "same_result (object_field H ov n sp) (object_field H ov n sp')"
  "same_result (set_object_field H ov n v sp) (set_object_field H ov n v sp')"
  "same_result (field_at ov i sp) (field_at ov i sp')"
  "same_result (set_field_at ov i v sp) (set_field_at ov i v sp')"
  by (auto simp: object_field_def object_field_miss_def set_object_field_def field_at_def set_field_at_def
      intro!: same_intros split: option.split rt_value.split)

lemma same_data [same_intros]:
  "same_result (slice_value ov a b sp) (slice_value ov a b sp')"
  "same_result (slice_bound H v sp) (slice_bound H v sp')"
  "same_result (make_range s e sp) (make_range s e sp')"
  "same_result (make_variant n av sp) (make_variant n av sp')"
  "same_result (array_push H arr v sp) (array_push H arr v sp')"
  "same_result (push_array H arr v sp) (push_array H arr v sp')"
  by (auto simp: slice_value_def slice_bound_def make_range_def make_variant_def array_push_def push_array_def Let_def
      intro!: same_intros split: rt_value.split option.split)

lemma same_homes [same_intros]:
  "same_result (field_push_take H v n e sp) (field_push_take H v n e sp')"
  "same_result (set_field_index H v n ix w sp) (set_field_index H v n ix w sp')"
  "same_result (field_binop H v n op w sp) (field_binop H v n op w sp')"
  "same_result (compound_index H v ix op w sp) (compound_index H v ix op w sp')"
  "same_result (get_field_index H v n ix sp) (get_field_index H v n ix sp')"
  by (auto simp: field_push_take_def set_field_index_def field_binop_def compound_index_def get_field_index_def Let_def
      intro!: same_intros split: rt_value.split option.split)

lemma same_len_field [same_intros]: "same_result (len_field H v n sp) (len_field H v n sp')"
proof -
  have "same_result (case value_len w of Some n \<Rightarrow> Ok (VInt n) | None \<Rightarrow> Err (len_error H w sp))
      (case value_len w of Some n \<Rightarrow> Ok (VInt n) | None \<Rightarrow> Err (len_error H w sp'))" for w
    by (auto simp: len_error_def intro!: same_intros split: option.split rt_value.split)
  then show ?thesis by (auto simp: len_field_def intro!: same_result_bind same_intros split: option.split)
qed

lemma same_fast [same_intros]:
  "same_result (arith_fast H f op l r sp) (arith_fast H f op l r sp')"
  "same_result (less_fast H l r sp) (less_fast H l r sp')"
  "same_result (cmp_fast H op l r sp) (cmp_fast H op l r sp')"
  "same_result (int_fast H op l r sp) (int_fast H op l r sp')"
  "same_result (div_fast H l r sp) (div_fast H l r sp')"
  "same_result (rem_fast H l r sp) (rem_fast H l r sp')"
  "same_result (neg_fast H v sp) (neg_fast H v sp')"
  by (auto simp: arith_fast_def less_fast_def cmp_fast_def int_fast_def div_fast_def rem_fast_def neg_fast_def
      intro!: same_intros split: rt_value.split option.split)

text \<open>Each integer fast path computes what the generic operator does.\<close>

lemma eval_binary_ints: "eval_binary H op (VInt a) (VInt b) sp = eval_int_binary op a b sp"
  by (cases op) (simp_all add: eval_binary_def eval_equal_def eval_int_binary_def)

lemma int_fast_path:
  assumes "\<And>a b. f a b = eval_int_binary op a b sp"
  shows "(case (l, r) of (VInt a, VInt b) \<Rightarrow> f a b | _ \<Rightarrow> eval_binary H op l r sp) = eval_binary H op l r sp"
proof (cases l)
  case (VInt a)
  then show ?thesis by (cases r) (simp_all add: assms eval_binary_ints)
qed simp_all

lemma fast_paths:
  "cmp_fast H op l r sp = eval_binary H op l r sp" "int_fast H op l r sp = eval_binary H op l r sp"
  "less_fast H l r sp = eval_binary H BLt l r sp" "div_fast H l r sp = eval_binary H BDiv l r sp"
  "rem_fast H l r sp = eval_binary H BRem l r sp" "arith_fast H (+) BAdd l r sp = eval_binary H BAdd l r sp"
  "arith_fast H (-) BSub l r sp = eval_binary H BSub l r sp" "arith_fast H (*) BMul l r sp = eval_binary H BMul l r sp"
proof -
  have "(case int_cmp op a b of Some c \<Rightarrow> Ok (VBool c) | None \<Rightarrow> eval_int_binary op a b sp) = eval_int_binary op a b sp" for a b
    by (cases op) (simp_all add: int_cmp_def eval_int_binary_def)
  then show "cmp_fast H op l r sp = eval_binary H op l r sp" unfolding cmp_fast_def by (rule int_fast_path)
qed (unfold int_fast_def less_fast_def div_fast_def rem_fast_def arith_fast_def,
    (rule int_fast_path, simp add: eval_int_binary_def)+)

lemma const_fast_binary: "const_fast H op l r sp = eval_binary H op l r sp"
proof (cases "\<exists>x y. l = VStr x \<and> r = VStr y")
  case True
  then show ?thesis by (auto simp: const_fast_def eval_binary_def eval_equal_def)
next
  case False
  then have "const_fast H op l r sp = (case (l, r) of
      (VInt a, VInt b) \<Rightarrow> (case int_cmp op a b of Some c \<Rightarrow> Ok (VBool c) | None \<Rightarrow> eval_int_binary op a b sp)
    | _ \<Rightarrow> eval_binary H op l r sp)"
    by (cases l; cases r) (simp_all add: const_fast_def eval_binary_ints split: option.split)
  also have "\<dots> = eval_binary H op l r sp" using fast_paths(1) by (simp add: cmp_fast_def)
  finally show ?thesis .
qed

section \<open>Agreement of effects\<close>

definition agrees :: "(string \<Rightarrow> string \<Rightarrow> bool) \<Rightarrow> ('e, 'a) vm_m \<Rightarrow> ('e, 'a) vm_m \<Rightarrow> bool" where
  "agrees msg m m' \<longleftrightarrow> (\<forall>fr. refines msg (m fr) (m' fr))"

named_theorems agrees_intros \<open>how agreement is built up\<close>

lemma agrees_refl [agrees_intros]: "reflp msg \<Longrightarrow> agrees msg m m"
proof -
  assume "reflp msg"
  then have "same_stop msg s s" for s by (cases s) (auto dest: reflpD)
  then show ?thesis by (auto simp: agrees_def refines_def split: sum.split)
qed

lemma agrees_bind:
  assumes "agrees msg m m'" "\<And>x. agrees msg (k x) (k' x)"
  shows "agrees msg (vm_bind m k) (vm_bind m' k')"
  unfolding agrees_def
proof
  fix fr
  from assms(1) have m: "refines msg (m fr) (m' fr)" by (simp add: agrees_def)
  show "refines msg (vm_bind m k fr) (vm_bind m' k' fr)"
  proof (cases "m fr")
    case (Inl s)
    with m show ?thesis by (auto simp: refines_def vm_bind_def)
  next
    case (Inr p)
    with m have "m' fr = Ok p" by (simp add: refines_def)
    with Inr assms(2) show ?thesis by (simp add: vm_bind_def agrees_def case_prod_unfold)
  qed
qed

lemma agrees_eval: "reflp msg \<Longrightarrow> same_result r r' \<Longrightarrow> agrees msg (vm_eval r) (vm_eval r')"
  by (cases r; cases r') (auto simp: agrees_def refines_def vm_eval_def vm_stop_def vm_return_def same_result_def reflp_def)

lemma agrees_fail: "reflp msg \<Longrightarrow> agrees msg (vm_fail m sp) (vm_fail m sp')"
  by (auto simp: agrees_def refines_def vm_fail_def vm_stop_def reflp_def)

text \<open>
  The message of a failed push to something that is not an array changes when the fused instruction
  is desugared; all other messages stay.
\<close>

definition push_msg :: "string \<Rightarrow> string \<Rightarrow> bool" where
  "push_msg m m' \<longleftrightarrow> m = m' \<or>
     (\<exists>v. m = ''`vec.push` expects an array, found `'' @ v \<and> m' = ''ArrayPush: expected array, found `'' @ v)"

lemma push_msg_refl [simp]: "reflp push_msg"
  by (simp add: reflp_def push_msg_def)

abbreviation agree :: "('e, 'a) vm_m \<Rightarrow> ('e, 'a) vm_m \<Rightarrow> bool" where
  "agree \<equiv> agrees push_msg"

lemma agree_bind_eval [agrees_intros]:
  "same_result r r' \<Longrightarrow> agree (vm_bind (vm_eval r) k) (vm_bind (vm_eval r') k)"
  by (intro agrees_bind agrees_eval agrees_refl) simp_all

lemma agree_vm_fail [agrees_intros]: "agree (vm_fail m sp) (vm_fail m sp')"
  by (simp add: agrees_fail)

lemma agree_pops [agrees_intros]:
  "(\<And>l r. same_result (f l r) (f' l r)) \<Longrightarrow> agree (pop_binary f) (pop_binary f')"
  "(\<And>v. same_result (g v) (g' v)) \<Longrightarrow> agree (pop_unary g) (pop_unary g')"
  unfolding pop_binary_def pop_unary_def vm_pop2_def
  by (intro agrees_bind agrees_eval agrees_refl push_msg_refl; simp)+

lemma agree_slots [agrees_intros]:
  "(\<And>l r. same_result (f l r) (f' l r)) \<Longrightarrow> (\<And>v. agree (k v) (k' v)) \<Longrightarrow>
     agree (vm_bind (slots_binary base a b f) k) (vm_bind (slots_binary base a b f') k')"
  "(\<And>l r. same_result (f l r) (f' l r)) \<Longrightarrow> (\<And>v. agree (k v) (k' v)) \<Longrightarrow>
     agree (vm_bind (slot_binary base a w f) k) (vm_bind (slot_binary base a w f') k')"
  unfolding slots_binary_def slot_binary_def
  by (intro agrees_bind agrees_eval agrees_refl push_msg_refl; simp)+

lemma agree_homes [agrees_intros]:
  "(\<And>v. same_result (f v) (f' v)) \<Longrightarrow> agree (update_home base h f) (update_home base h f')"
  "(\<And>v. same_result (f v) (f' v)) \<Longrightarrow> agree (vm_bind (read_home base h f) k) (vm_bind (read_home base h f') k)"
  "(\<And>v. agree (g v) (g' v)) \<Longrightarrow> agree (pop_home h g) (pop_home h g')"
  unfolding update_home_def read_home_def pop_home_def
  by (cases h; simp; intro agrees_bind agrees_eval agrees_refl push_msg_refl; simp)+

lemma agree_branch [agrees_intros]: "agree (branch_bool m t sp c) (branch_bool m t sp' c)"
  by (cases c) (auto simp: branch_bool_def intro!: agrees_intros)

lemma agree_vm_pop [agrees_intros]: "(\<And>v. agree (k v) (k' v)) \<Longrightarrow> agree (vm_bind vm_pop k) (vm_bind vm_pop k')"
  by (intro agrees_bind agrees_refl) simp_all

lemma agree_for_setup [agrees_intros]: "agree (for_setup H fidx exit header sp n) (for_setup H fidx exit header sp' n)"
  unfolding for_setup_def Let_def by (auto intro!: agrees_intros split: rt_value.split)

lemma refines_bind:
  assumes "refines msg r r'" "\<And>x. refines msg (f x) (f' x)"
  shows "refines msg (res_bind r f) (res_bind r' f')"
  using assms by (cases r) (auto simp: refines_def)

lemma agree_for_next [agrees_intros]: "agree (for_next vars exit body sp) (for_next vars exit body sp')"
proof -
  have gen: "refines push_msg (for_generic n it ix sp) (for_generic n it ix sp')" for n it ix
    by (auto simp: for_generic_def for_item_def refines_def push_msg_def split: rt_value.split option.split)
  have refl: "refines push_msg r r" for r :: "(stop, nat option \<times> 'a vm_frame) result"
    using agrees_refl [of push_msg "\<lambda>_ :: 'a vm_frame. r"] by (simp add: agrees_def)
  have "refines push_msg (for_next_generic n exit body sp fr) (for_next_generic n exit body sp' fr)" for n and fr :: "'a vm_frame"
    unfolding for_next_generic_def Let_def by (auto intro!: refl refines_bind [OF gen])
  then show ?thesis by (auto simp: agrees_def for_next_def intro: refl split: option.split)
qed

lemma agree_loops [agrees_intros]:
  "agree (while_cond exit sp) (while_cond exit sp')" "agree (vm_break fidx sp) (vm_break fidx sp')"
  "agree (vm_continue fidx sp) (vm_continue fidx sp')"
  unfolding while_cond_def vm_break_def vm_continue_def
  by (intro agrees_bind agrees_refl push_msg_refl; auto intro!: agrees_intros split: rt_value.split option.split)+

lemma agree_stack [agrees_intros]: "agree (pop_n n sp) (pop_n n sp')" "agree (db_query n sp) (db_query n sp')"
  by (auto simp: agrees_def pop_n_def db_query_def Let_def refines_def push_msg_def)

lemma agree_erase: "agree (exec_core H base fidx c) (exec_core H base fidx (erase_core c))"
  by (cases c) (auto simp: exec_core_def erase_core_def fast_paths intro!: agrees_intros same_intros
      split: take_home.split rt_value.split)

section \<open>Desugared sequences\<close>

lemmas run_defs = exec_op_def exec_core_def vm_bind_def vm_return_def vm_next_def vm_goto_def vm_unwrap_def vm_eval_def
  vm_stop_def vm_push_def vm_pop_def vm_pop2_def slot_get_def slot_set_def push_next_def set_next_def take_home_slot_def
  pop_home_def update_home_def pop_binary_def slots_binary_def slot_binary_def Let_def

lemma exec_seq_single: "exec_seq H base fidx look [i] fr = exec_op H base fidx look i fr"
  by (cases "exec_op H base fidx look i fr") (auto simp: vm_bind_def vm_next_def vm_goto_def vm_return_def split: option.split)

lemma take_slot_seq:
  "refines push_msg (exec_core H base fidx (VTakeSlot s) fr) (exec_seq H base fidx Some (take_from (HomeSlot s)) fr)"
  by (auto simp: take_from_def load_home_def store_home_def run_defs refines_def nth_append list_update_append)

lemma push_error:
  assumes "\<forall>vs. v \<noteq> VArray vs"
  obtains m m' where "push_array H v e sp = Err (EvalError m sp)" "array_push H v e sp' = Err (EvalError m' sp')" "push_msg m m'"
proof (rule that)
  show "push_array H v e sp = Err (EvalError (''`vec.push` expects an array, found `'' @ h_show H v @ ''`'') sp)"
    using assms by (cases v) (simp_all add: push_array_def)
  show "array_push H v e sp' = Err (EvalError (''ArrayPush: expected array, found `'' @ h_show H v @ ''`'') sp')"
    using assms by (cases v) (simp_all add: array_push_def)
  show "push_msg (''`vec.push` expects an array, found `'' @ h_show H v @ ''`'') (''ArrayPush: expected array, found `'' @ h_show H v @ ''`'')"
    unfolding push_msg_def by blast
qed

lemma vec_push_seq:
  "refines push_msg (exec_core H base fidx (VVecPush h sp) fr) (exec_seq H base fidx Some (desugar_core (VVecPush h sp)) fr)"
proof (cases h)
  case (HomeSlot s)
  show ?thesis
  proof (cases "fr_stack fr" rule: rev_cases)
    case Nil
    with HomeSlot show ?thesis by (simp add: run_defs refines_def)
  next
    case (snoc st e)
    show ?thesis
    proof (cases "base + unat s < length st")
      case True
      let ?v = "st ! (base + unat s)"
      note eval = desugar_core_def take_from_def load_home_def store_home_def run_defs refines_def nth_append list_update_append butlast_append
      show ?thesis
      proof (cases "\<exists>vs. ?v = VArray vs")
        case True
        with \<open>base + unat s < length st\<close> snoc HomeSlot show ?thesis by (auto simp: eval push_array_def array_push_def)
      next
        case False
        then obtain m m' where "push_array H ?v e sp = Err (EvalError m sp)"
          "array_push H ?v e (Span 0 0) = Err (EvalError m' (Span 0 0))" "push_msg m m'" using push_error by metis
        with \<open>base + unat s < length st\<close> snoc HomeSlot show ?thesis by (simp add: eval)
      qed
    next
      case False
      with snoc HomeSlot show ?thesis by (simp add: run_defs refines_def)
    qed
  qed
next
  case (HomeEnv n)
  then show ?thesis by (simp add: desugar_core_def take_from_def load_home_def run_defs refines_def)
qed

lemma desugar_core_plain:
  "(\<And>s. c \<noteq> VTakeSlot s) \<Longrightarrow> (\<And>h sp. c \<noteq> VVecPush h sp) \<Longrightarrow> desugar_core c = [VCore (erase_core c)]"
  by (cases c) (auto simp: desugar_core_def)

lemma desugar_core_seq: "refines push_msg (exec_core H base fidx c fr) (exec_seq H base fidx Some (desugar_core c) fr)"
proof (cases "\<exists>s. c = VTakeSlot s")
  case True
  then show ?thesis using take_slot_seq by (auto simp: desugar_core_def)
next
  case False
  show ?thesis
  proof (cases "\<exists>h sp. c = VVecPush h sp")
    case True
    then show ?thesis using vec_push_seq by auto
  next
    case no: False
    have "exec_seq H base fidx Some (desugar_core c) fr = exec_core H base fidx (erase_core c) fr"
      by (subst desugar_core_plain) (use False no in \<open>simp_all only: exec_seq_single exec_op_def vm_op.case, simp_all\<close>)
    with agree_erase [unfolded agrees_def] show ?thesis by metis
  qed
qed

lemma desugar_op_seq:
  "refines push_msg (exec_op H base fidx (\<lambda>k. vec_get pool (unat k)) i fr)
     (exec_seq H base fidx Some (desugar_op (map_vm_op (pool_value pool) target i)) fr)"
proof (cases i)
  case (VPushConst k)
  then show ?thesis
    by (cases "unat k < length pool") (simp_all add: desugar_op_def pool_value_def run_defs refines_def vec_get_def)
next
  case (VSlotCmpConst a k op)
  have refl: "refines push_msg r r" for r :: "(stop, nat option \<times> 'b vm_frame) result"
    using agrees_refl [of push_msg "\<lambda>_ :: 'b vm_frame. r"] by (simp add: agrees_def)
  show ?thesis
  proof (cases "unat k < length pool")
    case False
    with VSlotCmpConst show ?thesis by (simp add: run_defs refines_def vec_get_def)
  next
    case True
    with VSlotCmpConst refl show ?thesis
      by (simp only: desugar_op_def vm_op.map vm_op.case exec_seq_single) (simp add: exec_op_def pool_value_def vec_get_def)
  qed
next
  case (VCore c)
  then show ?thesis using desugar_core_seq [of H base fidx c fr] by (simp add: exec_op_def desugar_op_def)
qed (simp_all only: desugar_op_def vm_op.map vm_op.case exec_seq_single, simp_all add: run_defs refines_def)

lemma desugar_op_nonempty: "desugar_op i \<noteq> []"
  by (cases i) (auto simp: desugar_op_def desugar_core_def take_from_def split: vm_core.split)

interpretation desugared: expansion push_msg H base fidx "\<lambda>k. vec_get pool (unat k)" Some
    "\<lambda>i. desugar_op (map_vm_op (pool_value pool) target i)" "\<lambda>i. True" "TYPE('e)" for H base fidx pool
  by unfold_locales (simp_all add: desugar_op_nonempty desugar_op_seq)

section \<open>Constants by value\<close>

lemma exec_op_map: "exec_op H base fidx look (map_vm_op f g i) = exec_op H base fidx (\<lambda>k. look (f k)) i"
  by (cases i) (simp_all add: exec_op_def)

definition consts_in :: "('k, 'c) vm_op list \<Rightarrow> 'k set \<Rightarrow> bool" where
  "consts_in code K \<longleftrightarrow> (\<forall>i \<in> set code. set1_vm_op i \<subseteq> K)"

lemma exec_op_look: "(\<And>k. k \<in> set1_vm_op i \<Longrightarrow> look k = look' k) \<Longrightarrow> exec_op H base fidx look i = exec_op H base fidx look' i"
  by (cases i) (simp_all add: exec_op_def)

lemma vm_steps_resolved:
  fixes fr :: "'e vm_frame"
  assumes "consts_in code {k. unat k < length pool}"
  shows "vm_steps n H base fidx Some (map (map_vm_op (pool_value pool) g) code) ip fr =
    vm_steps n H base fidx (\<lambda>k. vec_get pool (unat k)) code ip fr"
proof -
  have eq: "exec_op H base fidx (\<lambda>k. Some (pool_value pool k)) i fr = exec_op H base fidx (\<lambda>k. vec_get pool (unat k)) i fr"
    if "i \<in> set code" for i and fr :: "'e vm_frame"
    using assms that by (subst exec_op_look) (auto simp: consts_in_def pool_value_def vec_get_def)
  have "vm_step H base fidx Some (map (map_vm_op (pool_value pool) g) code) ip fr =
      vm_step H base fidx (\<lambda>k. vec_get pool (unat k)) code ip fr" for ip and fr :: "'e vm_frame"
    by (simp add: vm_step_def exec_op_map eq)
  then show ?thesis by (induction n arbitrary: ip fr) (simp_all add: case_prod_unfold)
qed

end
