(* ===== verification/Lower_Spec.thy ===== *)
theory Lower_Spec
  imports Reload "HOL-Library.Sublist"
begin

text \<open>
  The methods of the lowerer are specified by \<open>lw_spec\<close>: what a method
  guarantees about every module that its tables grow into. The tables only ever grow, apart from
  the function records that are still being filled in, so a guarantee about the strings and constants
  named so far and the functions completed so far holds of the finished module.
\<close>

section \<open>Growing tables\<close>

definition grows :: "lowerer \<Rightarrow> lowerer \<Rightarrow> bool" where
  "grows l l' \<longleftrightarrow> prefix (lw_strings l) (lw_strings l') \<and> prefix (lw_consts l) (lw_consts l') \<and>
     prefix (lw_funcs l) (lw_funcs l')"

lemma grows_refl [simp]: "grows l l"
  by (simp add: grows_def)

lemma grows_trans: "grows a b \<Longrightarrow> grows b c \<Longrightarrow> grows a c"
  unfolding grows_def by (blast intro: prefix_order.order_trans)

text \<open>The module \<open>M\<close> has the tables of \<open>l'\<close> and the functions added since \<open>l\<close>.\<close>

definition covers :: "module_ \<Rightarrow> lowerer \<Rightarrow> lowerer \<Rightarrow> bool" where
  "covers M l l' \<longleftrightarrow> prefix (lw_strings l') (m_strings M) \<and> prefix (lw_consts l') (m_consts M) \<and>
     length (lw_funcs l') \<le> length (m_funcs M) \<and>
     (\<forall>i. length (lw_funcs l) \<le> i \<and> i < length (lw_funcs l') \<longrightarrow> m_funcs M ! i = lw_funcs l' ! i)"

lemma grows_funcs: "grows l l' \<Longrightarrow> length (lw_funcs l) \<le> length (lw_funcs l')"
  by (simp add: grows_def prefix_length_le)

lemma grows_func: "grows l l' \<Longrightarrow> i < length (lw_funcs l) \<Longrightarrow> lw_funcs l' ! i = lw_funcs l ! i"
  by (auto simp: grows_def prefix_def nth_append)

lemma covers_left: "covers M l l'' \<Longrightarrow> grows l' l'' \<Longrightarrow> covers M l l'"
  using grows_funcs [of l' l''] grows_func [of l' l''] unfolding covers_def grows_def
  by (auto intro: prefix_order.order_trans)

lemma covers_right: "covers M l l'' \<Longrightarrow> grows l l' \<Longrightarrow> covers M l' l''"
  unfolding covers_def by (meson grows_funcs order_trans)

text \<open>Interned strings are found at their id, and the pool has no negative zero.\<close>

definition interned :: "lowerer \<Rightarrow> bool" where
  "interned l \<longleftrightarrow> (\<forall>s i. lw_str_ids l s = Some i \<longrightarrow> vec_get (lw_strings l) (str_ix i) = Some s) \<and>
     CFloat neg_zero \<notin> set (lw_consts l)"

lemma interned_new: "interned lowerer_new"
  by (simp add: interned_def lowerer_new_def)

section \<open>Specifications\<close>

abbreviation func_count :: "lowerer \<Rightarrow> nat" where
  "func_count l \<equiv> length (lw_funcs l)"

text \<open>Function ids wrap at 32 bits; a table that has not got there only grows.\<close>

definition mono_lw :: "'a lw \<Rightarrow> bool" where
  "mono_lw m \<longleftrightarrow> (\<forall>l x l'. m l = Ok (x, l') \<longrightarrow>
     func_count l \<le> func_count l' \<and> (func_count l' \<le> 2 ^ 32 \<longrightarrow> grows l l'))"

definition lw_spec :: "'a lw \<Rightarrow> (nat \<Rightarrow> module_ \<Rightarrow> 'a \<Rightarrow> bool) \<Rightarrow> bool" where
  "lw_spec m P \<longleftrightarrow> mono_lw m \<and>
     (\<forall>l x l' M k. interned l \<longrightarrow> m l = Ok (x, l') \<longrightarrow> covers M l l' \<longrightarrow> fits_tables M \<longrightarrow> k \<le> func_count l \<longrightarrow>
        interned l' \<and> P k M x)"

lemma lw_specD:
  assumes "lw_spec m P" "m l = Ok (x, l')"
  shows "func_count l \<le> func_count l'" "func_count l' \<le> 2 ^ 32 \<Longrightarrow> grows l l'"
    "interned l \<Longrightarrow> covers M l l' \<Longrightarrow> fits_tables M \<Longrightarrow> k \<le> func_count l \<Longrightarrow> interned l' \<and> P k M x"
  using assms unfolding lw_spec_def mono_lw_def by blast+

lemma lw_specI_count:
  assumes "\<And>l x l'. m l = Ok (x, l') \<Longrightarrow> func_count l \<le> func_count l'"
    "\<And>l x l'. m l = Ok (x, l') \<Longrightarrow> func_count l' \<le> 2 ^ 32 \<Longrightarrow> grows l l'"
    "\<And>l x l' M k. interned l \<Longrightarrow> m l = Ok (x, l') \<Longrightarrow> covers M l l' \<Longrightarrow> fits_tables M \<Longrightarrow> k \<le> func_count l \<Longrightarrow>
       interned l' \<and> P k M x"
  shows "lw_spec m P"
  using assms unfolding lw_spec_def mono_lw_def by blast

lemma lw_specI:
  assumes "\<And>l x l'. m l = Ok (x, l') \<Longrightarrow> grows l l'"
    "\<And>l x l' M k. interned l \<Longrightarrow> m l = Ok (x, l') \<Longrightarrow> covers M l l' \<Longrightarrow> fits_tables M \<Longrightarrow> k \<le> func_count l \<Longrightarrow>
       interned l' \<and> P k M x"
  shows "lw_spec m P"
  using assms by (intro lw_specI_count) (auto intro: grows_funcs)

lemma lw_spec_weaken: "lw_spec m P \<Longrightarrow> (\<And>k M x. P k M x \<Longrightarrow> Q k M x) \<Longrightarrow> lw_spec m Q"
  unfolding lw_spec_def by blast

lemma lw_bind_Ok: "lw_bind m f l = Ok (y, l'') \<longleftrightarrow> (\<exists>x l'. m l = Ok (x, l') \<and> f x l' = Ok (y, l''))"
  by (auto simp: lw_bind_def)

lemma lw_spec_return: "(\<And>k M. P k M x) \<Longrightarrow> lw_spec (lw_return x) P"
  by (rule lw_specI) (auto simp: lw_return_def)

lemma lw_spec_fail: "lw_spec (lw_fail msg) P"
  by (rule lw_specI) (auto simp: lw_fail_def)

lemma covers_count: "covers M l l' \<Longrightarrow> fits_tables M \<Longrightarrow> func_count l' \<le> 2 ^ 32"
  by (simp add: covers_def fits_tables_def)

lemma lw_spec_bind:
  assumes m: "lw_spec m P" and f: "\<And>x. lw_spec (f x) (\<lambda>k M y. P k M x \<longrightarrow> Q k M y)"
  shows "lw_spec (lw_bind m f) Q"
proof (rule lw_specI_count)
  fix l y l'' assume "lw_bind m f l = Ok (y, l'')"
  then obtain x l' where x: "m l = Ok (x, l')" and y: "f x l' = Ok (y, l'')" by (auto simp: lw_bind_Ok)
  from lw_specD(1) [OF m x] lw_specD(1) [OF f y] show le: "func_count l \<le> func_count l''" by simp
  assume "func_count l'' \<le> 2 ^ 32"
  with lw_specD(1) [OF f y] lw_specD(2) [OF m x] lw_specD(2) [OF f y] show "grows l l''" by (blast intro: grows_trans order_trans)
next
  fix l y l'' M k
  assume l: "interned l" "covers M l l''" "fits_tables M" "k \<le> func_count l" and "lw_bind m f l = Ok (y, l'')"
  then obtain x l' where x: "m l = Ok (x, l')" and y: "f x l' = Ok (y, l'')" by (auto simp: lw_bind_Ok)
  note c = covers_count [OF l(2,3)]
  with lw_specD(1) [OF f y] have c': "func_count l' \<le> 2 ^ 32" by simp
  from lw_specD(2) [OF m x c'] lw_specD(2) [OF f y c] have g: "grows l l'" "grows l' l''" .
  from lw_specD(3) [OF m x l(1) covers_left [OF l(2) g(2)] l(3,4)] have "interned l'" "P k M x" by blast+
  moreover from l(4) grows_funcs [OF g(1)] have "k \<le> func_count l'" by simp
  ultimately show "interned l'' \<and> Q k M y"
    using lw_specD(3) [OF f y _ covers_right [OF l(2) g(1)] l(3)] by blast
qed

lemma lw_spec_seq:
  assumes "\<And>x. x \<in> set xs \<Longrightarrow> lw_spec (f x) (\<lambda>k M y. P k M x y)"
  shows "lw_spec (lw_seq (map f xs)) (\<lambda>k M ys. list_all2 (P k M) xs ys)"
  using assms
proof (induction xs)
  case Nil
  then show ?case by (simp add: lw_spec_return)
next
  case (Cons x xs)
  have x: "lw_spec (f x) (\<lambda>k M y. P k M x y)" by (rule Cons.prems) simp
  have xs: "lw_spec (lw_seq (map f xs)) (\<lambda>k M ys. list_all2 (P k M) xs ys)" using Cons by simp
  show ?case by (auto intro!: lw_spec_bind [OF x] lw_spec_bind [OF xs] lw_spec_return)
qed

lemma lw_spec_lift: "(\<And>k M x. r = Ok x \<Longrightarrow> P k M x) \<Longrightarrow> lw_spec (lw_lift r) P"
  by (rule lw_specI) (auto simp: lw_lift_def)

section \<open>Interning\<close>

lemma vec_get_prefix: "prefix xs ys \<Longrightarrow> vec_get xs i = Some x \<Longrightarrow> vec_get ys i = Some x"
  by (auto simp: vec_get_def prefix_def nth_append split: if_splits)

lemma fits_id:
  assumes "length xs < n" "n \<le> 2 ^ 32"
  shows "unat (word_of_nat (length xs) :: u32) = length xs"
  using assms by (simp add: unat_of_nat_len)

lemma covers_strings:
  "covers M l l' \<Longrightarrow> fits_tables M \<Longrightarrow> vec_get (lw_strings l') (str_ix i) = Some s \<Longrightarrow> rs_str M i = Ok s"
  using vec_get_prefix [of "lw_strings l'" "m_strings M"] by (simp add: covers_def rs_str_def del: vec_get_eq_Some)

lemma spec_intern: "lw_spec (intern s) (\<lambda>k M i. rs_str M i = Ok s)"
proof (rule lw_specI)
  fix l i l' assume "intern s l = Ok (i, l')"
  then show "grows l l'" by (auto simp: intern_def Let_def grows_def split: option.splits)
next
  fix l i l' M and k :: nat
  assume l: "interned l" "intern s l = Ok (i, l')" "covers M l l'" "fits_tables M"
  show "interned l' \<and> rs_str M i = Ok s"
  proof (cases "lw_str_ids l s")
    case (Some j)
    with l have "l' = l" "i = j" by (auto simp: intern_def)
    with Some l show ?thesis by (auto simp: interned_def intro!: covers_strings)
  next
    case None
    with l(2) have i: "i = StrId (word_of_nat (length (lw_strings l)))"
      and l': "l' = l\<lparr>lw_strings := lw_strings l @ [s], lw_str_ids := (lw_str_ids l)(s \<mapsto> i)\<rparr>"
      by (auto simp: intern_def Let_def)
    from l(3,4) l' have "length (lw_strings l) < length (m_strings M)" "length (m_strings M) \<le> 2 ^ 32"
      by (auto simp: covers_def fits_tables_def dest: prefix_length_le)
    then have ix: "str_ix i = length (lw_strings l)" using fits_id by (simp add: i)
    then have get: "vec_get (lw_strings l') (str_ix i) = Some s" by (simp add: l' vec_get_def)
    have "vec_get (lw_strings l') n = Some t" if "vec_get (lw_strings l) n = Some t" for n t
      by (rule vec_get_prefix [OF _ that]) (simp add: l')
    then have "interned l'" using l(1) get by (simp add: interned_def l' del: vec_get_eq_Some)
    with covers_strings [OF l(3,4) get] show ?thesis by simp
  qed
qed

lemma spec_interns: "lw_spec (lw_seq (map intern ss)) (\<lambda>k M is. rs_strs M is = Ok ss)"
proof (rule lw_spec_weaken [OF lw_spec_seq [OF spec_intern]])
  fix M and "is" :: "str_id list"
  assume "list_all2 (\<lambda>s i. rs_str M i = Ok s) ss is"
  then show "rs_strs M is = Ok ss" by (induction rule: list_all2_induct) (simp_all add: rs_strs_def)
qed

lemma spec_types: "(\<And>k M i. P k M i) \<Longrightarrow> lw_spec (add_type t) P"
  by (rule lw_specI) (auto simp: add_type_def interned_def grows_def split: option.splits)

lemma spec_intern_type: "lw_spec (intern_type t) (\<lambda>k M i. True)"
proof (induction t)
  case (TyTuple ts)
  then show ?case by (auto intro!: lw_spec_bind spec_types lw_spec_seq [where P = "\<lambda>k M x y. True"])
next
  case (TyUnion ts)
  then show ?case by (auto intro!: lw_spec_bind spec_types lw_spec_seq [where P = "\<lambda>k M x y. True"])
next
  case (TyFunc ts t)
  then show ?case by (auto intro!: lw_spec_bind spec_types lw_spec_seq [where P = "\<lambda>k M x y. True"])
next
  case (TyStruct n ts)
  then show ?case by (auto intro!: lw_spec_bind spec_types spec_intern lw_spec_seq [where P = "\<lambda>k M x y. True"])
next
  case (TyEnum n ts)
  then show ?case by (auto intro!: lw_spec_bind spec_types spec_intern lw_spec_seq [where P = "\<lambda>k M x y. True"])
qed (auto intro!: lw_spec_bind spec_types spec_intern)

section \<open>Constants and patterns\<close>

lemma const_eq_plain: "const_eq a b \<Longrightarrow> a \<noteq> CFloat neg_zero \<Longrightarrow> b \<noteq> CFloat neg_zero \<Longrightarrow> a = b"
  by (cases "(a, b)" rule: const_eq.cases) (auto dest: f64_eq_cases)

definition const_at :: "module_ \<Rightarrow> const_id \<Rightarrow> const option" where
  "const_at M i = vec_get (m_consts M) (const_ix i)"

lemma spec_intern_const:
  assumes c: "c \<noteq> CFloat neg_zero"
  shows "lw_spec (intern_const c) (\<lambda>k M i. const_at M i = Some c)"
proof (rule lw_specI)
  fix l i l' assume "intern_const c l = Ok (i, l')"
  then show "grows l l'" by (auto simp: intern_const_def grows_def split: option.splits)
next
  fix l i l' M and k :: nat
  assume l: "interned l" "intern_const c l = Ok (i, l')" "covers M l l'" "fits_tables M"
  then have M: "prefix (lw_consts l') (m_consts M)" "length (m_consts M) \<le> 2 ^ 32" by (auto simp: covers_def fits_tables_def)
  show "interned l' \<and> const_at M i = Some c"
  proof (cases "position (\<lambda>e. const_eq e c) (lw_consts l)")
    case (Some j)
    with l(2) have i: "i = ConstId (word_of_nat j)" and [simp]: "l' = l" by (auto simp: intern_const_def)
    from position_SomeD [OF Some] have j: "j < length (lw_consts l)" "const_eq (lw_consts l ! j) c" by auto
    with l(1) c have "lw_consts l ! j = c" by (auto simp: interned_def dest!: const_eq_plain dest: nth_mem)
    moreover have "j < 2 ^ 32" using j(1) M by (auto dest: prefix_length_le)
    ultimately show ?thesis using j(1) l(1) vec_get_prefix [OF M(1), of j c] by (simp add: const_at_def i)
  next
    case None
    with l(2) have i: "i = ConstId (word_of_nat (length (lw_consts l)))"
      and l': "l' = l\<lparr>lw_consts := lw_consts l @ [c]\<rparr>" by (auto simp: intern_const_def)
    from M l' have "length (lw_consts l) < 2 ^ 32" by (auto dest: prefix_length_le)
    then have "vec_get (m_consts M) (const_ix i) = Some c"
      by (intro vec_get_prefix [OF M(1)]) (simp add: i l')
    then show ?thesis using l(1) c unfolding const_at_def by (auto simp: interned_def l' simp del: vec_get_eq_Some)
  qed
qed

lemma raise_const_leaf:
  assumes "const_at M i = Some c" "\<And>rec s. raise_const_node M rec c s = Ok (v, s)"
  shows "raise_const M i = Ok v"
  using assms by (simp add: raise_const_def const_at_def del: vec_get_eq_Some)

lemma spec_lower_value:
  assumes "plain_value v"
  shows "lw_spec (lower_value v) (\<lambda>k M i. const_at M i \<noteq> None \<and> raise_const M i = Ok v)"
proof (cases v)
  case (VStr s)
  have "lw_spec (intern s) (\<lambda>k M i. rs_str M i = Ok s)" by (rule spec_intern)
  then show ?thesis unfolding VStr lower_value.simps
    by (rule lw_spec_bind)
      (auto intro!: lw_spec_weaken [OF spec_intern_const] raise_const_leaf simp: raise_const_node_def)
qed (use assms in \<open>auto intro!: lw_spec_weaken [OF spec_intern_const] raise_const_leaf simp: raise_const_node_def\<close>)

lemma spec_unit_const: "lw_spec unit_const (\<lambda>k M i. const_at M i \<noteq> None \<and> raise_const M i = Ok VUnit)"
  using spec_lower_value [of VUnit] by (simp add: unit_const_def)

lemma spec_lower_lit:
  assumes "v \<noteq> LFloat neg_zero"
  shows "lw_spec (lower_lit v) (\<lambda>k M i. const_lit M i = Ok v)"
proof (cases v)
  case (LStr s)
  then show ?thesis
    by (auto intro!: lw_spec_bind [OF spec_intern] lw_spec_weaken [OF spec_intern_const]
        simp: const_lit_def const_at_def simp del: vec_get_eq_Some)
qed (use assms in \<open>auto intro!: lw_spec_weaken [OF spec_intern_const]
      simp: const_lit_def const_at_def int_const_def simp del: vec_get_eq_Some\<close>)

lemma res_list_all2:
  "list_all2 (\<lambda>x r. r = Ok (f x)) xs rs \<Longrightarrow> res_list rs = Ok (map f xs)"
  by (induction rule: list_all2_induct) simp_all

lemma spec_lower_patterns:
  assumes "\<And>p. p \<in> set ps \<Longrightarrow> lw_spec (lower_pattern p) (\<lambda>k M q. raise_pattern M q = Ok (erase_pattern p))"
  shows "lw_spec (lw_seq (map lower_pattern ps)) (\<lambda>k M qs. res_list (map (raise_pattern M) qs) = Ok (map erase_pattern ps))"
proof (rule lw_spec_weaken [OF lw_spec_seq [where P = "\<lambda>k M p q. raise_pattern M q = Ok (erase_pattern p)"]])
  fix M qs
  assume "list_all2 (\<lambda>p q. raise_pattern M q = Ok (erase_pattern p)) ps qs"
  then show "res_list (map (raise_pattern M) qs) = Ok (map erase_pattern ps)"
    by (induction rule: list_all2_induct) simp_all
qed (rule assms)

lemma spec_lower_pattern:
  "plain_pattern p \<Longrightarrow> lw_spec (lower_pattern p) (\<lambda>k M q. raise_pattern M q = Ok (erase_pattern p))"
proof (induction p)
  case (APVariant n arg s)
  then show ?case
    by (cases arg) (auto intro!: lw_spec_bind [OF spec_intern] lw_spec_return intro: lw_spec_bind)
next
  case (APTuple ps s)
  have * : "lw_spec (lw_seq (map lower_pattern ps)) (\<lambda>k M qs. res_list (map (raise_pattern M) qs) = Ok (map erase_pattern ps))"
    using APTuple by (intro spec_lower_patterns) (auto simp: list_all_iff)
  show ?case by (auto intro!: lw_spec_bind [OF *] lw_spec_return)
next
  case (APOr ps s)
  have * : "lw_spec (lw_seq (map lower_pattern ps)) (\<lambda>k M qs. res_list (map (raise_pattern M) qs) = Ok (map erase_pattern ps))"
    using APOr by (intro spec_lower_patterns) (auto simp: list_all_iff)
  show ?case by (auto intro!: lw_spec_bind [OF *] lw_spec_return)
next
  case (APLiteral v s)
  then show ?case by (auto intro!: lw_spec_bind [OF spec_lower_lit] lw_spec_return)
qed (auto intro!: lw_spec_bind [OF spec_intern] lw_spec_return)

lemma spec_lower_home: "lw_spec (lower_home h) (\<lambda>k M (slot, var). raise_home M slot var = Ok h)"
  by (cases h) (auto intro!: lw_spec_bind [OF spec_intern] lw_spec_return simp: raise_home_def)

section \<open>Instructions\<close>

text \<open>
  An instruction of the module represents a resolved one: raising it succeeds, and with its constant
  put in and its chunks resolved it is that instruction. Raising may be inside functions with ids
  below \<open>k\<close>, and has fuel for the others.
\<close>

definition room :: "nat \<Rightarrow> module_ \<Rightarrow> nat \<Rightarrow> func_id list \<Rightarrow> bool" where
  "room k M n seen \<longleftrightarrow> (\<forall>i \<in> set seen. func_ix i < k) \<and> length (m_funcs M) \<le> n + k"

definition const_value :: "module_ \<Rightarrow> op \<Rightarrow> rt_value" where
  "const_value M i = (case op_const i of
       None \<Rightarrow> VUnit
     | Some c \<Rightarrow> (case raise_const M c of Inr v \<Rightarrow> v | Inl _ \<Rightarrow> VUnit))"

definition has_const :: "module_ \<Rightarrow> op \<Rightarrow> bool" where
  "has_const M i \<longleftrightarrow> (\<forall>c. op_const i = Some c \<longrightarrow> const_at M c \<noteq> None \<and> (\<exists>v. raise_const M c = Ok v))"

definition rep :: "nat \<Rightarrow> module_ \<Rightarrow> op \<Rightarrow> (rt_value, rchunk) vm_op \<Rightarrow> bool" where
  "rep k M i r \<longleftrightarrow> has_const M i \<and>
     (\<forall>n seen. room k M n seen \<longrightarrow> (\<exists>v. raise_op M (raise_func n M seen) i = Ok v \<and>
        map_vm_op (\<lambda>_. const_value M i) resolve_chunk v = r))"

lemma rep_core:
  "(\<And>rec. raise_op M rec i = Ok (VCore c)) \<Longrightarrow> op_const i = None \<Longrightarrow> rep k M i (VCore c)"
  by (simp add: rep_def has_const_def)

lemma rep_push_const:
  "const_at M c \<noteq> None \<Longrightarrow> raise_const M c = Ok v \<Longrightarrow> rep k M (PushConst c) (VPushConst v)"
  by (simp add: rep_def has_const_def const_value_def op_const_def)

lemma rep_slot_cmp_const:
  "const_at M c \<noteq> None \<Longrightarrow> raise_const M c = Ok v \<Longrightarrow> rep k M (SlotCmpConst a c b) (VSlotCmpConst a v b)"
  by (simp add: rep_def has_const_def const_value_def op_const_def)

named_theorems spec_intros \<open>rules that take the specification of an expansion apart\<close>

lemma spec_emit [spec_intros]: "(\<And>k M. P k M [i]) \<Longrightarrow> lw_spec (emit i) P"
  by (rule lw_spec_return)

lemma spec_with_str [spec_intros]:
  "(\<And>i. lw_spec (f i) (\<lambda>k M y. rs_str M i = Ok s \<longrightarrow> P k M y)) \<Longrightarrow> lw_spec (with_str s f) P"
  by (rule lw_spec_bind [OF spec_intern])

lemma spec_with_strs [spec_intros]:
  "(\<And>is. lw_spec (f is) (\<lambda>k M y. rs_strs M is = Ok ss \<longrightarrow> P k M y)) \<Longrightarrow> lw_spec (with_strs ss f) P"
  by (rule lw_spec_bind [OF spec_interns])

lemma spec_with_home [spec_intros]:
  "(\<And>slot var. lw_spec (f slot var) (\<lambda>k M y. raise_home M slot var = Ok h \<longrightarrow> P k M y)) \<Longrightarrow>
     lw_spec (with_home h f) P"
  by (rule lw_spec_bind [OF spec_lower_home]) auto

lemma spec_with_unit [spec_intros]:
  "(\<And>u. lw_spec (f u) (\<lambda>k M y. const_at M u \<noteq> None \<and> raise_const M u = Ok VUnit \<longrightarrow> P k M y)) \<Longrightarrow>
     lw_spec (lw_bind unit_const f) P"
  by (rule lw_spec_bind [OF spec_unit_const])

lemma spec_with_pattern:
  "plain_pattern p \<Longrightarrow> (\<And>q. lw_spec (f q) (\<lambda>k M y. raise_pattern M q = Ok (erase_pattern p) \<longrightarrow> P k M y)) \<Longrightarrow>
     lw_spec (lw_bind (lower_pattern p) f) P"
  by (rule lw_spec_bind [OF spec_lower_pattern])

lemma spec_tagged:
  "lw_spec (lw_seq (map (\<lambda>(v, a). with_str v (\<lambda>j. lw_return (j, a))) ns))
     (\<lambda>k M vs. res_list (map (\<lambda>(v, a). res_bind (rs_str M v) (\<lambda>n. Ok (n, a))) vs) = Ok ns)"
proof (rule lw_spec_weaken [OF lw_spec_seq [where P = "\<lambda>k M p q. rs_str M (fst q) = Ok (fst p) \<and> snd q = snd p"]])
  fix x show "lw_spec (case x of (v, a) \<Rightarrow> with_str v (\<lambda>j. lw_return (j, a)))
      (\<lambda>k M y. rs_str M (fst y) = Ok (fst x) \<and> snd y = snd x)"
    by (cases x) (auto intro!: spec_with_str lw_spec_return)
next
  fix M ys
  assume "list_all2 (\<lambda>p q. rs_str M (fst q) = Ok (fst p) \<and> snd q = snd p) ns ys"
  then show "res_list (map (\<lambda>(v, a). res_bind (rs_str M v) (\<lambda>n. Ok (n, a))) ys) = Ok ns"
    by (induction rule: list_all2_induct) (auto simp: case_prod_beta)
qed

lemma spec_variants [spec_intros]:
  "(\<And>vs. lw_spec (f vs) (\<lambda>k M y.
     res_list (map (\<lambda>(v, a). res_bind (rs_str M v) (\<lambda>n. Ok (n, a))) vs) = Ok ns \<longrightarrow> P k M y)) \<Longrightarrow>
   lw_spec (lw_bind (lw_seq (map (\<lambda>(v, a). with_str v (\<lambda>j. lw_return (j, a))) ns)) f) P"
  by (rule lw_spec_bind [OF spec_tagged])

lemma lw_bind_return [simp]: "lw_bind (lw_return x) f = f x"
  by (simp add: lw_bind_def lw_return_def)

lemma lw_bind_assoc [simp]: "lw_bind (lw_bind m f) g = lw_bind m (\<lambda>x. lw_bind (f x) g)"
proof
  show "lw_bind (lw_bind m f) g l = lw_bind m (\<lambda>x. lw_bind (f x) g) l" for l
    by (cases "m l") (auto simp: lw_bind_def)
qed

lemma spec_vec_push:
  "lw_spec (expand_vec_push h) (\<lambda>k M ops. list_all2 (rep k M) ops
     (take_from h @ [VCore VSwap, VCore (VArrayPush no_span), VCore (store_home h)]))"
  by (cases h) (auto simp: expand_vec_push_def take_from_def load_home_def store_home_def op_const_def
      intro!: spec_with_str spec_with_unit lw_spec_return rep_core rep_push_const)

lemma u32_target: "t < 2 ^ 32 \<Longrightarrow> unat (word_of_nat t :: u32) = t"
  by simp

lemmas desugar_simps = desugar_core_def erase_core_def plain_core_def core_targets_def core_patterns_def op_const_def

lemma spec_expand_core:
  assumes "plain_core c"
  shows "lw_spec (expand_core c) (\<lambda>k M ops. list_all2 (rep k M) ops (desugar_core c))"
proof (cases c)
  case (VVecPush h s)
  then show ?thesis using spec_vec_push by (simp add: desugar_core_def)
next
  case (VTakeSlot s)
  then show ?thesis
    by (auto simp: desugar_core_def take_from_def load_home_def store_home_def op_const_def
        intro!: spec_with_unit lw_spec_return rep_core rep_push_const)
qed (use assms in \<open>auto simp: desugar_simps intro!: spec_intros spec_with_pattern rep_core\<close>)

section \<open>Retargeting\<close>

lemma map_retarget: "map_vm_op f g (retarget h v) = retarget h (map_vm_op f g v)"
  by (cases v) (simp_all add: retarget_def)

lemma remap_target_Ok:
  "remap_target msg base t = Ok t' \<Longrightarrow> map unat base = offs \<Longrightarrow> unat t' = offs ! unat t"
  by (auto simp: remap_target_def split: option.splits)

lemma raise_op_remap:
  assumes "raise_op M rec i = Ok v" "remap_op base i = Ok i'" "map unat base = offs"
  shows "raise_op M rec i' = Ok (retarget (\<lambda>t. offs ! t) v) \<and> op_const i' = op_const i"
  using assms remap_target_Ok [OF _ assms(3)]
  by (cases i) (auto simp: remap_op_def remap1_def remap_header_def retarget_def retarget_core_def op_const_def
      raise_closure_def)

lemma rep_remap:
  assumes "rep k M i r" "remap_op base i = Ok i'" "map unat base = offs"
  shows "rep k M i' (retarget (\<lambda>t. offs ! t) r)"
proof -
  have "room k M (length (m_funcs M)) []" by (simp add: room_def)
  then obtain v where "raise_op M (raise_func (length (m_funcs M)) M []) i = Ok v"
    using assms(1) unfolding rep_def by blast
  from raise_op_remap [OF this assms(2,3)] have c: "op_const i' = op_const i" by blast
  then have [simp]: "has_const M i' = has_const M i" "const_value M i' = const_value M i"
    by (simp_all add: has_const_def const_value_def)
  show ?thesis
    using assms(1) raise_op_remap [OF _ assms(2,3)] unfolding rep_def by (fastforce simp: map_retarget)
qed

lemma remap_all:
  assumes "res_list (map (remap_op base) is) = Ok code" "list_all2 (rep k M) is rs" "map unat base = offs"
  shows "list_all2 (rep k M) code (map (retarget (\<lambda>t. offs ! t)) rs)"
  using assms(2,1) by (induction arbitrary: code rule: list_all2_induct) (auto intro: rep_remap [OF _ _ assms(3)])

lemma bases_offsets:
  assumes "list_all2 (\<lambda>g h. length g = length h) gs hs" "pc + length (concat gs) < 2 ^ 32"
  shows "map unat (bases (word_of_nat pc) gs) = offsets pc hs"
  using assms
proof (induction arbitrary: pc rule: list_all2_induct)
  case (Cons g gs h hs)
  have "map unat (bases (word_of_nat (pc + length g)) gs) = offsets (pc + length h) hs"
    using Cons.prems Cons.hyps by (subst Cons.IH) simp_all
  with Cons.prems show ?case by simp
qed simp

lemma flat_spans_lengths:
  "list_all2 (\<lambda>g h. length g = length h) gs hs \<Longrightarrow> flat_spans spans pc gs = flat_spans spans pc hs"
  by (induction arbitrary: pc rule: list_all2_induct) simp_all

section \<open>Constant pools\<close>

lemma pool_order_Ok:
  assumes "\<forall>i \<in> set code. has_const M i"
  shows "\<exists>order. pool_order M code acc = Ok order \<and> (distinct acc \<longrightarrow> distinct order) \<and>
    set order = set acc \<union> {c. \<exists>i \<in> set code. op_const i = Some c}"
  using assms
proof (induction code arbitrary: acc)
  case (Cons i code)
  show ?case
  proof (cases "op_const i")
    case None
    with Cons.IH [of acc] Cons.prems show ?thesis by auto
  next
    case (Some c)
    from Some Cons.prems have "const_ix c < length (m_consts M)" by (auto simp: has_const_def const_at_def)
    with Some Cons.IH [of acc] Cons.IH [of "acc @ [c]"] Cons.prems show ?thesis by auto
  qed
qed simp

lemma no_const_op: "raise_op M rec i = Ok v \<Longrightarrow> op_const i = None \<Longrightarrow> set1_vm_op v = {}"
  by (cases i) (auto simp: op_const_def raise_closure_def)

lemma res_list_Ok_map: "(\<And>x. x \<in> set xs \<Longrightarrow> f x = Ok (g x)) \<Longrightarrow> res_list (map f xs) = Ok (map g xs)"
  by (induction xs) simp_all

lemma position_mem: "c \<in> set xs \<Longrightarrow> \<exists>j. position (\<lambda>x. x = c) xs = Some j \<and> j < length xs \<and> xs ! j = c"
proof (induction xs)
  case (Cons x xs)
  show ?case
  proof (cases "x = c")
    case False
    with Cons obtain j where "position (\<lambda>x. x = c) xs = Some j" "j < length xs" "xs ! j = c" by auto
    with False show ?thesis by (intro exI [of _ "Suc j"]) simp
  qed simp
qed simp

lemma pool_size:
  assumes "distinct order" "\<forall>c \<in> set order. const_at M c \<noteq> None" "fits_tables M"
  shows "length order \<le> 2 ^ 32"
proof -
  have "inj_on const_ix (set order)" by (rule inj_onI) (simp add: word_unat_eq_iff [symmetric] const_id.expand)
  then have "length order = card (const_ix ` set order)" using assms(1) by (simp add: card_image distinct_card)
  also have "\<dots> \<le> card {..<length (m_consts M)}"
    using assms(2) by (intro card_mono) (auto simp: const_at_def)
  also have "\<dots> \<le> 2 ^ 32" using assms(3) by (simp add: fits_tables_def)
  finally show ?thesis .
qed

lemma raise_in_pool_rep:
  assumes rep: "rep k M i r" and room: "room k M n seen" and small: "length order \<le> 2 ^ 32"
    and pool: "\<And>c. op_const i = Some c \<Longrightarrow> c \<in> set order" "\<And>c. c \<in> set order \<Longrightarrow> raise_const M c = Ok (g c)"
  shows "\<exists>v. raise_in_pool M (raise_func n M seen) order i = Ok v \<and>
    map_vm_op (pool_value (map g order)) resolve_chunk v = r"
proof -
  from rep room obtain v where v: "raise_op M (raise_func n M seen) i = Ok v"
    "map_vm_op (\<lambda>_. const_value M i) resolve_chunk v = r" unfolding rep_def by blast
  show ?thesis
  proof (cases "op_const i")
    case None
    with no_const_op [OF v(1)] have "map_vm_op (pool_value (map g order)) resolve_chunk v = r"
      unfolding v(2) [symmetric] by (intro vm_op.map_cong) auto
    with None v(1) show ?thesis by (simp add: raise_in_pool_def)
  next
    case (Some c)
    from position_mem [OF pool(1) [OF Some]] obtain j where j: "position (\<lambda>x. x = c) order = Some j"
      "j < length order" "order ! j = c" by blast
    have "pool_value (map g order) (word_of_nat j) = const_value M i"
      using j small pool(2) [of c] by (auto simp: pool_value_def vec_get_def const_value_def Some)
    with Some v j show ?thesis
      by (cases i) (auto simp: raise_in_pool_def op_const_def reindex_def)
  qed
qed

lemma raise_code:
  assumes "list_all2 (rep k M) is rs" "room k M n seen" "length order \<le> 2 ^ 32"
    "\<And>i c. i \<in> set is \<Longrightarrow> op_const i = Some c \<Longrightarrow> c \<in> set order"
    "\<And>c. c \<in> set order \<Longrightarrow> raise_const M c = Ok (g c)"
  shows "\<exists>vs. res_list (map (raise_in_pool M (raise_func n M seen) order) is) = Ok vs \<and>
    map (map_vm_op (pool_value (map g order)) resolve_chunk) vs = rs"
  using assms(1,4)
proof (induction rule: list_all2_induct)
  case (Cons i "is" r rs)
  from raise_in_pool_rep [OF Cons.hyps(1) assms(2,3) _ assms(5)] Cons.prems
  obtain v where "raise_in_pool M (raise_func n M seen) order i = Ok v"
    "map_vm_op (pool_value (map g order)) resolve_chunk v = r" by auto
  moreover from Cons obtain vs where "res_list (map (raise_in_pool M (raise_func n M seen) order) is) = Ok vs"
    "map (map_vm_op (pool_value (map g order)) resolve_chunk) vs = rs" by auto
  ultimately show ?case by auto
qed simp

lemma rep_has_const: "list_all2 (rep k M) is rs \<Longrightarrow> \<forall>i \<in> set is. has_const M i"
  by (auto simp: list_all2_conv_all_nth in_set_conv_nth rep_def)

definition param_names :: "module_ \<Rightarrow> param list \<Rightarrow> rstring list \<Rightarrow> bool" where
  "param_names M ps ns \<longleftrightarrow> list_all2 (\<lambda>p n. rs_str M (param_name p) = Ok n) ps ns"

lemma res_list_params:
  "param_names M ps ns \<Longrightarrow>
     res_list (map (\<lambda>p. res_bind (rs_str M (param_name p)) (\<lambda>n. Ok (VmParam n None))) ps) =
       Ok (map (\<lambda>n. VmParam n (None :: vm_chunk option)) ns)"
  unfolding param_names_def by (induction rule: list_all2_induct) simp_all

lemma raise_body_rep:
  assumes code: "list_all2 (rep k M) (fd_code f) rs" and room: "room k M n seen" and "fits_tables M"
    and params: "param_names M (fd_params f) ns"
    and slots: "res_list (map (\<lambda>(n, s). res_bind (rs_str M n) (\<lambda>name. Ok (name, s))) (fd_toplevel_slots f)) = Ok slots"
  shows "\<exists>c. raise_body M (raise_func n M seen) f = Ok c \<and> resolve_chunk c = RChunk rs (fd_spans f) ns slots"
proof -
  note has = rep_has_const [OF code]
  from pool_order_Ok [OF has, of "[]"] obtain order where order: "pool_order M (fd_code f) [] = Ok order"
    "distinct order" "set order = {c. \<exists>i \<in> set (fd_code f). op_const i = Some c}" by auto
  define g where "g c = (case raise_const M c of Inr v \<Rightarrow> v | Inl _ \<Rightarrow> VUnit)" for c
  have g: "raise_const M c = Ok (g c)" "const_at M c \<noteq> None" if "c \<in> set order" for c
    using that has unfolding order(3) has_const_def g_def by fastforce+
  have small: "length order \<le> 2 ^ 32" using pool_size [OF order(2) _ assms(3)] g(2) by blast
  from raise_code [OF code room small _ g(1)] order(3) obtain vs where
    vs: "res_list (map (raise_in_pool M (raise_func n M seen) order) (fd_code f)) = Ok vs"
    "map (map_vm_op (pool_value (map g order)) resolve_chunk) vs = rs" by auto
  have "res_list (map (raise_const M) order) = Ok (map g order)" using g(1) by (rule res_list_Ok_map)
  with order(1) vs res_list_params [OF params] slots show ?thesis
    by (simp add: raise_body_def comp_def)
qed

end
