(* ===== verification/Lower_Raise.thy ===== *)
theory Lower_Raise
  imports Lower_Spec
begin

text \<open>
  Raising undoes lowering: the lifting of nested chunks into the function table, and the round trip
  of a whole module. A function record is reserved when its body is lifted and completed by the
  instruction that creates the function; in between it is open.
\<close>

section \<open>Functions being filled in\<close>

text \<open>While the record with index \<open>b\<close> is open, its parameters, signature and locals may still change.\<close>

definition same_body :: "func_def \<Rightarrow> func_def \<Rightarrow> bool" where
  "same_body f g \<longleftrightarrow> fd_name f = fd_name g \<and> fd_code f = fd_code g \<and> fd_spans f = fd_spans g \<and>
     fd_toplevel_slots f = fd_toplevel_slots g"

definition grows_open :: "nat \<Rightarrow> lowerer \<Rightarrow> lowerer \<Rightarrow> bool" where
  "grows_open b l l' \<longleftrightarrow> prefix (lw_strings l) (lw_strings l') \<and> prefix (lw_consts l) (lw_consts l') \<and>
     length (lw_funcs l) \<le> length (lw_funcs l') \<and>
     (\<forall>i < length (lw_funcs l). (if i = b then same_body (lw_funcs l' ! i) (lw_funcs l ! i)
        else lw_funcs l' ! i = lw_funcs l ! i))"

lemma grows_open: "grows l l' \<Longrightarrow> grows_open b l l'"
  using grows_funcs [of l l'] grows_func [of l l'] by (auto simp: grows_open_def grows_def same_body_def)

lemma grows_open_trans: "grows_open b l l' \<Longrightarrow> grows_open b l' l'' \<Longrightarrow> grows_open b l l''"
  unfolding grows_open_def same_body_def
  by (auto intro: prefix_order.order_trans split: if_splits)

lemma update_func_Ok:
  "update_func i f l = Ok (u, l') \<longleftrightarrow> l' = l\<lparr>lw_funcs := (lw_funcs l)[func_ix i := f (lw_funcs l ! func_ix i)]\<rparr>"
  by (auto simp: update_func_def)

lemma update_func_grows:
  assumes "update_func i f l = Ok (u, l')" "\<And>g. same_body (f g) g"
  shows "grows_open (func_ix i) l l'"
  using assms by (auto simp: update_func_Ok grows_open_def nth_list_update)

lemma update_func_good: "update_func i f l = Ok (u, l') \<Longrightarrow> interned l' = interned l"
  by (auto simp: update_func_Ok interned_def)

lemma prefix_nth: "prefix xs ys \<longleftrightarrow> length xs \<le> length ys \<and> (\<forall>i < length xs. ys ! i = xs ! i)"
proof
  assume "length xs \<le> length ys \<and> (\<forall>i < length xs. ys ! i = xs ! i)"
  then have "take (length xs) ys = xs" by (auto intro: nth_equalityI)
  then show "prefix xs ys" by (metis take_is_prefix)
qed (auto simp: prefix_def nth_append)

lemma grows_openD:
  assumes "grows_open b l l'" "length (lw_funcs l0) \<le> b" "grows l0 l"
  shows "grows l0 l'"
proof -
  have "prefix (lw_funcs l0) (lw_funcs l')" using assms unfolding grows_def grows_open_def prefix_nth by auto
  with assms show ?thesis unfolding grows_def grows_open_def by (auto intro: prefix_order.order_trans)
qed

definition covers_open :: "module_ \<Rightarrow> lowerer \<Rightarrow> lowerer \<Rightarrow> bool" where
  "covers_open M l l' \<longleftrightarrow> prefix (lw_strings l') (m_strings M) \<and> prefix (lw_consts l') (m_consts M) \<and>
     length (lw_funcs l') \<le> length (m_funcs M) \<and>
     (\<forall>i. length (lw_funcs l) < i \<and> i < length (lw_funcs l') \<longrightarrow> m_funcs M ! i = lw_funcs l' ! i) \<and>
     same_body (m_funcs M ! length (lw_funcs l)) (lw_funcs l' ! length (lw_funcs l))"

lemma covers_openI:
  assumes "covers M l l''" "grows_open (length (lw_funcs l)) l' l''" "length (lw_funcs l) < length (lw_funcs l')"
  shows "covers_open M l l'"
  using assms unfolding covers_def grows_open_def covers_open_def
  by (auto intro: prefix_order.order_trans)

lemma covers_mid:
  assumes "covers M l l''" "grows_open b l' l''" "length (lw_funcs l) \<le> b" "b < length (lw_funcs l1)"
  shows "covers M l1 l'"
  using assms unfolding covers_def grows_open_def by (auto intro: prefix_order.order_trans)

lemma update_func_count: "update_func i f l = Ok (u, l') \<Longrightarrow> func_count l' = func_count l"
  by (auto simp: update_func_Ok)

section \<open>Nested chunks\<close>

definition raises_to :: "nat \<Rightarrow> module_ \<Rightarrow> func_id \<Rightarrow> rchunk \<Rightarrow> bool" where
  "raises_to k M i r \<longleftrightarrow> (\<forall>n seen. room k M n seen \<longrightarrow> (\<exists>c. raise_func n M seen i = Ok c \<and> resolve_chunk c = r))"

text \<open>
  A translation \<open>h\<close> of a nested chunk is good for \<open>t\<close>: the function it adds can be raised, once the rest
  of its record is filled in, and resolves to \<open>t\<close> of the parameter names found there.
\<close>

definition good_lift :: "lift \<Rightarrow> named_chunk \<Rightarrow> bool" where
  "good_lift h t \<longleftrightarrow> (\<forall>name arity l i l'. h name arity l = Ok (i, l') \<longrightarrow>
     func_count l < func_count l' \<and> i = FuncId (word_of_nat (func_count l)) \<and>
     (func_count l' \<le> 2 ^ 32 \<longrightarrow> grows l l' \<and> fd_params (lw_funcs l' ! func_count l) = []) \<and>
     (\<forall>M. interned l \<longrightarrow> covers_open M l l' \<longrightarrow> fits_tables M \<longrightarrow> interned l' \<and>
        rs_str M (fd_name (m_funcs M ! func_count l)) = Ok name \<and>
        (\<forall>ns. param_names M (fd_params (m_funcs M ! func_count l)) ns \<longrightarrow> raises_to (func_count l) M i (t ns))))"

lemma room_mono: "room k M n seen \<Longrightarrow> k \<le> k' \<Longrightarrow> room k' M n seen"
  by (auto simp: room_def)

lemma raises_to_mono: "raises_to k' M i r \<Longrightarrow> k \<le> k' \<Longrightarrow> raises_to k M i r"
  unfolding raises_to_def using room_mono by blast

lemma good_liftD:
  assumes "good_lift h t" "h name arity l = Ok (i, l')"
  shows "func_count l < func_count l'" "i = FuncId (word_of_nat (func_count l))"
    "func_count l' \<le> 2 ^ 32 \<Longrightarrow> grows l l'" "func_count l' \<le> 2 ^ 32 \<Longrightarrow> fd_params (lw_funcs l' ! func_count l) = []"
    "interned l \<Longrightarrow> covers_open M l l' \<Longrightarrow> fits_tables M \<Longrightarrow> interned l'"
    "interned l \<Longrightarrow> covers_open M l l' \<Longrightarrow> fits_tables M \<Longrightarrow> rs_str M (fd_name (m_funcs M ! func_count l)) = Ok name"
    "interned l \<Longrightarrow> covers_open M l l' \<Longrightarrow> fits_tables M \<Longrightarrow> param_names M (fd_params (m_funcs M ! func_count l)) ns \<Longrightarrow>
       raises_to (func_count l) M i (t ns)"
  using assms unfolding good_lift_def by blast+

lemma good_lift_ix:
  assumes "good_lift h t" "h name arity l = Ok (i, l')" "func_count l' \<le> 2 ^ 32"
  shows "func_ix i = func_count l"
  using good_liftD(1,2) [OF assms(1,2)] assms(3) by simp

lemma good_lift_lt:
  assumes "good_lift h t" "h name arity l = Ok (i, l')"
  shows "func_count l < func_count l'" "func_ix i < func_count l'"
proof -
  show lt: "func_count l < func_count l'" by (rule good_liftD(1) [OF assms])
  have "func_ix i \<le> func_count l" by (simp add: good_liftD(2) [OF assms] unat_of_nat take_bit_nat_less_eq_self)
  with lt show "func_ix i < func_count l'" by simp
qed

text \<open>What the creator of a function knows about it in the finished module.\<close>

definition lifted :: "nat \<Rightarrow> module_ \<Rightarrow> rstring \<Rightarrow> named_chunk \<Rightarrow> func_id \<Rightarrow> bool" where
  "lifted k M name t i \<longleftrightarrow> func_ix i < length (m_funcs M) \<and>
     rs_str M (fd_name (m_funcs M ! func_ix i)) = Ok name \<and>
     (\<forall>ns. param_names M (fd_params (m_funcs M ! func_ix i)) ns \<longrightarrow> raises_to k M i (t ns))"

section \<open>Completing a record\<close>

text \<open>
  Specifications of methods that may fill in the open record \<open>b\<close>; they relate its parameters before
  and after.
\<close>

definition lw_open :: "nat \<Rightarrow> 'a lw \<Rightarrow> (nat \<Rightarrow> module_ \<Rightarrow> param list \<Rightarrow> 'a \<Rightarrow> param list \<Rightarrow> bool) \<Rightarrow> bool" where
  "lw_open b m P \<longleftrightarrow> (\<forall>l x l'. m l = Ok (x, l') \<longrightarrow> b < func_count l \<longrightarrow>
     func_count l \<le> func_count l' \<and> (func_count l' \<le> 2 ^ 32 \<longrightarrow> grows_open b l l') \<and>
     (\<forall>M k. interned l \<longrightarrow> covers M l l' \<longrightarrow> fits_tables M \<longrightarrow> k \<le> func_count l \<longrightarrow>
        interned l' \<and> P k M (fd_params (lw_funcs l ! b)) x (fd_params (lw_funcs l' ! b))))"

lemma lw_openD:
  assumes "lw_open b m P" "m l = Ok (x, l')" "b < func_count l"
  shows "func_count l \<le> func_count l'" "func_count l' \<le> 2 ^ 32 \<Longrightarrow> grows_open b l l'"
    "interned l \<Longrightarrow> covers M l l' \<Longrightarrow> fits_tables M \<Longrightarrow> k \<le> func_count l \<Longrightarrow>
       interned l' \<and> P k M (fd_params (lw_funcs l ! b)) x (fd_params (lw_funcs l' ! b))"
  using assms unfolding lw_open_def by blast+

lemma lw_open_spec:
  assumes "lw_spec m P" "\<And>k M x ps. P k M x \<Longrightarrow> Q k M ps x ps"
  shows "lw_open b m Q"
  unfolding lw_open_def
proof (intro allI impI conjI)
  fix l x l' assume m: "m l = Ok (x, l')" and b: "b < func_count l"
  show "func_count l \<le> func_count l'" by (rule lw_specD(1) [OF assms(1) m])
  show "grows_open b l l'" if "func_count l' \<le> 2 ^ 32"
    by (rule grows_open, rule lw_specD(2) [OF assms(1) m that])
  fix M k assume c: "interned l" "covers M l l'" "fits_tables M" "k \<le> func_count l"
  note g = lw_specD(2) [OF assms(1) m covers_count [OF c(2,3)]]
  show "interned l'" "Q k M (fd_params (lw_funcs l ! b)) x (fd_params (lw_funcs l' ! b))"
    using lw_specD(3) [OF assms(1) m c] assms(2) grows_func [OF g b] by auto
qed

lemma lw_open_return: "(\<And>k M ps. Q k M ps x ps) \<Longrightarrow> lw_open b (lw_return x) Q"
  by (rule lw_open_spec [OF lw_spec_return [where P = "\<lambda>k M y. y = x"]]) simp_all

lemma lw_open_update:
  assumes "\<And>g. same_body (f g) g" "\<And>k M g. Q k M (fd_params g) () (fd_params (f g))"
  shows "lw_open (func_ix i) (update_func i f) Q"
  using update_func_grows [OF _ assms(1)] update_func_good update_func_count assms(2)
  unfolding lw_open_def by (auto simp: update_func_Ok)

lemma lw_open_bind:
  assumes m: "lw_open b m P" and f: "\<And>x ps. lw_open b (f x) (\<lambda>k M ps' y ps''. P k M ps x ps' \<longrightarrow> Q k M ps y ps'')"
  shows "lw_open b (lw_bind m f) Q"
  unfolding lw_open_def
proof (intro allI impI)
  fix l y l'' assume "lw_bind m f l = Ok (y, l'')" and b: "b < func_count l"
  then obtain x l' where x: "m l = Ok (x, l')" and y: "f x l' = Ok (y, l'')" by (auto simp: lw_bind_Ok)
  note le = lw_openD(1) [OF m x b]
  with b have b': "b < func_count l'" by simp
  note le' = lw_openD(1) [OF f y b']
  have g: "grows_open b l l'" "grows_open b l' l''" if "func_count l'' \<le> 2 ^ 32"
    using lw_openD(2) [OF m x b] lw_openD(2) [OF f y b' that] le' that by auto
  have "interned l'' \<and> Q k M (fd_params (lw_funcs l ! b)) y (fd_params (lw_funcs l'' ! b))"
    if c: "interned l" "covers M l l''" "fits_tables M" "k \<le> func_count l" for M k
  proof -
    note o = g [OF covers_count [OF c(2,3)]]
    have "covers M l l'" "covers M l' l''"
      using c(2) o(2) b le unfolding covers_def grows_open_def by (auto intro: prefix_order.order_trans)
    with lw_openD(3) [OF m x b c(1) _ c(3,4)] lw_openD(3) [OF f y b' _ _ c(3), of k] c(4) le show ?thesis by auto
  qed
  with le le' g grows_open_trans show "func_count l \<le> func_count l'' \<and> (func_count l'' \<le> 2 ^ 32 \<longrightarrow> grows_open b l l'') \<and>
      (\<forall>M k. interned l \<longrightarrow> covers M l l'' \<longrightarrow> fits_tables M \<longrightarrow> k \<le> func_count l \<longrightarrow>
        interned l'' \<and> Q k M (fd_params (lw_funcs l ! b)) y (fd_params (lw_funcs l'' ! b)))"
    by (meson order_trans)
qed

text \<open>Lift a chunk, then complete its record.\<close>

lemma spec_lift_open:
  assumes h: "good_lift h t"
    and f: "\<And>i. lw_open (func_ix i) (f i) (\<lambda>k M ps y ps'. lifted k M name t i \<longrightarrow> ps = [] \<longrightarrow>
      fd_params (m_funcs M ! func_ix i) = ps' \<longrightarrow> R k M y)"
  shows "lw_spec (lw_bind (h name arity) f) R"
proof (rule lw_specI_count)
  fix l y l' assume "lw_bind (h name arity) f l = Ok (y, l')"
  then obtain i l1 where x: "h name arity l = Ok (i, l1)" and y: "f i l1 = Ok (y, l')" by (auto simp: lw_bind_Ok)
  note lt = good_lift_lt [OF h x] and le = lw_openD(1) [OF f y lt(2)]
  from lt(1) le show "func_count l \<le> func_count l'" by simp
  assume c: "func_count l' \<le> 2 ^ 32"
  with le have c1: "func_count l1 \<le> 2 ^ 32" by simp
  from lw_openD(2) [OF f y lt(2) c] show "grows l l'"
    by (rule grows_openD) (simp_all add: good_lift_ix [OF h x c1] good_liftD(3) [OF h x c1])
next
  fix l y l' M k
  assume l: "interned l" "covers M l l'" "fits_tables M" "k \<le> func_count l" and "lw_bind (h name arity) f l = Ok (y, l')"
  then obtain i l1 where x: "h name arity l = Ok (i, l1)" and y: "f i l1 = Ok (y, l')" by (auto simp: lw_bind_Ok)
  note lt = good_lift_lt [OF h x] and le = lw_openD(1) [OF f y lt(2)] and c = covers_count [OF l(2,3)]
  from le c have c1: "func_count l1 \<le> 2 ^ 32" by simp
  note ix = good_lift_ix [OF h x c1]
  have o: "grows_open (func_count l) l1 l'" using lw_openD(2) [OF f y lt(2) c] by (simp add: ix)
  note co = covers_openI [OF l(2) o lt(1)]
  have M: "m_funcs M ! func_count l = lw_funcs l' ! func_count l" "func_count l < length (m_funcs M)"
    using l(2) lt(1) le by (auto simp: covers_def)
  have "lifted k M name t i"
    unfolding lifted_def ix using M good_liftD(6,7) [OF h x l(1) co l(3)] raises_to_mono [OF _ l(4)] by blast
  moreover have "covers M l1 l'" using l(2) lt(1) unfolding covers_def by auto
  ultimately show "interned l' \<and> R k M y"
    using lw_openD(3) [OF f y lt(2) good_liftD(5) [OF h x l(1) co l(3)] _ l(3), of k] l(4) lt(1)
      good_liftD(4) [OF h x c1] by (simp add: ix M(1))
qed

section \<open>Default arguments and parameters\<close>

definition default_rep :: "nat \<Rightarrow> module_ \<Rightarrow> func_id option \<Rightarrow> named_chunk option \<Rightarrow> bool" where
  "default_rep k M d t \<longleftrightarrow> rel_option (\<lambda>j c. raises_to k M j (c [])) d t"

lemma spec_default_type:
  "lw_spec (case owner_type owner i of None \<Rightarrow> unknown | Some t \<Rightarrow> intern_type t) (\<lambda>k M j. True)"
  by (auto simp: unknown_def spec_intern_type simp del: intern_type.simps split: option.split)

lemma lifted_bare: "lifted k M name t i \<Longrightarrow> fd_params (m_funcs M ! func_ix i) = [] \<Longrightarrow> raises_to k M i (t [])"
  by (auto simp: lifted_def param_names_def)

lemma spec_lower_default:
  assumes "rel_option good_lift (vp_default p) t"
  shows "lw_spec (lower_default owner i p) (\<lambda>k M d. default_rep k M d t)"
proof (cases "vp_default p")
  case None
  with assms show ?thesis by (auto simp: lower_default_def default_rep_def intro!: lw_spec_return)
next
  case (Some h)
  with assms obtain c where t: "t = Some c" and h: "good_lift h c" by (cases t) auto
  have upd: "lw_open (func_ix j) (update_func j (fd_sig_update u)) (\<lambda>k M ps _ ps'. ps' = ps)" for j u
    by (rule lw_open_update) (simp_all add: same_body_def)
  show ?thesis
    unfolding lower_default_def Some option.case
    by (rule spec_lift_open [OF h], rule lw_open_bind [OF lw_open_spec [OF spec_default_type, where Q = "\<lambda>k M ps _ ps'. ps' = ps"]],
        simp, rule lw_open_bind [OF upd], rule lw_open_return)
      (auto simp: default_rep_def t dest: lifted_bare)
qed


definition good_param :: "lift vm_param \<Rightarrow> named_chunk vm_param \<Rightarrow> bool" where
  "good_param p q \<longleftrightarrow> vp_name p = vp_name q \<and> rel_option good_lift (vp_default p) (vp_default q)"

definition param_rep :: "nat \<Rightarrow> module_ \<Rightarrow> param \<Rightarrow> named_chunk vm_param \<Rightarrow> bool" where
  "param_rep k M p q \<longleftrightarrow> rs_str M (param_name p) = Ok (vp_name q) \<and> default_rep k M (param_default p) (vp_default q)"

lemma spec_lower_params:
  "list_all2 good_param ps ts \<Longrightarrow> lw_spec (lower_params owner i ps) (\<lambda>k M out. list_all2 (param_rep k M) out ts)"
proof (induction arbitrary: i rule: list_all2_induct)
  case (Cons p ps t ts)
  from Cons.hyps(1) have p: "vp_name p = vp_name t" "rel_option good_lift (vp_default p) (vp_default t)"
    by (auto simp: good_param_def)
  show ?case unfolding lower_params.simps
    by (rule lw_spec_bind [OF spec_lower_default [OF p(2)]], rule spec_with_str, rule lw_spec_bind [OF Cons.IH],
        rule lw_spec_return) (simp add: param_rep_def p(1))
qed (simp add: lw_spec_return)

section \<open>Functions and instructions\<close>

lemma spec_lowered_sig: "lw_spec (lowered_sig found arity) (\<lambda>k M s. True)"
proof (cases found)
  case (Some cs)
  have "lw_spec (lw_seq (map (intern_type \<circ> snd) (cs_params cs))) (\<lambda>k M xs. list_all2 (\<lambda>x y. True) (cs_params cs) xs)"
    by (rule lw_spec_seq) (simp add: spec_intern_type)
  then show ?thesis unfolding lowered_sig_def Some option.case
    by (rule lw_spec_bind, intro lw_spec_bind [OF spec_intern_type] lw_spec_return) simp
qed (auto simp: lowered_sig_def unknown_def intro!: lw_spec_bind [OF spec_intern_type] lw_spec_return simp del: intern_type.simps)

lemma open_seal_sig: "lw_open (func_ix i) (seal_sig sigs i name) (\<lambda>k M ps u ps'. ps' = ps)"
proof -
  have "lw_open (func_ix i) (lw_bind (lowered_sig found arity) (\<lambda>sig. update_func i (\<lambda>f.
        f\<lparr>fd_sig := sig, fd_arity := word_of_nat arity, fd_locals := seed_locals (sig_params sig) (fd_locals f)\<rparr>)))
      (\<lambda>k M ps u ps'. ps' = ps)" for found arity
    by (rule lw_open_bind [OF lw_open_spec [OF spec_lowered_sig, where Q = "\<lambda>k M ps _ ps'. ps' = ps"]], simp,
        rule lw_open_update) (simp_all add: same_body_def)
  then show ?thesis unfolding lw_open_def seal_sig_def Let_def by blast
qed

definition closure_rep :: "nat \<Rightarrow> module_ \<Rightarrow> rstring \<Rightarrow> named_chunk \<Rightarrow> named_chunk vm_param list \<Rightarrow> func_id \<Rightarrow> bool" where
  "closure_rep k M name t ts i \<longleftrightarrow> lifted k M name t i \<and>
     list_all2 (param_rep k M) (fd_params (m_funcs M ! func_ix i)) ts"

lemma spec_lift_function:
  assumes "good_lift h t" "list_all2 good_param ps ts"
  shows "lw_spec (lift_function sigs label owner name ps h) (\<lambda>k M i. closure_rep k M label t ts i)"
proof -
  have upd: "lw_open (func_ix i) (update_func i (fd_params_update (\<lambda>_. out))) (\<lambda>k M ps _ ps'. ps' = out)" for i out
    by (rule lw_open_update) (simp_all add: same_body_def)
  show ?thesis unfolding lift_function_def
    by (rule spec_lift_open [OF assms(1)],
        rule lw_open_bind [OF lw_open_spec [OF spec_lower_params [OF assms(2)],
          where Q = "\<lambda>k M ps out ps'. list_all2 (param_rep k M) out ts"]], assumption,
        rule lw_open_bind [OF upd], rule lw_open_bind [OF open_seal_sig], rule lw_open_return)
      (simp add: closure_rep_def)
qed

lemma params_names: "list_all2 (param_rep k M) ps ts \<Longrightarrow> param_names M ps (map vp_name ts)"
  by (auto simp: param_names_def param_rep_def list_all2_map2 elim: list_all2_mono)

lemma raise_default_rep:
  assumes "default_rep k M d t" "room k M n seen"
  shows "\<exists>c. raise_default (raise_func n M seen) d = Ok c \<and> map_option resolve_chunk c = map_option (\<lambda>d. d []) t"
  using assms by (cases d; cases t) (fastforce simp: default_rep_def raise_default_def raises_to_def)+

lemma raise_params_rep:
  assumes "list_all2 (param_rep k M) ps ts" "room k M n seen"
  shows "\<exists>out. res_list (map (raise_closure_param M (raise_func n M seen)) ps) = Ok out \<and>
    map fst out = bare_params ts \<and> map (map_option resolve_chunk) (map snd out) = default_chunks ts"
  using assms(1)
proof (induction rule: list_all2_induct)
  case (Cons p ps t ts)
  from raise_default_rep [OF _ assms(2)] Cons.hyps(1) obtain d where
    "raise_default (raise_func n M seen) (param_default p) = Ok d" "map_option resolve_chunk d = map_option (\<lambda>d. d []) (vp_default t)"
    by (auto simp: param_rep_def)
  with Cons show ?case by (auto simp: raise_closure_param_def param_rep_def bare_params_def default_chunks_def)
qed (simp add: bare_params_def default_chunks_def)

lemma raise_closure_rep:
  assumes "closure_rep k M name t ts i" "room k M n seen"
  shows "\<exists>ps c ds. raise_closure M (raise_func n M seen) i f = Ok (f ps c ds) \<and>
    ps = bare_params ts \<and> resolve_chunk c = t (map vp_name ts) \<and> map (map_option resolve_chunk) ds = default_chunks ts"
proof -
  from assms(1) have i: "lifted k M name t i" and ps: "list_all2 (param_rep k M) (fd_params (m_funcs M ! func_ix i)) ts"
    by (auto simp: closure_rep_def)
  from i params_names [OF ps] have "raises_to k M i (t (map vp_name ts))" by (simp add: lifted_def)
  then obtain c where "raise_func n M seen i = Ok c" "resolve_chunk c = t (map vp_name ts)"
    using assms(2) by (auto simp: raises_to_def)
  moreover from raise_params_rep [OF ps assms(2)] obtain out where
    "res_list (map (raise_closure_param M (raise_func n M seen)) (fd_params (m_funcs M ! func_ix i))) = Ok out"
    "map fst out = bare_params ts" "map (map_option resolve_chunk) (map snd out) = default_chunks ts" by blast
  ultimately show ?thesis
    using i by (intro exI [of _ "bare_params ts"] exI [of _ c] exI [of _ "map snd out"])
      (simp add: raise_closure_def raise_closure_params_def rs_func_def lifted_def vec_get_def)
qed

lemma map_bare_params: "map (map_vm_param f) (bare_params ps) = bare_params ps"
  by (simp add: bare_params_def)

lemma rep_closures:
  assumes "closure_rep k M name t ts i"
  shows "rep k M (MakeFunc i) (VMakeFunc name (bare_params ts) (t (map vp_name ts)) (default_chunks ts))"
    "rep k M (MakeClosure i) (VMakeClosure (bare_params ts) (t (map vp_name ts)) (default_chunks ts))"
    "rep k M (SpawnClosure i) (VSpawnClosure (bare_params ts) (t (map vp_name ts)) no_span (default_chunks ts))"
proof -
  from assms have i: "rs_func M i = Ok (m_funcs M ! func_ix i)" "rs_str M (fd_name (m_funcs M ! func_ix i)) = Ok name"
    by (auto simp: closure_rep_def lifted_def rs_func_def vec_get_def)
  note * = raise_closure_rep [OF assms]
  show "rep k M (MakeFunc i) (VMakeFunc name (bare_params ts) (t (map vp_name ts)) (default_chunks ts))"
    using *[of _ _ "VMakeFunc name"] i by (fastforce simp: rep_def has_const_def op_const_def map_bare_params)
  show "rep k M (MakeClosure i) (VMakeClosure (bare_params ts) (t (map vp_name ts)) (default_chunks ts))"
    using *[of _ _ VMakeClosure] by (fastforce simp: rep_def has_const_def op_const_def map_bare_params)
  show "rep k M (SpawnClosure i) (VSpawnClosure (bare_params ts) (t (map vp_name ts)) no_span (default_chunks ts))"
    using *[of _ _ "\<lambda>params chunk defaults. VSpawnClosure params chunk no_span defaults"]
    by (fastforce simp: rep_def has_const_def op_const_def map_bare_params)
qed


lemma spec_pooled:
  assumes "plain_value (pool_value pool j)"
  shows "lw_spec (pooled what pool j) (\<lambda>k M i. const_at M i \<noteq> None \<and> raise_const M i = Ok (pool_value pool j))"
  using assms spec_lower_value [of "pool_value pool j"]
  by (cases "vec_get pool (unat j)")
    (auto simp: pooled_def pool_value_def lw_spec_fail simp del: vec_get_eq_Some vec_get_eq_None)

definition good_chunks :: "sig_table \<Rightarrow> vm_chunk set \<Rightarrow> bool" where
  "good_chunks sigs C \<longleftrightarrow> (\<forall>c \<in> C. plain_chunk c \<longrightarrow> good_lift (lift_chunk sigs c) (target c))"

lemma good_chunk_params:
  assumes "good_chunks sigs (\<Union>p \<in> set ps. set_vm_param p)" "plain_params (map (map_vm_param plain_chunk) ps)"
  shows "list_all2 good_param (map (map_vm_param (lift_chunk sigs)) ps) (map (map_vm_param target) ps)"
proof -
  have "good_param (map_vm_param (lift_chunk sigs) p) (map_vm_param target p)" if p: "p \<in> set ps" for p
  proof (cases p)
    case (VmParam n d)
    have "rel_option good_lift (map_option (lift_chunk sigs) d) (map_option target d)"
    proof (cases d)
      case (Some c)
      with assms(2) VmParam p have "plain_chunk c" by (auto simp: plain_params_def list_all_iff)
      moreover from Some VmParam p have "c \<in> (\<Union>p \<in> set ps. set_vm_param p)" by force
      ultimately show ?thesis using assms(1) Some by (auto simp: good_chunks_def)
    qed simp
    with VmParam show ?thesis by (simp add: good_param_def)
  qed
  then show ?thesis by (simp add: list_all2_conv_all_nth)
qed

lemma spec_closure:
  assumes "good_chunks sigs (insert c (\<Union>p \<in> set ps. set_vm_param p))" "plain_chunk c"
    "plain_params (map (map_vm_param plain_chunk) ps)"
    "\<And>k M j. closure_rep k M label (target c) (map (map_vm_param target) ps) j \<Longrightarrow> rep k M (f j) r"
  shows "lw_spec (lw_bind (lift_function sigs label owner name (map (map_vm_param (lift_chunk sigs)) ps)
     (lift_chunk sigs c)) (\<lambda>j. emit (f j))) (\<lambda>k M ops. list_all2 (rep k M) ops [r])"
proof -
  have "good_lift (lift_chunk sigs c) (target c)" using assms(1,2) by (simp add: good_chunks_def)
  moreover have "list_all2 good_param (map (map_vm_param (lift_chunk sigs)) ps) (map (map_vm_param target) ps)"
    using assms(1,3) by (intro good_chunk_params) (simp_all add: good_chunks_def)
  ultimately show ?thesis
    by (rule lw_spec_bind [OF spec_lift_function], intro lw_spec_return) (simp add: assms(4))
qed

lemma spec_expand_op:
  assumes "good_chunks sigs (set2_vm_op i)" "plain_op (map_vm_op (pool_value pool) plain_chunk i)"
  shows "lw_spec (expand_op sigs pool (map_vm_op (\<lambda>j. j) (lift_chunk sigs) i))
     (\<lambda>k M ops. list_all2 (rep k M) ops (desugar_op (map_vm_op (pool_value pool) target i)))"
proof (cases i)
  case (VPushConst j)
  with assms(2) show ?thesis
    by (auto simp: expand_op_def desugar_op_def plain_op_def intro!: lw_spec_bind [OF spec_pooled] lw_spec_return rep_push_const)
next
  case (VSlotCmpConst a j b)
  with assms(2) show ?thesis
    by (auto simp: expand_op_def desugar_op_def plain_op_def intro!: lw_spec_bind [OF spec_pooled] lw_spec_return rep_slot_cmp_const)
next
  case (VCore c)
  with assms(2) spec_expand_core show ?thesis by (simp add: expand_op_def desugar_op_def plain_op_def)
next
  case (VMakeFunc n ps c ds)
  show ?thesis unfolding VMakeFunc expand_op_def desugar_op_def vm_op.map vm_op.case
    by (rule spec_closure [OF _ _ _ rep_closures(1)])
      (use assms VMakeFunc in \<open>simp_all add: plain_op_def good_chunks_def\<close>)
next
  case (VMakeClosure ps c ds)
  show ?thesis unfolding VMakeClosure expand_op_def desugar_op_def vm_op.map vm_op.case
    by (rule spec_closure [OF _ _ _ rep_closures(2)])
      (use assms VMakeClosure in \<open>simp_all add: plain_op_def good_chunks_def\<close>)
next
  case (VSpawnClosure ps c s ds)
  show ?thesis unfolding VSpawnClosure expand_op_def desugar_op_def vm_op.map vm_op.case
    by (rule spec_closure [OF _ _ _ rep_closures(3)])
      (use assms VSpawnClosure in \<open>simp_all add: plain_op_def good_chunks_def\<close>)
qed

section \<open>Bodies\<close>

lemma spec_expand_chunk:
  assumes "good_chunks sigs (\<Union>i \<in> set code. set2_vm_op i)"
    "list_all plain_op (map (map_vm_op (pool_value pool) plain_chunk) code)"
  shows "lw_spec (expand_chunk sigs pool (map (map_vm_op (\<lambda>j. j) (lift_chunk sigs)) code))
    (\<lambda>k M gs. list_all2 (list_all2 (rep k M)) gs (map desugar_op (map (map_vm_op (pool_value pool) target) code)))"
proof -
  let ?P = "\<lambda>k M i g. list_all2 (rep k M) g (desugar_op (map_vm_op (pool_value pool) target i))"
  have "lw_spec (lw_seq (map (\<lambda>i. expand_op sigs pool (map_vm_op (\<lambda>j. j) (lift_chunk sigs) i)) code))
      (\<lambda>k M gs. list_all2 (?P k M) code gs)"
    using assms by (intro lw_spec_seq spec_expand_op) (auto simp: good_chunks_def list_all_iff)
  then show ?thesis
    by (auto simp: expand_chunk_def comp_def list_all2_conv_all_nth elim: lw_spec_weaken)
qed

lemma spec_record_locals: "lw_spec (record_locals i rs locals) (\<lambda>k M x. True)"
  by (induction rs arbitrary: i locals)
    (auto intro!: lw_spec_return lw_spec_bind [OF spec_intern_type] split: option.split)

lemma res_list_length: "res_list rs = Ok xs \<Longrightarrow> length xs = length rs"
  by (induction rs arbitrary: xs) auto

lemma remap_and_flatten_rep:
  assumes "remap_and_flatten gs spans = Ok (code, sps)" "list_all2 (list_all2 (rep k M)) gs hs" "length code < 2 ^ 32"
  shows "list_all2 (rep k M) code (map (retarget (\<lambda>t. offsets 0 hs ! t)) (concat hs)) \<and> sps = flat_spans spans 0 hs"
proof -
  from assms(1) have code: "res_list (map (remap_op (bases 0 gs)) (concat gs)) = Ok code" and sps: "sps = flat_spans spans 0 gs"
    by (auto simp: remap_and_flatten_def)
  from assms(2) have len: "list_all2 (\<lambda>g h. length g = length h) gs hs" by (auto elim!: list_all2_mono dest: list_all2_lengthD)
  have "length (concat gs) < 2 ^ 32" using res_list_length [OF code] assms(3) by simp
  then have "map unat (bases 0 gs) = offsets 0 hs" using bases_offsets [OF len, of 0] by simp
  moreover have "list_all2 (rep k M) (concat gs) (concat hs)" using assms(2) by (rule concat_transfer [unfolded rel_fun_def, rule_format])
  ultimately show ?thesis using remap_all [OF code] flat_spans_lengths [OF len] sps by simp
qed

end
