(* ===== verification/Codec_Base.thy ===== *)
theory Codec_Base
  imports Ir_Module
begin

text \<open>
  The byte level of \<open>crates/zz_ir/src/codec.rs\<close>: the \<open>put_*\<close> writers, the bounds-checked
  \<open>Reader\<close>, and the interface every encoder/decoder pair of the format satisfies.

  A writer is the list of bytes the source appends to its \<open>Vec<u8>\<close>. A reader is a function of
  the \<open>Reader\<close> state (the slice and the cursor) that returns an error or a value with the
  advanced state, and \<open>rd_bind\<close> is the source's use of the question-mark operator.
\<close>

section \<open>Little-endian bytes\<close>

text \<open>\<open>to_le_bytes\<close> for an integer of \<open>n\<close> bytes, and \<open>from_le_bytes\<close>.\<close>

primrec le_bytes :: "nat \<Rightarrow> 'a::len word \<Rightarrow> u8 list" where
  "le_bytes 0 w = []"
| "le_bytes (Suc n) w = ucast w # le_bytes n (drop_bit 8 w)"

primrec from_le_bytes :: "u8 list \<Rightarrow> 'a::len word" where
  "from_le_bytes [] = 0"
| "from_le_bytes (b # bs) = or (ucast b) (push_bit 8 (from_le_bytes bs))"

lemma length_le_bytes [simp]: "length (le_bytes n w) = n"
  by (induction n arbitrary: w) simp_all

lemma from_le_bytes_le_bytes:
  "from_le_bytes (le_bytes n (w :: 'a::len word)) = take_bit (8 * n) w"
proof (induction n arbitrary: w)
  case (Suc n)
  show ?case
    by (rule bit_eqI) (auto simp: Suc.IH bit_simps)
qed simp

lemma take_bit_word_id: "LENGTH('a::len) \<le> n \<Longrightarrow> take_bit n (w :: 'a word) = w"
  by (rule bit_eqI) (auto simp: bit_simps dest: bit_imp_le_length)

lemma unat_u32_less: "unat (n :: u32) < 2 ^ 32"
  using unsigned_less [of n] by simp

section \<open>Writers\<close>

definition put_u8 :: "u8 \<Rightarrow> u8 list" where "put_u8 x = [x]"
definition put_u16 :: "u16 \<Rightarrow> u8 list" where "put_u16 x = le_bytes 2 x"
definition put_u32 :: "u32 \<Rightarrow> u8 list" where "put_u32 x = le_bytes 4 x"
definition put_i64 :: "i64 \<Rightarrow> u8 list" where "put_i64 x = le_bytes 8 x"

text \<open>\<open>xs.len() as u32\<close>, which wraps above \<open>u32::MAX\<close>.\<close>

definition put_len :: "'a list \<Rightarrow> u8 list" where
  "put_len xs = put_u32 (word_of_nat (length xs))"

definition put_str :: "rstring \<Rightarrow> u8 list" where
  "put_str s = put_len s @ s"

text \<open>\<open>*b as u8\<close>.\<close>

definition put_bool :: "bool \<Rightarrow> u8 list" where
  "put_bool b = put_u8 (of_bool b)"

text \<open>A length followed by the elements, each written by \<open>put\<close>.\<close>

definition put_vec :: "('a \<Rightarrow> u8 list) \<Rightarrow> 'a list \<Rightarrow> u8 list" where
  "put_vec put xs = put_len xs @ concat (map put xs)"

section \<open>The reader\<close>

record reader =
  rd_bytes :: "u8 list"
  rd_pos :: nat

type_synonym 'a rd = "reader \<Rightarrow> (ir_error, 'a \<times> reader) result"

definition reader_new :: "u8 list \<Rightarrow> reader" where
  "reader_new bs = \<lparr>rd_bytes = bs, rd_pos = 0\<rparr>"

definition rd_return :: "'a \<Rightarrow> 'a rd" where
  "rd_return x r = Inr (x, r)"

definition rd_fail :: "ir_error \<Rightarrow> 'a rd" where
  "rd_fail e r = Inl e"

definition rd_bind :: "'a rd \<Rightarrow> ('a \<Rightarrow> 'b rd) \<Rightarrow> 'b rd" where
  "rd_bind m f r = (case m r of Inl e \<Rightarrow> Inl e | Inr (x, r') \<Rightarrow> f x r')"

definition rd_map :: "('a \<Rightarrow> 'b) \<Rightarrow> 'a rd \<Rightarrow> 'b rd" where
  "rd_map f m = rd_bind m (\<lambda>x. rd_return (f x))"

text \<open>\<open>Reader::err\<close>.\<close>

definition truncated :: "string \<Rightarrow> ir_error" where
  "truncated what = ir_error_new (''truncated .zzc ('' @ what @ '')'')"

text \<open>\<open>self.bytes.get(self.pos..self.pos + n)\<close>, advancing the cursor on success.\<close>

definition rd_take :: "nat \<Rightarrow> string \<Rightarrow> u8 list rd" where
  "rd_take n what r =
     (case slice_get (rd_bytes r) (rd_pos r) (rd_pos r + n) of
        Some w \<Rightarrow> Inr (w, r\<lparr>rd_pos := rd_pos r + n\<rparr>)
      | None \<Rightarrow> Inl (truncated what))"

definition rd_u8 :: "u8 rd" where
  "rd_u8 r =
     (case vec_get (rd_bytes r) (rd_pos r) of
        Some x \<Rightarrow> Inr (x, r\<lparr>rd_pos := rd_pos r + 1\<rparr>)
      | None \<Rightarrow> Inl (truncated ''u8''))"

definition rd_u16 :: "u16 rd" where
  "rd_u16 = rd_map from_le_bytes (rd_take 2 ''u16'')"

definition rd_u32 :: "u32 rd" where
  "rd_u32 = rd_map from_le_bytes (rd_take 4 ''u32'')"

definition rd_i64 :: "i64 rd" where
  "rd_i64 = rd_map from_le_bytes (rd_take 8 ''i64'')"

definition rd_f64 :: "f64 rd" where
  "rd_f64 = rd_map from_le_bytes (rd_take 8 ''f64'')"

text \<open>\<open>for _ in 0..n { out.push(get(r)?) }\<close>.\<close>

primrec rd_repeat :: "nat \<Rightarrow> 'a rd \<Rightarrow> 'a list rd" where
  "rd_repeat 0 get = rd_return []"
| "rd_repeat (Suc n) get = rd_bind get (\<lambda>x. rd_map (\<lambda>xs. x # xs) (rd_repeat n get))"

text \<open>A count, then that many elements; the second form rejects a count above its limit.\<close>

definition rd_vec :: "'a rd \<Rightarrow> 'a list rd" where
  "rd_vec get = rd_bind rd_u32 (\<lambda>n. rd_repeat (unat n) get)"

definition rd_vec_max :: "nat \<Rightarrow> string \<Rightarrow> 'a rd \<Rightarrow> 'a list rd" where
  "rd_vec_max limit what get =
     rd_bind rd_u32 (\<lambda>n.
       if unat n > limit then rd_fail (ir_error_new what) else rd_repeat (unat n) get)"

text \<open>A flag byte: the strict form rejects bytes above 1, the lenient form tests for 1.\<close>

definition rd_flag :: "string \<Rightarrow> bool rd" where
  "rd_flag what =
     rd_bind rd_u8 (\<lambda>b. if b > 1 then rd_fail (ir_error_new what) else rd_return (b = 1))"

definition rd_flag_lax :: "bool rd" where
  "rd_flag_lax = rd_map (\<lambda>b. b = 1) rd_u8"

section \<open>UTF-8\<close>

text \<open>
  \<open>std::str::from_utf8\<close> accepts exactly the well-formed UTF-8 byte sequences of the Unicode
  standard (table 3-7): no overlong forms, no surrogates, nothing above \<open>U+10FFFF\<close>.
\<close>

definition utf8_cont :: "u8 \<Rightarrow> bool" where
  "utf8_cont b \<longleftrightarrow> 0x80 \<le> b \<and> b \<le> 0xBF"

fun utf8_valid :: "u8 list \<Rightarrow> bool" where
  "utf8_valid [] \<longleftrightarrow> True"
| "utf8_valid (b # bs) \<longleftrightarrow>
     (if b \<le> 0x7F then utf8_valid bs
      else if 0xC2 \<le> b \<and> b \<le> 0xDF then
        (case bs of c1 # r \<Rightarrow> utf8_cont c1 \<and> utf8_valid r | _ \<Rightarrow> False)
      else if 0xE0 \<le> b \<and> b \<le> 0xEF then
        (case bs of c1 # c2 # r \<Rightarrow>
             utf8_cont c1 \<and> utf8_cont c2 \<and> (b = 0xE0 \<longrightarrow> 0xA0 \<le> c1) \<and> (b = 0xED \<longrightarrow> c1 \<le> 0x9F)
             \<and> utf8_valid r
         | _ \<Rightarrow> False)
      else if 0xF0 \<le> b \<and> b \<le> 0xF4 then
        (case bs of c1 # c2 # c3 # r \<Rightarrow>
             utf8_cont c1 \<and> utf8_cont c2 \<and> utf8_cont c3
             \<and> (b = 0xF0 \<longrightarrow> 0x90 \<le> c1) \<and> (b = 0xF4 \<longrightarrow> c1 \<le> 0x8F)
             \<and> utf8_valid r
         | _ \<Rightarrow> False)
      else False)"

definition rd_raw_str :: "rstring rd" where
  "rd_raw_str =
     rd_bind rd_u32 (\<lambda>len.
     rd_bind (rd_take (unat len) ''string bytes'') (\<lambda>w.
       if utf8_valid w then rd_return w
       else rd_fail (ir_error_new ''invalid utf-8 in .zzc string'')))"

section \<open>Reading back what was written\<close>

text \<open>The reader positioned between the bytes already consumed and those still to come.\<close>

definition rd_at :: "u8 list \<Rightarrow> u8 list \<Rightarrow> reader" where
  "rd_at pre post = \<lparr>rd_bytes = pre @ post, rd_pos = length pre\<rparr>"

lemma reader_new_at: "reader_new bs = rd_at [] bs"
  by (simp add: reader_new_def rd_at_def)

text \<open>Every value a reader returns satisfies \<open>P\<close>.\<close>

definition rd_ensures :: "'a rd \<Rightarrow> ('a \<Rightarrow> bool) \<Rightarrow> bool" where
  "rd_ensures get P \<longleftrightarrow> (\<forall>r x r'. get r = Inr (x, r') \<longrightarrow> P x)"

text \<open>A reader keeps its slice, moves the cursor forward only, and never past the end.\<close>

definition rd_forward :: "'a rd \<Rightarrow> bool" where
  "rd_forward get \<longleftrightarrow>
     (\<forall>r x r'. get r = Inr (x, r') \<longrightarrow>
        rd_bytes r' = rd_bytes r \<and> rd_pos r \<le> rd_pos r' \<and>
        (rd_pos r \<le> length (rd_bytes r) \<longrightarrow> rd_pos r' \<le> length (rd_bytes r)))"

named_theorems rd_eval \<open>evaluation of readers on written bytes\<close>
named_theorems rd_intros \<open>structural rules for \<open>rd_ensures\<close> and \<open>rd_forward\<close>\<close>

lemma rd_return_eval [rd_eval, simp]: "rd_return x r = Inr (x, r)"
  by (simp add: rd_return_def)

lemma rd_fail_eval [rd_eval, simp]: "rd_fail e r = Inl e"
  by (simp add: rd_fail_def)

lemma rd_bind_eval:
  "m r = Inr (x, r') \<Longrightarrow> rd_bind m f r = f x r'"
  "m r = Inl e \<Longrightarrow> rd_bind m f r = Inl e"
  by (simp_all add: rd_bind_def)

declare rd_bind_def [rd_eval] rd_map_def [rd_eval]

lemma rd_bind_Ok: "rd_bind m f r = Inr (y, r') \<longleftrightarrow> (\<exists>x s. m r = Inr (x, s) \<and> f x s = Inr (y, r'))"
  by (auto simp: rd_bind_def split: sum.splits)

lemma rd_map_eval:
  "m r = Inr (x, r') \<Longrightarrow> rd_map f m r = Inr (f x, r')"
  by (simp add: rd_map_def rd_bind_def)

lemma rd_take_eval: "length w = n \<Longrightarrow> rd_take n what (rd_at pre (w @ post)) = Inr (w, rd_at (pre @ w) post)"
  using slice_get_middle [of pre w post] by (auto simp: rd_take_def rd_at_def)

lemma rd_repeat_put:
  "(\<And>x pre post. x \<in> set xs \<Longrightarrow> get (rd_at pre (put x @ post)) = Inr (x, rd_at (pre @ put x) post)) \<Longrightarrow>
     rd_repeat (length xs) get (rd_at pre (concat (map put xs) @ post)) =
       Inr (xs, rd_at (pre @ concat (map put xs)) post)"
proof (induction xs arbitrary: pre)
  case (Cons x xs)
  from Cons.IH [of "pre @ put x"] Cons.prems show ?case
    by (simp add: rd_bind_eval rd_map_eval)
qed simp

subsection \<open>Postconditions\<close>

lemma rd_ensures_weaken: "rd_ensures get P \<Longrightarrow> (\<And>x. P x \<Longrightarrow> Q x) \<Longrightarrow> rd_ensures get Q"
  unfolding rd_ensures_def by blast

lemma rd_ensures_return [rd_intros]: "P x \<Longrightarrow> rd_ensures (rd_return x) P"
  by (simp add: rd_ensures_def)

lemma rd_ensures_fail [rd_intros]: "rd_ensures (rd_fail e) P"
  by (simp add: rd_ensures_def)

lemma rd_ensures_bind [rd_intros]:
  "rd_ensures m Q \<Longrightarrow> (\<And>x. Q x \<Longrightarrow> rd_ensures (f x) P) \<Longrightarrow> rd_ensures (rd_bind m f) P"
  unfolding rd_ensures_def rd_bind_Ok by blast

lemma rd_ensures_if [rd_intros]:
  "(b \<Longrightarrow> rd_ensures f P) \<Longrightarrow> (\<not> b \<Longrightarrow> rd_ensures g P) \<Longrightarrow> rd_ensures (if b then f else g) P"
  by simp

lemma rd_ensures_map [rd_intros]:
  "rd_ensures m Q \<Longrightarrow> (\<And>x. Q x \<Longrightarrow> P (f x)) \<Longrightarrow> rd_ensures (rd_map f m) P"
  unfolding rd_map_def by (intro rd_intros)

lemma rd_ensures_True: "rd_ensures m (\<lambda>_. True)"
  by (simp add: rd_ensures_def)

lemma rd_ensures_bind_any: "(\<And>x. rd_ensures (f x) P) \<Longrightarrow> rd_ensures (rd_bind m f) P"
  by (rule rd_ensures_bind [OF rd_ensures_True])

lemma rd_ensures_map_any: "(\<And>x. P (f x)) \<Longrightarrow> rd_ensures (rd_map f m) P"
  by (rule rd_ensures_map [OF rd_ensures_True])

lemmas rd_ensures_any = rd_ensures_return rd_ensures_fail rd_ensures_if
  rd_ensures_bind_any rd_ensures_map_any

lemma rd_ensures_repeat:
  "rd_ensures get P \<Longrightarrow> rd_ensures (rd_repeat n get) (\<lambda>xs. length xs = n \<and> list_all P xs)"
proof (induction n)
  case (Suc n)
  from Suc.prems Suc.IH [OF Suc.prems] show ?case
    by (auto intro!: rd_intros)
qed (simp add: rd_ensures_return)

subsection \<open>Forward motion\<close>

lemma rd_forward_return [rd_intros]: "rd_forward (rd_return x)"
  by (simp add: rd_forward_def)

lemma rd_forward_fail [rd_intros]: "rd_forward (rd_fail e)"
  by (simp add: rd_forward_def)

lemma rd_forward_bind [rd_intros]:
  assumes "rd_forward m" "\<And>x. rd_forward (f x)"
  shows "rd_forward (rd_bind m f)"
  unfolding rd_forward_def
proof (intro allI impI)
  fix r y r'
  assume "rd_bind m f r = Inr (y, r')"
  then obtain x s where "m r = Inr (x, s)" "f x s = Inr (y, r')"
    by (auto simp: rd_bind_Ok)
  with assms have "rd_bytes s = rd_bytes r \<and> rd_pos r \<le> rd_pos s \<and>
        (rd_pos r \<le> length (rd_bytes r) \<longrightarrow> rd_pos s \<le> length (rd_bytes r))"
    and "rd_bytes r' = rd_bytes s \<and> rd_pos s \<le> rd_pos r' \<and>
        (rd_pos s \<le> length (rd_bytes s) \<longrightarrow> rd_pos r' \<le> length (rd_bytes s))"
    unfolding rd_forward_def by blast+
  then show "rd_bytes r' = rd_bytes r \<and> rd_pos r \<le> rd_pos r' \<and>
        (rd_pos r \<le> length (rd_bytes r) \<longrightarrow> rd_pos r' \<le> length (rd_bytes r))"
    by auto
qed

lemma rd_forward_if [rd_intros]: "rd_forward f \<Longrightarrow> rd_forward g \<Longrightarrow> rd_forward (if b then f else g)"
  by simp

lemma rd_forward_map [rd_intros]: "rd_forward m \<Longrightarrow> rd_forward (rd_map f m)"
  unfolding rd_map_def by (intro rd_intros)

lemma rd_forward_repeat [rd_intros]: "rd_forward get \<Longrightarrow> rd_forward (rd_repeat n get)"
  by (induction n) (auto intro!: rd_intros)

lemma rd_forward_take [rd_intros]: "rd_forward (rd_take n what)"
  by (auto simp: rd_forward_def rd_take_def dest: slice_get_SomeD split: option.splits)

lemma rd_forward_u8 [rd_intros]: "rd_forward rd_u8"
  by (auto simp: rd_forward_def rd_u8_def split: option.splits)

lemma rd_forward_ints [rd_intros]:
  "rd_forward rd_u16" "rd_forward rd_u32" "rd_forward rd_i64" "rd_forward rd_f64"
  unfolding rd_u16_def rd_u32_def rd_i64_def rd_f64_def by (intro rd_intros)+

lemma rd_forward_vec [rd_intros]:
  "rd_forward get \<Longrightarrow> rd_forward (rd_vec get)"
  "rd_forward get \<Longrightarrow> rd_forward (rd_vec_max limit what get)"
  unfolding rd_vec_def rd_vec_max_def by (intro rd_intros; assumption)+

lemma rd_forward_flag [rd_intros]: "rd_forward (rd_flag what)" "rd_forward rd_flag_lax"
  unfolding rd_flag_def rd_flag_lax_def by (intro rd_intros)+

end
