(* ===== verification/Codec_Interface.thy ===== *)
theory Codec_Interface
  imports Codec_Base
begin

text \<open>
  The contract between a writer and its reader, as a locale, and its instances for the
  primitive fields of the format. \<open>wf x\<close> delimits the values the format can carry: the ones the
  reader gets back unchanged wherever they are written, and the only ones it ever returns.
\<close>

section \<open>The contract\<close>

locale codec =
  fixes put :: "'a \<Rightarrow> u8 list"
    and get :: "'a rd"
    and wf :: "'a \<Rightarrow> bool"
  assumes get_put: "wf x \<Longrightarrow> get (rd_at pre (put x @ post)) = Inr (x, rd_at (pre @ put x) post)"
    and get_wf: "rd_ensures get wf"
    and get_forward: "rd_forward get"
begin

lemma get_put_end: "wf x \<Longrightarrow> get (rd_at pre (put x)) = Inr (x, rd_at (pre @ put x) [])"
  using get_put [of x pre "[]"] by simp

lemma put_inj_prefix:
  assumes "wf x" "wf y" "put x @ xs = put y @ ys"
  shows "x = y"
proof -
  from assms have "get (rd_at [] (put x @ xs)) = Inr (y, rd_at (put y) ys)"
    by (simp add: get_put)
  with assms(1) show ?thesis by (simp add: get_put)
qed

lemma repeat_put:
  "list_all wf xs \<Longrightarrow>
     rd_repeat (length xs) get (rd_at pre (concat (map put xs) @ post)) =
       Inr (xs, rd_at (pre @ concat (map put xs)) post)"
  by (rule rd_repeat_put) (simp add: get_put list_all_iff)

lemma repeat_wf: "rd_ensures (rd_repeat n get) (\<lambda>xs. length xs = n \<and> list_all wf xs)"
  by (rule rd_ensures_repeat [OF get_wf])

end

section \<open>Primitive fields\<close>

lemma rd_u8_eval: "rd_u8 (rd_at pre (x # post)) = Inr (x, rd_at (pre @ [x]) post)"
  by (simp add: rd_u8_def rd_at_def vec_get_def)

interpretation u8c: codec put_u8 rd_u8 "\<lambda>_. True"
  by unfold_locales (simp_all add: put_u8_def rd_u8_eval rd_ensures_True rd_intros)

interpretation u16c: codec put_u16 rd_u16 "\<lambda>_. True"
  by unfold_locales
    (simp_all add: put_u16_def rd_u16_def rd_take_eval rd_map_eval from_le_bytes_le_bytes
       take_bit_word_id rd_ensures_True rd_intros)

interpretation u32c: codec put_u32 rd_u32 "\<lambda>_. True"
  by unfold_locales
    (simp_all add: put_u32_def rd_u32_def rd_take_eval rd_map_eval from_le_bytes_le_bytes
       take_bit_word_id rd_ensures_True rd_intros)

interpretation i64c: codec put_i64 rd_i64 "\<lambda>_. True"
  by unfold_locales
    (simp_all add: put_i64_def rd_i64_def rd_take_eval rd_map_eval from_le_bytes_le_bytes
       take_bit_word_id rd_ensures_True rd_intros)

interpretation f64c: codec put_i64 rd_f64 "\<lambda>_. True"
  by unfold_locales
    (simp_all add: put_i64_def rd_f64_def rd_take_eval rd_map_eval from_le_bytes_le_bytes
       take_bit_word_id rd_ensures_True rd_intros)

lemmas int_get_put =
  u8c.get_put [OF TrueI] u16c.get_put [OF TrueI] u32c.get_put [OF TrueI]
  i64c.get_put [OF TrueI] f64c.get_put [OF TrueI]
  u8c.get_put_end [OF TrueI] u16c.get_put_end [OF TrueI] u32c.get_put_end [OF TrueI]
  i64c.get_put_end [OF TrueI] f64c.get_put_end [OF TrueI]

declare int_get_put [rd_eval]

lemma of_bool_u8 [simp]: "\<not> of_bool b > (1 :: u8)" "(of_bool b = (1 :: u8)) = b"
  by (cases b; simp)+

interpretation flag: codec put_bool "rd_flag what" "\<lambda>_. True" for what
  by unfold_locales (simp_all add: put_bool_def rd_flag_def rd_eval rd_ensures_True rd_intros)

interpretation flag_lax: codec put_bool rd_flag_lax "\<lambda>_. True"
  by unfold_locales (simp_all add: put_bool_def rd_flag_lax_def rd_eval rd_ensures_True rd_intros)

declare flag.get_put [OF TrueI, rd_eval] flag_lax.get_put [OF TrueI, rd_eval]
  flag.get_put_end [OF TrueI, rd_eval] flag_lax.get_put_end [OF TrueI, rd_eval]

section \<open>Ids\<close>

text \<open>The source writes \<open>id.0\<close> and wraps what it reads in the newtype.\<close>

definition put_str_id :: "str_id \<Rightarrow> u8 list" where "put_str_id i = put_u32 (str_id_0 i)"
definition put_type_id :: "type_id \<Rightarrow> u8 list" where "put_type_id i = put_u32 (type_id_0 i)"
definition put_const_id :: "const_id \<Rightarrow> u8 list" where "put_const_id i = put_u32 (const_id_0 i)"
definition put_func_id :: "func_id \<Rightarrow> u8 list" where "put_func_id i = put_u32 (func_id_0 i)"

definition rd_str_id :: "str_id rd" where "rd_str_id = rd_map StrId rd_u32"
definition rd_type_id :: "type_id rd" where "rd_type_id = rd_map TypeId rd_u32"
definition rd_const_id :: "const_id rd" where "rd_const_id = rd_map ConstId rd_u32"
definition rd_func_id :: "func_id rd" where "rd_func_id = rd_map FuncId rd_u32"

lemmas put_id_defs = put_str_id_def put_type_id_def put_const_id_def put_func_id_def
lemmas rd_id_defs = rd_str_id_def rd_type_id_def rd_const_id_def rd_func_id_def

interpretation str_idc: codec put_str_id rd_str_id "\<lambda>_. True"
  by unfold_locales (simp_all add: put_id_defs rd_id_defs rd_eval rd_ensures_True rd_intros)

interpretation type_idc: codec put_type_id rd_type_id "\<lambda>_. True"
  by unfold_locales (simp_all add: put_id_defs rd_id_defs rd_eval rd_ensures_True rd_intros)

interpretation const_idc: codec put_const_id rd_const_id "\<lambda>_. True"
  by unfold_locales (simp_all add: put_id_defs rd_id_defs rd_eval rd_ensures_True rd_intros)

interpretation func_idc: codec put_func_id rd_func_id "\<lambda>_. True"
  by unfold_locales (simp_all add: put_id_defs rd_id_defs rd_eval rd_ensures_True rd_intros)

lemmas id_get_put =
  str_idc.get_put [OF TrueI] type_idc.get_put [OF TrueI]
  const_idc.get_put [OF TrueI] func_idc.get_put [OF TrueI]
  str_idc.get_put_end [OF TrueI] type_idc.get_put_end [OF TrueI]
  const_idc.get_put_end [OF TrueI] func_idc.get_put_end [OF TrueI]

declare id_get_put [rd_eval]
declare str_idc.get_forward [rd_intros] type_idc.get_forward [rd_intros]
  const_idc.get_forward [rd_intros] func_idc.get_forward [rd_intros]

section \<open>Strings\<close>

definition wf_rstring :: "rstring \<Rightarrow> bool" where
  "wf_rstring s \<longleftrightarrow> length s < 2 ^ 32 \<and> utf8_valid s"

lemma put_len_eval:
  "length xs < 2 ^ 32 \<Longrightarrow>
     rd_u32 (rd_at pre (put_len xs @ post)) =
       Inr (word_of_nat (length xs), rd_at (pre @ put_len xs) post)"
  by (simp add: put_len_def rd_eval)

lemma rd_take_length: "rd_ensures (rd_take n what) (\<lambda>w. length w = n)"
  by (auto simp: rd_ensures_def rd_take_def dest: slice_get_SomeD split: option.splits)

interpretation rstringc: codec put_str rd_raw_str wf_rstring
proof
  fix s pre post
  assume s: "wf_rstring s"
  then have "unat (word_of_nat (length s) :: u32) = length s"
    by (simp add: wf_rstring_def)
  with s show "rd_raw_str (rd_at pre (put_str s @ post)) = Inr (s, rd_at (pre @ put_str s) post)"
    by (simp add: put_str_def rd_raw_str_def wf_rstring_def put_len_eval rd_bind_eval rd_take_eval)
next
  show "rd_ensures rd_raw_str wf_rstring"
    unfolding rd_raw_str_def
    by (rule rd_ensures_bind [OF rd_ensures_True],
        rule rd_ensures_bind [OF rd_take_length])
       (use unat_u32_less in \<open>auto intro!: rd_intros simp: wf_rstring_def\<close>)
next
  show "rd_forward rd_raw_str"
    unfolding rd_raw_str_def by (intro rd_intros)
qed

section \<open>Vectors and pairs\<close>

text \<open>A codec for the elements gives one for counted vectors, with or without a limit.\<close>

context codec
begin

lemma vec_get_put:
  assumes "length xs < 2 ^ 32" "list_all wf xs"
  shows "rd_vec get (rd_at pre (put_vec put xs @ post)) =
           Inr (xs, rd_at (pre @ put_vec put xs) post)"
  using assms repeat_put [of xs "pre @ put_len xs" post]
  by (simp add: rd_vec_def put_vec_def put_len_eval rd_bind_eval)

lemma vec_max_get_put:
  assumes "length xs \<le> limit" "length xs < 2 ^ 32" "list_all wf xs"
  shows "rd_vec_max limit what get (rd_at pre (put_vec put xs @ post)) =
           Inr (xs, rd_at (pre @ put_vec put xs) post)"
  using assms repeat_put [of xs "pre @ put_len xs" post]
  by (simp add: rd_vec_max_def put_vec_def put_len_eval rd_bind_eval)

lemma vec_codec: "codec (put_vec put) (rd_vec get) (\<lambda>xs. length xs < 2 ^ 32 \<and> list_all wf xs)"
proof
  show "rd_ensures (rd_vec get) (\<lambda>xs. length xs < 2 ^ 32 \<and> list_all wf xs)"
    unfolding rd_vec_def
    by (rule rd_ensures_bind [OF rd_ensures_True], rule rd_ensures_weaken [OF repeat_wf])
       (use unat_u32_less in auto)
qed (auto simp: vec_get_put intro!: rd_intros get_forward)

lemma vec_max_codec:
  "codec (put_vec put) (rd_vec_max limit what get)
     (\<lambda>xs. length xs \<le> limit \<and> length xs < 2 ^ 32 \<and> list_all wf xs)"
proof
  show "rd_ensures (rd_vec_max limit what get)
          (\<lambda>xs. length xs \<le> limit \<and> length xs < 2 ^ 32 \<and> list_all wf xs)"
    unfolding rd_vec_max_def
    by (rule rd_ensures_bind [OF rd_ensures_True], rule rd_ensures_if, rule rd_ensures_fail,
        rule rd_ensures_weaken [OF repeat_wf])
       (use unat_u32_less in auto)
qed (auto simp: vec_max_get_put intro!: rd_intros get_forward)

lemma vec_limit_codec:
  assumes "limit < 2 ^ 32"
  shows "codec (put_vec put) (rd_vec_max limit what get) (\<lambda>xs. length xs \<le> limit \<and> list_all wf xs)"
proof -
  from assms have "(\<lambda>xs. length xs \<le> limit \<and> length xs < 2 ^ 32 \<and> list_all wf xs) =
      (\<lambda>xs. length xs \<le> limit \<and> list_all wf xs)"
    by auto
  with vec_max_codec [of limit what] show ?thesis by simp
qed

end

text \<open>Two fields in sequence.\<close>

definition put_pair :: "('a \<Rightarrow> u8 list) \<Rightarrow> ('b \<Rightarrow> u8 list) \<Rightarrow> 'a \<times> 'b \<Rightarrow> u8 list" where
  "put_pair f g p = f (fst p) @ g (snd p)"

definition rd_pair :: "'a rd \<Rightarrow> 'b rd \<Rightarrow> ('a \<times> 'b) rd" where
  "rd_pair f g = rd_bind f (\<lambda>x. rd_map (\<lambda>y. (x, y)) g)"

lemma pair_codec:
  assumes "codec put1 get1 wf1" "codec put2 get2 wf2"
  shows "codec (put_pair put1 put2) (rd_pair get1 get2) (\<lambda>p. wf1 (fst p) \<and> wf2 (snd p))"
proof
  fix x pre post
  assume "wf1 (fst x) \<and> wf2 (snd x)"
  then show "rd_pair get1 get2 (rd_at pre (put_pair put1 put2 x @ post)) =
               Inr (x, rd_at (pre @ put_pair put1 put2 x) post)"
    by (simp add: rd_pair_def put_pair_def rd_bind_eval rd_map_eval
        codec.get_put [OF assms(1)] codec.get_put [OF assms(2)])
next
  show "rd_ensures (rd_pair get1 get2) (\<lambda>p. wf1 (fst p) \<and> wf2 (snd p))"
    unfolding rd_pair_def
    by (rule rd_ensures_bind [OF codec.get_wf [OF assms(1)]],
        rule rd_ensures_map [OF codec.get_wf [OF assms(2)]]) simp
next
  show "rd_forward (rd_pair get1 get2)"
    unfolding rd_pair_def
    by (intro rd_intros codec.get_forward [OF assms(1)] codec.get_forward [OF assms(2)])
qed

lemma list_all_True [simp]: "list_all (\<lambda>_. True) xs"
  by (simp add: list_all_iff)

interpretation type_idsc: codec "put_vec put_type_id" "rd_vec rd_type_id" "\<lambda>xs. length xs < 2 ^ 32"
  using type_idc.vec_codec by simp

interpretation const_idsc: codec "put_vec put_const_id" "rd_vec rd_const_id" "\<lambda>xs. length xs < 2 ^ 32"
  using const_idc.vec_codec by simp

interpretation const_pairc:
  codec "put_pair put_const_id put_const_id" "rd_pair rd_const_id rd_const_id" "\<lambda>_. True"
  using pair_codec [OF const_idc.codec_axioms const_idc.codec_axioms] by simp

interpretation const_pairsc:
  codec "put_vec (put_pair put_const_id put_const_id)" "rd_vec (rd_pair rd_const_id rd_const_id)"
    "\<lambda>xs. length xs < 2 ^ 32"
  using const_pairc.vec_codec by simp

text \<open>\<open>put_ids\<close> and \<open>str_ids\<close>: a list of string ids, at most 10000 of them.\<close>

definition put_ids :: "str_id list \<Rightarrow> u8 list" where
  "put_ids ids = put_vec put_str_id ids"

definition rd_str_ids :: "str_id list rd" where
  "rd_str_ids = rd_vec_max 10000 ''absurd .zzc id list'' rd_str_id"

interpretation str_idsc: codec put_ids rd_str_ids "\<lambda>ids. length ids \<le> 10000"
  using str_idc.vec_limit_codec [of 10000 "''absurd .zzc id list''"]
  unfolding put_ids_def [abs_def] rd_str_ids_def by simp

end
