(* ===== verification/Codec_Tables.thy ===== *)
theory Codec_Tables
  imports Codec_Interface
begin

text \<open>
  The \<open>TYPES\<close>, \<open>STRINGS\<close> and \<open>CONSTS\<close> sections of \<open>crates/zz_ir/src/codec.rs\<close>: one encoder and one
  decoder per table entry, the section encoders and decoders, and the proof that each pair
  is an instance of the codec contract.
\<close>

section \<open>Types\<close>

text \<open>\<open>encode_type\<close> after its tag byte.\<close>

fun encode_type_args :: "ir_type \<Rightarrow> u8 list" where
  "encode_type_args (TTuple items) = put_vec put_type_id items"
| "encode_type_args (TUnion items) = put_vec put_type_id items"
| "encode_type_args (TFunc items ret) = put_vec put_type_id items @ put_type_id ret"
| "encode_type_args (TOption inner) = put_type_id inner"
| "encode_type_args (TArray inner) = put_type_id inner"
| "encode_type_args (TRange inner) = put_type_id inner"
| "encode_type_args (TResult a b) = put_type_id a @ put_type_id b"
| "encode_type_args (TDict a b) = put_type_id a @ put_type_id b"
| "encode_type_args (TOpaque i) = put_str_id i"
| "encode_type_args (TNamed i) = put_str_id i"
| "encode_type_args (TStruct i args) = put_str_id i @ put_vec put_type_id args"
| "encode_type_args (TEnum i args) = put_str_id i @ put_vec put_type_id args"
| "encode_type_args (TVar n) = put_u32 n"
| "encode_type_args (TPtr mutable inner) = put_bool mutable @ put_type_id inner"
| "encode_type_args _ = []"

definition encode_type :: "ir_type \<Rightarrow> u8 list" where
  "encode_type t = put_u8 (ty_tag t) @ encode_type_args t"

definition decode_type_args :: "u8 \<Rightarrow> ir_type rd" where
  "decode_type_args tag =
    (if tag = 0 then rd_return TUnknown
     else if tag = 1 then rd_return TUnit
     else if tag = 2 then rd_return TBool
     else if tag = 3 then rd_return TInt
     else if tag = 4 then rd_return TFloat
     else if tag = 5 then rd_return TStr
     else if tag = 6 then rd_return TBytes
     else if tag = 7 then rd_map TTuple (rd_vec rd_type_id)
     else if tag = 8 then rd_map TOption rd_type_id
     else if tag = 9 then rd_bind rd_type_id (\<lambda>a. rd_map (TResult a) rd_type_id)
     else if tag = 10 then rd_map TArray rd_type_id
     else if tag = 11 then rd_bind rd_type_id (\<lambda>a. rd_map (TDict a) rd_type_id)
     else if tag = 12 then rd_bind (rd_vec rd_type_id) (\<lambda>items. rd_map (TFunc items) rd_type_id)
     else if tag = 13 then rd_map TRange rd_type_id
     else if tag = 14 then rd_return TJson
     else if tag = 15 then rd_return TDb
     else if tag = 16 then rd_return THttpServer
     else if tag = 17 then rd_return TTcpStream
     else if tag = 18 then rd_return TTcpListener
     else if tag = 19 then rd_return TResponse
     else if tag = 20 then rd_return THttpRequest
     else if tag = 21 then rd_map TOpaque rd_str_id
     else if tag = 22 then rd_return TChan
     else if tag = 23 then rd_return TTaskJoin
     else if tag = 24 then rd_bind rd_str_id (\<lambda>i. rd_map (TStruct i) (rd_vec rd_type_id))
     else if tag = 25 then rd_bind rd_str_id (\<lambda>i. rd_map (TEnum i) (rd_vec rd_type_id))
     else if tag = 26 then rd_map TUnion (rd_vec rd_type_id)
     else if tag = 27 then rd_map TNamed rd_str_id
     else if tag = 28 then rd_map TVar rd_u32
     else if tag = 29 then rd_return TError
     else if tag = 30 then rd_return TVoid
     else if tag = 31 then
       rd_bind (rd_flag ''bad .zzc ptr flag'') (\<lambda>mutable. rd_map (TPtr mutable) rd_type_id)
     else rd_fail (ir_error_new ''unknown .zzc type tag''))"

definition decode_type :: "ir_type rd" where
  "decode_type = rd_bind rd_u8 decode_type_args"

text \<open>A type the format can carry: every vector in it has a \<open>u32\<close> length.\<close>

fun wf_type :: "ir_type \<Rightarrow> bool" where
  "wf_type (TTuple items) \<longleftrightarrow> length items < 2 ^ 32"
| "wf_type (TUnion items) \<longleftrightarrow> length items < 2 ^ 32"
| "wf_type (TFunc items _) \<longleftrightarrow> length items < 2 ^ 32"
| "wf_type (TStruct _ args) \<longleftrightarrow> length args < 2 ^ 32"
| "wf_type (TEnum _ args) \<longleftrightarrow> length args < 2 ^ 32"
| "wf_type _ \<longleftrightarrow> True"

lemmas vec_ids_get_put =
  type_idsc.get_put const_idsc.get_put const_pairsc.get_put str_idsc.get_put
  type_idsc.get_put_end const_idsc.get_put_end const_pairsc.get_put_end str_idsc.get_put_end

declare vec_ids_get_put [rd_eval]
declare type_idsc.get_forward [rd_intros] const_idsc.get_forward [rd_intros]
  const_pairsc.get_forward [rd_intros] str_idsc.get_forward [rd_intros]

lemma decode_type_get_put:
  "wf_type t \<Longrightarrow>
     decode_type (rd_at pre (encode_type t @ post)) = Inr (t, rd_at (pre @ encode_type t) post)"
  by (cases t)
    (simp_all add: decode_type_def decode_type_args_def encode_type_def rd_eval)

lemma decode_type_wf: "rd_ensures decode_type wf_type"
  unfolding decode_type_def decode_type_args_def
  by (rule rd_ensures_bind [OF type_idsc.get_wf] rd_ensures_map [OF type_idsc.get_wf]
        rd_ensures_any | simp)+

lemma decode_type_forward: "rd_forward decode_type"
  unfolding decode_type_def decode_type_args_def by (intro rd_intros)

interpretation typec: codec encode_type decode_type wf_type
  by unfold_locales (fact decode_type_get_put decode_type_wf decode_type_forward)+

section \<open>Constants\<close>

fun encode_const :: "const \<Rightarrow> u8 list" where
  "encode_const CUnit = put_u8 0"
| "encode_const (CBool b) = put_u8 1 @ put_bool b"
| "encode_const (CInt i) = put_u8 2 @ put_i64 i"
| "encode_const (CFloat f) = put_u8 3 @ put_i64 f"
| "encode_const (CStr i) = put_u8 4 @ put_str_id i"
| "encode_const (CArray items) = put_u8 5 @ put_vec put_const_id items"
| "encode_const (CDict pairs) = put_u8 6 @ put_vec (put_pair put_const_id put_const_id) pairs"
| "encode_const (COption (Some i)) = put_u8 7 @ put_u8 1 @ put_const_id i"
| "encode_const (COption None) = put_u8 7 @ put_u8 0"
| "encode_const (CResult ok val) = put_u8 8 @ put_bool ok @ put_const_id val"

definition decode_const_args :: "u8 \<Rightarrow> const rd" where
  "decode_const_args tag =
    (if tag = 0 then rd_return CUnit
     else if tag = 1 then rd_map CBool (rd_flag ''bad .zzc bool const'')
     else if tag = 2 then rd_map CInt rd_i64
     else if tag = 3 then rd_map CFloat rd_f64
     else if tag = 4 then rd_map CStr rd_str_id
     else if tag = 5 then rd_map CArray (rd_vec rd_const_id)
     else if tag = 6 then rd_map CDict (rd_vec (rd_pair rd_const_id rd_const_id))
     else if tag = 7 then
       rd_bind (rd_flag ''bad .zzc option const'') (\<lambda>some.
         if some then rd_map (\<lambda>i. COption (Some i)) rd_const_id else rd_return (COption None))
     else if tag = 8 then
       rd_bind (rd_flag ''bad .zzc result const'') (\<lambda>ok. rd_map (CResult ok) rd_const_id)
     else rd_fail (ir_error_new ''unknown .zzc const tag''))"

definition decode_const :: "const rd" where
  "decode_const = rd_bind rd_u8 decode_const_args"

fun wf_const :: "const \<Rightarrow> bool" where
  "wf_const (CArray items) \<longleftrightarrow> length items < 2 ^ 32"
| "wf_const (CDict pairs) \<longleftrightarrow> length pairs < 2 ^ 32"
| "wf_const _ \<longleftrightarrow> True"

lemma rd_flag_u8_eval [rd_eval]:
  "rd_flag what (rd_at pre (put_u8 1 @ post)) = Inr (True, rd_at (pre @ put_u8 1) post)"
  "rd_flag what (rd_at pre (put_u8 0 @ post)) = Inr (False, rd_at (pre @ put_u8 0) post)"
  using flag.get_put [where x = True] flag.get_put [where x = False]
  by (simp_all add: put_bool_def)

lemma decode_const_get_put:
  "wf_const c \<Longrightarrow>
     decode_const (rd_at pre (encode_const c @ post)) = Inr (c, rd_at (pre @ encode_const c) post)"
  by (cases c rule: encode_const.cases)
    (simp_all add: decode_const_def decode_const_args_def rd_eval)

lemma decode_const_wf: "rd_ensures decode_const wf_const"
  unfolding decode_const_def decode_const_args_def
  by (rule rd_ensures_map [OF const_idsc.get_wf] rd_ensures_map [OF const_pairsc.get_wf]
        rd_ensures_any | simp)+

lemma decode_const_forward: "rd_forward decode_const"
  unfolding decode_const_def decode_const_args_def by (intro rd_intros)

interpretation constc: codec encode_const decode_const wf_const
  by unfold_locales (fact decode_const_get_put decode_const_wf decode_const_forward)+

section \<open>Section bodies\<close>

definition encode_types :: "module_ \<Rightarrow> u8 list" where
  "encode_types m = put_vec encode_type (m_types m)"

definition encode_strings :: "module_ \<Rightarrow> u8 list" where
  "encode_strings m = put_vec put_str (m_strings m)"

definition encode_consts :: "module_ \<Rightarrow> u8 list" where
  "encode_consts m = put_vec encode_const (m_consts m)"

text \<open>A section decoder runs on a fresh reader and drops the final reader state.\<close>

definition run_reader :: "'a rd \<Rightarrow> u8 list \<Rightarrow> (ir_error, 'a) result" where
  "run_reader get bs = res_bind (get (reader_new bs)) (\<lambda>(x, _). Inr x)"

definition decode_types :: "u8 list \<Rightarrow> (ir_error, ir_type list) result" where
  "decode_types = run_reader (rd_vec_max 1000000 ''absurd .zzc type count'' decode_type)"

definition decode_strings :: "u8 list \<Rightarrow> (ir_error, rstring list) result" where
  "decode_strings = run_reader (rd_vec_max 1000000 ''absurd .zzc string count'' rd_raw_str)"

definition decode_consts :: "u8 list \<Rightarrow> (ir_error, const list) result" where
  "decode_consts = run_reader (rd_vec_max 1000000 ''absurd .zzc const count'' decode_const)"

context codec
begin

lemma run_reader_put: "wf x \<Longrightarrow> run_reader get (put x) = Inr x"
  by (simp add: run_reader_def reader_new_at get_put_end)

lemma run_reader_wf: "run_reader get bs = Inr x \<Longrightarrow> wf x"
  using get_wf by (auto simp: run_reader_def rd_ensures_def)

end

interpretation types_sec: codec "put_vec encode_type"
  "rd_vec_max 1000000 ''absurd .zzc type count'' decode_type"
  "\<lambda>ts. length ts \<le> 1000000 \<and> list_all wf_type ts"
  by (rule typec.vec_limit_codec) simp

interpretation strings_sec: codec "put_vec put_str"
  "rd_vec_max 1000000 ''absurd .zzc string count'' rd_raw_str"
  "\<lambda>ss. length ss \<le> 1000000 \<and> list_all wf_rstring ss"
  by (rule rstringc.vec_limit_codec) simp

interpretation consts_sec: codec "put_vec encode_const"
  "rd_vec_max 1000000 ''absurd .zzc const count'' decode_const"
  "\<lambda>cs. length cs \<le> 1000000 \<and> list_all wf_const cs"
  by (rule constc.vec_limit_codec) simp

end
