(* ===== verification/Codec_Op.thy ===== *)
theory Codec_Op
  imports Codec_Tables
begin

text \<open>
  The instruction level of \<open>crates/zz_ir/src/codec.rs\<close>: operators, patterns, move-take homes and
  instructions. Each decoder dispatches on the tag in the order of the source's match arms, and
  each pair is an instance of the codec contract.
\<close>

section \<open>Operators\<close>

text \<open>\<open>op as u8\<close>: the position of the variant in its enum.\<close>

primrec binop_u8 :: "binop \<Rightarrow> u8" where
  "binop_u8 BAdd = 0"
| "binop_u8 BSub = 1"
| "binop_u8 BMul = 2"
| "binop_u8 BDiv = 3"
| "binop_u8 BRem = 4"
| "binop_u8 BPow = 5"
| "binop_u8 BEq = 6"
| "binop_u8 BNe = 7"
| "binop_u8 BLt = 8"
| "binop_u8 BGt = 9"
| "binop_u8 BLe = 10"
| "binop_u8 BGe = 11"
| "binop_u8 BAnd = 12"
| "binop_u8 BOr = 13"
| "binop_u8 BElvis = 14"
| "binop_u8 BBitAnd = 15"
| "binop_u8 BBitOr = 16"
| "binop_u8 BBitXor = 17"
| "binop_u8 BShl = 18"
| "binop_u8 BShr = 19"

primrec unop_u8 :: "unop \<Rightarrow> u8" where
  "unop_u8 UNeg = 0"
| "unop_u8 UPos = 1"
| "unop_u8 UNot = 2"
| "unop_u8 UBitNot = 3"

definition encode_binop :: "binop \<Rightarrow> u8 list" where
  "encode_binop b = put_u8 (binop_u8 b)"

definition encode_unop :: "unop \<Rightarrow> u8 list" where
  "encode_unop u = put_u8 (unop_u8 u)"

definition decode_binop :: "binop rd" where
  "decode_binop = rd_bind rd_u8 (\<lambda>tag.
     if tag = 0 then rd_return BAdd
     else if tag = 1 then rd_return BSub
     else if tag = 2 then rd_return BMul
     else if tag = 3 then rd_return BDiv
     else if tag = 4 then rd_return BRem
     else if tag = 5 then rd_return BPow
     else if tag = 6 then rd_return BEq
     else if tag = 7 then rd_return BNe
     else if tag = 8 then rd_return BLt
     else if tag = 9 then rd_return BGt
     else if tag = 10 then rd_return BLe
     else if tag = 11 then rd_return BGe
     else if tag = 12 then rd_return BAnd
     else if tag = 13 then rd_return BOr
     else if tag = 14 then rd_return BElvis
     else if tag = 15 then rd_return BBitAnd
     else if tag = 16 then rd_return BBitOr
     else if tag = 17 then rd_return BBitXor
     else if tag = 18 then rd_return BShl
     else if tag = 19 then rd_return BShr
     else rd_fail (ir_error_new ''unknown .zzc binop''))"

definition decode_unop :: "unop rd" where
  "decode_unop = rd_bind rd_u8 (\<lambda>tag.
     if tag = 0 then rd_return UNeg
     else if tag = 1 then rd_return UPos
     else if tag = 2 then rd_return UNot
     else if tag = 3 then rd_return UBitNot
     else rd_fail (ir_error_new ''unknown .zzc unop''))"

lemma decode_binop_get_put:
  "decode_binop (rd_at pre (encode_binop b @ post)) = Inr (b, rd_at (pre @ encode_binop b) post)"
  by (cases b) (simp_all add: decode_binop_def encode_binop_def rd_eval)

lemma decode_unop_get_put:
  "decode_unop (rd_at pre (encode_unop u @ post)) = Inr (u, rd_at (pre @ encode_unop u) post)"
  by (cases u) (simp_all add: decode_unop_def encode_unop_def rd_eval)

lemma decode_binop_forward: "rd_forward decode_binop"
  unfolding decode_binop_def by (intro rd_intros)

lemma decode_unop_forward: "rd_forward decode_unop"
  unfolding decode_unop_def by (intro rd_intros)

interpretation binopc: codec encode_binop decode_binop "\<lambda>_. True"
  by unfold_locales (simp_all add: decode_binop_get_put rd_ensures_True decode_binop_forward)

interpretation unopc: codec encode_unop decode_unop "\<lambda>_. True"
  by unfold_locales (simp_all add: decode_unop_get_put rd_ensures_True decode_unop_forward)

declare binopc.get_put [OF TrueI, rd_eval] unopc.get_put [OF TrueI, rd_eval]
  binopc.get_put_end [OF TrueI, rd_eval] unopc.get_put_end [OF TrueI, rd_eval]
  binopc.get_forward [rd_intros] unopc.get_forward [rd_intros]

section \<open>Homes\<close>

text \<open>
  \<open>encode_home\<close> and \<open>decode_home\<close>: the home of a move-take instruction is a frame slot, a variable
  or absent. A pair with both set loses its variable, so the format carries only the others.
\<close>

fun put_home :: "u16 option \<times> str_id option \<Rightarrow> u8 list" where
  "put_home (Some s, _) = put_u8 0 @ put_u16 s"
| "put_home (None, Some i) = put_u8 1 @ put_str_id i"
| "put_home (None, None) = put_u8 2"

definition rd_home :: "(u16 option \<times> str_id option) rd" where
  "rd_home = rd_bind rd_u8 (\<lambda>tag.
     if tag = 0 then rd_map (\<lambda>s. (Some s, None)) rd_u16
     else if tag = 1 then rd_map (\<lambda>i. (None, Some i)) rd_str_id
     else if tag = 2 then rd_return (None, None)
     else rd_fail (ir_error_new ''unknown .zzc home tag''))"

definition wf_home :: "u16 option \<times> str_id option \<Rightarrow> bool" where
  "wf_home h \<longleftrightarrow> fst h = None \<or> snd h = None"

lemma rd_home_get_put:
  "wf_home h \<Longrightarrow> rd_home (rd_at pre (put_home h @ post)) = Inr (h, rd_at (pre @ put_home h) post)"
  by (cases h rule: put_home.cases) (auto simp: wf_home_def rd_home_def rd_eval)

lemma rd_home_wf: "rd_ensures rd_home wf_home"
  unfolding rd_home_def by (rule rd_ensures_any | simp add: wf_home_def)+

lemma rd_home_forward: "rd_forward rd_home"
  unfolding rd_home_def by (intro rd_intros)

interpretation homec: codec put_home rd_home wf_home
  by unfold_locales (fact rd_home_get_put rd_home_wf rd_home_forward)+

declare homec.get_put [rd_eval] homec.get_put_end [rd_eval] homec.get_forward [rd_intros]

section \<open>Spans and enum variants\<close>

definition put_span :: "span \<Rightarrow> u8 list" where
  "put_span s = put_u32 (span_start s) @ put_u32 (span_end s)"

definition rd_span :: "span rd" where
  "rd_span = rd_bind rd_u32 (\<lambda>a. rd_map (Span a) rd_u32)"

interpretation spanc: codec put_span rd_span "\<lambda>_. True"
  by unfold_locales (simp_all add: put_span_def rd_span_def rd_eval rd_ensures_True rd_intros)

declare spanc.get_put [OF TrueI, rd_eval] spanc.get_put_end [OF TrueI, rd_eval]
  spanc.get_forward [rd_intros]

definition put_variants :: "(str_id \<times> bool) list \<Rightarrow> u8 list" where
  "put_variants vs = put_vec (put_pair put_str_id put_bool) vs"

definition rd_variants :: "(str_id \<times> bool) list rd" where
  "rd_variants = rd_vec_max 1024 ''absurd .zzc variant count'' (rd_pair rd_str_id rd_flag_lax)"

interpretation variantc: codec "put_pair put_str_id put_bool" "rd_pair rd_str_id rd_flag_lax" "\<lambda>_. True"
  using pair_codec [OF str_idc.codec_axioms flag_lax.codec_axioms] by simp

interpretation variantsc: codec put_variants rd_variants "\<lambda>vs. length vs \<le> 1024"
  using variantc.vec_limit_codec [of 1024 "''absurd .zzc variant count''"]
  unfolding put_variants_def [abs_def] rd_variants_def by simp

declare variantsc.get_put [rd_eval] variantsc.get_put_end [rd_eval] variantsc.get_forward [rd_intros]

section \<open>Patterns\<close>

fun encode_pattern :: "pattern \<Rightarrow> u8 list" where
  "encode_pattern PWildcard = put_u8 0"
| "encode_pattern (PBinding i) = put_u8 1 @ put_str_id i"
| "encode_pattern (PLit i) = put_u8 2 @ put_const_id i"
| "encode_pattern (PVariant name (Some p)) = put_u8 3 @ put_str_id name @ put_u8 1 @ encode_pattern p"
| "encode_pattern (PVariant name None) = put_u8 3 @ put_str_id name @ put_u8 0"
| "encode_pattern (PTuple pats) = put_u8 4 @ put_len pats @ concat (map encode_pattern pats)"
| "encode_pattern (POr pats) = put_u8 5 @ put_len pats @ concat (map encode_pattern pats)"

text \<open>
  \<open>decode_pattern\<close> recurses once per nested pattern with no bound of its own. The model counts
  the recursion depth down; \<open>out_of_depth\<close> is what it returns when the count runs out, and the
  wrapper starts from one more than the bytes that are left, which always suffices
  (\<open>decode_pattern_depth\<close> below).
\<close>

definition out_of_depth :: ir_error where
  "out_of_depth = ir_error_new ''recursion depth exhausted''"

primrec decode_pattern_at :: "nat \<Rightarrow> pattern rd" where
  "decode_pattern_at 0 = rd_fail out_of_depth"
| "decode_pattern_at (Suc d) = rd_bind rd_u8 (\<lambda>tag.
     if tag = 0 then rd_return PWildcard
     else if tag = 1 then rd_map PBinding rd_str_id
     else if tag = 2 then rd_map PLit rd_const_id
     else if tag = 3 then
       rd_bind rd_str_id (\<lambda>name.
       rd_bind (rd_flag ''bad .zzc pattern flag'') (\<lambda>has.
         if has then rd_map (\<lambda>p. PVariant name (Some p)) (decode_pattern_at d)
         else rd_return (PVariant name None)))
     else if tag = 4 then
       rd_map PTuple (rd_vec_max 64 ''absurd .zzc pattern arity'' (decode_pattern_at d))
     else if tag = 5 then
       rd_map POr (rd_vec_max 64 ''absurd .zzc pattern arity'' (decode_pattern_at d))
     else rd_fail (ir_error_new ''unknown .zzc pattern tag''))"

definition rd_remaining :: "reader \<Rightarrow> nat" where
  "rd_remaining r = length (rd_bytes r) - rd_pos r"

definition decode_pattern :: "pattern rd" where
  "decode_pattern r = decode_pattern_at (Suc (rd_remaining r)) r"

fun wf_pattern :: "pattern \<Rightarrow> bool" where
  "wf_pattern (PVariant _ (Some p)) \<longleftrightarrow> wf_pattern p"
| "wf_pattern (PTuple pats) \<longleftrightarrow> length pats \<le> 64 \<and> (\<forall>p \<in> set pats. wf_pattern p)"
| "wf_pattern (POr pats) \<longleftrightarrow> length pats \<le> 64 \<and> (\<forall>p \<in> set pats. wf_pattern p)"
| "wf_pattern _ \<longleftrightarrow> True"

subsection \<open>Forward motion and postcondition\<close>

lemma decode_pattern_at_forward [rd_intros]: "rd_forward (decode_pattern_at d)"
proof (induction d)
  case (Suc d)
  then show ?case
    unfolding decode_pattern_at.simps by (intro rd_intros)
qed (simp only: decode_pattern_at.simps rd_forward_fail)

lemma rd_vec_max_wf:
  "rd_ensures get P \<Longrightarrow>
     rd_ensures (rd_vec_max limit what get) (\<lambda>xs. length xs \<le> limit \<and> (\<forall>x \<in> set xs. P x))"
  unfolding rd_vec_max_def
  by (rule rd_ensures_bind_any, rule rd_ensures_if, rule rd_ensures_fail,
      erule rd_ensures_weaken [OF rd_ensures_repeat]) (auto simp: list_all_iff)

lemma decode_pattern_at_wf: "rd_ensures (decode_pattern_at d) wf_pattern"
proof (induction d)
  case (Suc d)
  show ?case
    unfolding decode_pattern_at.simps
    by (rule rd_ensures_map [OF Suc.IH] rd_ensures_map [OF rd_vec_max_wf [OF Suc.IH]]
          rd_ensures_any | simp)+
qed (simp only: decode_pattern_at.simps rd_ensures_fail)

subsection \<open>The depth counter\<close>

text \<open>
  Two readers that agree on every state with fewer than \<open>k\<close> bytes left, and readers that do not
  run out of depth on such states. Both notions pass through the reader combinators, and the
  tag byte every pattern starts with lowers \<open>k\<close> by one.
\<close>

definition agree_below :: "nat \<Rightarrow> 'a rd \<Rightarrow> 'a rd \<Rightarrow> bool" where
  "agree_below k f g \<longleftrightarrow> (\<forall>r. rd_remaining r < k \<longrightarrow> f r = g r \<and> f r \<noteq> Inl out_of_depth)"

lemma forward_remaining:
  "rd_forward m \<Longrightarrow> m r = Inr (x, r') \<Longrightarrow> rd_remaining r' \<le> rd_remaining r"
  unfolding rd_forward_def rd_remaining_def by (auto dest!: spec intro: diff_le_mono2)

lemma agree_belowD:
  "agree_below k f g \<Longrightarrow> rd_remaining r < k \<Longrightarrow> f r = g r"
  "agree_below k f g \<Longrightarrow> rd_remaining r < k \<Longrightarrow> g r \<noteq> Inl out_of_depth"
  by (auto simp: agree_below_def)

lemma agree_bind:
  assumes "agree_below k m m'" "rd_forward m" "\<And>x. agree_below k (f x) (g x)"
  shows "agree_below k (rd_bind m f) (rd_bind m' g)"
  unfolding agree_below_def
proof (intro allI impI)
  fix r assume r: "rd_remaining r < k"
  note m = agree_belowD [OF assms(1) r]
  show "rd_bind m f r = rd_bind m' g r \<and> rd_bind m f r \<noteq> Inl out_of_depth"
  proof (cases "m' r")
    case (Inl e)
    with m show ?thesis by (simp add: rd_bind_def)
  next
    case (Inr p)
    obtain x s where p: "p = (x, s)" by (cases p)
    with Inr m assms(2) r have s: "rd_remaining s < k"
      using forward_remaining [OF assms(2), of r x s] by simp
    show ?thesis
      using Inr m p agree_belowD [OF assms(3) s, of x] by (simp add: rd_bind_def)
  qed
qed

lemma agree_map: "agree_below k m m' \<Longrightarrow> rd_forward m \<Longrightarrow> agree_below k (rd_map f m) (rd_map f m')"
  unfolding rd_map_def by (rule agree_bind) (auto simp: agree_below_def)

lemma truncated_not_out_of_depth [simp]: "truncated what \<noteq> out_of_depth"
  by (simp add: truncated_def out_of_depth_def ir_error_new_def)

lemma agree_refl: "(\<And>r. f r \<noteq> Inl out_of_depth) \<Longrightarrow> agree_below k f f"
  by (simp add: agree_below_def)

lemma agree_take: "agree_below k (rd_take n what) (rd_take n what)"
  by (rule agree_refl) (simp add: rd_take_def split: option.splits)

lemma agree_u8: "agree_below k rd_u8 rd_u8"
  by (rule agree_refl) (simp add: rd_u8_def split: option.splits)

lemma agree_u32: "agree_below k rd_u32 rd_u32"
  unfolding rd_u32_def by (rule agree_map [OF agree_take]) (rule rd_forward_take)

lemma agree_fail: "e \<noteq> out_of_depth \<Longrightarrow> agree_below k (rd_fail e) (rd_fail e)"
  by (simp add: agree_below_def)

lemma agree_return: "agree_below k (rd_return x) (rd_return x)"
  by (simp add: agree_below_def)

lemma agree_if: "agree_below k f f' \<Longrightarrow> agree_below k g g' \<Longrightarrow>
    agree_below k (if b then f else g) (if b then f' else g')"
  by simp

lemma agree_repeat:
  "agree_below k f g \<Longrightarrow> rd_forward f \<Longrightarrow> agree_below k (rd_repeat n f) (rd_repeat n g)"
proof (induction n)
  case (Suc n)
  then have "agree_below k (rd_repeat n f) (rd_repeat n g)" "rd_forward (rd_repeat n f)"
    by (auto intro: rd_intros)
  with Suc.prems show ?case
    by (auto intro!: agree_bind agree_map)
qed (simp add: agree_return)

lemma agree_vec_max:
  assumes "agree_below k f g" "rd_forward f" "ir_error_new what \<noteq> out_of_depth"
  shows "agree_below k (rd_vec_max limit what f) (rd_vec_max limit what g)"
  unfolding rd_vec_max_def
  by (intro agree_bind agree_u32 agree_if agree_fail agree_repeat assms rd_forward_ints)

lemma agree_ids: "agree_below k rd_str_id rd_str_id" "agree_below k rd_const_id rd_const_id"
  unfolding rd_id_defs by (intro agree_map agree_u32 rd_forward_ints)+

lemma agree_flag: "ir_error_new what \<noteq> out_of_depth \<Longrightarrow> agree_below k (rd_flag what) (rd_flag what)"
  unfolding rd_flag_def
  by (intro agree_bind agree_u8 agree_if agree_fail agree_return rd_forward_u8)

lemma agree_u8_step:
  assumes "\<And>x. agree_below k (f x) (g x)"
  shows "agree_below (Suc k) (rd_bind rd_u8 f) (rd_bind rd_u8 g)"
  unfolding agree_below_def
proof (intro allI impI)
  fix r assume r: "rd_remaining r < Suc k"
  show "rd_bind rd_u8 f r = rd_bind rd_u8 g r \<and> rd_bind rd_u8 f r \<noteq> Inl out_of_depth"
  proof (cases "rd_pos r < length (rd_bytes r)")
    case True
    then have s: "rd_remaining (r\<lparr>rd_pos := Suc (rd_pos r)\<rparr>) < k"
      using r by (simp add: rd_remaining_def)
    show ?thesis
      using True agree_belowD [OF assms s] by (simp add: rd_bind_def rd_u8_def vec_get_def)
  next
    case False
    then show ?thesis by (simp add: rd_bind_def rd_u8_def vec_get_def)
  qed
qed

lemma decode_pattern_at_agree: "agree_below d (decode_pattern_at d) (decode_pattern_at (d + e))"
proof (induction d)
  case (Suc d)
  have msgs: "ir_error_new ''bad .zzc pattern flag'' \<noteq> out_of_depth"
      "ir_error_new ''absurd .zzc pattern arity'' \<noteq> out_of_depth"
      "ir_error_new ''unknown .zzc pattern tag'' \<noteq> out_of_depth"
    by (simp_all add: out_of_depth_def ir_error_new_def)
  show ?case
    unfolding add_Suc decode_pattern_at.simps
    by (intro agree_u8_step agree_if agree_map agree_bind agree_ids agree_flag agree_vec_max
        agree_return agree_fail Suc.IH msgs rd_intros)
qed (simp add: agree_below_def)

text \<open>The starting depth of \<open>decode_pattern\<close> is enough, and a larger one changes nothing.\<close>

lemma decode_pattern_depth:
  "rd_remaining r < d \<Longrightarrow> decode_pattern_at d r = decode_pattern r"
proof -
  assume "rd_remaining r < d"
  then obtain e where "d = Suc (rd_remaining r) + e"
    by (metis Suc_leI le_iff_add)
  with decode_pattern_at_agree [of "Suc (rd_remaining r)" e] show ?thesis
    by (simp add: agree_below_def decode_pattern_def)
qed

lemma decode_pattern_not_out_of_depth: "decode_pattern r \<noteq> Inl out_of_depth"
  using decode_pattern_at_agree [of "Suc (rd_remaining r)" 0]
  by (simp add: agree_below_def decode_pattern_def)

subsection \<open>Reading patterns back\<close>

lemma length_put [simp]:
  "length (put_u8 b) = 1" "length (put_u16 x) = 2" "length (put_u32 y) = 4" "length (put_i64 z) = 8"
  "length (put_len xs) = 4"
  "length (put_str_id i) = 4" "length (put_const_id c) = 4" "length (put_type_id t) = 4"
  "length (put_func_id f) = 4" "length (put_bool b') = 1"
  by (simp_all add: put_u8_def put_u16_def put_u32_def put_i64_def put_len_def put_id_defs put_bool_def)

lemma length_concat_member: "x \<in> set xs \<Longrightarrow> length (f x) \<le> length (concat (map f xs))"
  by (induction xs) auto

lemma rd_vec_max_put:
  assumes "length xs \<le> limit" "length xs < 2 ^ 32"
    "\<And>x pre post. x \<in> set xs \<Longrightarrow> get (rd_at pre (put x @ post)) = Inr (x, rd_at (pre @ put x) post)"
  shows "rd_vec_max limit what get (rd_at pre (put_len xs @ concat (map put xs) @ post)) =
           Inr (xs, rd_at (pre @ put_len xs @ concat (map put xs)) post)"
  using assms rd_repeat_put [of xs get put "pre @ put_len xs" post]
  by (simp add: rd_vec_max_def put_len_eval rd_bind_eval)

lemma decode_pattern_at_get_put:
  "wf_pattern p \<Longrightarrow> length (encode_pattern p) \<le> d \<Longrightarrow>
     decode_pattern_at d (rd_at pre (encode_pattern p @ post)) =
       Inr (p, rd_at (pre @ encode_pattern p) post)"
proof (induction p arbitrary: d pre post rule: encode_pattern.induct)
  case (4 name p)
  then obtain d' where "d = Suc d'" by (cases d) simp_all
  with 4 show ?case by (simp add: rd_eval)
next
  case (6 pats)
  then obtain d' where d: "d = Suc d'" by (cases d) simp_all
  have elem: "decode_pattern_at d' (rd_at pre (encode_pattern x @ post)) =
                Inr (x, rd_at (pre @ encode_pattern x) post)" if "x \<in> set pats" for x pre post
    using that 6 d length_concat_member [OF that, of encode_pattern] by simp
  from 6 d show ?case
    by (simp add: rd_eval rd_vec_max_put [where put = encode_pattern and xs = pats] elem)
next
  case (7 pats)
  then obtain d' where d: "d = Suc d'" by (cases d) simp_all
  have elem: "decode_pattern_at d' (rd_at pre (encode_pattern x @ post)) =
                Inr (x, rd_at (pre @ encode_pattern x) post)" if "x \<in> set pats" for x pre post
    using that 7 d length_concat_member [OF that, of encode_pattern] by simp
  from 7 d show ?case
    by (simp add: rd_eval rd_vec_max_put [where put = encode_pattern and xs = pats] elem)
qed (case_tac [!] d, simp_all add: rd_eval)

lemma rd_remaining_at [simp]: "rd_remaining (rd_at pre post) = length post"
  by (simp add: rd_remaining_def rd_at_def)

interpretation patternc: codec encode_pattern decode_pattern wf_pattern
proof
  fix p pre post assume "wf_pattern p"
  then show "decode_pattern (rd_at pre (encode_pattern p @ post)) =
               Inr (p, rd_at (pre @ encode_pattern p) post)"
    unfolding decode_pattern_def by (intro decode_pattern_at_get_put) simp_all
next
  show "rd_ensures decode_pattern wf_pattern"
    using decode_pattern_at_wf unfolding rd_ensures_def decode_pattern_def by blast
next
  show "rd_forward decode_pattern"
    using decode_pattern_at_forward unfolding rd_forward_def decode_pattern_def by blast
qed

declare patternc.get_put [rd_eval] patternc.get_put_end [rd_eval] patternc.get_forward [rd_intros]

section \<open>Instructions\<close>

text \<open>\<open>encode_op\<close> after its tag. Instructions the source lets fall through write no operands.\<close>

primrec encode_op_args :: "op \<Rightarrow> u8 list" where
  "encode_op_args (PushConst i) = put_const_id i"
| "encode_op_args Pop = []"
| "encode_op_args Swap = []"
| "encode_op_args (PopN n) = put_u16 n"
| "encode_op_args Truthy = []"
| "encode_op_args (LoadVar i) = put_str_id i"
| "encode_op_args (LoadPath parts) = put_ids parts"
| "encode_op_args (DefineVar i) = put_str_id i"
| "encode_op_args (StoreVar i) = put_str_id i"
| "encode_op_args (StorePath parts) = put_ids parts"
| "encode_op_args (LoadSlot s) = put_u16 s"
| "encode_op_args (StoreSlot s) = put_u16 s"
| "encode_op_args (TakeVar i) = put_str_id i"
| "encode_op_args (VecPushField home_slot home_var field) = put_home (home_slot, home_var) @ put_str_id field"
| "encode_op_args (VecPushMethod home_slot home_var method) = put_home (home_slot, home_var) @ put_str_id method"
| "encode_op_args (SetFieldTake home_slot home_var field) = put_home (home_slot, home_var) @ put_str_id field"
| "encode_op_args (SetFieldIndexTake home_slot home_var field) = put_home (home_slot, home_var) @ put_str_id field"
| "encode_op_args (FieldBinopTake home_slot home_var field bop) = put_home (home_slot, home_var) @ put_str_id field @ encode_binop bop"
| "encode_op_args (StoreIndexTake home_slot home_var) = put_home (home_slot, home_var)"
| "encode_op_args (CompoundIndexTake home_slot home_var bop) = put_home (home_slot, home_var) @ encode_binop bop"
| "encode_op_args (GetFieldIndex home_slot home_var field) = put_home (home_slot, home_var) @ put_str_id field"
| "encode_op_args (LenField home_slot home_var field) = put_home (home_slot, home_var) @ put_str_id field"
| "encode_op_args (GetFieldSlotIdx home_slot home_var idx dst) = put_home (home_slot, home_var) @ put_u16 idx @ put_u16 dst"
| "encode_op_args (IndexIntSlot arr idx dst) = put_u16 arr @ put_u16 idx @ put_u16 dst"
| "encode_op_args (IndexDictInt dict key dst) = put_u16 dict @ put_u16 key @ put_u16 dst"
| "encode_op_args (SlotAddInt dst src) = put_u16 dst @ put_u16 src"
| "encode_op_args (SlotInc slot) = put_u16 slot"
| "encode_op_args (SlotAddIntImm dst imm) = put_u16 dst @ put_i64 imm"
| "encode_op_args (SlotSubIntImm dst imm) = put_u16 dst @ put_i64 imm"
| "encode_op_args (SlotMulIntImm dst imm) = put_u16 dst @ put_i64 imm"
| "encode_op_args (SlotLessIntSlot a b) = put_u16 a @ put_u16 b"
| "encode_op_args (SlotLessIntImm a imm) = put_u16 a @ put_i64 imm"
| "encode_op_args (SlotCmpIntSlot a b bop) = put_u16 a @ put_u16 b @ encode_binop bop"
| "encode_op_args (SlotCmpIntImm a imm bop) = put_u16 a @ put_i64 imm @ encode_binop bop"
| "encode_op_args (SlotCmpConst a k bop) = put_u16 a @ put_const_id k @ encode_binop bop"
| "encode_op_args (SlotBinaryInt dst lhs rhs bop) = put_u16 dst @ put_u16 lhs @ put_u16 rhs @ encode_binop bop"
| "encode_op_args (SlotBinaryIntImm dst lhs imm bop) = put_u16 dst @ put_u16 lhs @ put_i64 imm @ encode_binop bop"
| "encode_op_args (PushSlotIntImm a imm bop) = put_u16 a @ put_i64 imm @ encode_binop bop"
| "encode_op_args (JumpIfFalseSlotCmpIntImm a imm bop target) = put_u16 a @ put_i64 imm @ encode_binop bop @ put_u32 target"
| "encode_op_args (JumpIfFalseSlotCmpIntSlot a b bop target) = put_u16 a @ put_u16 b @ encode_binop bop @ put_u32 target"
| "encode_op_args IntAdd = []"
| "encode_op_args IntSub = []"
| "encode_op_args IntMul = []"
| "encode_op_args IntDiv = []"
| "encode_op_args IntRem = []"
| "encode_op_args IntNeg = []"
| "encode_op_args (BinOp b) = encode_binop b"
| "encode_op_args (UnOp u) = encode_unop u"
| "encode_op_args (Jump t) = put_u32 t"
| "encode_op_args (JumpIfFalse t) = put_u32 t"
| "encode_op_args (JumpIfTrue t) = put_u32 t"
| "encode_op_args (JumpIfFalseBool t) = put_u32 t"
| "encode_op_args Return = []"
| "encode_op_args (ForSetup exit_pc header num_vars) = put_u32 exit_pc @ put_u32 header @ put_u8 num_vars"
| "encode_op_args (ForNext vars exit_pc body in_env) = put_ids vars @ put_u32 exit_pc @ put_u32 body @ put_bool in_env"
| "encode_op_args (WhileSetup exit_pc header) = put_u32 exit_pc @ put_u32 header"
| "encode_op_args (WhileCond exit_pc) = put_u32 exit_pc"
| "encode_op_args Break = []"
| "encode_op_args Continue = []"
| "encode_op_args SetLoopResult = []"
| "encode_op_args Safepoint = []"
| "encode_op_args (MakeArray n) = put_u16 n"
| "encode_op_args (UnpackTuple n) = put_u8 n"
| "encode_op_args ArrayPush = []"
| "encode_op_args (MakeDict n) = put_u16 n"
| "encode_op_args IndexOp = []"
| "encode_op_args StoreIndexOp = []"
| "encode_op_args (CompoundIndexOp bop) = encode_binop bop"
| "encode_op_args SliceOp = []"
| "encode_op_args MakeRange = []"
| "encode_op_args (MakeStruct name fs) = put_str_id name @ put_ids fs"
| "encode_op_args (GetField i) = put_str_id i"
| "encode_op_args (GetFieldIdx s) = put_u16 s"
| "encode_op_args (SetField i) = put_str_id i"
| "encode_op_args (SetFieldIdx s) = put_u16 s"
| "encode_op_args (CompoundFieldOp name bop) = put_str_id name @ encode_binop bop"
| "encode_op_args (RegisterStruct name fs) = put_str_id name @ put_ids fs"
| "encode_op_args (RegisterEnum name variants) = put_str_id name @ put_variants variants"
| "encode_op_args (MakeEnum enum_name variant argc) = put_str_id enum_name @ put_str_id variant @ put_u16 argc"
| "encode_op_args (MakeClosure f) = put_func_id f"
| "encode_op_args (MakeFunc f) = put_func_id f"
| "encode_op_args (SpawnClosure f) = put_func_id f"
| "encode_op_args (MakeVariant name has_arg) = put_str_id name @ put_bool has_arg"
| "encode_op_args (MatchArm pat next_pc has_env restore) = encode_pattern pat @ put_u32 next_pc @ put_bool has_env @ put_bool restore"
| "encode_op_args (MatchGuard next_pc has_env) = put_u32 next_pc @ put_bool has_env"
| "encode_op_args MatchError = []"
| "encode_op_args (IfLetMatch pat els has_env) = encode_pattern pat @ put_u32 els @ put_bool has_env"
| "encode_op_args TryOp = []"
| "encode_op_args Elvis = []"
| "encode_op_args ElvisResult = []"
| "encode_op_args (Call argc) = put_u16 argc"
| "encode_op_args (CallPath parts argc pspan) = put_ids parts @ put_u16 argc @ put_span pspan"
| "encode_op_args (CallMethod name argc) = put_str_id name @ put_u16 argc"
| "encode_op_args (CallNative name argc) = put_str_id name @ put_u16 argc"
| "encode_op_args (Concat n) = put_u16 n"
| "encode_op_args FormatValue = []"
| "encode_op_args (DbQuery nparams) = put_u16 nparams"
| "encode_op_args EnterScope = []"
| "encode_op_args ExitScope = []"
| "encode_op_args DeferRecord = []"

definition decode_op_args :: "u16 \<Rightarrow> op rd" where
  "decode_op_args tag =
    (if tag = 0 then rd_map PushConst rd_const_id
     else if tag = 1 then rd_return Pop
     else if tag = 74 then rd_return Swap
     else if tag = 2 then rd_map PopN rd_u16
     else if tag = 3 then rd_return Truthy
     else if tag = 4 then rd_map LoadVar rd_str_id
     else if tag = 5 then rd_map LoadPath rd_str_ids
     else if tag = 6 then rd_map DefineVar rd_str_id
     else if tag = 7 then rd_map StoreVar rd_str_id
     else if tag = 8 then rd_map StorePath rd_str_ids
     else if tag = 9 then rd_map LoadSlot rd_u16
     else if tag = 10 then rd_map StoreSlot rd_u16
     else if tag = 11 then rd_map TakeVar rd_str_id
     else if tag = 12 then rd_bind rd_home (\<lambda>h. rd_map (VecPushField (fst h) (snd h)) rd_str_id)
     else if tag = 13 then rd_bind rd_home (\<lambda>h. rd_map (VecPushMethod (fst h) (snd h)) rd_str_id)
     else if tag = 75 then rd_bind rd_home (\<lambda>h. rd_map (SetFieldTake (fst h) (snd h)) rd_str_id)
     else if tag = 76 then rd_bind rd_home (\<lambda>h. rd_map (SetFieldIndexTake (fst h) (snd h)) rd_str_id)
     else if tag = 87 then rd_map (\<lambda>h. StoreIndexTake (fst h) (snd h)) rd_home
     else if tag = 88 then rd_bind rd_home (\<lambda>h. rd_map (CompoundIndexTake (fst h) (snd h)) decode_binop)
     else if tag = 77 then rd_bind rd_home (\<lambda>h. rd_bind rd_str_id (\<lambda>field. rd_map (FieldBinopTake (fst h) (snd h) field) decode_binop))
     else if tag = 78 then rd_bind rd_home (\<lambda>h. rd_map (GetFieldIndex (fst h) (snd h)) rd_str_id)
     else if tag = 79 then rd_bind rd_home (\<lambda>h. rd_map (LenField (fst h) (snd h)) rd_str_id)
     else if tag = 95 then rd_bind rd_home (\<lambda>h. rd_bind rd_u16 (\<lambda>idx. rd_map (GetFieldSlotIdx (fst h) (snd h) idx) rd_u16))
     else if tag = 96 then rd_bind rd_u16 (\<lambda>arr. rd_bind rd_u16 (\<lambda>idx. rd_map (IndexIntSlot arr idx) rd_u16))
     else if tag = 97 then rd_bind rd_u16 (\<lambda>dict. rd_bind rd_u16 (\<lambda>key. rd_map (IndexDictInt dict key) rd_u16))
     else if tag = 80 then rd_bind rd_u16 (\<lambda>dst. rd_map (SlotAddInt dst) rd_u16)
     else if tag = 81 then rd_map SlotInc rd_u16
     else if tag = 82 then rd_bind rd_u16 (\<lambda>dst. rd_map (SlotAddIntImm dst) rd_i64)
     else if tag = 99 then rd_bind rd_u16 (\<lambda>dst. rd_map (SlotSubIntImm dst) rd_i64)
     else if tag = 100 then rd_bind rd_u16 (\<lambda>dst. rd_map (SlotMulIntImm dst) rd_i64)
     else if tag = 83 then rd_bind rd_u16 (\<lambda>a. rd_map (SlotLessIntSlot a) rd_u16)
     else if tag = 84 then rd_bind rd_u16 (\<lambda>a. rd_map (SlotLessIntImm a) rd_i64)
     else if tag = 89 then rd_bind rd_u16 (\<lambda>a. rd_bind rd_u16 (\<lambda>b. rd_map (SlotCmpIntSlot a b) decode_binop))
     else if tag = 90 then rd_bind rd_u16 (\<lambda>a. rd_bind rd_i64 (\<lambda>imm. rd_map (SlotCmpIntImm a imm) decode_binop))
     else if tag = 91 then rd_bind rd_u16 (\<lambda>a. rd_bind rd_const_id (\<lambda>k. rd_map (SlotCmpConst a k) decode_binop))
     else if tag = 92 then rd_bind rd_u16 (\<lambda>a. rd_bind rd_i64 (\<lambda>imm. rd_map (PushSlotIntImm a imm) decode_binop))
     else if tag = 93 then rd_bind rd_u16 (\<lambda>a. rd_bind rd_i64 (\<lambda>imm. rd_bind decode_binop (\<lambda>bop. rd_map (JumpIfFalseSlotCmpIntImm a imm bop) rd_u32)))
     else if tag = 94 then rd_bind rd_u16 (\<lambda>a. rd_bind rd_u16 (\<lambda>b. rd_bind decode_binop (\<lambda>bop. rd_map (JumpIfFalseSlotCmpIntSlot a b bop) rd_u32)))
     else if tag = 85 then rd_bind rd_u16 (\<lambda>dst. rd_bind rd_u16 (\<lambda>lhs. rd_bind rd_u16 (\<lambda>rhs. rd_map (SlotBinaryInt dst lhs rhs) decode_binop)))
     else if tag = 86 then rd_bind rd_u16 (\<lambda>dst. rd_bind rd_u16 (\<lambda>lhs. rd_bind rd_i64 (\<lambda>imm. rd_map (SlotBinaryIntImm dst lhs imm) decode_binop)))
     else if tag = 14 then rd_return IntAdd
     else if tag = 15 then rd_return IntSub
     else if tag = 16 then rd_return IntMul
     else if tag = 17 then rd_return IntDiv
     else if tag = 18 then rd_return IntRem
     else if tag = 19 then rd_return IntNeg
     else if tag = 20 then rd_map BinOp decode_binop
     else if tag = 21 then rd_map UnOp decode_unop
     else if tag = 22 then rd_map Jump rd_u32
     else if tag = 23 then rd_map JumpIfFalse rd_u32
     else if tag = 24 then rd_map JumpIfTrue rd_u32
     else if tag = 25 then rd_map JumpIfFalseBool rd_u32
     else if tag = 26 then rd_return Return
     else if tag = 27 then rd_bind rd_u32 (\<lambda>exit_pc. rd_bind rd_u32 (\<lambda>header. rd_map (ForSetup exit_pc header) rd_u8))
     else if tag = 28 then rd_bind rd_str_ids (\<lambda>vars. rd_bind rd_u32 (\<lambda>exit_pc. rd_bind rd_u32 (\<lambda>body. rd_map (ForNext vars exit_pc body) rd_flag_lax)))
     else if tag = 29 then rd_bind rd_u32 (\<lambda>exit_pc. rd_map (WhileSetup exit_pc) rd_u32)
     else if tag = 30 then rd_map WhileCond rd_u32
     else if tag = 31 then rd_return Break
     else if tag = 32 then rd_return Continue
     else if tag = 33 then rd_return SetLoopResult
     else if tag = 34 then rd_return Safepoint
     else if tag = 35 then rd_map MakeArray rd_u16
     else if tag = 36 then rd_map UnpackTuple rd_u8
     else if tag = 37 then rd_return ArrayPush
     else if tag = 38 then rd_map MakeDict rd_u16
     else if tag = 39 then rd_return IndexOp
     else if tag = 40 then rd_return StoreIndexOp
     else if tag = 41 then rd_map CompoundIndexOp decode_binop
     else if tag = 42 then rd_return SliceOp
     else if tag = 43 then rd_return MakeRange
     else if tag = 44 then rd_bind rd_str_id (\<lambda>name. rd_map (MakeStruct name) rd_str_ids)
     else if tag = 45 then rd_map GetField rd_str_id
     else if tag = 46 then rd_map GetFieldIdx rd_u16
     else if tag = 47 then rd_map SetField rd_str_id
     else if tag = 48 then rd_map SetFieldIdx rd_u16
     else if tag = 49 then rd_bind rd_str_id (\<lambda>name. rd_map (CompoundFieldOp name) decode_binop)
     else if tag = 50 then rd_bind rd_str_id (\<lambda>name. rd_map (RegisterStruct name) rd_str_ids)
     else if tag = 51 then rd_bind rd_str_id (\<lambda>name. rd_map (RegisterEnum name) rd_variants)
     else if tag = 52 then rd_bind rd_str_id (\<lambda>enum_name. rd_bind rd_str_id (\<lambda>variant. rd_map (MakeEnum enum_name variant) rd_u16))
     else if tag = 53 then rd_map MakeClosure rd_func_id
     else if tag = 54 then rd_map MakeFunc rd_func_id
     else if tag = 55 then rd_map SpawnClosure rd_func_id
     else if tag = 56 then rd_bind rd_str_id (\<lambda>name. rd_map (MakeVariant name) rd_flag_lax)
     else if tag = 57 then rd_bind decode_pattern (\<lambda>pat. rd_bind rd_u32 (\<lambda>next_pc. rd_bind rd_flag_lax (\<lambda>has_env. rd_map (MatchArm pat next_pc has_env) rd_flag_lax)))
     else if tag = 58 then rd_bind rd_u32 (\<lambda>next_pc. rd_map (MatchGuard next_pc) rd_flag_lax)
     else if tag = 59 then rd_return MatchError
     else if tag = 60 then rd_bind decode_pattern (\<lambda>pat. rd_bind rd_u32 (\<lambda>els. rd_map (IfLetMatch pat els) rd_flag_lax))
     else if tag = 61 then rd_return TryOp
     else if tag = 62 then rd_return Elvis
     else if tag = 63 then rd_return ElvisResult
     else if tag = 64 then rd_map Call rd_u16
     else if tag = 65 then rd_bind rd_str_ids (\<lambda>parts. rd_bind rd_u16 (\<lambda>argc. rd_map (CallPath parts argc) rd_span))
     else if tag = 66 then rd_bind rd_str_id (\<lambda>name. rd_map (CallMethod name) rd_u16)
     else if tag = 67 then rd_bind rd_str_id (\<lambda>name. rd_map (CallNative name) rd_u16)
     else if tag = 68 then rd_map Concat rd_u16
     else if tag = 69 then rd_return FormatValue
     else if tag = 70 then rd_map DbQuery rd_u16
     else if tag = 71 then rd_return EnterScope
     else if tag = 72 then rd_return ExitScope
     else if tag = 73 then rd_return DeferRecord
     else rd_fail (ir_error_new ''unknown .zzc op tag''))"

definition encode_op :: "op \<Rightarrow> u8 list" where
  "encode_op op = put_u16 (op_tag op) @ encode_op_args op"

definition decode_op :: "op rd" where
  "decode_op = rd_bind rd_u16 decode_op_args"

text \<open>An instruction the format can carry.\<close>

definition wf_op :: "op \<Rightarrow> bool" where
  "wf_op op = (case op of
       LoadPath parts \<Rightarrow> length parts \<le> 10000
     | StorePath parts \<Rightarrow> length parts \<le> 10000
     | VecPushField home_slot home_var _ \<Rightarrow> wf_home (home_slot, home_var)
     | VecPushMethod home_slot home_var _ \<Rightarrow> wf_home (home_slot, home_var)
     | SetFieldTake home_slot home_var _ \<Rightarrow> wf_home (home_slot, home_var)
     | SetFieldIndexTake home_slot home_var _ \<Rightarrow> wf_home (home_slot, home_var)
     | FieldBinopTake home_slot home_var _ _ \<Rightarrow> wf_home (home_slot, home_var)
     | StoreIndexTake home_slot home_var \<Rightarrow> wf_home (home_slot, home_var)
     | CompoundIndexTake home_slot home_var _ \<Rightarrow> wf_home (home_slot, home_var)
     | GetFieldIndex home_slot home_var _ \<Rightarrow> wf_home (home_slot, home_var)
     | LenField home_slot home_var _ \<Rightarrow> wf_home (home_slot, home_var)
     | GetFieldSlotIdx home_slot home_var _ _ \<Rightarrow> wf_home (home_slot, home_var)
     | ForNext vars _ _ _ \<Rightarrow> length vars \<le> 10000
     | MakeStruct _ fs \<Rightarrow> length fs \<le> 10000
     | RegisterStruct _ fs \<Rightarrow> length fs \<le> 10000
     | RegisterEnum _ variants \<Rightarrow> length variants \<le> 1024
     | MatchArm pat _ _ _ \<Rightarrow> wf_pattern pat
     | IfLetMatch pat _ _ \<Rightarrow> wf_pattern pat
     | CallPath parts _ _ \<Rightarrow> length parts \<le> 10000
     | _ \<Rightarrow> True)"

subsection \<open>Reading instructions back\<close>

lemma decode_op_get_put:
  "wf_op op \<Longrightarrow>
     decode_op (rd_at pre (encode_op op @ post)) = Inr (op, rd_at (pre @ encode_op op) post)"
  by (cases op)
    (simp_all add: decode_op_def decode_op_args_def encode_op_def wf_op_def rd_eval)

lemmas rd_ensures_op =
  rd_ensures_bind [OF homec.get_wf] rd_ensures_map [OF homec.get_wf]
  rd_ensures_bind [OF str_idsc.get_wf] rd_ensures_map [OF str_idsc.get_wf]
  rd_ensures_map [OF variantsc.get_wf] rd_ensures_bind [OF patternc.get_wf]

lemma decode_op_wf: "rd_ensures decode_op wf_op"
  unfolding decode_op_def decode_op_args_def
  by (rule rd_ensures_op rd_ensures_any | simp add: wf_op_def)+

lemma decode_op_forward: "rd_forward decode_op"
  unfolding decode_op_def decode_op_args_def by (intro rd_intros)

interpretation opc: codec encode_op decode_op wf_op
  by unfold_locales (fact decode_op_get_put decode_op_wf decode_op_forward)+

end
