(* ===== verification/Codec.thy ===== *)
theory Codec
  imports Codec_Op
begin

text \<open>
  The module level of \<open>crates/zz_ir/src/codec.rs\<close>: function records, the \<open>CODE\<close>, \<open>SPANS\<close> and
  \<open>ANNOT\<close> sections, the section table, and \<open>encode\<close>/\<open>decode\<close> of a whole file. The lemmas show
  that \<open>decode\<close> inverts \<open>encode\<close> on every module the format can carry and that every module
  \<open>decode\<close> returns is one of those.
\<close>

section \<open>Function records\<close>

definition put_param :: "param \<Rightarrow> u8 list" where
  "put_param p = put_str_id (param_name p) @
     (case param_default p of Some i \<Rightarrow> put_u8 1 @ put_func_id i | None \<Rightarrow> put_u8 0)"

definition rd_param :: "param rd" where
  "rd_param =
     rd_bind rd_str_id (\<lambda>pname.
     rd_bind (rd_flag ''bad .zzc param flag'') (\<lambda>has.
       if has then rd_map (\<lambda>i. \<lparr>param_name = pname, param_default = Some i\<rparr>) rd_func_id
       else rd_return \<lparr>param_name = pname, param_default = None\<rparr>))"

text \<open>One iteration of the loop of \<open>encode_funcs\<close>: a function and its code range.\<close>

definition put_func :: "func_def \<times> u32 \<times> u32 \<Rightarrow> u8 list" where
  "put_func = (\<lambda>(f, off, len).
     put_str_id (fd_name f) @
     put_u32 (fd_arity f) @
     put_vec put_param (fd_params f) @
     put_vec put_type_id (sig_params (fd_sig f)) @
     put_type_id (sig_ret (fd_sig f)) @
     put_vec put_type_id (fd_locals f) @
     put_vec (put_vec put_u16) (fd_vartab f) @
     put_u32 off @
     put_u32 len @
     put_u32 (fd_max_stack f) @
     put_vec (put_pair put_str_id put_u16) (fd_toplevel_slots f))"

text \<open>One iteration of the loop of \<open>decode_funcs\<close>; code and spans are filled in by \<open>decode\<close>.\<close>

definition rd_func :: "(func_def \<times> u32 \<times> u32) rd" where
  "rd_func =
     rd_bind rd_str_id (\<lambda>name.
     rd_bind rd_u32 (\<lambda>arity.
     rd_bind (rd_vec_max 10000 ''absurd .zzc param count'' rd_param) (\<lambda>params.
     rd_bind (rd_vec rd_type_id) (\<lambda>sig_params.
     rd_bind rd_type_id (\<lambda>ret.
     rd_bind (rd_vec_max 100000 ''absurd .zzc locals count'' rd_type_id) (\<lambda>locals.
     rd_bind (rd_vec_max 100000 ''absurd .zzc vartab count''
               (rd_vec_max 256 ''absurd .zzc vartab entry'' rd_u16)) (\<lambda>vartab.
     rd_bind rd_u32 (\<lambda>off.
     rd_bind rd_u32 (\<lambda>len.
     rd_bind rd_u32 (\<lambda>max_stack.
     rd_map (\<lambda>toplevel_slots.
       (\<lparr>fd_name = name, fd_arity = arity, fd_params = params,
         fd_sig = \<lparr>sig_params = sig_params, sig_ret = ret\<rparr>,
         fd_locals = locals, fd_vartab = vartab, fd_toplevel_slots = toplevel_slots,
         fd_code = [], fd_spans = [], fd_max_stack = max_stack\<rparr>, off, len))
       (rd_vec (rd_pair rd_str_id rd_u16))))))))))))"

text \<open>The limits the decoder puts on a function record.\<close>

definition wf_func_rec :: "func_def \<Rightarrow> bool" where
  "wf_func_rec f \<longleftrightarrow>
     length (fd_params f) \<le> 10000 \<and>
     length (sig_params (fd_sig f)) < 2 ^ 32 \<and>
     length (fd_locals f) \<le> 100000 \<and>
     length (fd_vartab f) \<le> 100000 \<and> (\<forall>entry \<in> set (fd_vartab f). length entry \<le> 256) \<and>
     length (fd_toplevel_slots f) < 2 ^ 32"

definition strip_code :: "func_def \<Rightarrow> func_def" where
  "strip_code f = f\<lparr>fd_code := [], fd_spans := []\<rparr>"

definition wf_func_entry :: "func_def \<times> u32 \<times> u32 \<Rightarrow> bool" where
  "wf_func_entry e \<longleftrightarrow> wf_func_rec (fst e) \<and> fd_code (fst e) = [] \<and> fd_spans (fst e) = []"

section \<open>Sections\<close>

text \<open>\<open>code_ranges\<close>: the running offset \<open>at\<close> is a \<open>u32\<close>.\<close>

primrec code_ranges_from :: "u32 \<Rightarrow> func_def list \<Rightarrow> (u32 \<times> u32) list" where
  "code_ranges_from at [] = []"
| "code_ranges_from at (f # fs) =
     (at, word_of_nat (length (fd_code f))) #
     code_ranges_from (at + word_of_nat (length (fd_code f))) fs"

definition code_ranges :: "module_ \<Rightarrow> (u32 \<times> u32) list" where
  "code_ranges m = code_ranges_from 0 (m_funcs m)"

definition encode_funcs :: "module_ \<Rightarrow> (u32 \<times> u32) list \<Rightarrow> u8 list" where
  "encode_funcs m ranges =
     put_len (m_funcs m) @ concat (map put_func (zip (m_funcs m) ranges))"

definition encode_code :: "module_ \<Rightarrow> u8 list" where
  "encode_code m =
     put_u32 (word_of_nat (sum_list (map (\<lambda>f. length (fd_code f)) (m_funcs m)))) @
     concat (map (\<lambda>f. concat (map encode_op (fd_code f))) (m_funcs m))"

definition encode_spans :: "module_ \<Rightarrow> u8 list" where
  "encode_spans m =
     put_u32 (word_of_nat (sum_list (map (\<lambda>f. length (fd_spans f)) (m_funcs m)))) @
     concat (map (\<lambda>f. concat (map put_span (fd_spans f))) (m_funcs m))"

definition decode_funcs :: "u8 list \<Rightarrow> (ir_error, (func_def \<times> u32 \<times> u32) list) result" where
  "decode_funcs = run_reader (rd_bind rd_u32 (\<lambda>n.
     if unat n = 0 \<or> unat n > 100000 then rd_fail (ir_error_new ''bad .zzc func count'')
     else rd_repeat (unat n) rd_func))"

definition decode_code :: "u8 list \<Rightarrow> (ir_error, op list) result" where
  "decode_code = run_reader (rd_vec_max 10000000 ''absurd .zzc op count'' decode_op)"

definition decode_spans :: "u8 list \<Rightarrow> (ir_error, span list) result" where
  "decode_spans = run_reader (rd_vec_max 10000000 ''absurd .zzc span count'' rd_span)"

definition decode_annot :: "u8 list \<Rightarrow> (ir_error, unit) result" where
  "decode_annot = run_reader (rd_bind rd_u32 (\<lambda>n.
     rd_map (\<lambda>_. ()) (rd_repeat (unat n)
       (rd_bind rd_u32 (\<lambda>len. rd_take (unat len) ''annotation bytes'')))))"

section \<open>The section table\<close>

definition TAG_TYPES :: u32 where "TAG_TYPES = 1"
definition TAG_STRINGS :: u32 where "TAG_STRINGS = 2"
definition TAG_CONSTS :: u32 where "TAG_CONSTS = 3"
definition TAG_FUNCS :: u32 where "TAG_FUNCS = 4"
definition TAG_CODE :: u32 where "TAG_CODE = 5"
definition TAG_SPANS :: u32 where "TAG_SPANS = 6"
definition TAG_ANNOT :: u32 where "TAG_ANNOT = 7"

type_synonym section_entry = "u32 \<times> u32 \<times> u32"

text \<open>The loop of \<open>encode\<close> that writes the table: the offset advances by each payload.\<close>

primrec section_table :: "u32 \<Rightarrow> (u32 \<times> u8 list) list \<Rightarrow> section_entry list" where
  "section_table offset [] = []"
| "section_table offset (s # ss) =
     (fst s, offset, word_of_nat (length (snd s))) #
     section_table (offset + word_of_nat (length (snd s))) ss"

definition put_entry :: "section_entry \<Rightarrow> u8 list" where
  "put_entry = put_pair put_u32 (put_pair put_u32 put_u32)"

definition sections :: "module_ \<Rightarrow> (u32 \<times> u8 list) list" where
  "sections m =
     [(TAG_TYPES, encode_types m),
      (TAG_STRINGS, encode_strings m),
      (TAG_CONSTS, encode_consts m),
      (TAG_FUNCS, encode_funcs m (code_ranges m)),
      (TAG_CODE, encode_code m),
      (TAG_SPANS, encode_spans m),
      (TAG_ANNOT, put_u32 0)]"

definition encode :: "module_ \<Rightarrow> u8 list" where
  "encode m =
     (let secs = sections m;
          header_len = 4 + 4 + 4 + length secs * 12
      in MAGIC @ put_u32 VERSION @ put_len secs @
         concat (map put_entry (section_table (word_of_nat header_len) secs)) @
         concat (map snd secs))"

text \<open>\<open>section\<close>: the only entry with the tag, as a checked slice of the file.\<close>

primrec find_section ::
  "u32 \<Rightarrow> (nat \<times> nat) option \<Rightarrow> section_entry list \<Rightarrow> (ir_error, (nat \<times> nat) option) result" where
  "find_section tag found [] = Inr found"
| "find_section tag found (e # es) =
     (if fst e = tag then
        (if found \<noteq> None then Inl (ir_error_new ''duplicate .zzc section'')
         else find_section tag (Some (unat (fst (snd e)), unat (snd (snd e)))) es)
      else find_section tag found es)"

definition get_section :: "u8 list \<Rightarrow> section_entry list \<Rightarrow> u32 \<Rightarrow> (ir_error, u8 list) result" where
  "get_section bytes entries tag =
     res_bind (find_section tag None entries) (\<lambda>found.
       case found of
         None \<Rightarrow> Inl (ir_error_new ''missing .zzc section'')
       | Some (off, len) \<Rightarrow>
           (case slice_get bytes off (off + len) of
              None \<Rightarrow> Inl (ir_error_new ''bad .zzc section range'')
            | Some s \<Rightarrow> Inr s))"

section \<open>Decoding a file\<close>

definition rd_entry :: "section_entry rd" where
  "rd_entry = rd_pair rd_u32 (rd_pair rd_u32 rd_u32)"

definition rd_header :: "section_entry list rd" where
  "rd_header =
     rd_bind (rd_repeat 4 rd_u8) (\<lambda>magic.
       if magic \<noteq> MAGIC then rd_fail (ir_error_new ''bad .zzc magic'')
       else rd_bind rd_u32 (\<lambda>version.
         if version \<noteq> VERSION then
           rd_fail (ir_error_new (''unsupported .zzc version '' @ show_nat (unat version) @
             '' (want '' @ show_nat (unat VERSION) @ '')''))
         else rd_bind rd_u32 (\<lambda>nsec.
           if nsec = 0 \<or> nsec > 32 then rd_fail (ir_error_new ''bad .zzc section count'')
           else rd_repeat (unat nsec) rd_entry)))"

text \<open>The loop that cuts the concatenated code and spans into functions.\<close>

fun attach_code ::
  "op list \<Rightarrow> span list \<Rightarrow> nat \<Rightarrow> nat \<Rightarrow> (func_def \<times> u32 \<times> u32) list \<Rightarrow>
   (ir_error, func_def list \<times> nat \<times> nat) result" where
  "attach_code code spans code_at span_at [] = Inr ([], code_at, span_at)"
| "attach_code code spans code_at span_at ((f, off, len) # es) =
     (if off \<noteq> word_of_nat code_at then Inl (ir_error_new ''non-contiguous .zzc code range'')
      else
        (case slice_get code code_at (code_at + unat len) of
           None \<Rightarrow> Inl (ir_error_new ''bad code range'')
         | Some ops \<Rightarrow>
           (case slice_get spans span_at (span_at + unat len) of
              None \<Rightarrow> Inl (ir_error_new ''bad span range'')
            | Some sps \<Rightarrow>
                res_bind (attach_code code spans (code_at + unat len) (span_at + unat len) es)
                  (\<lambda>(fs, c, s). Inr (f\<lparr>fd_code := ops, fd_spans := sps\<rparr> # fs, c, s)))))"

definition decode :: "u8 list \<Rightarrow> (ir_error, module_) result" where
  "decode bytes =
     res_bind (run_reader rd_header bytes) (\<lambda>entries.
     res_bind (res_bind (get_section bytes entries TAG_TYPES) decode_types) (\<lambda>types.
     res_bind (res_bind (get_section bytes entries TAG_STRINGS) decode_strings) (\<lambda>strings.
     res_bind (res_bind (get_section bytes entries TAG_CONSTS) decode_consts) (\<lambda>consts.
     res_bind (res_bind (get_section bytes entries TAG_FUNCS) decode_funcs) (\<lambda>records.
     res_bind (res_bind (get_section bytes entries TAG_CODE) decode_code) (\<lambda>code.
     res_bind (res_bind (get_section bytes entries TAG_SPANS) decode_spans) (\<lambda>spans.
     res_bind (res_bind (get_section bytes entries TAG_ANNOT) decode_annot) (\<lambda>_.
     res_bind (attach_code code spans 0 0 records) (\<lambda>(funcs, code_at, span_at).
     res_bind (guard (code_at \<noteq> length code \<or> span_at \<noteq> length spans)
                (ir_error_new ''trailing .zzc code/spans'')) (\<lambda>_.
     res_bind (guard (funcs = []) (ir_error_new ''empty .zzc function table'')) (\<lambda>_.
     Inr \<lparr>m_types = types, m_strings = strings, m_consts = consts, m_funcs = funcs,
          m_entry = FuncId 0\<rparr>)))))))))))"

section \<open>Modules the format can carry\<close>

definition wf_func :: "func_def \<Rightarrow> bool" where
  "wf_func f \<longleftrightarrow> wf_func_rec f \<and> length (fd_spans f) = length (fd_code f) \<and> list_all wf_op (fd_code f)"

definition wf_module :: "module_ \<Rightarrow> bool" where
  "wf_module m \<longleftrightarrow>
     length (m_types m) \<le> 1000000 \<and> list_all wf_type (m_types m) \<and>
     length (m_strings m) \<le> 1000000 \<and> list_all wf_rstring (m_strings m) \<and>
     length (m_consts m) \<le> 1000000 \<and> list_all wf_const (m_consts m) \<and>
     m_funcs m \<noteq> [] \<and> length (m_funcs m) \<le> 100000 \<and> list_all wf_func (m_funcs m) \<and>
     sum_list (map (\<lambda>f. length (fd_code f)) (m_funcs m)) \<le> 10000000 \<and>
     m_entry m = FuncId 0"

section \<open>Function records as a codec\<close>

lemma rd_param_get_put:
  "rd_param (rd_at pre (put_param p @ post)) = Inr (p, rd_at (pre @ put_param p) post)"
  by (cases p; cases "param_default p") (simp_all add: rd_param_def put_param_def rd_eval)

lemma rd_param_forward: "rd_forward rd_param"
  unfolding rd_param_def by (intro rd_intros)

interpretation paramc: codec put_param rd_param "\<lambda>_. True"
  by unfold_locales (simp_all add: rd_param_get_put rd_ensures_True rd_param_forward)

interpretation paramsc: codec "put_vec put_param"
  "rd_vec_max 10000 ''absurd .zzc param count'' rd_param" "\<lambda>ps. length ps \<le> 10000"
  using paramc.vec_limit_codec [of 10000 "''absurd .zzc param count''"] by simp

interpretation localsc: codec "put_vec put_type_id"
  "rd_vec_max 100000 ''absurd .zzc locals count'' rd_type_id" "\<lambda>ls. length ls \<le> 100000"
  using type_idc.vec_limit_codec [of 100000 "''absurd .zzc locals count''"] by simp

interpretation vartab_entryc: codec "put_vec put_u16"
  "rd_vec_max 256 ''absurd .zzc vartab entry'' rd_u16" "\<lambda>e. length e \<le> 256"
  using u16c.vec_limit_codec [of 256 "''absurd .zzc vartab entry''"] by simp

interpretation vartabc: codec "put_vec (put_vec put_u16)"
  "rd_vec_max 100000 ''absurd .zzc vartab count'' (rd_vec_max 256 ''absurd .zzc vartab entry'' rd_u16)"
  "\<lambda>v. length v \<le> 100000 \<and> list_all (\<lambda>e. length e \<le> 256) v"
  by (rule vartab_entryc.vec_limit_codec) simp

interpretation slotc: codec "put_pair put_str_id put_u16" "rd_pair rd_str_id rd_u16" "\<lambda>_. True"
  using pair_codec [OF str_idc.codec_axioms u16c.codec_axioms] by simp

interpretation slotsc: codec "put_vec (put_pair put_str_id put_u16)"
  "rd_vec (rd_pair rd_str_id rd_u16)" "\<lambda>xs. length xs < 2 ^ 32"
  using slotc.vec_codec by simp

lemmas func_field_get_put =
  paramsc.get_put localsc.get_put vartabc.get_put slotsc.get_put slotsc.get_put_end

lemma rd_func_get_put:
  "wf_func_entry e \<Longrightarrow> rd_func (rd_at pre (put_func e @ post)) = Inr (e, rd_at (pre @ put_func e) post)"
  by (cases e)
    (simp add: rd_func_def put_func_def wf_func_entry_def wf_func_rec_def func_field_get_put
       list_all_iff rd_eval)

lemma rd_func_wf: "rd_ensures rd_func wf_func_entry"
  unfolding rd_func_def
  by (rule rd_ensures_bind [OF paramsc.get_wf] rd_ensures_bind [OF localsc.get_wf]
        rd_ensures_bind [OF vartabc.get_wf] rd_ensures_bind [OF type_idsc.get_wf]
        rd_ensures_map [OF slotsc.get_wf] rd_ensures_any
      | simp add: wf_func_entry_def wf_func_rec_def list_all_iff)+

lemma rd_func_forward: "rd_forward rd_func"
  unfolding rd_func_def by (intro rd_intros rd_param_forward slotc.get_forward)

interpretation funcc: codec put_func rd_func wf_func_entry
  by unfold_locales (fact rd_func_get_put rd_func_wf rd_func_forward)+

section \<open>Sections as codecs\<close>

interpretation code_sec: codec "put_vec encode_op"
  "rd_vec_max 10000000 ''absurd .zzc op count'' decode_op"
  "\<lambda>ops. length ops \<le> 10000000 \<and> list_all wf_op ops"
  by (rule opc.vec_limit_codec) simp

interpretation spans_sec: codec "put_vec put_span"
  "rd_vec_max 10000000 ''absurd .zzc span count'' rd_span"
  "\<lambda>ss. length ss \<le> 10000000"
  using spanc.vec_limit_codec [of 10000000 "''absurd .zzc span count''"] by simp

lemma concat_map_concat: "concat (map f (concat xss)) = concat (map (\<lambda>xs. concat (map f xs)) xss)"
  by (induction xss) simp_all

lemma encode_code_eq: "encode_code m = put_vec encode_op (concat (map fd_code (m_funcs m)))"
  by (simp add: encode_code_def put_vec_def put_len_def length_concat comp_def concat_map_concat)

lemma encode_spans_eq: "encode_spans m = put_vec put_span (concat (map fd_spans (m_funcs m)))"
  by (simp add: encode_spans_def put_vec_def put_len_def length_concat comp_def concat_map_concat)

lemma put_func_strip: "put_func (strip_code f, r) = put_func (f, r)"
  by (cases r) (simp add: put_func_def strip_code_def)

lemma length_code_ranges_from [simp]: "length (code_ranges_from at fs) = length fs"
  by (induction fs arbitrary: at) simp_all

text \<open>The records \<open>decode_funcs\<close> hands on: functions without code, paired with their ranges.\<close>

definition func_entries :: "u32 \<Rightarrow> func_def list \<Rightarrow> (func_def \<times> u32 \<times> u32) list" where
  "func_entries at fs = zip (map strip_code fs) (code_ranges_from at fs)"

lemma func_entries_simps [simp]:
  "func_entries at [] = []"
  "func_entries at (f # fs) =
     (strip_code f, at, word_of_nat (length (fd_code f))) #
     func_entries (at + word_of_nat (length (fd_code f))) fs"
  by (simp_all add: func_entries_def)

lemma length_func_entries [simp]: "length (func_entries at fs) = length fs"
  by (simp add: func_entries_def)

lemma put_func_entries:
  "map put_func (func_entries at fs) = map put_func (zip fs (code_ranges_from at fs))"
  by (induction fs arbitrary: at) (simp_all add: put_func_strip)

lemma wf_func_entries: "list_all wf_func fs \<Longrightarrow> list_all wf_func_entry (func_entries at fs)"
  by (induction fs arbitrary: at)
    (simp_all add: wf_func_def wf_func_entry_def wf_func_rec_def strip_code_def)

lemma decode_funcs_encode:
  assumes "m_funcs m \<noteq> []" "length (m_funcs m) \<le> 100000" "list_all wf_func (m_funcs m)"
  shows "decode_funcs (encode_funcs m (code_ranges m)) = Inr (func_entries 0 (m_funcs m))"
proof -
  let ?es = "func_entries 0 (m_funcs m)"
  have "encode_funcs m (code_ranges m) = put_len (m_funcs m) @ concat (map put_func ?es)"
    by (simp add: encode_funcs_def code_ranges_def put_func_entries)
  moreover have "rd_repeat (length ?es) rd_func
      (rd_at (put_len (m_funcs m)) (concat (map put_func ?es))) =
        Inr (?es, rd_at (put_len (m_funcs m) @ concat (map put_func ?es)) [])"
    using funcc.repeat_put [OF wf_func_entries [OF assms(3)], of 0 "put_len (m_funcs m)" "[]"]
    by simp
  moreover have "unat (word_of_nat (length (m_funcs m)) :: u32) = length (m_funcs m)"
    using assms(2) by simp
  ultimately show ?thesis
    using assms(1,2) put_len_eval [of "m_funcs m" "[]"]
    by (simp add: decode_funcs_def run_reader_def reader_new_at rd_bind_def)
qed

section \<open>The section table read back\<close>

interpretation entryc: codec put_entry rd_entry "\<lambda>_. True"
  using pair_codec [OF u32c.codec_axioms pair_codec [OF u32c.codec_axioms u32c.codec_axioms]]
  by (simp add: put_entry_def rd_entry_def)

lemma length_section_table [simp]: "length (section_table off secs) = length secs"
  by (induction secs arbitrary: off) simp_all

lemma fst_section_table: "map fst (section_table off secs) = map fst secs"
  by (induction secs arbitrary: off) simp_all

lemma find_section_found:
  "tag \<notin> fst ` set es \<Longrightarrow> find_section tag found es = Inr found"
  by (induction es arbitrary: found) auto

lemma find_section_table:
  assumes "distinct (map fst secs)" "(tag, p) \<in> set secs"
    "unat off + length (concat (map snd secs)) < 2 ^ 32"
  shows "\<exists>pre post. concat (map snd secs) = pre @ p @ post \<and>
     find_section tag None (section_table off secs) = Inr (Some (unat off + length pre, length p))"
  using assms
proof (induction secs arbitrary: off)
  case (Cons s secs)
  let ?q = "snd s"
  have q: "length ?q < 2 ^ 32" "unat off + length ?q < 2 ^ 32"
    using Cons.prems(3) by simp_all
  then have uq: "unat (word_of_nat (length ?q) :: u32) = length ?q" by simp
  then have uo: "unat (off + word_of_nat (length ?q)) = unat off + length ?q"
    using q by (simp add: unat_word_ariths)
  show ?case
  proof (cases "fst s = tag")
    case True
    with Cons.prems(1) have tag: "tag \<notin> fst ` set secs" by auto
    with True Cons.prems(2) have "p = ?q" by (cases s) (auto intro: rev_image_eqI)
    moreover have "tag \<notin> fst ` set (section_table (off + word_of_nat (length ?q)) secs)"
      using tag fst_section_table [of "off + word_of_nat (length ?q)" secs]
      by (metis list.set_map)
    ultimately show ?thesis
      using True uq by (intro exI [of _ "[]"] exI [of _ "concat (map snd secs)"])
        (simp add: find_section_found)
  next
    case False
    with Cons.prems uo obtain pre post where
      "concat (map snd secs) = pre @ p @ post"
      "find_section tag None (section_table (off + word_of_nat (length ?q)) secs) =
         Inr (Some (unat off + length ?q + length pre, length p))"
      using Cons.IH [of "off + word_of_nat (length ?q)"] by auto
    with False show ?thesis
      by (intro exI [of _ "?q @ pre"] exI [of _ post]) simp
  qed
qed simp

lemma get_section_table:
  assumes "distinct (map fst secs)" "(tag, p) \<in> set secs"
    "length (hdr @ concat (map snd secs)) < 2 ^ 32"
  shows "get_section (hdr @ concat (map snd secs) @ junk)
           (section_table (word_of_nat (length hdr)) secs) tag = Inr p"
proof -
  have u: "unat (word_of_nat (length hdr) :: u32) = length hdr"
    using assms(3) by simp
  with assms obtain pre post where
    c: "concat (map snd secs) = pre @ p @ post" and
    f: "find_section tag None (section_table (word_of_nat (length hdr)) secs) =
          Inr (Some (length hdr + length pre, length p))"
    using find_section_table [of secs tag p "word_of_nat (length hdr)"] by auto
  show ?thesis
    using slice_get_middle [of "hdr @ pre" p "post @ junk"]
    by (simp add: get_section_def f c add.assoc)
qed

lemma rd_header_get_put:
  assumes "es \<noteq> []" "length es \<le> 32"
  shows "run_reader rd_header (MAGIC @ put_u32 VERSION @ put_len es @ concat (map put_entry es) @ rest) =
           Inr es"
proof -
  have u: "unat (word_of_nat (length es) :: u32) = length es" using assms by simp
  then have nz: "(word_of_nat (length es) :: u32) \<noteq> 0"
    using assms(1) by (metis length_0_conv unat_0)
  have le: "\<not> (word_of_nat (length es) :: u32) > 32"
    using assms(2) u by (simp add: word_less_nat_alt)
  have m: "rd_repeat 4 rd_u8 (rd_at [] (MAGIC @ xs)) = Inr (MAGIC, rd_at MAGIC xs)" for xs
    using u8c.repeat_put [of MAGIC "[]" xs] by (simp add: MAGIC_def put_u8_def eval_nat_numeral)
  have es: "rd_repeat (length es) rd_entry (rd_at pre (concat (map put_entry es) @ rest)) =
         Inr (es, rd_at (pre @ concat (map put_entry es)) rest)" for pre
    by (rule entryc.repeat_put) simp
  show ?thesis
    using assms u nz le
    by (simp add: run_reader_def reader_new_at rd_header_def rd_bind_def m es put_len_eval int_get_put)
qed

section \<open>Cutting the code\<close>

lemma attach_code_entries:
  assumes "list_all (\<lambda>f. length (fd_spans f) = length (fd_code f)) fs"
    "length (ops @ concat (map fd_code fs)) < 2 ^ 32" "length sps = length ops"
  shows "attach_code (ops @ concat (map fd_code fs)) (sps @ concat (map fd_spans fs))
           (length ops) (length sps) (func_entries (word_of_nat (length ops)) fs) =
         Inr (fs, length (ops @ concat (map fd_code fs)), length (sps @ concat (map fd_spans fs)))"
  using assms
proof (induction fs arbitrary: ops sps)
  case (Cons f fs)
  let ?n = "length (fd_code f)"
  have u: "unat (word_of_nat ?n :: u32) = ?n" using Cons.prems(2) by simp
  have c: "slice_get (ops @ fd_code f @ concat (map fd_code fs)) (length ops) (length ops + ?n) =
             Some (fd_code f)"
    by (rule slice_get_middle)
  have s: "slice_get (sps @ fd_spans f @ concat (map fd_spans fs)) (length sps) (length sps + ?n) =
             Some (fd_spans f)"
    using Cons.prems(1) slice_get_middle [of sps "fd_spans f"] by simp
  have IH: "attach_code (ops @ fd_code f @ concat (map fd_code fs)) (sps @ fd_spans f @ concat (map fd_spans fs))
      (length ops + ?n) (length sps + ?n)
      (func_entries (word_of_nat (length ops) + word_of_nat ?n) fs) =
      Inr (fs, length (ops @ fd_code f @ concat (map fd_code fs)),
               length (sps @ fd_spans f @ concat (map fd_spans fs)))"
    using Cons.IH [of "ops @ fd_code f" "sps @ fd_spans f"] Cons.prems by simp
  show ?case
    using u c s IH by (simp add: strip_code_def)
qed simp

lemma attach_codeD:
  assumes "attach_code code spans c s es = Inr (fs, c', s')"
    "c \<le> length code" "\<forall>e \<in> set es. wf_func_rec (fst e)" "list_all wf_op code"
  shows "c' = c + sum_list (map (\<lambda>f. length (fd_code f)) fs) \<and> c' \<le> length code \<and>
    length fs = length es \<and> list_all wf_func fs"
  using assms
proof (induction es arbitrary: c s fs)
  case (Cons e es)
  obtain f off len where e: "e = (f, off, len)" by (cases e) auto
  from Cons.prems(1) obtain ops sps fs' where
    ops: "slice_get code c (c + unat len) = Some ops" and
    sps: "slice_get spans s (s + unat len) = Some sps" and
    rec: "attach_code code spans (c + unat len) (s + unat len) es = Inr (fs', c', s')" and
    fs: "fs = f\<lparr>fd_code := ops, fd_spans := sps\<rparr> # fs'"
    by (auto simp: e split: if_splits option.splits)
  note d = slice_get_SomeD [OF ops] slice_get_SomeD [OF sps]
  from d Cons.prems(3) Cons.prems(4) have "wf_func (f\<lparr>fd_code := ops, fd_spans := sps\<rparr>)"
    by (auto simp: e wf_func_def wf_func_rec_def list_all_iff)
  moreover have "c + unat len \<le> length code" using d by simp
  moreover note Cons.IH [OF rec]
  ultimately show ?case
    using Cons.prems d fs by auto
qed simp

section \<open>Encoding and decoding a module\<close>

definition encode_header :: "module_ \<Rightarrow> u8 list" where
  "encode_header m = MAGIC @ put_u32 VERSION @ put_len (sections m) @
     concat (map put_entry (section_table (word_of_nat (4 + 4 + 4 + length (sections m) * 12)) (sections m)))"

lemma length_put_entry: "length (put_entry e) = 12"
  by (simp add: put_entry_def put_pair_def)

lemma length_encode_header: "length (encode_header m) = 96"
  by (simp add: encode_header_def MAGIC_def sections_def length_put_entry)

lemma encode_eq: "encode m = encode_header m @ concat (map snd (sections m))"
  by (simp add: encode_def encode_header_def Let_def)

lemma run_header_encode:
  "run_reader rd_header (encode m @ junk) = Inr (section_table 96 (sections m))"
proof -
  let ?es = "section_table (word_of_nat (4 + 4 + 4 + length (sections m) * 12)) (sections m)"
  have n: "length (sections m) = 7" by (simp add: sections_def)
  have "put_len (sections m) = put_len ?es" by (simp add: put_len_def)
  moreover have "?es \<noteq> []" using n by (cases "sections m") auto
  moreover have "length ?es \<le> 32" using n by simp
  ultimately have "run_reader rd_header (encode m @ junk) = Inr ?es"
    using rd_header_get_put [of ?es "concat (map snd (sections m)) @ junk"]
    by (simp add: encode_eq encode_header_def)
  then show ?thesis by (simp add: n)
qed

lemma get_section_encode:
  assumes "(tag, p) \<in> set (sections m)" "length (encode m) < 2 ^ 32"
  shows "get_section (encode m @ junk) (section_table 96 (sections m)) tag = Inr p"
  using assms get_section_table [of "sections m" tag p "encode_header m" junk]
  by (simp add: encode_eq length_encode_header sections_def
      TAG_TYPES_def TAG_STRINGS_def TAG_CONSTS_def TAG_FUNCS_def TAG_CODE_def TAG_SPANS_def TAG_ANNOT_def)

lemma sections_of_encode:
  assumes "length (encode m) < 2 ^ 32"
  shows
    "get_section (encode m @ junk) (section_table 96 (sections m)) TAG_TYPES = Inr (encode_types m)"
    "get_section (encode m @ junk) (section_table 96 (sections m)) TAG_STRINGS = Inr (encode_strings m)"
    "get_section (encode m @ junk) (section_table 96 (sections m)) TAG_CONSTS = Inr (encode_consts m)"
    "get_section (encode m @ junk) (section_table 96 (sections m)) TAG_FUNCS =
       Inr (encode_funcs m (code_ranges m))"
    "get_section (encode m @ junk) (section_table 96 (sections m)) TAG_CODE = Inr (encode_code m)"
    "get_section (encode m @ junk) (section_table 96 (sections m)) TAG_SPANS = Inr (encode_spans m)"
    "get_section (encode m @ junk) (section_table 96 (sections m)) TAG_ANNOT = Inr (put_u32 0)"
  by (rule get_section_encode [OF _ assms], simp add: sections_def)+

lemma decode_annot_none: "decode_annot (put_u32 0) = Inr ()"
  by (simp add: decode_annot_def run_reader_def reader_new_at rd_eval)

lemma sum_spans_eq:
  "list_all (\<lambda>f. length (fd_spans f) = length (fd_code f)) fs \<Longrightarrow>
     sum_list (map (\<lambda>f. length (fd_spans f)) fs) = sum_list (map (\<lambda>f. length (fd_code f)) fs)"
  by (induction fs) simp_all

lemma decode_encode_junk:
  assumes "wf_module m" "length (encode m) < 2 ^ 32"
  shows "decode (encode m @ junk) = Inr m"
proof -
  let ?code = "concat (map fd_code (m_funcs m))" and ?spans = "concat (map fd_spans (m_funcs m))"
  have par: "list_all (\<lambda>f. length (fd_spans f) = length (fd_code f)) (m_funcs m)"
    using assms(1) by (auto simp: wf_module_def wf_func_def list_all_iff)
  have len: "length ?code \<le> 10000000" "length ?spans \<le> 10000000"
    using assms(1) sum_spans_eq [OF par] by (simp_all add: wf_module_def length_concat comp_def)
  have ops: "list_all wf_op ?code"
    using assms(1) by (auto simp: wf_module_def wf_func_def list_all_iff)
  have types: "decode_types (encode_types m) = Inr (m_types m)"
    using assms(1) by (simp add: decode_types_def encode_types_def types_sec.run_reader_put wf_module_def)
  have strings: "decode_strings (encode_strings m) = Inr (m_strings m)"
    using assms(1) by (simp add: decode_strings_def encode_strings_def strings_sec.run_reader_put wf_module_def)
  have csts: "decode_consts (encode_consts m) = Inr (m_consts m)"
    using assms(1) by (simp add: decode_consts_def encode_consts_def consts_sec.run_reader_put wf_module_def)
  have funcs: "decode_funcs (encode_funcs m (code_ranges m)) = Inr (func_entries 0 (m_funcs m))"
    using assms(1) by (intro decode_funcs_encode) (simp_all add: wf_module_def)
  have code: "decode_code (encode_code m) = Inr ?code"
    using len ops by (simp add: decode_code_def encode_code_eq code_sec.run_reader_put)
  have spans: "decode_spans (encode_spans m) = Inr ?spans"
    using len by (simp add: decode_spans_def encode_spans_eq spans_sec.run_reader_put)
  have attach: "attach_code ?code ?spans 0 0 (func_entries 0 (m_funcs m)) =
      Inr (m_funcs m, length ?code, length ?spans)"
    using attach_code_entries [OF par, of "[]" "[]"] len by simp
  have "m_funcs m \<noteq> []" "m_entry m = FuncId 0"
    using assms(1) by (simp_all add: wf_module_def)
  then show ?thesis
    by (simp add: decode_def run_header_encode sections_of_encode [OF assms(2)]
        types strings csts funcs code spans decode_annot_none attach)
qed

text \<open>Everything \<open>decode\<close> accepts is within the limits of the format.\<close>

lemma decode_funcs_wf:
  assumes "decode_funcs bs = Inr es"
  shows "es \<noteq> [] \<and> length es \<le> 100000 \<and> list_all wf_func_entry es"
proof -
  have "rd_ensures (rd_bind rd_u32 (\<lambda>n.
      if unat n = 0 \<or> unat n > 100000 then rd_fail (ir_error_new ''bad .zzc func count'')
      else rd_repeat (unat n) rd_func)) (\<lambda>es. es \<noteq> [] \<and> length es \<le> 100000 \<and> list_all wf_func_entry es)"
    by (rule rd_ensures_bind_any, rule rd_ensures_if, rule rd_ensures_fail,
        rule rd_ensures_weaken [OF funcc.repeat_wf]) auto
  with assms show ?thesis
    by (auto simp: decode_funcs_def run_reader_def rd_ensures_def)
qed

lemma decode_wf:
  assumes "decode bs = Inr m"
  shows "wf_module m"
proof -
  from assms obtain entries tb sb cb fb ob pb types strings csts records ops sps funcs where
    types: "decode_types tb = Inr types" and strings: "decode_strings sb = Inr strings" and
    csts: "decode_consts cb = Inr csts" and records: "decode_funcs fb = Inr records" and
    ops: "decode_code ob = Inr ops" and sps: "decode_spans pb = Inr sps" and
    att: "attach_code ops sps 0 0 records = Inr (funcs, length ops, length sps)" and
    m: "m = \<lparr>m_types = types, m_strings = strings, m_consts = csts, m_funcs = funcs, m_entry = FuncId 0\<rparr>"
    by (auto simp: decode_def)
  note wf = types_sec.run_reader_wf [OF types [unfolded decode_types_def]]
    strings_sec.run_reader_wf [OF strings [unfolded decode_strings_def]]
    consts_sec.run_reader_wf [OF csts [unfolded decode_consts_def]]
    code_sec.run_reader_wf [OF ops [unfolded decode_code_def]]
    decode_funcs_wf [OF records]
  have "\<forall>e \<in> set records. wf_func_rec (fst e)"
    using wf by (auto simp: list_all_iff wf_func_entry_def)
  with attach_codeD [OF att] wf have a: "length ops = sum_list (map (\<lambda>f. length (fd_code f)) funcs)"
    "length funcs = length records" "list_all wf_func funcs"
    by auto
  moreover from a(2) wf have "funcs \<noteq> []" by auto
  ultimately show ?thesis
    using wf by (simp add: m wf_module_def)
qed

section \<open>Truncated files\<close>

text \<open>A reader that succeeds on a slice succeeds with the same value on every extension of it.\<close>

definition rd_extends :: "'a rd \<Rightarrow> bool" where
  "rd_extends get \<longleftrightarrow>
     (\<forall>bs more pos x r'. get \<lparr>rd_bytes = bs, rd_pos = pos\<rparr> = Inr (x, r') \<longrightarrow>
        (\<exists>pos'. r' = \<lparr>rd_bytes = bs, rd_pos = pos'\<rparr> \<and>
          get \<lparr>rd_bytes = bs @ more, rd_pos = pos\<rparr> = Inr (x, \<lparr>rd_bytes = bs @ more, rd_pos = pos'\<rparr>)))"

lemma rd_extends_return: "rd_extends (rd_return x)"
  by (simp add: rd_extends_def)

lemma rd_extends_fail: "rd_extends (rd_fail e)"
  by (simp add: rd_extends_def)

lemma rd_extends_if: "rd_extends f \<Longrightarrow> rd_extends g \<Longrightarrow> rd_extends (if b then f else g)"
  by simp

lemma rd_extends_bind:
  assumes "rd_extends m" "\<And>x. rd_extends (f x)"
  shows "rd_extends (rd_bind m f)"
  unfolding rd_extends_def
proof (intro allI impI)
  fix bs more pos y r'
  assume "rd_bind m f \<lparr>rd_bytes = bs, rd_pos = pos\<rparr> = Inr (y, r')"
  then obtain x s where 1: "m \<lparr>rd_bytes = bs, rd_pos = pos\<rparr> = Inr (x, s)" and 2: "f x s = Inr (y, r')"
    by (auto simp: rd_bind_Ok)
  from assms(1) 1 obtain p where p: "s = \<lparr>rd_bytes = bs, rd_pos = p\<rparr>"
    "m \<lparr>rd_bytes = bs @ more, rd_pos = pos\<rparr> = Inr (x, \<lparr>rd_bytes = bs @ more, rd_pos = p\<rparr>)"
    unfolding rd_extends_def by blast
  from assms(2) [of x] 2 [unfolded p(1)] obtain q where "r' = \<lparr>rd_bytes = bs, rd_pos = q\<rparr>"
    "f x \<lparr>rd_bytes = bs @ more, rd_pos = p\<rparr> = Inr (y, \<lparr>rd_bytes = bs @ more, rd_pos = q\<rparr>)"
    unfolding rd_extends_def by blast
  with p show "\<exists>pos'. r' = \<lparr>rd_bytes = bs, rd_pos = pos'\<rparr> \<and>
      rd_bind m f \<lparr>rd_bytes = bs @ more, rd_pos = pos\<rparr> = Inr (y, \<lparr>rd_bytes = bs @ more, rd_pos = pos'\<rparr>)"
    by (simp add: rd_bind_eval)
qed

lemma rd_extends_map: "rd_extends m \<Longrightarrow> rd_extends (rd_map f m)"
  unfolding rd_map_def by (intro rd_extends_bind rd_extends_return)

lemma rd_extends_repeat: "rd_extends get \<Longrightarrow> rd_extends (rd_repeat n get)"
  by (induction n) (auto intro!: rd_extends_return rd_extends_bind rd_extends_map)

lemma rd_extends_prims: "rd_extends rd_u8" "rd_extends rd_u32"
proof -
  show "rd_extends rd_u8"
    by (auto simp: rd_extends_def rd_u8_def vec_get_def nth_append split: if_splits)
  have "rd_extends (rd_take 4 ''u32'')"
    by (auto simp: rd_extends_def rd_take_def slice_get_def split: if_splits)
  then show "rd_extends rd_u32"
    unfolding rd_u32_def by (rule rd_extends_map)
qed

lemma rd_extends_header: "rd_extends rd_header"
  unfolding rd_header_def rd_entry_def rd_pair_def
  by (intro rd_extends_bind rd_extends_if rd_extends_fail rd_extends_repeat rd_extends_map rd_extends_prims)

lemma run_reader_extends:
  assumes "rd_extends get" "run_reader get bs = Inr x"
  shows "run_reader get (bs @ ext) = Inr x"
proof -
  from assms(2) obtain r' where "get \<lparr>rd_bytes = bs, rd_pos = 0\<rparr> = Inr (x, r')"
    by (auto simp: run_reader_def reader_new_def)
  with assms(1) obtain pos' where
    "get \<lparr>rd_bytes = bs @ ext, rd_pos = 0\<rparr> = Inr (x, \<lparr>rd_bytes = bs @ ext, rd_pos = pos'\<rparr>)"
    unfolding rd_extends_def by blast
  then show ?thesis by (simp add: run_reader_def reader_new_def)
qed

lemma find_annot_end:
  assumes "length (encode m) < 2 ^ 32"
  shows "\<exists>off len. find_section TAG_ANNOT None (section_table 96 (sections m)) = Inr (Some (off, len)) \<and>
           off + len = length (encode m)"
proof -
  have s: "sections m = butlast (sections m) @ [(TAG_ANNOT, put_u32 0)]"
    by (simp add: sections_def)
  have ft: "find_section t None (section_table off (ss @ [(t, p)])) =
      Inr (Some (unat (off + word_of_nat (length (concat (map snd ss)))), unat (word_of_nat (length p) :: u32)))"
    if "t \<notin> fst ` set ss" for t off p and ss :: "(u32 \<times> u8 list) list"
    using that by (induction ss arbitrary: off) (auto simp: add.assoc)
  have len: "length (encode m) = 96 + length (concat (map snd (butlast (sections m)))) + 4"
    by (subst encode_eq, subst s) (simp add: length_encode_header)
  let ?k = "length (concat (map snd (butlast (sections m))))"
  have u: "unat (96 + word_of_nat ?k :: u32) = 96 + ?k"
    using assms len by (simp add: unat_word_ariths)
  have "TAG_ANNOT \<notin> fst ` set (butlast (sections m))"
    by (simp add: sections_def TAG_TYPES_def TAG_STRINGS_def TAG_CONSTS_def TAG_FUNCS_def
        TAG_CODE_def TAG_SPANS_def TAG_ANNOT_def)
  from ft [OF this, of 96 "put_u32 0"] u len show ?thesis
    by (simp flip: s)
qed

lemma decode_truncated:
  assumes "length (encode m) < 2 ^ 32" "k < length (encode m)"
  shows "\<exists>e. decode (take k (encode m)) = Inl e"
proof (rule ccontr)
  assume "\<nexists>e. decode (take k (encode m)) = Inl e"
  then obtain m' where "decode (take k (encode m)) = Inr m'"
    by (cases "decode (take k (encode m))") auto
  then obtain entries s where
    h: "run_reader rd_header (take k (encode m)) = Inr entries" and
    a: "get_section (take k (encode m)) entries TAG_ANNOT = Inr s"
    by (auto simp: decode_def)
  from h have "run_reader rd_header (take k (encode m) @ drop k (encode m)) = Inr entries"
    by (rule run_reader_extends [OF rd_extends_header])
  then have e: "entries = section_table 96 (sections m)"
    using run_header_encode [of m "[]"] by simp
  from find_annot_end [OF assms(1)] obtain off len where
    f: "find_section TAG_ANNOT None entries = Inr (Some (off, len))" "off + len = length (encode m)"
    by (auto simp: e)
  with a have "slice_get (take k (encode m)) off (off + len) \<noteq> None"
    by (auto simp: get_section_def split: option.splits)
  with f assms(2) show False
    by (auto simp: slice_get_def split: if_splits)
qed

end
