(* ===== verification/Lower_Modules.thy ===== *)
theory Lower_Modules
  imports Lower_Raise Codec
begin

text \<open>
  Raising undoes lowering, for whole modules: a body is written into its reserved record, a chunk
  becomes a good translation by induction over the chunks it nests, and the entry function of the
  sealed module raises to the resolved chunk that lowering promises.
\<close>

section \<open>Writing a body\<close>

definition writes_body :: "rstring \<Rightarrow> (rstring \<times> u16) list \<Rightarrow> (rt_value, rchunk) vm_op list list \<Rightarrow> span list \<Rightarrow>
    nat \<Rightarrow> module_ \<Rightarrow> (func_def \<Rightarrow> func_def) \<Rightarrow> bool" where
  "writes_body name slots groups spans k M upd \<longleftrightarrow> (\<forall>f. fd_params (upd f) = fd_params f \<and>
     rs_str M (fd_name (upd f)) = Ok name \<and>
     res_list (map (\<lambda>(n, s). res_bind (rs_str M n) (\<lambda>name. Ok (name, s))) (fd_toplevel_slots (upd f))) = Ok slots \<and>
     (length (fd_code (upd f)) < 2 ^ 32 \<longrightarrow>
        list_all2 (rep k M) (fd_code (upd f)) (map (retarget (\<lambda>t. offsets 0 groups ! t)) (concat groups)) \<and>
        fd_spans (upd f) = flat_spans spans 0 groups))"

lemma spec_lift_parts:
  assumes "lw_spec (expand_chunk sigs pool code) (\<lambda>k M gs. list_all2 (list_all2 (rep k M)) gs groups)"
  shows "lw_spec (lift_parts sigs code pool spans slots slot_types fornext_slots name arity)
    (writes_body name slots groups spans)"
proof -
  have flat: "lw_spec (lw_lift (remap_and_flatten gs spans)) (\<lambda>k M p. list_all2 (list_all2 (rep k M)) gs groups \<longrightarrow>
      length (fst p) < 2 ^ 32 \<longrightarrow>
      list_all2 (rep k M) (fst p) (map (retarget (\<lambda>t. offsets 0 groups ! t)) (concat groups)) \<and>
      snd p = flat_spans spans 0 groups)" for gs
    by (rule lw_spec_lift) (metis remap_and_flatten_rep prod.collapse)
  have unk: "lw_spec unknown (\<lambda>k M i. True)" by (simp add: unknown_def spec_intern_type del: intern_type.simps)
  have any: "lw_spec (lw_lift r) (\<lambda>k M x. True)" for r :: "(ir_error, 'x) result" by (rule lw_spec_lift) simp
  show ?thesis
    unfolding lift_parts_def case_prod_unfold
    by (rule lw_spec_bind [OF assms], rule lw_spec_bind [OF flat], rule lw_spec_bind [OF any],
        rule lw_spec_bind [OF spec_tagged [unfolded case_prod_unfold]], rule lw_spec_bind [OF unk],
        rule lw_spec_bind [OF spec_record_locals], rule lw_spec_bind [OF spec_intern], rule lw_spec_bind [OF any],
        rule lw_spec_return)
      (simp add: writes_body_def case_prod_unfold)
qed

section \<open>Chunks\<close>

text \<open>The record of a function in the finished module, given what was written into it.\<close>

lemma raise_record:
  assumes body: "same_body f (upd (reserved_func arity))" and f: "rs_func M i = Ok f" "func_ix i = b"
    and upd: "writes_body name slots groups spans (b + 1) M upd" and tables: "fits_tables M"
    and ns: "param_names M (fd_params f) ns"
  shows "raises_to b M i (RChunk (map (retarget (\<lambda>t. offsets 0 groups ! t)) (concat groups))
    (flat_spans spans 0 groups) ns slots)"
  unfolding raises_to_def
proof (intro allI impI)
  fix n seen assume room: "room b M n seen"
  from f have mem: "f \<in> set (m_funcs M)" "b < length (m_funcs M)" by (auto simp: rs_func_def split: option.splits)
  from room mem f have new: "i \<notin> set seen" and "0 < n" by (auto simp: room_def)
  then obtain n' where n: "n = Suc n'" by (cases n) auto
  from room f(2) have room': "room (b + 1) M n' (seen @ [i])" by (auto simp: room_def n less_Suc_eq)
  from mem(1) tables have "length (fd_code f) < 2 ^ 32" by (auto simp: fits_tables_def list_all_iff)
  with upd body have
    code: "list_all2 (rep (b + 1) M) (fd_code f) (map (retarget (\<lambda>t. offsets 0 groups ! t)) (concat groups))"
    and spans: "fd_spans f = flat_spans spans 0 groups"
    and slots: "res_list (map (\<lambda>(n, s). res_bind (rs_str M n) (\<lambda>name. Ok (name, s))) (fd_toplevel_slots f)) = Ok slots"
    by (auto simp: writes_body_def same_body_def)
  from raise_body_rep [OF code room' tables ns slots] show "\<exists>c. raise_func n M seen i = Ok c \<and>
      resolve_chunk c = RChunk (map (retarget (\<lambda>t. offsets 0 groups ! t)) (concat groups)) (flat_spans spans 0 groups) ns slots"
    by (simp add: n new f(1) spans)
qed

lemma lift_body_Ok:
  assumes "lift_body sigs code pool spans slots slot_types fornext_slots name arity l = Ok (i, l')"
  obtains upd l1 where
    "lift_parts sigs code pool spans slots slot_types fornext_slots name arity
       (l\<lparr>lw_funcs := lw_funcs l @ [reserved_func arity]\<rparr>) = Ok (upd, l1)"
    "i = FuncId (word_of_nat (func_count l))"
    "l' = l1\<lparr>lw_funcs := (lw_funcs l1)[func_ix i := upd (lw_funcs l1 ! func_ix i)]\<rparr>"
  using assms by (auto simp: lift_body_def Let_def lw_bind_Ok update_func_Ok lw_return_def)

lemma lift_parts_params:
  "lift_parts sigs code pool spans slots slot_types fornext_slots name arity l = Ok (upd, l') \<Longrightarrow>
     fd_params (upd f) = fd_params f"
  by (auto simp: lift_parts_def lw_bind_Ok lw_return_def)

lemma good_lift_body:
  assumes parts: "\<And>name arity. lw_spec (lift_parts sigs code pool spans slots slot_types fornext_slots name arity)
    (writes_body name slots groups spans)"
  shows "good_lift (lift_body sigs code pool spans slots slot_types fornext_slots)
    (\<lambda>ns. RChunk (map (retarget (\<lambda>t. offsets 0 groups ! t)) (concat groups)) (flat_spans spans 0 groups) ns slots)"
  unfolding good_lift_def
proof (intro allI impI)
  fix name arity l i l' assume "lift_body sigs code pool spans slots slot_types fornext_slots name arity l = Ok (i, l')"
  from this obtain upd l1 where upd: "lift_parts sigs code pool spans slots slot_types fornext_slots name arity
       (l\<lparr>lw_funcs := lw_funcs l @ [reserved_func arity]\<rparr>) = Ok (upd, l1)"
    and i: "i = FuncId (word_of_nat (func_count l))"
    and l': "l' = l1\<lparr>lw_funcs := (lw_funcs l1)[func_ix i := upd (lw_funcs l1 ! func_ix i)]\<rparr>" by (rule lift_body_Ok)
  let ?l = "l\<lparr>lw_funcs := lw_funcs l @ [reserved_func arity]\<rparr>"
  have lt: "func_count l < func_count l'" using lw_specD(1) [OF parts upd] by (simp add: l')
  have ix: "func_ix i = func_count l" and l1: "lw_funcs l1 ! func_count l = reserved_func arity"
    and own: "lw_funcs l' ! func_count l = upd (reserved_func arity)" and g: "grows l l'" if "func_count l' \<le> 2 ^ 32"
  proof -
    show ix: "func_ix i = func_count l" using i lt that by simp
    have g1: "grows ?l l1" using lw_specD(2) [OF parts upd] that by (simp add: l')
    from grows_func [OF g1, of "func_count l"] show "lw_funcs l1 ! func_count l = reserved_func arity" by simp
    with lt show "lw_funcs l' ! func_count l = upd (reserved_func arity)" by (simp add: l' ix)
    from g1 show "grows l l'" by (auto simp: l' ix grows_def prefix_nth nth_list_update nth_append)
  qed
  have "interned l' \<and> rs_str M (fd_name (m_funcs M ! func_count l)) = Ok name \<and>
      (\<forall>ns. param_names M (fd_params (m_funcs M ! func_count l)) ns \<longrightarrow> raises_to (func_count l) M i
        (RChunk (map (retarget (\<lambda>t. offsets 0 groups ! t)) (concat groups)) (flat_spans spans 0 groups) ns slots))"
    if M: "interned l" "covers_open M l l'" "fits_tables M" for M
  proof -
    from M have c: "func_count l' \<le> 2 ^ 32" by (simp add: covers_open_def fits_tables_def)
    have "covers M ?l l1" using M(2) by (auto simp: covers_open_def covers_def l' ix [OF c])
    from lw_specD(3) [OF parts upd _ this M(3), of "func_count l + 1"] M(1)
    have w: "interned l1" "writes_body name slots groups spans (func_count l + 1) M upd" by (auto simp: interned_def)
    have body: "same_body (m_funcs M ! func_count l) (upd (reserved_func arity))"
      using M(2) own [OF c] by (simp add: covers_open_def)
    have "func_count l < length (m_funcs M)" using M(2) lt by (simp add: covers_open_def)
    then have "rs_func M i = Ok (m_funcs M ! func_count l)" by (simp add: rs_func_def ix [OF c] vec_get_def)
    from raise_record [OF body this ix [OF c] w(2) M(3)] w body show ?thesis
      by (auto simp: l' interned_def writes_body_def same_body_def)
  qed
  with lt i g own show "func_count l < func_count l' \<and> i = FuncId (word_of_nat (func_count l)) \<and>
      (func_count l' \<le> 2 ^ 32 \<longrightarrow> grows l l' \<and> fd_params (lw_funcs l' ! func_count l) = []) \<and>
      (\<forall>M. interned l \<longrightarrow> covers_open M l l' \<longrightarrow> fits_tables M \<longrightarrow> interned l' \<and>
        rs_str M (fd_name (m_funcs M ! func_count l)) = Ok name \<and>
        (\<forall>ns. param_names M (fd_params (m_funcs M ! func_count l)) ns \<longrightarrow> raises_to (func_count l) M i
          (RChunk (map (retarget (\<lambda>t. offsets 0 groups ! t)) (concat groups)) (flat_spans spans 0 groups) ns slots)))"
    by (auto simp: lift_parts_params [OF upd] reserved_func_def)
qed

lemma good_lift_chunk: "plain_chunk c \<Longrightarrow> good_lift (lift_chunk sigs c) (target c)"
proof (induction c)
  case (VmChunk code pool params spans slots slot_types fornext_slots)
  have "good_chunks sigs (\<Union>i \<in> set code. set2_vm_op i)" using VmChunk.IH by (auto simp: good_chunks_def)
  moreover have "list_all plain_op (map (map_vm_op (pool_value pool) plain_chunk) code)" using VmChunk.prems by simp
  ultimately show ?case
    unfolding lift_chunk.simps target.simps Let_def
    by (intro good_lift_body spec_lift_parts spec_expand_chunk)
qed

section \<open>Modules\<close>

lemma spec_lower:
  assumes "plain_chunk c"
  shows "lw_spec (lw_bind (lift_chunk sigs c name arity) (\<lambda>i. lw_bind (seal_sig sigs i fname) (\<lambda>_. lw_return i)))
    (\<lambda>k M i. raises_to k M i (target c []))"
  by (rule spec_lift_open [OF good_lift_chunk [OF assms]], rule lw_open_bind [OF open_seal_sig], rule lw_open_return)
    (auto dest: lifted_bare)

lemma lower_typed_Ok:
  assumes "lower_typed c sigs = Ok m"
  obtains l where "lw_bind (lift_chunk sigs c (bytes ''main'') 0) (\<lambda>i. lw_bind (seal_sig sigs i None) (\<lambda>_. lw_return i))
      lowerer_new = Ok (m_entry m, l)"
    "m = \<lparr>m_types = lw_types l, m_strings = lw_strings l, m_consts = lw_consts l, m_funcs = lw_funcs l, m_entry = m_entry m\<rparr>"
    "verify m = Ok ()"
  using assms by (auto simp: lower_typed_def lw_bind_Ok lw_return_def Let_def)

lemma raise_lowered:
  assumes "lower_typed c sigs = Ok m" "plain_chunk c" "fits_tables m"
  shows "\<exists>c'. raise m = Ok c' \<and> resolve_chunk c' = target c []"
proof -
  from assms(1) obtain l where l: "lw_bind (lift_chunk sigs c (bytes ''main'') 0)
      (\<lambda>i. lw_bind (seal_sig sigs i None) (\<lambda>_. lw_return i)) lowerer_new = Ok (m_entry m, l)"
    and m: "m = \<lparr>m_types = lw_types l, m_strings = lw_strings l, m_consts = lw_consts l, m_funcs = lw_funcs l,
      m_entry = m_entry m\<rparr>" by (rule lower_typed_Ok)
  have "covers m lowerer_new l" by (subst m) (simp add: covers_def)
  from lw_specD(3) [OF spec_lower [OF assms(2)] l interned_new this assms(3), of 0]
  have "raises_to 0 m (m_entry m) (target c [])" by simp
  moreover have "room 0 m (length (m_funcs m) + 1) []" by (simp add: room_def)
  ultimately show ?thesis unfolding raises_to_def raise_def by blast
qed

lemma wf_module_fits: "wf_module m \<Longrightarrow> fits_tables m"
proof -
  assume m: "wf_module m"
  have "length (fd_code f) < 2 ^ 32" if "f \<in> set (m_funcs m)" for f
    using m that member_le_sum_list [of "length (fd_code f)" "map (\<lambda>f. length (fd_code f)) (m_funcs m)"]
    by (auto simp: wf_module_def)
  with m show "fits_tables m" by (auto simp: wf_module_def fits_tables_def list_all_iff)
qed

end
