(* ===== verification/Reload_Runs.thy ===== *)
theory Reload_Runs
  imports Vm_Desugar Lower_Modules
begin

text \<open>
  A chunk that was lowered and raised again runs like the original: the round trip gives the
  desugared code, and desugared code follows the original step by step.
\<close>

section \<open>Running like another chunk\<close>

definition chunk_look :: "vm_chunk \<Rightarrow> u32 \<Rightarrow> rt_value option" where
  "chunk_look c k = vec_get (vc_constants c) (unat k)"

text \<open>Where the instructions of a chunk start once it is desugared.\<close>

definition new_ip :: "vm_chunk \<Rightarrow> nat \<Rightarrow> nat" where
  "new_ip c t = offsets 0 (map (\<lambda>i. desugar_op (map_vm_op (pool_value (vc_constants c)) target i)) (vc_code c)) ! t"

definition targets_in_range :: "vm_chunk \<Rightarrow> bool" where
  "targets_in_range c \<longleftrightarrow> list_all (\<lambda>i. list_all (\<lambda>t. t \<le> length (vc_code c)) (op_targets i)) (vc_code c)"

text \<open>
  From every start and for every number of steps, \<open>c'\<close> reaches what \<open>c\<close> reaches, with addresses moved by
  \<open>f\<close>: the same stack, or an error with the same message. It takes at least as many steps, so it
  goes on for ever when \<open>c\<close> does. Environments are handles.
\<close>

definition runs_like :: "(nat \<Rightarrow> nat) \<Rightarrow> vm_chunk \<Rightarrow> vm_chunk \<Rightarrow> bool" where
  "runs_like f c c' \<longleftrightarrow> (\<forall>H base fidx n ip (fr :: nat vm_frame).
     loops_in (length (vc_code c)) fidx fr \<longrightarrow> ip \<le> length (vc_code c) \<longrightarrow>
     (case vm_steps n H base fidx (chunk_look c) (vc_code c) ip fr of
        Inl s \<Rightarrow> s = Panicked \<or>
          (\<exists>k s'. vm_steps k H base fidx (chunk_look c') (vc_code c') (f ip) (map_frame fidx f fr) = Err s' \<and> same_stop push_msg s s')
      | Inr (ip', fr') \<Rightarrow>
          \<exists>k \<ge> n. vm_steps k H base fidx (chunk_look c') (vc_code c') (f ip) (map_frame fidx f fr) = Ok (f ip', map_frame fidx f fr')))"

lemma resolved_runs:
  assumes "resolve_chunk c' = target c ns" "consts_in (vc_code c') {k. unat k < length (vc_constants c')}" "targets_in_range c"
  shows "runs_like (new_ip c) c c'"
proof (cases c)
  case (VmChunk code pool params spans slots slot_types fornext_slots)
  let ?g = "\<lambda>i. desugar_op (map_vm_op (pool_value pool) target i)"
  have f: "new_ip c = (\<lambda>t. offsets 0 (map ?g code) ! t)" by (auto simp: new_ip_def VmChunk)
  have "map (map_vm_op (pool_value (vc_constants c')) resolve_chunk) (vc_code c') = flatten_code (map ?g code)"
    using assms(1) by (cases c') (simp add: VmChunk flatten_code_def Let_def comp_def)
  note code' = this
  have look: "chunk_look c = (\<lambda>k. vec_get pool (unat k))" "chunk_look c' = (\<lambda>k. vec_get (vc_constants c') (unat k))"
    by (auto simp: chunk_look_def VmChunk)
  have targets: "list_all (\<lambda>i. list_all (\<lambda>t. t \<le> length code) (op_targets i)) code"
    using assms(3) by (simp add: targets_in_range_def VmChunk)
  have all: "list_all (\<lambda>i. True) code" by (simp add: list_all_iff)
  show ?thesis unfolding runs_like_def look
  proof (intro allI impI)
    fix H base fidx n ip and fr :: "nat vm_frame"
    assume "loops_in (length (vc_code c)) fidx fr" "ip \<le> length (vc_code c)"
    then have start: "loops_in (length code) fidx fr" "ip \<le> length code" by (simp_all add: VmChunk)
    show "case vm_steps n H base fidx (\<lambda>k. vec_get pool (unat k)) (vc_code c) ip fr of
        Inl s \<Rightarrow> s = Panicked \<or> (\<exists>k s'. vm_steps k H base fidx (\<lambda>k. vec_get (vc_constants c') (unat k)) (vc_code c')
          (new_ip c ip) (map_frame fidx (new_ip c) fr) = Err s' \<and> same_stop push_msg s s')
      | Inr (ip', fr') \<Rightarrow> \<exists>k \<ge> n. vm_steps k H base fidx (\<lambda>k. vec_get (vc_constants c') (unat k)) (vc_code c')
          (new_ip c ip) (map_frame fidx (new_ip c) fr) = Ok (new_ip c ip', map_frame fidx (new_ip c) fr')"
      using desugared.simulate_steps [OF all code' f targets start, unfolded vm_steps_resolved [OF assms(2)]]
      by (simp add: VmChunk)
  qed
qed

section \<open>Raised chunks find their constants\<close>

lemma pool_order_in:
  "pool_order m code acc = Ok order \<Longrightarrow> distinct acc \<Longrightarrow> \<forall>c \<in> set acc. const_ix c < length (m_consts m) \<Longrightarrow>
     distinct order \<and> (\<forall>c \<in> set order. const_ix c < length (m_consts m))"
proof (induction code arbitrary: acc)
  case (Cons i code)
  show ?case
  proof (cases "op_const i")
    case None
    with Cons show ?thesis by simp
  next
    case (Some c)
    with Cons.IH [of acc] Cons.IH [of "acc @ [c]"] Cons.prems show ?thesis by (simp split: if_splits)
  qed
qed simp

lemma raise_in_pool_consts:
  assumes "raise_in_pool m rec order i = Ok v" "length order \<le> 2 ^ 32"
  shows "set1_vm_op v \<subseteq> {k. unat k < length order}"
proof (cases "op_const i")
  case None
  with assms(1) no_const_op show ?thesis by (fastforce simp: raise_in_pool_def)
next
  case (Some c)
  with assms(1) obtain w k where w: "raise_op m rec i = Ok w" and k: "position (\<lambda>x. x = c) order = Some k"
    and v: "v = reindex (word_of_nat k) w" by (auto simp: raise_in_pool_def split: option.splits)
  have "unat (word_of_nat k :: u32) < length order" using position_SomeD [OF k] assms(2) by simp
  moreover have "(\<exists>j. w = VPushConst j) \<or> (\<exists>a j op. w = VSlotCmpConst a j op)"
    using w Some by (cases i) (auto simp: op_const_def)
  ultimately show ?thesis unfolding v by (auto simp: reindex_def)
qed

lemma res_list_mem: "res_list (map f xs) = Ok ys \<Longrightarrow> y \<in> set ys \<Longrightarrow> \<exists>x \<in> set xs. f x = Ok y"
  by (induction xs arbitrary: ys) auto

lemma raise_body_consts:
  assumes "raise_body m rec f = Ok c" "fits_tables m"
  shows "consts_in (vc_code c) {k. unat k < length (vc_constants c)}"
proof -
  from assms(1) obtain order constants code where
    order: "pool_order m (fd_code f) [] = Ok order" and cs: "res_list (map (raise_const m) order) = Ok constants"
    and code: "res_list (map (raise_in_pool m rec order) (fd_code f)) = Ok code"
    and c: "vc_code c = code" "vc_constants c = constants" by (auto simp: raise_body_def)
  from pool_order_in [OF order] have "distinct order" "\<forall>c \<in> set order. const_at m c \<noteq> None" by (auto simp: const_at_def)
  then have small: "length order \<le> 2 ^ 32" using pool_size assms(2) by blast
  have "length constants = length order" using res_list_length [OF cs] by simp
  with raise_in_pool_consts [OF _ small] res_list_mem [OF code] show ?thesis unfolding consts_in_def c by metis
qed

lemma raise_consts: "raise m = Ok c \<Longrightarrow> fits_tables m \<Longrightarrow> consts_in (vc_code c) {k. unat k < length (vc_constants c)}"
  using raise_body_consts by (auto simp: raise_def split: if_splits)

lemma reloaded_runs:
  assumes "lower_typed c sigs = Ok m" "plain_chunk c" "fits_tables m" "targets_in_range c"
  shows "\<exists>c'. raise m = Ok c' \<and> runs_like (new_ip c) c c'"
  using raise_lowered [OF assms(1-3)] raise_consts [OF _ assms(3)] resolved_runs [OF _ _ assms(4)] by blast

end
