(* ===== verification/Vm_Loops.thy ===== *)
theory Vm_Loops
  imports Vm_Machine
begin

text \<open>
  The loop instructions of the virtual machine: the in-place step of \<open>ForNext\<close> ends in the state of the
  generic step, a loop over an array binds each element once and in order, and what happens to a
  range whose last step leaves the 64 bits.
\<close>

section \<open>The in-place step\<close>

text \<open>
  A loop keeps its result value below \<open>[iterable, index, variable]\<close>, so the result is not among the
  topmost two values.
\<close>

definition loop_layout :: "'e vm_frame \<Rightarrow> bool" where
  "loop_layout fr \<longleftrightarrow> (fr_loops fr \<noteq> [] \<longrightarrow> li_stack_base (last (fr_loops fr)) + 3 \<le> length (fr_stack fr))"

lemma leave_loop_cut:
  assumes "loop_layout fr"
  shows "leave_loop exit (fr\<lparr>fr_stack := take (length (fr_stack fr) - 2) (fr_stack fr)\<rparr>) = leave_loop exit fr"
  using assms by (cases "fr_loops fr = []")
    (simp_all add: leave_loop_def vm_bind_def pop_loop_def vm_unwrap_def vm_stop_def vm_return_def vm_truncate_def
      vm_set_env_def vm_goto_def loop_layout_def min_def)

lemma for_fast_generic:
  "for_fast it i \<noteq> ForOther \<Longrightarrow> for_generic 1 it (VInt i) sp = (case for_fast it i of
     ForDone \<Rightarrow> Ok None | ForLive j v \<Rightarrow> Ok (Some (j, [v])) | _ \<Rightarrow> Err Panicked)"
  by (cases it) (auto simp: for_fast_def for_generic_def for_item_def)

lemma top_three:
  assumes "3 \<le> length st"
  shows "take (length st - 2) st @ [x, y] = st[length st - 2 := x, length st - 1 := y]"
proof (rule nth_equalityI)
  fix k assume "k < length (take (length st - 2) st @ [x, y])"
  with assms have "k < length st" by simp
  with assms show "(take (length st - 2) st @ [x, y]) ! k = st[length st - 2 := x, length st - 1 := y] ! k"
    by (auto simp: nth_append nth_list_update nth_Cons' split: if_splits)
qed (use assms in simp)

lemma for_next_in_place:
  assumes "loop_layout fr" "for_next_fast exit body fr = Some r"
  shows "for_next_generic 1 exit body sp fr = r"
proof -
  let ?st = "fr_stack fr" let ?n = "length ?st"
  from assms(2) obtain i where len: "3 \<le> ?n" and i: "?st ! (?n - 2) = VInt i" and it: "for_fast (?st ! (?n - 3)) i \<noteq> ForOther"
    and r: "r = (case for_fast (?st ! (?n - 3)) i of
        ForDone \<Rightarrow> leave_loop exit fr
      | ForLive j v \<Rightarrow> Ok (Some body, fr\<lparr>fr_stack := ?st[?n - 2 := VInt j, ?n - 1 := v]\<rparr>)
      | _ \<Rightarrow> Err Panicked)"
    by (auto simp: for_next_fast_def Let_def split: if_splits rt_value.splits for_step.splits)
  have ix: "?n - 1 - 2 = ?n - 3" "?n - 1 - 1 = ?n - 2" by simp_all
  have "for_next_generic 1 exit body sp fr = res_bind (for_generic 1 (?st ! (?n - 3)) (VInt i) sp) (\<lambda>r. case r of
      None \<Rightarrow> leave_loop exit (fr\<lparr>fr_stack := take (?n - 2) ?st\<rparr>)
    | Some (i, vs) \<Rightarrow> Ok (Some body, fr\<lparr>fr_stack := take (?n - 2) ?st @ VInt i # vs\<rparr>))"
  proof -
    have "\<not> ?n < 1 + 2" using len by simp
    then show ?thesis unfolding for_next_generic_def Let_def ix by (simp only: if_False i)
  qed
  with for_fast_generic [OF it] r show ?thesis
    by (simp add: leave_loop_cut [OF assms(1)] top_three [OF len] split: for_step.split)
qed

section \<open>Iterating\<close>

text \<open>The stack inside a loop over an array, about to look for element \<open>i\<close>.\<close>

definition at_element :: "rt_value list \<Rightarrow> rt_value list \<Rightarrow> nat \<Rightarrow> rt_value \<Rightarrow> 'e vm_frame \<Rightarrow> bool" where
  "at_element below arr i old fr \<longleftrightarrow> fr_stack fr = below @ [VArray arr, VInt (word_of_nat i), old]"

lemma index_sint: "n < 2 ^ 63 \<Longrightarrow> sint (word_of_nat n :: i64) = int n"
  by (simp add: signed_of_nat signed_take_bit_int_eq_self)

lemma for_next_fast_top:
  assumes "fr_stack fr = below @ [it, VInt i, old]"
  shows "for_next_fast exit body fr = (case for_fast it i of
      ForDone \<Rightarrow> Some (leave_loop exit fr)
    | ForLive j v \<Rightarrow> Some (Ok (Some body, fr\<lparr>fr_stack := below @ [it, VInt j, v]\<rparr>))
    | ForPanic \<Rightarrow> Some (Err Panicked)
    | ForOther \<Rightarrow> None)"
proof -
  let ?st = "below @ [it, VInt i, old]"
  have ix: "\<not> length ?st < 3" "?st ! (length ?st - 2) = VInt i" "?st ! (length ?st - 3) = it"
    by (simp_all add: nth_append)
  have up: "?st[length ?st - 2 := VInt j, length ?st - 1 := v] = below @ [it, VInt j, v]" for j v
    by (simp add: list_update_append)
  show ?thesis
    unfolding for_next_fast_def Let_def assms by (simp only: ix up if_False rt_value.case)
qed

lemma for_next_element:
  assumes "at_element below arr i old fr" "i < length arr" "length arr < 2 ^ 63"
  shows "\<exists>fr'. for_next [x] exit body sp fr = Ok (Some body, fr') \<and> at_element below arr (i + 1) (arr ! i) fr' \<and>
    fr_loops fr' = fr_loops fr \<and> fr_env fr' = fr_env fr"
proof -
  have ix: "sint (word_of_nat i :: i64) = int i" "unat (word_of_nat i :: i64) = i" "word_of_nat i + 1 = (word_of_nat (i + 1) :: i64)"
    using assms(2,3) by (simp_all add: index_sint unat_of_nat)
  have "for_fast (VArray arr) (word_of_nat i) = ForLive (word_of_nat (i + 1)) (arr ! i)"
    unfolding for_fast_def rt_value.case ix using assms(2) by simp
  with for_next_fast_top [OF assms(1) [unfolded at_element_def], of exit body] show ?thesis
    by (simp add: for_next_def at_element_def)
qed

lemma for_next_end:
  assumes "at_element below arr (length arr) old fr" "length arr < 2 ^ 63"
    "fr_loops fr = loops @ [li]" "li_stack_base li < length below"
  shows "for_next [x] exit body sp fr = Ok (Some exit, fr\<lparr>fr_stack := take (li_stack_base li + 1) below, fr_loops := loops, fr_env := li_env li\<rparr>)"
proof -
  have "sint (word_of_nat (length arr) :: i64) = int (length arr)" using assms(2) by (rule index_sint)
  then have "for_fast (VArray arr) (word_of_nat (length arr)) = ForDone"
    unfolding for_fast_def rt_value.case by (simp only:) simp
  with for_next_fast_top [OF assms(1) [unfolded at_element_def], of exit body] assms(3,4) assms(1) [unfolded at_element_def] show ?thesis
    by (simp add: for_next_def leave_loop_def vm_bind_def pop_loop_def vm_unwrap_def vm_return_def vm_truncate_def
        vm_set_env_def vm_goto_def)
qed

text \<open>The visits of a loop whose body leaves the frame as it found it.\<close>

primrec for_visits :: "nat \<Rightarrow> rstring \<Rightarrow> nat \<Rightarrow> nat \<Rightarrow> span \<Rightarrow> 'e vm_frame \<Rightarrow> rt_value list \<times> 'e vm_frame" where
  "for_visits 0 x exit body sp fr = ([], fr)"
| "for_visits (Suc n) x exit body sp fr = (case for_next [x] exit body sp fr of
       Inr (Some t, fr') \<Rightarrow>
         if t = body then (let (vs, fr'') = for_visits n x exit body sp fr' in (last (fr_stack fr') # vs, fr'')) else ([], fr')
     | _ \<Rightarrow> ([], fr))"

lemma for_visits_array:
  assumes "at_element below arr i old fr" "i \<le> length arr" "length arr < 2 ^ 63" "fr_loops fr = loops @ [li]"
    "li_stack_base li < length below" "exit \<noteq> body"
  shows "for_visits (length arr - i + 1) x exit body sp fr =
    (drop i arr, fr\<lparr>fr_stack := take (li_stack_base li + 1) below, fr_loops := loops, fr_env := li_env li\<rparr>)"
  using assms(1,2,4)
proof (induction "length arr - i" arbitrary: i old fr)
  case 0
  then show ?case using for_next_end [OF _ assms(3) _ assms(5), of old fr loops] assms(6) by simp
next
  case (Suc n)
  then have i: "i < length arr" by simp
  from for_next_element [OF Suc.prems(1) i assms(3)] obtain fr' where
    fr': "for_next [x] exit body sp fr = Ok (Some body, fr')" "at_element below arr (i + 1) (arr ! i) fr'"
    "fr_loops fr' = fr_loops fr" "fr_env fr' = fr_env fr" by blast
  from Suc.hyps(1) [OF _ fr'(2)] Suc.hyps(2) Suc.prems fr'(3) i
  have IH: "for_visits (length arr - (i + 1) + 1) x exit body sp fr' =
      (drop (i + 1) arr, fr'\<lparr>fr_stack := take (li_stack_base li + 1) below, fr_loops := loops, fr_env := li_env li\<rparr>)" by simp
  have len: "length arr - i + 1 = Suc (length arr - (i + 1) + 1)" using i by simp
  have top: "last (fr_stack fr') = arr ! i" using fr'(2) by (simp add: at_element_def)
  have "drop i arr = arr ! i # drop (i + 1) arr" using i by (simp add: Cons_nth_drop_Suc)
  then show ?case
    unfolding len for_visits.simps fr'(1) sum.case prod.case option.case Let_def IH top by simp
qed

section \<open>Ranges\<close>

definition i64_max :: i64 where
  "i64_max = 0x7FFFFFFFFFFFFFFF"

lemma range_leaves_64_bits:
  "for_fast (VRange 0 i64_max 2) (i64_max - 1) = ForLive (i64_max + 1) (VInt (i64_max - 1)) \<and> i64_max + 1 = i64_min"
  "map_option sint (value_len (VRange 0 i64_max 2)) = Some (- (2 ^ 62))"
  by (simp_all add: for_fast_def i64_max_def i64_min_def value_len_def range_len_def wrapping_div_def)

end
