(* ===== verification/Examples.thy ===== *)
theory Examples
  imports Codec Verify
begin

text \<open>
  Concrete modules the properties are tried on: one that returns a constant, one whose frame slots are
  out of range, and the code of a branch; with the definitions that evaluate the verifier.
\<close>

section \<open>A concrete module\<close>

definition demo_func :: func_def where
  "demo_func = \<lparr>fd_name = StrId 0, fd_arity = 0, fd_params = [],
     fd_sig = \<lparr>sig_params = [], sig_ret = TypeId 0\<rparr>, fd_locals = [], fd_vartab = [],
     fd_toplevel_slots = [], fd_code = [PushConst (ConstId 0), Return],
     fd_spans = [Span 0 1, Span 0 1], fd_max_stack = 1\<rparr>"

definition demo_module :: module_ where
  "demo_module = \<lparr>m_types = [TInt], m_strings = [[109, 97, 105, 110]], m_consts = [CInt 7],
     m_funcs = [demo_func], m_entry = FuncId 0\<rparr>"

lemma demo_wf: "wf_module demo_module"
  by (simp add: demo_module_def demo_func_def wf_module_def wf_func_def wf_func_rec_def wf_op_def
      wf_rstring_def)

lemma demo_length: "length (encode demo_module) < 2 ^ 32"
  by (simp add: encode_eq length_encode_header sections_def demo_module_def demo_func_def
      encode_types_def encode_strings_def encode_consts_def encode_funcs_def encode_code_def
      encode_spans_def code_ranges_def put_func_def put_vec_def put_str_def put_span_def encode_type_def
      encode_op_def put_str_id_def put_type_id_def put_const_id_def)

lemma demo_decode: "decode (encode demo_module) = Inr demo_module"
  using decode_encode_junk [OF demo_wf demo_length, of "[]"] by simp

lemmas verify_eval = verify_def verify_func_def check_consts_def bad_const_def check_type_entry_def
  type_string_def check_signature_def check_func_param_def check_op_def check_op_ids_def check_str_def
  check_locals_def maxref_of_def max_ref_def slot_extent_def max_slot_def op_slots_def check_param_slot_def
  check_vartab_def fornext_vars_def simulate_def sim_start_def sim_loop.simps sim_step_def Let_def
  depth_after_def is_pop_def is_swap_def falls_through_def record_exit_def flow_edge_def
  jump_targets_def edge_depth_def miss_pushback_def guard_def vec_get_def
  infer_func_def inf_start_def infer_loop.simps infer_step_def infer_edges_def infer_defs record_len_def
  merge_edge_def check_top_def check_return_def compatible_tv_def memo_get_def prim_ids_of_def prim_step_def
  tv_of_id_def expand_def nth_type_id_def name_index_def scan_prim_def type_pos_def opt_or_def
  compatible_expanded.simps is_shallow_wild_def union_members_def elem_pairs_def tuple_members_def
  declared_def need_slots_def pop_tv_def check_store_def is_take_store_def

lemma demo_verify: "verify demo_module = Inr ()"
  by (simp add: verify_eval demo_module_def demo_func_def)

definition slot_func :: func_def where
  "slot_func = \<lparr>fd_name = StrId 0, fd_arity = 0, fd_params = [],
     fd_sig = \<lparr>sig_params = [], sig_ret = TypeId 0\<rparr>, fd_locals = [TypeId 0], fd_vartab = [],
     fd_toplevel_slots = [],
     fd_code = [LoadSlot 0, Pop, IndexIntSlot 500 501 0, PushConst (ConstId 0), Return],
     fd_spans = [Span 0 1, Span 0 1, Span 0 1, Span 0 1, Span 0 1], fd_max_stack = 1\<rparr>"

definition slot_module :: module_ where
  "slot_module = \<lparr>m_types = [TInt], m_strings = [[109, 97, 105, 110]], m_consts = [CInt 7],
     m_funcs = [slot_func], m_entry = FuncId 0\<rparr>"

lemma slot_module_verify: "verify slot_module = Inr ()"
  by (simp add: verify_eval slot_module_def slot_func_def join_state_def join_tv_def)

definition loop_code :: "op list" where
  "loop_code = [PushConst (ConstId 0), JumpIfFalse 4, PushConst (ConstId 0), Jump 5, PushConst (ConstId 0), Return]"

end
