(* ===== verification/Lower_Examples.thy ===== *)
theory Lower_Examples
  imports Examples Lower_Modules
begin

text \<open>
  Concrete chunks: a program that defines a function and uses a fused instruction, and two programs on
  which raising does not undo lowering.
\<close>

section \<open>A program\<close>

definition demo_inner :: vm_chunk where
  "demo_inner = VmChunk [VCore (VTakeSlot 0), VCore VReturn] [] [] [Span 1 2, Span 2 3] [] [] []"

definition demo_chunk :: vm_chunk where
  "demo_chunk = VmChunk
     [VMakeFunc (bytes ''f'') [VmParam (bytes ''x'') None] demo_inner [], VCore (VDefineVar (bytes ''f'')),
      VPushConst 0, VCore VReturn]
     [VInt 7] [] [Span 0 1, Span 1 2, Span 2 3, Span 3 4] [] [] []"

lemmas lower_eval = lift_body_def lift_parts_def expand_chunk_def expand_op_def lift_function_def
  lw_bind_def lw_return_def lw_lift_def lw_fail_def remap_and_flatten_def Let_def lowerer_new_def bytes_def intern_def
  add_type_def unknown_def intern_const_def unit_const_def int_const_def lw_pair_def update_func_def owner_type_def
  lower_default_def lowered_sig_def seed_locals_def seal_sig_def pooled_def remap_target_def remap1_def
  remap_header_def remap_op_def op_span_def named_slots_def local_count_def reserved_func_def stack_bound_def
  max_stack_for_def lower_typed_def lower_def

lemmas module_eval = lower_eval verify_eval check_func_id_def join_state_def join_tv_def

lemmas raise_eval = raise_def raise_body_def raise_const_def raise_const_node_def rs_func_def op_const_def
  raise_in_pool_def reindex_def pool_value_def

definition demo_lowered :: module_ where
  "demo_lowered = \<lparr>m_types = [TUnknown], m_strings = [[102], [120], [109, 97, 105, 110]], m_consts = [CUnit, CInt 7],
     m_funcs =
       [\<lparr>fd_name = StrId 2, fd_arity = 0, fd_params = [], fd_sig = \<lparr>sig_params = [], sig_ret = TypeId 0\<rparr>,
          fd_locals = [], fd_vartab = [], fd_toplevel_slots = [],
          fd_code = [MakeFunc (FuncId 1), DefineVar (StrId 0), PushConst (ConstId 1), Return],
          fd_spans = [Span 0 1, Span 1 2, Span 2 3, Span 3 4], fd_max_stack = 2\<rparr>,
        \<lparr>fd_name = StrId 0, fd_arity = 1, fd_params = [\<lparr>param_name = StrId 1, param_default = None\<rparr>],
          fd_sig = \<lparr>sig_params = [TypeId 0], sig_ret = TypeId 0\<rparr>,
          fd_locals = [TypeId 0], fd_vartab = [], fd_toplevel_slots = [],
          fd_code = [LoadSlot 0, PushConst (ConstId 0), StoreSlot 0, Return],
          fd_spans = [Span 1 2, Span 1 2, Span 1 2, Span 2 3], fd_max_stack = 2\<rparr>],
     m_entry = FuncId 0\<rparr>"

lemma demo_lower: "lower_typed demo_chunk Map.empty = Ok demo_lowered"
  by (simp add: module_eval demo_chunk_def demo_inner_def demo_lowered_def)

lemma demo_plain: "plain_chunk demo_chunk"
  by (simp add: demo_chunk_def demo_inner_def plain_op_def plain_core_def core_targets_def core_patterns_def plain_params_def
     pool_value_def vec_get_def)

lemma demo_lowered_wf: "wf_module demo_lowered"
  by (simp add: demo_lowered_def wf_module_def wf_func_def wf_func_rec_def wf_op_def wf_rstring_def)

lemma demo_lowered_length: "length (encode demo_lowered) < 2 ^ 32"
  by (simp add: encode_eq length_encode_header sections_def demo_lowered_def
      encode_types_def encode_strings_def encode_consts_def encode_funcs_def encode_code_def
      encode_spans_def code_ranges_def put_func_def put_vec_def put_str_def put_span_def encode_type_def
      encode_op_def put_str_id_def put_type_id_def put_const_id_def put_func_id_def put_param_def)

section \<open>Constants that do not survive\<close>

definition shared_chunk :: vm_chunk where
  "shared_chunk = VmChunk [VPushConst 0, VCore VReturn] [VArray [VInt 1, VInt 1]] [] [Span 0 1, Span 0 1] [] [] []"

lemma shared_chunk_fails:
  "res_bind (lower shared_chunk) raise = Err (ir_error_new ''raise: cyclic const pool'')"
  by (simp add: module_eval shared_chunk_def raise_eval
      memo_set_def array_tv_def join_opt_def)

lemma shared_chunk_lowers: "\<exists>m. lower shared_chunk = Ok m \<and> verify m = Ok ()"
proof -
  have "\<exists>m. lower shared_chunk = Ok m"
    by (simp add: module_eval shared_chunk_def memo_set_def array_tv_def join_opt_def)
  then show ?thesis unfolding lower_def by (blast elim: lower_typed_Ok)
qed

definition zero_chunk :: vm_chunk where
  "zero_chunk = VmChunk [VPushConst 0, VCore VPop, VPushConst 1, VCore VReturn] [VFloat 0, VFloat neg_zero] []
     [Span 0 1, Span 0 1, Span 0 1, Span 0 1] [] [] []"

lemma zero_chunk_loses_sign:
  "\<exists>c. res_bind (lower zero_chunk) raise = Ok c \<and> rc_code (resolve_chunk c) ! 2 = VPushConst (VFloat 0) \<and>
     rc_code (resolve_chunk zero_chunk) ! 2 = VPushConst (VFloat neg_zero)"
  by (simp add: module_eval zero_chunk_def raise_eval f64_eq_zeros)

end
