(* ===== verification/Vm_Examples.thy ===== *)
theory Vm_Examples
  imports Reload_Runs Vm_Loops Lower_Examples
begin

text \<open>
  Concrete values and frames of the machine: a host whose float arithmetic rounds everything to zero,
  an object with a field, a frame inside a loop over an array, a dictionary with an index.
\<close>

definition demo_host :: host where
  "demo_host = \<lparr>f_add = (\<lambda>_ _. 0), f_sub = (\<lambda>_ _. 0), f_mul = (\<lambda>_ _. 0), f_div = (\<lambda>_ _. 0), f_rem = (\<lambda>_ _. 0),
     f_pow = (\<lambda>_ _. 0), f_of_int = (\<lambda>_. 0), h_same = (\<lambda>_ i j. i = j), h_show = (\<lambda>_. ''value''),
     h_request = (\<lambda>_ _. None)\<rparr>"

definition demo_object :: rt_value where
  "demo_object = VObject (bytes ''P'') [(bytes ''x'', VInt 1), (bytes ''y'', VInt 2)]"

lemma demo_write:
  "set_object_field demo_host demo_object (bytes ''y'') (VInt 5) (Span 0 1) =
     Ok (VObject (bytes ''P'') [(bytes ''x'', VInt 1), (bytes ''y'', VInt 5)])"
  by (simp add: set_object_field_def demo_object_def MAX_EMBED_DEPTH_def bytes_def numeral_eq_Suc)

definition demo_frame :: "nat vm_frame" where
  "demo_frame = \<lparr>fr_stack = [VUnit, VUnit, VArray [VInt 10, VInt 20], VInt 0, VUnit],
     fr_loops = [\<lparr>li_exit = 9, li_header = 3, li_env = 0, li_frame_idx = 0, li_stack_base = 1, li_slots = 3\<rparr>], fr_env = 0\<rparr>"

lemma demo_layout: "loop_layout demo_frame"
  by (simp add: loop_layout_def demo_frame_def)

lemma demo_step:
  "for_next_fast 9 4 demo_frame =
     Some (Ok (Some 4, demo_frame\<lparr>fr_stack := [VUnit, VUnit, VArray [VInt 10, VInt 20], VInt 1, VInt 10]\<rparr>))"
  by (simp add: for_next_fast_def demo_frame_def for_fast_def Let_def)

lemma demo_element:
  "at_element [VUnit, VUnit] [VInt 10, VInt 20] 0 VUnit demo_frame" "fr_loops demo_frame = [] @ [last (fr_loops demo_frame)]"
  "li_stack_base (last (fr_loops demo_frame)) < length [VUnit, VUnit]" "li_env (last (fr_loops demo_frame)) = 0"
  "take (li_stack_base (last (fr_loops demo_frame)) + 1) [VUnit, VUnit] = [VUnit, VUnit]"
  by (simp_all add: demo_frame_def at_element_def)

definition demo_dict :: dict_data where
  "demo_dict = from_entries [(VInt 1, VUnit), (VInt 2, VBool True)]"

lemma demo_dict_ok: "dict_ok demo_dict"
  unfolding demo_dict_def by (rule from_entries_ok)

lemma demo_dict_entries: "dd_entries demo_dict = [(VInt 1, VUnit), (VInt 2, VBool True)]"
  by (simp add: demo_dict_def from_entries_def DICT_INDEX_THRESHOLD_def Let_def)

lemma demo_targets: "targets_in_range demo_chunk"
  by (simp add: targets_in_range_def demo_chunk_def op_targets_def core_targets_def)

end
