(* ===== verification/Fused.thy ===== *)
theory Fused
  imports Raise
begin

text \<open>
  The two passes that give a lowered module the shape the C back end expects
  (\<open>crates/zz_ir/src/lower.rs\<close>): \<open>expand_fused\<close> writes the fused slot instructions out, \<open>derotate_loops\<close> moves
  the test of a \<open>for\<close> loop from the end of its body to the front. Both return the module itself when there
  is nothing to do.
\<close>

section \<open>Expansion of fused instructions\<close>

fun is_fused_slot_op :: "op \<Rightarrow> bool" where
  "is_fused_slot_op (SlotAddInt _ _) = True"
| "is_fused_slot_op (SlotInc _) = True"
| "is_fused_slot_op (SlotAddIntImm _ _) = True"
| "is_fused_slot_op (SlotSubIntImm _ _) = True"
| "is_fused_slot_op (SlotMulIntImm _ _) = True"
| "is_fused_slot_op (SlotLessIntSlot _ _) = True"
| "is_fused_slot_op (SlotLessIntImm _ _) = True"
| "is_fused_slot_op (SlotCmpIntSlot _ _ _) = True"
| "is_fused_slot_op (SlotCmpIntImm _ _ _) = True"
| "is_fused_slot_op (SlotCmpConst _ _ _) = True"
| "is_fused_slot_op (SlotBinaryInt _ _ _ _) = True"
| "is_fused_slot_op (SlotBinaryIntImm _ _ _ _) = True"
| "is_fused_slot_op (PushSlotIntImm _ _ _) = True"
| "is_fused_slot_op (JumpIfFalseSlotCmpIntImm _ _ _ _) = True"
| "is_fused_slot_op (JumpIfFalseSlotCmpIntSlot _ _ _ _) = True"
| "is_fused_slot_op _ = False"

definition intern_int :: "const list \<Rightarrow> i64 \<Rightarrow> const_id \<times> const list" where
  "intern_int consts i = (case position (\<lambda>e. const_eq e (CInt i)) consts of
       Some p \<Rightarrow> (ConstId (word_of_nat p), consts)
     | None \<Rightarrow> (ConstId (word_of_nat (length consts)), consts @ [CInt i]))"

definition with_int :: "const list \<Rightarrow> i64 \<Rightarrow> (const_id \<Rightarrow> op list) \<Rightarrow> op list \<times> const list" where
  "with_int consts imm f = (let (c, consts') = intern_int consts imm in (f c, consts'))"

definition expand_group :: "op \<Rightarrow> const list \<Rightarrow> op list \<times> const list" where
  "expand_group i consts = (case i of
       SlotAddInt dst src \<Rightarrow> ([LoadSlot dst, LoadSlot src, BinOp BAdd, StoreSlot dst], consts)
     | SlotInc slot \<Rightarrow> with_int consts 1 (\<lambda>one. [LoadSlot slot, PushConst one, BinOp BAdd, StoreSlot slot])
     | SlotAddIntImm dst imm \<Rightarrow> with_int consts imm (\<lambda>c. [LoadSlot dst, PushConst c, BinOp BAdd, StoreSlot dst])
     | SlotSubIntImm dst imm \<Rightarrow> with_int consts imm (\<lambda>c. [LoadSlot dst, PushConst c, BinOp BSub, StoreSlot dst])
     | SlotMulIntImm dst imm \<Rightarrow> with_int consts imm (\<lambda>c. [LoadSlot dst, PushConst c, BinOp BMul, StoreSlot dst])
     | SlotLessIntSlot a b \<Rightarrow> ([LoadSlot a, LoadSlot b, BinOp BLt], consts)
     | SlotLessIntImm a imm \<Rightarrow> with_int consts imm (\<lambda>c. [LoadSlot a, PushConst c, BinOp BLt])
     | SlotCmpIntSlot a b bop \<Rightarrow> ([LoadSlot a, LoadSlot b, BinOp bop], consts)
     | SlotCmpIntImm a imm bop \<Rightarrow> with_int consts imm (\<lambda>c. [LoadSlot a, PushConst c, BinOp bop])
     | SlotCmpConst a k bop \<Rightarrow> ([LoadSlot a, PushConst k, BinOp bop], consts)
     | SlotBinaryInt dst lhs rhs bop \<Rightarrow> ([LoadSlot lhs, LoadSlot rhs, BinOp bop, StoreSlot dst], consts)
     | SlotBinaryIntImm dst lhs imm bop \<Rightarrow> with_int consts imm (\<lambda>c. [LoadSlot lhs, PushConst c, BinOp bop, StoreSlot dst])
     | PushSlotIntImm a imm bop \<Rightarrow> with_int consts imm (\<lambda>c. [LoadSlot a, PushConst c, BinOp bop])
     | JumpIfFalseSlotCmpIntImm a imm bop t \<Rightarrow> with_int consts imm (\<lambda>c. [LoadSlot a, PushConst c, BinOp bop, JumpIfFalse t])
     | JumpIfFalseSlotCmpIntSlot a b bop t \<Rightarrow> ([LoadSlot a, LoadSlot b, BinOp bop, JumpIfFalse t], consts)
     | _ \<Rightarrow> ([i], consts))"

primrec expand_groups :: "op list \<Rightarrow> const list \<Rightarrow> op list list \<times> const list" where
  "expand_groups [] consts = ([], consts)"
| "expand_groups (i # is) consts =
     (let (g, consts') = expand_group i consts; (gs, consts'') = expand_groups is consts' in (g # gs, consts''))"

definition expand_fused_func :: "func_def \<Rightarrow> const list \<Rightarrow> (ir_error, func_def \<times> const list) result" where
  "expand_fused_func f consts =
     (if \<not> list_ex is_fused_slot_op (fd_code f) then Ok (f, consts)
      else (let (groups, consts') = expand_groups (fd_code f) consts in
        res_bind (remap_and_flatten groups (fd_spans f)) (\<lambda>(nc, ns).
        res_bind (max_stack_for nc) (\<lambda>max_stack.
        Ok (f\<lparr>fd_code := nc, fd_spans := ns, fd_max_stack := max_stack\<rparr>, consts')))))"

definition expand_fused :: "module_ \<Rightarrow> (ir_error, module_) result" where
  "expand_fused m =
     (if \<not> list_ex (\<lambda>f. list_ex is_fused_slot_op (fd_code f)) (m_funcs m) then Ok m
      else res_bind (res_thread expand_fused_func (m_funcs m) (m_consts m)) (\<lambda>(fs, cs).
        Ok (m\<lparr>m_consts := cs, m_funcs := fs\<rparr>)))"

section \<open>Loops with the test in front\<close>

text \<open>Some loop of the function jumps back into its body.\<close>

definition is_rotated :: "func_def \<Rightarrow> bool" where
  "is_rotated f = list_ex (\<lambda>(pc, i). case i of ForNext _ _ body _ \<Rightarrow> unat body \<le> pc | _ \<Rightarrow> False)
     (zip [0..<length (fd_code f)] (fd_code f))"

text \<open>The entry of a rotated loop: the jump to its test in front of the body.\<close>

definition entry_jump :: "op list \<Rightarrow> nat \<Rightarrow> nat \<Rightarrow> nat option" where
  "entry_jump code pc body = (if body = 0 then None
     else (case vec_get code (body - 1) of
         Some (Jump t) \<Rightarrow> if unat t = pc then Some (body - 1) else None
       | _ \<Rightarrow> None))"

text \<open>The rotated loop whose test is at \<open>pc\<close>, as the position of its entry jump and of its test.\<close>

definition rotated_loop :: "op list \<Rightarrow> nat \<Rightarrow> (ir_error, (nat \<times> nat) option) result" where
  "rotated_loop code pc = (case vec_get code pc of
       Some (ForNext _ _ body _) \<Rightarrow>
         (let b = unat body in
          if b = pc + 1 then Ok None
          else if b > pc then Err (ir_error_new
            (''cannot derotate loop: `ForNext` at '' @ show_nat pc @ '' has a forward body '' @ show_nat b))
          else (case entry_jump code pc b of
              Some e \<Rightarrow> Ok (Some (e, pc))
            | None \<Rightarrow> Err (ir_error_new
                (''cannot derotate loop: `ForNext` at '' @ show_nat pc @ '' has body '' @ show_nat b @ '' but no entry `Jump`''))))
     | _ \<Rightarrow> Ok None)"

definition rotated_loops :: "op list \<Rightarrow> (ir_error, (nat \<times> nat) list) result" where
  "rotated_loops code = res_bind (res_list (map (rotated_loop code) [0..<length code])) (\<lambda>found.
     Ok (List.map_filter (\<lambda>x. x) found))"

definition derotate_map :: "nat \<Rightarrow> (nat \<times> nat) list \<Rightarrow> u32 list" where
  "derotate_map n swaps = fold (\<lambda>(entry, check) m. m[check := word_of_nat entry]) swaps (map word_of_nat [0..<Suc n])"

definition swap_ops :: "(nat \<times> nat) list \<Rightarrow> op list \<Rightarrow> op list" where
  "swap_ops swaps code = fold (\<lambda>(entry, check) c. c[check := Jump (word_of_nat entry), entry := c ! check]) swaps code"

definition move_target :: "u32 list \<Rightarrow> u32 \<Rightarrow> (ir_error, u32) result" where
  "move_target m t = (case vec_get m (unat t) of
       None \<Rightarrow> Err (ir_error_new ''derotate: jump target out of range'')
     | Some t' \<Rightarrow> Ok t')"

definition retarget_in_place :: "u32 list \<Rightarrow> op \<Rightarrow> (ir_error, op) result" where
  "retarget_in_place m i =
     (let one = (\<lambda>t f. res_bind (move_target m t) (\<lambda>t'. Ok (f t')));
          two = (\<lambda>s t f. res_bind (move_target m s) (\<lambda>s'. res_bind (move_target m t) (\<lambda>t'. Ok (f s' t')))) in
      case i of
       Jump t \<Rightarrow> one t Jump
     | JumpIfFalse t \<Rightarrow> one t JumpIfFalse
     | JumpIfTrue t \<Rightarrow> one t JumpIfTrue
     | JumpIfFalseBool t \<Rightarrow> one t JumpIfFalseBool
     | ForSetup exit header n \<Rightarrow> two exit header (\<lambda>e h. ForSetup e h n)
     | ForNext vars exit body in_env \<Rightarrow> two exit body (\<lambda>e b. ForNext vars e b in_env)
     | WhileSetup exit header \<Rightarrow> two exit header WhileSetup
     | JumpIfFalseSlotCmpIntImm a imm bop t \<Rightarrow> one t (JumpIfFalseSlotCmpIntImm a imm bop)
     | JumpIfFalseSlotCmpIntSlot a b bop t \<Rightarrow> one t (JumpIfFalseSlotCmpIntSlot a b bop)
     | WhileCond t \<Rightarrow> one t WhileCond
     | MatchArm p t has_env restore \<Rightarrow> one t (\<lambda>t'. MatchArm p t' has_env restore)
     | MatchGuard t has_env \<Rightarrow> one t (\<lambda>t'. MatchGuard t' has_env)
     | IfLetMatch p t has_env \<Rightarrow> one t (\<lambda>t'. IfLetMatch p t' has_env)
     | _ \<Rightarrow> Ok i)"

text \<open>A moved test falls through into the body.\<close>

definition fall_through :: "(nat \<times> nat) list \<Rightarrow> op list \<Rightarrow> op list" where
  "fall_through swaps code = fold (\<lambda>(entry, _) c. case c ! entry of
       ForNext vars exit _ in_env \<Rightarrow> c[entry := ForNext vars exit (word_of_nat entry + 1) in_env]
     | _ \<Rightarrow> c) swaps code"

definition fornext_pcs :: "op list \<Rightarrow> nat list" where
  "fornext_pcs code = filter (\<lambda>pc. fornext_vars (code ! pc) \<noteq> None) [0..<length code]"

text \<open>The table of loop variables follows the tests.\<close>

definition move_vartab :: "u32 list \<Rightarrow> nat list \<Rightarrow> 'a list \<Rightarrow> 'a list" where
  "move_vartab m pcs vartab = map (\<lambda>i. vartab ! i) (sort_key (\<lambda>i. m ! (pcs ! i)) [0..<length pcs])"

definition derotate_func :: "func_def \<Rightarrow> (ir_error, func_def) result" where
  "derotate_func f =
     res_bind (rotated_loops (fd_code f)) (\<lambda>swaps.
     if swaps = [] then Ok f
     else (let pcs = fornext_pcs (fd_code f); m = derotate_map (length (fd_code f)) swaps in
       if length (fd_vartab f) \<noteq> length pcs
       then Err (ir_error_new ''cannot derotate loop: vartab length does not match `ForNext` count'')
       else res_bind (res_list (map (retarget_in_place m) (swap_ops swaps (fd_code f)))) (\<lambda>code.
         Ok (f\<lparr>fd_code := fall_through swaps code, fd_vartab := move_vartab m pcs (fd_vartab f)\<rparr>))))"

definition derotate_loops :: "module_ \<Rightarrow> (ir_error, module_) result" where
  "derotate_loops m =
     (if \<not> list_ex is_rotated (m_funcs m) then Ok m
      else res_bind (res_list (map derotate_func (m_funcs m))) (\<lambda>fs. Ok (m\<lparr>m_funcs := fs\<rparr>)))"

end
