(* ===== verification/Code_Pass.thy ===== *)
theory Code_Pass
  imports Fused Reload_Runs
begin

text \<open>
  Passes over the code of a lowered module. Raising a function gives code in which every instruction
  names its constant by value (\<open>chunk_code\<close>); the locale \<open>code_pass\<close> is the contract of a pass that
  rewrites function bodies, and under it a module that can be raised can still be raised after the
  pass, to code that is related as the pass promises.
\<close>

section \<open>Raised code\<close>

definition ir_op :: "module_ \<Rightarrow> func_raiser \<Rightarrow> op \<Rightarrow> (rt_value, unit) vm_op option" where
  "ir_op m rec i = (case raise_op m rec i of
       Inl _ \<Rightarrow> None
     | Inr v \<Rightarrow> Some (map_vm_op (\<lambda>_. const_value m i) (\<lambda>_. ()) v))"

definition raised_code :: "module_ \<Rightarrow> func_raiser \<Rightarrow> op list \<Rightarrow> (rt_value, unit) vm_op list \<Rightarrow> bool" where
  "raised_code m rec = list_all2 (\<lambda>i r. ir_op m rec i = Some r \<and> has_const m i)"

definition chunk_code :: "vm_chunk \<Rightarrow> (rt_value, unit) vm_op list" where
  "chunk_code c = map (map_vm_op (pool_value (vc_constants c)) (\<lambda>_. ())) (vc_code c)"

lemma raise_const_in: "raise_const m c = Ok v \<Longrightarrow> const_at m c \<noteq> None"
  by (cases "const_ix c < length (m_consts m)") (auto simp: raise_const_def const_at_def vec_get_def)

lemma res_list_nth: "res_list (map f xs) = Ok ys \<Longrightarrow> i < length xs \<Longrightarrow> f (xs ! i) = Ok (ys ! i)"
proof (induction xs arbitrary: ys i)
  case (Cons x xs)
  then show ?case by (cases i) auto
qed simp

lemma raise_in_pool_ir:
  assumes v: "raise_in_pool m rec order i = Ok v" and cs: "res_list (map (raise_const m) order) = Ok constants"
    and small: "length order \<le> 2 ^ 32"
  shows "ir_op m rec i = Some (map_vm_op (pool_value constants) (\<lambda>_. ()) v) \<and> has_const m i"
proof (cases "op_const i")
  case None
  with v have r: "raise_op m rec i = Ok v" by (simp add: raise_in_pool_def)
  from no_const_op [OF r None] have "map_vm_op (\<lambda>_. const_value m i) (\<lambda>_. ()) v = map_vm_op (pool_value constants) (\<lambda>_. ()) v"
    by (intro vm_op.map_cong) auto
  with r None show ?thesis by (simp add: ir_op_def has_const_def)
next
  case (Some c)
  with v obtain w k where w: "raise_op m rec i = Ok w" and k: "position (\<lambda>x. x = c) order = Some k"
    and v': "v = reindex (word_of_nat k) w" by (auto simp: raise_in_pool_def split: option.splits)
  from position_SomeD [OF k] have k': "k < length order" "order ! k = c" by simp_all
  from res_list_nth [OF cs k'(1)] k'(2) have c: "raise_const m c = Ok (constants ! k)" by simp
  have "length constants = length order" using res_list_length [OF cs] by simp
  with k' small c Some have "pool_value constants (word_of_nat k) = const_value m i"
    by (simp add: pool_value_def vec_get_def const_value_def)
  with w Some c raise_const_in [OF c] show ?thesis unfolding v'
    by (cases i) (auto simp: ir_op_def has_const_def op_const_def reindex_def)
qed

lemma raise_code_ir:
  assumes "res_list (map (raise_in_pool m rec order) is) = Ok code" "res_list (map (raise_const m) order) = Ok constants"
    "length order \<le> 2 ^ 32"
  shows "raised_code m rec is (map (map_vm_op (pool_value constants) (\<lambda>_. ())) code)"
  using assms(1) raise_in_pool_ir [OF _ assms(2,3)]
  by (induction "is" arbitrary: code) (auto simp: raised_code_def)

lemma raise_body_parts:
  assumes "raise_body m rec f = Ok c"
  obtains order params slots where
    "pool_order m (fd_code f) [] = Ok order" "res_list (map (raise_const m) order) = Ok (vc_constants c)"
    "res_list (map (raise_in_pool m rec order) (fd_code f)) = Ok (vc_code c)"
    "res_list (map (\<lambda>p. res_bind (rs_str m (param_name p)) (\<lambda>n. Ok (VmParam n None))) (fd_params f)) = Ok (params :: vm_chunk vm_param list)"
    "res_list (map (\<lambda>(n, s). res_bind (rs_str m n) (\<lambda>name. Ok (name, s))) (fd_toplevel_slots f)) = Ok slots"
  using assms by (auto simp: raise_body_def)

lemma raise_body_code:
  assumes "raise_body m rec f = Ok c" "fits_tables m"
  shows "raised_code m rec (fd_code f) (chunk_code c)"
proof -
  from raise_body_parts [OF assms(1)] obtain order where
    order: "pool_order m (fd_code f) [] = Ok order" and cs: "res_list (map (raise_const m) order) = Ok (vc_constants c)"
    and code: "res_list (map (raise_in_pool m rec order) (fd_code f)) = Ok (vc_code c)" .
  from pool_order_in [OF order] have "distinct order" "\<forall>c \<in> set order. const_at m c \<noteq> None" by (auto simp: const_at_def)
  then have "length order \<le> 2 ^ 32" using pool_size assms(2) by blast
  from raise_code_ir [OF code cs this] show ?thesis by (simp add: chunk_code_def)
qed

text \<open>Conversely, code whose instructions can be raised makes a chunk.\<close>

lemma raise_in_pool_Ok:
  assumes "ir_op m rec i \<noteq> None" "\<And>c. op_const i = Some c \<Longrightarrow> c \<in> set order"
  shows "\<exists>v. raise_in_pool m rec order i = Ok v"
proof (cases "op_const i")
  case None
  with assms(1) show ?thesis by (auto simp: ir_op_def raise_in_pool_def split: sum.splits)
next
  case (Some c)
  from position_mem [OF assms(2) [OF Some]] obtain j where "position (\<lambda>x. x = c) order = Some j" by blast
  with assms(1) Some show ?thesis by (auto simp: ir_op_def raise_in_pool_def split: sum.splits)
qed

lemma res_list_total: "(\<And>x. x \<in> set xs \<Longrightarrow> \<exists>y. f x = Ok y) \<Longrightarrow> \<exists>ys. res_list (map f xs) = Ok ys"
proof (induction xs)
  case (Cons x xs)
  from Cons.prems [of x] Cons.IH Cons.prems show ?case by fastforce
qed simp

lemma raise_body_total:
  fixes rec :: func_raiser
  assumes "raised_code m rec (fd_code f) rs"
    "res_list (map (\<lambda>p. res_bind (rs_str m (param_name p)) (\<lambda>n. Ok (VmParam n None))) (fd_params f)) = Ok (params :: vm_chunk vm_param list)"
    "res_list (map (\<lambda>(n, s). res_bind (rs_str m n) (\<lambda>name. Ok (name, s))) (fd_toplevel_slots f)) = Ok slots"
  shows "\<exists>c. raise_body m rec f = Ok c"
proof -
  from assms(1) have ir: "ir_op m rec i \<noteq> None" and has: "has_const m i" if "i \<in> set (fd_code f)" for i
    using that by (auto simp: raised_code_def list_all2_conv_all_nth in_set_conv_nth)
  from pool_order_Ok [of "fd_code f" m "[]"] has obtain order where order: "pool_order m (fd_code f) [] = Ok order"
    "set order = {c. \<exists>i \<in> set (fd_code f). op_const i = Some c}" by auto
  have "\<exists>vs. res_list (map (raise_in_pool m rec order) (fd_code f)) = Ok vs"
    using raise_in_pool_Ok [OF ir] order(2) by (intro res_list_total) blast
  moreover have "\<exists>vs. res_list (map (raise_const m) order) = Ok vs"
    using order(2) has by (intro res_list_total) (auto simp: has_const_def)
  ultimately show ?thesis using order(1) assms(2,3) by (auto simp: raise_body_def)
qed

section \<open>Modules that extend another\<close>

text \<open>
  What a pass over function bodies keeps: strings, the constants a body may refer to, and of every
  function its name, parameters and named slots.
\<close>

definition same_head :: "func_def \<Rightarrow> func_def \<Rightarrow> bool" where
  "same_head f f' \<longleftrightarrow> fd_name f' = fd_name f \<and> fd_params f' = fd_params f \<and> fd_toplevel_slots f' = fd_toplevel_slots f"

definition extends :: "module_ \<Rightarrow> module_ \<Rightarrow> bool" where
  "extends m m' \<longleftrightarrow> m_strings m' = m_strings m \<and> m_entry m' = m_entry m \<and> prefix (m_consts m) (m_consts m') \<and>
     list_all2 same_head (m_funcs m) (m_funcs m')"

lemma rs_str_extends: "extends m m' \<Longrightarrow> rs_str m' = rs_str m"
  by (simp add: fun_eq_iff rs_str_def extends_def)

lemma rs_strs_extends: "extends m m' \<Longrightarrow> rs_strs m' = rs_strs m"
  by (simp add: fun_eq_iff rs_strs_def rs_str_extends)

lemma const_at_extends: "extends m m' \<Longrightarrow> const_at m c = Some x \<Longrightarrow> const_at m' c = Some x"
  unfolding extends_def const_at_def by (metis vec_get_prefix)

lemma res_thread_mono:
  "(\<And>x s r. f x s = Ok r \<Longrightarrow> f' x s = Ok r) \<Longrightarrow> res_thread f xs s = Ok r \<Longrightarrow> res_thread f' xs s = Ok r"
proof (induction xs arbitrary: s r)
  case (Cons x xs)
  then show ?case by (fastforce simp: case_prod_unfold)
qed simp

lemma raise_const_node_mono:
  assumes "\<And>j s r. rec j s = Ok r \<Longrightarrow> rec' j s = Ok r" "extends m m'" "raise_const_node m rec c seen = Ok r"
  shows "raise_const_node m' rec' c seen = Ok r"
proof (cases c)
  case (CArray items)
  with assms(3) show ?thesis
    using res_thread_mono [of rec rec', OF assms(1)] by (fastforce simp: raise_const_node_def case_prod_unfold)
next
  case (CDict pairs)
  let ?f = "\<lambda>rec :: const_raiser. \<lambda>(k, v) s. res_bind (rec k s) (\<lambda>(x, s'). res_bind (rec v s') (\<lambda>(y, s''). Ok ((x, y), s'')))"
  have "?f rec p s = Ok r \<Longrightarrow> ?f rec' p s = Ok r" for p s r using assms(1) by (fastforce simp: case_prod_unfold)
  from res_thread_mono [of "?f rec" "?f rec'", OF this] CDict assms(3) show ?thesis
    by (fastforce simp: raise_const_node_def case_prod_unfold)
next
  case (COption x)
  with assms show ?thesis by (cases x) (fastforce simp: raise_const_node_def case_prod_unfold)+
qed (use assms in \<open>fastforce simp: raise_const_node_def case_prod_unfold rs_str_extends\<close>)+

lemma raise_const_extends:
  assumes "extends m m'" "raise_const m c = Ok v"
  shows "raise_const m' c = Ok v"
proof -
  have mono: "raise_const_at n m i seen = Ok r \<Longrightarrow> n \<le> n' \<Longrightarrow> raise_const_at n' m' i seen = Ok r" for n n' i seen r
  proof (induction n arbitrary: n' i seen r)
    case (Suc n)
    then obtain k where n': "n' = Suc k" "n \<le> k" by (cases n') auto
    from Suc.prems(1) obtain x where x: "i \<notin> set seen" "const_at m i = Some x" "raise_const_node m (raise_const_at n m) x (seen @ [i]) = Ok r"
      by (auto simp: const_at_def split: if_splits option.splits simp del: vec_get_eq_Some)
    from raise_const_node_mono [OF Suc.IH [OF _ n'(2)] assms(1) x(3)] const_at_extends [OF assms(1) x(2)] x(1)
    show ?case by (simp add: n' const_at_def del: vec_get_eq_Some)
  qed simp
  have "length (m_consts m) \<le> length (m_consts m')" using assms(1) by (auto simp: extends_def dest: prefix_length_le)
  with assms(2) mono [of "length (m_consts m) + 1" c "[]" _ "length (m_consts m') + 1"] show ?thesis
    by (cases "raise_const_at (length (m_consts m) + 1) m c []") (auto simp: raise_const_def)
qed

lemma has_const_extends:
  assumes "extends m m'" "has_const m i"
  shows "has_const m' i \<and> const_value m' i = const_value m i"
  using assms(2) const_at_extends [OF assms(1)] raise_const_extends [OF assms(1)]
  by (cases "op_const i") (fastforce simp: has_const_def const_value_def)+

lemma const_lit_extends: "extends m m' \<Longrightarrow> const_lit m c = Ok v \<Longrightarrow> const_lit m' c = Ok v"
  using const_at_extends [of m m' c]
  by (cases "const_at m c") (auto simp: const_lit_def const_at_def rs_str_extends simp del: vec_get_eq_Some vec_get_eq_None
      split: const.splits)

lemma res_list_mono:
  "(\<And>x y. x \<in> set xs \<Longrightarrow> f x = Ok y \<Longrightarrow> f' x = Ok y) \<Longrightarrow> res_list (map f xs) = Ok ys \<Longrightarrow> res_list (map f' xs) = Ok ys"
  by (induction xs arbitrary: ys) auto

lemma raise_pattern_extends: "extends m m' \<Longrightarrow> raise_pattern m p = Ok q \<Longrightarrow> raise_pattern m' p = Ok q"
proof (induction p arbitrary: q)
  case (PVariant i arg)
  then show ?case by (cases arg) (auto simp: rs_str_extends)
next
  case (PTuple ps)
  from PTuple.prems obtain qs where qs: "res_list (map (raise_pattern m) ps) = Ok qs" "q = APTuple qs no_span" by auto
  from res_list_mono [OF PTuple.IH [OF _ PTuple.prems(1)] qs(1)] qs(2) show ?case by simp
next
  case (POr ps)
  from POr.prems obtain qs where qs: "res_list (map (raise_pattern m) ps) = Ok qs" "q = APOr qs no_span" by auto
  from res_list_mono [OF POr.IH [OF _ POr.prems(1)] qs(1)] qs(2) show ?case by simp
qed (auto simp: rs_str_extends const_lit_extends)

text \<open>Raising of nested functions succeeds where it did before.\<close>

definition rec_like :: "func_raiser \<Rightarrow> func_raiser \<Rightarrow> bool" where
  "rec_like rec rec' \<longleftrightarrow> (\<forall>j c. rec j = Ok c \<longrightarrow> (\<exists>c'. rec' j = Ok c'))"

lemma rs_func_extends:
  assumes "extends m m'" "rs_func m i = Ok f"
  shows "\<exists>f'. rs_func m' i = Ok f' \<and> same_head f f'"
proof (cases "func_ix i < length (m_funcs m)")
  case True
  with assms have "func_ix i < length (m_funcs m')" "same_head (m_funcs m ! func_ix i) (m_funcs m' ! func_ix i)"
    by (auto simp: extends_def list_all2_conv_all_nth)
  with assms(2) True show ?thesis by (simp add: rs_func_def vec_get_def)
qed (use assms(2) in \<open>simp add: rs_func_def vec_get_def\<close>)

lemma raise_closure_params_extends:
  assumes "extends m m'" "rec_like rec rec'" "raise_closure_params m rec i = Ok (ps, ds)"
  shows "\<exists>ds'. raise_closure_params m' rec' i = Ok (ps, ds') \<and> map (map_option (\<lambda>_. ())) ds' = map (map_option (\<lambda>_. ())) ds"
proof -
  from assms(3) obtain f qs where f: "rs_func m i = Ok f" and qs: "res_list (map (raise_closure_param m rec) (fd_params f)) = Ok qs"
    and out: "ps = map fst qs" "ds = map snd qs" by (auto simp: raise_closure_params_def)
  from rs_func_extends [OF assms(1) f] obtain f' where f': "rs_func m' i = Ok f'" "fd_params f' = fd_params f"
    by (auto simp: same_head_def)
  have one: "\<exists>q'. raise_closure_param m' rec' p = Ok q' \<and> fst q' = fst q \<and> map_option (\<lambda>_. ()) (snd q') = map_option (\<lambda>_. ()) (snd q)"
    if "raise_closure_param m rec p = Ok q" for p q
    using that assms(2)
    by (cases "param_default p") (fastforce simp: raise_closure_param_def rs_str_extends [OF assms(1)] raise_default_def rec_like_def)+
  have "\<exists>qs'. res_list (map (raise_closure_param m' rec') pars) = Ok qs' \<and> map fst qs' = map fst qs \<and>
      map (map_option (\<lambda>_. ()) \<circ> snd) qs' = map (map_option (\<lambda>_. ()) \<circ> snd) qs"
    if "res_list (map (raise_closure_param m rec) pars) = Ok qs" for pars qs
    using that
  proof (induction pars arbitrary: qs)
    case (Cons p pars)
    from Cons.prems obtain q rest where q: "raise_closure_param m rec p = Ok q" "res_list (map (raise_closure_param m rec) pars) = Ok rest"
      "qs = q # rest" by auto
    from one [OF q(1)] Cons.IH [OF q(2)] q(3) show ?case by fastforce
  qed simp
  from this [OF qs] f' out show ?thesis by (auto simp: raise_closure_params_def comp_def)
qed

lemma raise_closure_extends:
  assumes "extends m m'" "rec_like rec rec'" "raise_closure m rec i f = Ok v"
  obtains ps c ds c' ds' where "v = f ps c ds" "raise_closure m' rec' i f = Ok (f ps c' ds')"
    "map (map_option (\<lambda>_. ())) ds' = map (map_option (\<lambda>_. ())) ds"
proof -
  from assms(3) obtain c ps ds where c: "rec i = Ok c" "raise_closure_params m rec i = Ok (ps, ds)" "v = f ps c ds"
    by (auto simp: raise_closure_def)
  from assms(2) c(1) obtain c' where "rec' i = Ok c'" by (auto simp: rec_like_def)
  with raise_closure_params_extends [OF assms(1,2) c(2)] c(3) that show ?thesis by (auto simp: raise_closure_def)
qed

lemma raise_op_extends:
  assumes "extends m m'" "rec_like rec rec'" "raise_op m rec i = Ok v"
  shows "\<exists>v'. raise_op m' rec' i = Ok v' \<and> map_vm_op g (\<lambda>_. ()) v' = map_vm_op g (\<lambda>_. ()) v"
proof -
  have closure: ?thesis if "raise_op m rec i = raise_closure m rec j f" "raise_op m' rec' i = raise_closure m' rec' j f"
    "\<And>ps c ds c' ds'. map (map_option (\<lambda>_. ())) ds' = map (map_option (\<lambda>_. ())) ds \<Longrightarrow>
       map_vm_op g (\<lambda>_. ()) (f ps c' ds') = map_vm_op g (\<lambda>_. ()) (f ps c ds)" for j f
    using raise_closure_extends [OF assms(1,2), of j f v] assms(3) that by metis
  consider (clo) j where "i = MakeClosure j" | (fn) j where "i = MakeFunc j" | (spawn) j where "i = SpawnClosure j"
    | (other) "\<nexists>j. i = MakeClosure j \<or> i = MakeFunc j \<or> i = SpawnClosure j" by blast
  then show ?thesis
  proof cases
    case (clo j)
    then show ?thesis by (intro closure [of j VMakeClosure]) simp_all
  next
    case (fn j)
    with assms(3) obtain h name where h: "rs_func m j = Ok h" "rs_str m (fd_name h) = Ok name" by auto
    from rs_func_extends [OF assms(1) h(1)] obtain h' where "rs_func m' j = Ok h'" "fd_name h' = fd_name h" by (auto simp: same_head_def)
    with h fn show ?thesis by (intro closure [of j "VMakeFunc name"]) (simp_all add: rs_str_extends [OF assms(1)])
  next
    case (spawn j)
    then show ?thesis by (intro closure [of j "\<lambda>params chunk defaults. VSpawnClosure params chunk no_span defaults"]) simp_all
  next
    case other
  with assms(3) have "raise_op m' rec' i = Ok v"
    by (cases i) (auto simp: rs_str_extends [OF assms(1)] rs_strs_extends [OF assms(1)] raise_home_def
        raise_pattern_extends [OF assms(1)] split: option.splits)
    then show ?thesis by blast
  qed
qed

lemma ir_op_extends:
  assumes "extends m m'" "rec_like rec rec'" "ir_op m rec i = Some r" "has_const m i"
  shows "ir_op m' rec' i = Some r \<and> has_const m' i"
proof -
  from assms(3) obtain v where v: "raise_op m rec i = Ok v" "r = map_vm_op (\<lambda>_. const_value m i) (\<lambda>_. ()) v"
    by (auto simp: ir_op_def split: sum.splits)
  from raise_op_extends [OF assms(1,2) v(1)] obtain v' where "raise_op m' rec' i = Ok v'"
    "map_vm_op (\<lambda>_. const_value m i) (\<lambda>_. ()) v' = r" unfolding v(2) by blast
  with has_const_extends [OF assms(1,4)] show ?thesis by (simp add: ir_op_def)
qed

lemma raised_code_extends:
  "extends m m' \<Longrightarrow> rec_like rec rec' \<Longrightarrow> raised_code m rec code rs \<Longrightarrow> raised_code m' rec' code rs"
  unfolding raised_code_def by (erule list_all2_mono) (simp add: ir_op_extends)

lemma raised_code_unique: "raised_code m rec code rs \<Longrightarrow> raised_code m rec code rs' \<Longrightarrow> rs' = rs"
  by (auto simp: raised_code_def list_all2_conv_all_nth intro: nth_equalityI)

section \<open>The contract of a pass\<close>

locale code_pass =
  fixes pass :: "module_ \<Rightarrow> (ir_error, module_) result" and ok :: "module_ \<Rightarrow> module_ \<Rightarrow> bool"
    and related :: "(rt_value, unit) vm_op list \<Rightarrow> (rt_value, unit) vm_op list \<Rightarrow> bool"
  assumes fits: "ok m m' \<Longrightarrow> fits_tables m \<and> fits_tables m'"
    and keeps: "pass m = Ok m' \<Longrightarrow> ok m m' \<Longrightarrow> extends m m'"
    and body: "pass m = Ok m' \<Longrightarrow> ok m m' \<Longrightarrow> j < length (m_funcs m) \<Longrightarrow> rec_like rec rec' \<Longrightarrow>
      raised_code m rec (fd_code (m_funcs m ! j)) rs \<Longrightarrow>
      \<exists>rs'. raised_code m' rec' (fd_code (m_funcs m' ! j)) rs' \<and> related rs rs'"
begin

lemma raise_func_pass:
  assumes "pass m = Ok m'" "ok m m'" "raise_func n m seen i = Ok c"
  shows "\<exists>c'. raise_func n m' seen i = Ok c' \<and> related (chunk_code c) (chunk_code c')"
  using assms(3)
proof (induction n arbitrary: seen i c)
  case (Suc n)
  let ?rec = "raise_func n m (seen @ [i])" and ?rec' = "raise_func n m' (seen @ [i])"
  note ext = keeps [OF assms(1,2)]
  from Suc.prems obtain f where f: "i \<notin> set seen" "rs_func m i = Ok f" "raise_body m ?rec f = Ok c" by (auto split: if_splits)
  from rs_func_extends [OF ext f(2)] obtain f' where f': "rs_func m' i = Ok f'" "same_head f f'" by blast
  have ix: "func_ix i < length (m_funcs m)" "f = m_funcs m ! func_ix i" "f' = m_funcs m' ! func_ix i"
    using f(2) f'(1) by (auto simp: rs_func_def split: option.splits)
  have like: "rec_like ?rec ?rec'" using Suc.IH by (force simp: rec_like_def)
  from body [OF assms(1,2) ix(1) like] raise_body_code [OF f(3)] fits [OF assms(2)] ix obtain rs'
    where rs': "raised_code m' ?rec' (fd_code f') rs'" "related (chunk_code c) rs'" by blast
  from raise_body_parts [OF f(3)] f'(2) have "\<exists>c'. raise_body m' ?rec' f' = Ok c'"
    by (metis (no_types) raise_body_total [OF rs'(1)] rs_str_extends [OF ext] same_head_def)
  then obtain c' where c': "raise_body m' ?rec' f' = Ok c'" ..
  with raise_body_code [OF c'] fits [OF assms(2)] rs' have "related (chunk_code c) (chunk_code c')"
    by (metis raised_code_unique)
  with f(1) f'(1) c' show ?case by auto
qed simp

lemma raise_pass:
  assumes "pass m = Ok m'" "ok m m'" "raise m = Ok c"
  shows "\<exists>c'. raise m' = Ok c' \<and> related (chunk_code c) (chunk_code c')"
proof -
  have "length (m_funcs m') = length (m_funcs m)" "m_entry m' = m_entry m"
    using keeps [OF assms(1,2)] by (auto simp: extends_def dest: list_all2_lengthD)
  with raise_func_pass [OF assms(1,2), of "length (m_funcs m) + 1" "[]" "m_entry m" c] assms(3) show ?thesis
    by (simp add: raise_def)
qed

end

end
