(* ===== verification/Fused_Ops.thy ===== *)
theory Fused_Ops
  imports Vm_Desugar
begin

text \<open>
  The core sequences that the fused slot instructions of the machine stand for; each sequence does what
  its instruction does.
\<close>

section \<open>What a fused instruction stands for\<close>

definition unfuse_core :: "vm_core \<Rightarrow> (rt_value, 'c) vm_op list" where
  "unfuse_core c = (case c of
       VSlotAddInt dst src \<Rightarrow> [VCore (VLoadSlot dst), VCore (VLoadSlot src), VCore (VBinOp BAdd no_span), VCore (VStoreSlot dst)]
     | VSlotInc s \<Rightarrow> [VCore (VLoadSlot s), VPushConst (VInt 1), VCore (VBinOp BAdd no_span), VCore (VStoreSlot s)]
     | VSlotAddIntImm dst i \<Rightarrow> [VCore (VLoadSlot dst), VPushConst (VInt i), VCore (VBinOp BAdd no_span), VCore (VStoreSlot dst)]
     | VSlotSubIntImm dst i \<Rightarrow> [VCore (VLoadSlot dst), VPushConst (VInt i), VCore (VBinOp BSub no_span), VCore (VStoreSlot dst)]
     | VSlotMulIntImm dst i \<Rightarrow> [VCore (VLoadSlot dst), VPushConst (VInt i), VCore (VBinOp BMul no_span), VCore (VStoreSlot dst)]
     | VSlotLessIntSlot a b \<Rightarrow> [VCore (VLoadSlot a), VCore (VLoadSlot b), VCore (VBinOp BLt no_span)]
     | VSlotLessIntImm a i \<Rightarrow> [VCore (VLoadSlot a), VPushConst (VInt i), VCore (VBinOp BLt no_span)]
     | VSlotCmpIntSlot a b bop \<Rightarrow> [VCore (VLoadSlot a), VCore (VLoadSlot b), VCore (VBinOp bop no_span)]
     | VSlotCmpIntImm a i bop \<Rightarrow> [VCore (VLoadSlot a), VPushConst (VInt i), VCore (VBinOp bop no_span)]
     | VSlotBinaryInt dst lhs rhs bop \<Rightarrow> [VCore (VLoadSlot lhs), VCore (VLoadSlot rhs), VCore (VBinOp bop no_span), VCore (VStoreSlot dst)]
     | VSlotBinaryIntImm dst lhs i bop \<Rightarrow> [VCore (VLoadSlot lhs), VPushConst (VInt i), VCore (VBinOp bop no_span), VCore (VStoreSlot dst)]
     | VPushSlotIntImm a i bop _ \<Rightarrow> [VCore (VLoadSlot a), VPushConst (VInt i), VCore (VBinOp bop no_span)]
     | VJumpIfFalseSlotCmpIntImm a i bop t _ \<Rightarrow> [VCore (VLoadSlot a), VPushConst (VInt i), VCore (VBinOp bop no_span), VCore (VJumpIfFalse t)]
     | VJumpIfFalseSlotCmpIntSlot a b bop t _ \<Rightarrow> [VCore (VLoadSlot a), VCore (VLoadSlot b), VCore (VBinOp bop no_span), VCore (VJumpIfFalse t)]
     | _ \<Rightarrow> [VCore c])"

definition unfuse :: "(rt_value, 'c) vm_op \<Rightarrow> (rt_value, 'c) vm_op list" where
  "unfuse i = (case i of
       VSlotCmpConst a v bop \<Rightarrow> [VCore (VLoadSlot a), VPushConst v, VCore (VBinOp bop no_span)]
     | VCore c \<Rightarrow> unfuse_core c
     | _ \<Rightarrow> [i])"

text \<open>
  A fused test compares. On another operator it would insist on a boolean result, which the jump it is
  expanded to does not.
\<close>

fun fused_test_ok :: "('k, 'c) vm_op \<Rightarrow> bool" where
  "fused_test_ok (VCore (VJumpIfFalseSlotCmpIntImm _ _ bop _ _)) = is_comparison bop"
| "fused_test_ok (VCore (VJumpIfFalseSlotCmpIntSlot _ _ bop _ _)) = is_comparison bop"
| "fused_test_ok _ = True"

lemma unfuse_nonempty: "unfuse i \<noteq> []"
  by (cases i) (auto simp: unfuse_def unfuse_core_def split: vm_core.split)

section \<open>The sequences\<close>

text \<open>Two loads, or a load and a constant, and the operator push what the operator gives.\<close>

lemma load_op_seq:
  assumes "s < length (fr_stack fr)" "s = base + unat a"
  shows "exec_seq H base fidx Some (VCore (VLoadSlot a) # is) fr = exec_seq H base fidx Some is (fr\<lparr>fr_stack := fr_stack fr @ [fr_stack fr ! s]\<rparr>)"
  using assms by (simp add: run_defs)

lemma const_op_seq: "exec_seq H base fidx Some (VPushConst v # is) fr = exec_seq H base fidx Some is (fr\<lparr>fr_stack := fr_stack fr @ [v]\<rparr>)"
  by (simp add: run_defs)

lemma binop_seq:
  assumes "fr_stack fr = st @ [l, r]"
  shows "exec_seq H base fidx Some (VCore (VBinOp bop sp) # is) fr = (case eval_binary H bop l r sp of
      Inl e \<Rightarrow> Err (Failed e) | Inr v \<Rightarrow> exec_seq H base fidx Some is (fr\<lparr>fr_stack := st @ [v]\<rparr>))"
  using assms by (simp add: run_defs butlast_append split: sum.split)

lemma store_seq:
  assumes "fr_stack fr = st @ [v]" "base + unat s < length st"
  shows "exec_seq H base fidx Some [VCore (VStoreSlot s)] fr = Ok (None, fr\<lparr>fr_stack := st[base + unat s := v]\<rparr>)"
  using assms by (simp add: run_defs)

lemma branch_seq:
  assumes "fr_stack fr = st @ [v]"
  shows "exec_seq H base fidx Some [VCore (VJumpIfFalse t)] fr = Ok (if is_truthy v then None else Some t, fr\<lparr>fr_stack := st\<rparr>)"
  using assms by (simp add: run_defs)

lemma push_msg_same [simp]: "push_msg m m"
  by (simp add: push_msg_def)

lemma refines_operands:
  assumes "same_result r r'" "\<And>v. r' = Ok v \<Longrightarrow> refines push_msg (k v) (k' v)"
  shows "refines push_msg (case r of Inl e \<Rightarrow> Err (Failed e) | Inr v \<Rightarrow> k v) (case r' of Inl e \<Rightarrow> Err (Failed e) | Inr v \<Rightarrow> k' v)"
  using assms by (cases r; cases r') (auto simp: same_result_def refines_def)

lemma slots_seq:
  assumes "\<And>l r. same_result (f l r) (eval_binary H bop l r no_span)"
    "\<And>l r v. eval_binary H bop l r no_span = Ok v \<Longrightarrow>
       refines push_msg (k v fr) (exec_seq H base fidx Some is (fr\<lparr>fr_stack := fr_stack fr @ [v]\<rparr>))"
  shows "refines push_msg (vm_bind (slots_binary base a b f) k fr)
    (exec_seq H base fidx Some (VCore (VLoadSlot a) # VCore (VLoadSlot b) # VCore (VBinOp bop no_span) # is) fr)"
proof (cases "base + unat a < length (fr_stack fr) \<and> base + unat b < length (fr_stack fr)")
  case True
  let ?l = "fr_stack fr ! (base + unat a)" and ?r = "fr_stack fr ! (base + unat b)"
  have "vm_bind (slots_binary base a b f) k fr = (case f ?l ?r of Inl e \<Rightarrow> Err (Failed e) | Inr v \<Rightarrow> k v fr)"
    using True by (simp add: run_defs split: sum.split)
  moreover have "exec_seq H base fidx Some (VCore (VLoadSlot a) # VCore (VLoadSlot b) # VCore (VBinOp bop no_span) # is) fr =
      (case eval_binary H bop ?l ?r no_span of Inl e \<Rightarrow> Err (Failed e)
        | Inr v \<Rightarrow> exec_seq H base fidx Some is (fr\<lparr>fr_stack := fr_stack fr @ [v]\<rparr>))"
    using True by (subst load_op_seq [OF _ refl], simp, subst load_op_seq [OF _ refl], simp,
        subst binop_seq [of _ "fr_stack fr" ?l ?r]) (simp_all add: nth_append cong: sum.case_cong)
  ultimately show ?thesis using assms by (simp only: refines_operands)
next
  case False
  then have "vm_bind (slots_binary base a b f) k fr = Err Panicked" by (auto simp: run_defs)
  then show ?thesis by (simp add: refines_def)
qed

lemma imm_seq:
  assumes "\<And>l r. same_result (f l r) (eval_binary H bop l r no_span)"
    "\<And>l r v. eval_binary H bop l r no_span = Ok v \<Longrightarrow>
       refines push_msg (k v fr) (exec_seq H base fidx Some is (fr\<lparr>fr_stack := fr_stack fr @ [v]\<rparr>))"
  shows "refines push_msg (vm_bind (slot_binary base a w f) k fr)
    (exec_seq H base fidx Some (VCore (VLoadSlot a) # VPushConst w # VCore (VBinOp bop no_span) # is) fr)"
proof (cases "base + unat a < length (fr_stack fr)")
  case True
  let ?l = "fr_stack fr ! (base + unat a)"
  have "vm_bind (slot_binary base a w f) k fr = (case f ?l w of Inl e \<Rightarrow> Err (Failed e) | Inr v \<Rightarrow> k v fr)"
    using True by (simp add: run_defs split: sum.split)
  moreover have "exec_seq H base fidx Some (VCore (VLoadSlot a) # VPushConst w # VCore (VBinOp bop no_span) # is) fr =
      (case eval_binary H bop ?l w no_span of Inl e \<Rightarrow> Err (Failed e)
        | Inr v \<Rightarrow> exec_seq H base fidx Some is (fr\<lparr>fr_stack := fr_stack fr @ [v]\<rparr>))"
    using True by (subst load_op_seq [OF _ refl], simp, subst const_op_seq,
        subst binop_seq [of _ "fr_stack fr" ?l w]) (simp_all cong: sum.case_cong)
  ultimately show ?thesis using assms by (simp only: refines_operands)
next
  case False
  then have "vm_bind (slot_binary base a w f) k fr = Err Panicked" by (auto simp: run_defs)
  then show ?thesis by (simp add: refines_def)
qed

text \<open>What follows the operator: nothing, a store, or a branch on a comparison.\<close>

lemma tail_push: "refines push_msg (push_next v fr) (exec_seq H base fidx Some [] (fr\<lparr>fr_stack := fr_stack fr @ [v]\<rparr>))"
  by (simp add: run_defs refines_def)

lemma tail_store:
  "refines push_msg (set_next base dst v fr) (exec_seq H base fidx Some [VCore (VStoreSlot dst)] (fr\<lparr>fr_stack := fr_stack fr @ [v]\<rparr>))"
  by (cases "base + unat dst < length (fr_stack fr)") (simp_all add: run_defs refines_def list_update_append)

lemma tail_branch:
  assumes "is_comparison bop" "eval_binary H bop l r no_span = Ok v"
  shows "refines push_msg (branch_bool msg t sp v fr) (exec_seq H base fidx Some [VCore (VJumpIfFalse t)] (fr\<lparr>fr_stack := fr_stack fr @ [v]\<rparr>))"
proof -
  obtain b where "v = VBool b" using comparison_bool [OF assms(2,1)] by blast
  then show ?thesis by (cases b) (simp_all add: run_defs branch_bool_def refines_def)
qed

lemmas tails = tail_push tail_store tail_branch

lemma unfuse_core_seq:
  fixes fr :: "'e vm_frame"
  assumes "fused_test_ok (VCore c :: (rt_value, unit) vm_op)"
  shows "refines push_msg (exec_core H base fidx c fr) (exec_seq H base fidx Some (unfuse_core c :: (rt_value, unit) vm_op list) fr)"
proof -
  have refl: "refines push_msg (exec_core H base fidx c fr) (exec_seq H base fidx Some [VCore c :: (rt_value, unit) vm_op] fr)"
    unfolding exec_seq_single exec_op_def vm_op.case
    using agrees_refl [OF push_msg_refl, of "exec_core H base fidx c :: ('e, nat option) vm_m"] by (simp add: agrees_def)
  have ops: "exec_core H base fidx c = vm_bind (slots_binary base a b (\<lambda>l r. eval_binary H bop l r sp)) k \<Longrightarrow>
      (unfuse_core c :: (rt_value, unit) vm_op list) = VCore (VLoadSlot a) # VCore (VLoadSlot b) # VCore (VBinOp bop no_span) # is \<Longrightarrow>
      (\<And>l r v. eval_binary H bop l r no_span = Ok v \<Longrightarrow>
        refines push_msg (k v fr) (exec_seq H base fidx Some is (fr\<lparr>fr_stack := fr_stack fr @ [v]\<rparr>))) \<Longrightarrow> ?thesis" for a b bop sp k "is"
    by (simp only:) (rule slots_seq [OF same_binary])
  have imms: "exec_core H base fidx c = vm_bind (slot_binary base a w (\<lambda>l r. eval_binary H bop l r sp)) k \<Longrightarrow>
      (unfuse_core c :: (rt_value, unit) vm_op list) = VCore (VLoadSlot a) # VPushConst w # VCore (VBinOp bop no_span) # is \<Longrightarrow>
      (\<And>l r v. eval_binary H bop l r no_span = Ok v \<Longrightarrow>
        refines push_msg (k v fr) (exec_seq H base fidx Some is (fr\<lparr>fr_stack := fr_stack fr @ [v]\<rparr>))) \<Longrightarrow> ?thesis" for a w bop sp k "is"
    by (simp only:) (rule imm_seq [OF same_binary])
  note defs = exec_core_def unfuse_core_def fast_paths vm_core.case fused_test_ok.simps
  from assms show ?thesis
    by (cases c)
      ((rule ops, simp only: defs, simp only: defs, simp only: defs tails) |
       (rule imms, simp only: defs, simp only: defs, simp only: defs tails) |
       (use refl in \<open>simp only: unfuse_core_def vm_core.case\<close>))+
qed

lemma unfuse_seq:
  fixes fr :: "'e vm_frame" and i :: "(rt_value, unit) vm_op"
  assumes "fused_test_ok i"
  shows "refines push_msg (exec_op H base fidx Some i fr) (exec_seq H base fidx Some (unfuse i) fr)"
proof (cases i)
  case (VSlotCmpConst a v bop)
  have "(exec_op H base fidx Some i :: ('e, nat option) vm_m) = vm_bind (slot_binary base a v (\<lambda>l r. eval_binary H bop l r (Span 0 0))) push_next"
    by (simp add: VSlotCmpConst exec_op_def const_fast_binary vm_unwrap_def vm_bind_def vm_return_def)
  then show ?thesis
    by (simp only: VSlotCmpConst unfuse_def vm_op.case) (rule imm_seq [OF same_result_refl tail_push])
next
  case (VCore c)
  with assms unfuse_core_seq [of c] show ?thesis by (simp add: unfuse_def exec_op_def)
qed (use agrees_refl [OF push_msg_refl, of "exec_op H base fidx Some i :: ('e, nat option) vm_m"] in
    \<open>simp_all only: unfuse_def vm_op.case exec_seq_single agrees_def\<close>)

interpretation unfused: expansion push_msg H base fidx Some Some "unfuse :: (rt_value, unit) vm_op \<Rightarrow> (rt_value, unit) vm_op list"
    fused_test_ok "TYPE('e)" for H base fidx
  by unfold_locales (simp_all only: unfuse_nonempty unfuse_seq not_False_eq_True)

end
