(* ===== verification/Fused_Runs.thy ===== *)
theory Fused_Runs
  imports Code_Pass Fused_Ops
begin

text \<open>
  \<open>expand_fused\<close> keeps the behaviour of every function: the expanded code of a function is the flattening of the
  sequences its instructions stand for, and the constants it adds do not disturb the others.
\<close>

section \<open>The pass\<close>

lemma intern_int_at:
  assumes "intern_int cs i = (c, cs')" "prefix cs' (m_consts m)" "fits_tables m"
  shows "const_at m c = Some (CInt i) \<and> prefix cs cs'"
proof -
  from assms(3) prefix_length_le [OF assms(2)] have len: "length cs' \<le> 2 ^ 32" by (simp add: fits_tables_def)
  have "vec_get cs' (const_ix c) = Some (CInt i) \<and> prefix cs cs'"
  proof (cases "position (\<lambda>e. const_eq e (CInt i)) cs")
    case None
    with assms(1) len show ?thesis by (auto simp: intern_int_def)
  next
    case (Some p)
    from position_SomeD [OF Some] have "p < length cs" "cs ! p = CInt i" by (auto elim: const_eq.elims)
    with assms(1) Some len show ?thesis by (auto simp: intern_int_def)
  qed
  then show ?thesis unfolding const_at_def using vec_get_prefix [OF assms(2)] by blast
qed

lemma int_const_raised:
  assumes "const_at m c = Some (CInt i)"
  shows "ir_op m rec (PushConst c) = Some (VPushConst (VInt i)) \<and> has_const m (PushConst c)"
proof -
  have "raise_const m c = Ok (VInt i)" using assms by (rule raise_const_leaf) (simp add: raise_const_node_def)
  with assms show ?thesis by (simp add: ir_op_def has_const_def const_value_def op_const_def)
qed

lemma expand_group_prefix: "expand_group i cs = (g, cs') \<Longrightarrow> prefix cs cs'"
  by (cases i) (auto simp: expand_group_def with_int_def intern_int_def Let_def split: option.splits prod.splits)

lemma ir_op_slots:
  "ir_op m rec (LoadSlot s) = Some (VCore (VLoadSlot s))" "ir_op m rec (StoreSlot s) = Some (VCore (VStoreSlot s))"
  "ir_op m rec (BinOp bop) = Some (VCore (VBinOp bop no_span))" "ir_op m rec (JumpIfFalse t) = Some (VCore (VJumpIfFalse (unat t)))"
  by (simp_all add: ir_op_def)

lemma has_const_slots:
  "has_const m (LoadSlot s)" "has_const m (StoreSlot s)" "has_const m (BinOp bop)" "has_const m (JumpIfFalse t)"
  "has_const m (SlotCmpConst a k bop) = has_const m (PushConst k)"
  by (simp_all add: has_const_def op_const_def)

lemma unfuse_plain: "\<not> is_fused_slot_op i \<Longrightarrow> ir_op m rec i = Some r \<Longrightarrow> unfuse r = [r]"
  by (cases i) (auto simp: ir_op_def unfuse_def unfuse_core_def raise_closure_def split: sum.splits)

lemma expand_group_raised:
  assumes "expand_group i cs = (g, cs')" "prefix cs' (m_consts m)" "fits_tables m" "ir_op m rec i = Some r" "has_const m i"
  shows "raised_code m rec g (unfuse r)"
proof -
  have push: "ir_op m rec (PushConst c) = Some (VPushConst (VInt n))" "has_const m (PushConst c)"
    if "intern_int cs n = (c, cs')" for n c
    using int_const_raised intern_int_at [OF that assms(2,3)] by blast+
  note defs = expand_group_def with_int_def Let_def raised_code_def unfuse_def unfuse_core_def
  have const: "ir_op m rec (PushConst k) = Some (VPushConst (const_value m (SlotCmpConst a k bop)))" for a k bop
    by (simp add: ir_op_def const_value_def op_const_def)
  from assms(4) obtain v where v: "raise_op m rec i = Ok v" "r = map_vm_op (\<lambda>_. const_value m i) (\<lambda>_. ()) v"
    by (auto simp: ir_op_def split: sum.splits)
  show ?thesis
  proof (cases "is_fused_slot_op i")
    case True
    with assms(1,5) v show ?thesis
      by (cases i) (auto simp: defs ir_op_slots has_const_slots const push split: prod.splits)
  next
    case False
    with assms(1) have "g = [i]" by (cases i) (auto simp: defs)
    moreover have "unfuse r = [r]" using False assms(4) by (rule unfuse_plain)
    ultimately show ?thesis using assms(4,5) by (simp add: raised_code_def)
  qed
qed

lemma expand_groups_prefix: "expand_groups is cs = (gs, cs') \<Longrightarrow> prefix cs cs'"
proof (induction "is" arbitrary: cs gs)
  case (Cons i "is")
  from Cons.prems obtain g d gs' where "expand_group i cs = (g, d)" "expand_groups is d = (gs', cs')"
    by (auto simp: Let_def split: prod.splits)
  with Cons.IH expand_group_prefix show ?case by (metis prefix_order.trans)
qed simp

lemma expand_groups_raised:
  assumes "expand_groups is cs = (gs, cs')" "prefix cs' (m_consts m)" "fits_tables m" "raised_code m rec is rs"
  shows "list_all2 (raised_code m rec) gs (map unfuse rs)"
  using assms(4,1)
proof (induction "is" arbitrary: rs cs gs)
  case Nil
  then show ?case by (simp add: raised_code_def)
next
  case (Cons i "is")
  from Cons.prems(1) obtain r rs' where rs: "rs = r # rs'" "ir_op m rec i = Some r" "has_const m i" "raised_code m rec is rs'"
    by (auto simp: raised_code_def list_all2_Cons1)
  from Cons.prems(2) obtain g d gs' where g: "expand_group i cs = (g, d)" "expand_groups is d = (gs', cs')" "gs = g # gs'"
    by (auto simp: Let_def split: prod.splits)
  have "prefix d (m_consts m)" using expand_groups_prefix [OF g(2)] assms(2) by (rule prefix_order.trans)
  from expand_group_raised [OF g(1) this assms(3) rs(2,3)] Cons.IH [OF rs(4) g(2)] show ?case by (simp add: rs(1) g(3))
qed

lemma ir_op_remap:
  assumes "ir_op m rec i = Some r" "has_const m i" "remap_op base i = Ok i'" "map unat base = offs"
  shows "ir_op m rec i' = Some (retarget (\<lambda>t. offs ! t) r) \<and> has_const m i'"
proof -
  from assms(1) obtain v where v: "raise_op m rec i = Ok v" "r = map_vm_op (\<lambda>_. const_value m i) (\<lambda>_. ()) v"
    by (auto simp: ir_op_def split: sum.splits)
  from raise_op_remap [OF v(1) assms(3,4)] assms(2) show ?thesis
    by (simp add: ir_op_def has_const_def const_value_def v(2) map_retarget)
qed

lemma remap_raised:
  assumes "res_list (map (remap_op base) is) = Ok code" "raised_code m rec is rs" "map unat base = offs"
  shows "raised_code m rec code (map (retarget (\<lambda>t. offs ! t)) rs)"
  using assms(2,1) unfolding raised_code_def
proof (induction arbitrary: code rule: list_all2_induct)
  case (Cons i "is" r rs)
  from Cons.prems obtain i' code' where i': "remap_op base i = Ok i'" and code': "res_list (map (remap_op base) is) = Ok code'"
    and code: "code = i' # code'" by auto
  from ir_op_remap [OF conjunct1 [OF Cons.hyps(1)] conjunct2 [OF Cons.hyps(1)] i' assms(3)] Cons.IH [OF code'] show ?case
    unfolding code by simp
qed simp

lemma flatten_raised:
  assumes "remap_and_flatten gs spans = Ok (code, sps)" "list_all2 (raised_code m rec) gs hs" "length code < 2 ^ 32"
  shows "raised_code m rec code (flatten_code hs)"
proof -
  let ?base = "bases 0 gs"
  from assms(1) have code: "res_list (map (remap_op ?base) (concat gs)) = Ok code" by (auto simp: remap_and_flatten_def)
  have "list_all2 (\<lambda>g h. length g = length h) gs hs"
    using assms(2) by (auto simp: raised_code_def elim!: list_all2_mono dest: list_all2_lengthD)
  moreover have "length (concat gs) < 2 ^ 32" using res_list_length [OF code] assms(3) by simp
  ultimately have base: "map unat ?base = offsets 0 hs" using bases_offsets [of gs hs 0] by simp
  have "raised_code m rec (concat gs) (concat hs)"
    using assms(2) unfolding raised_code_def by (rule concat_transfer [unfolded rel_fun_def, rule_format])
  from remap_raised [OF code this base] show ?thesis by (simp add: flatten_code_def)
qed

definition unfused :: "(rt_value, unit) vm_op list \<Rightarrow> (rt_value, unit) vm_op list \<Rightarrow> bool" where
  "unfused rs rs' \<longleftrightarrow> rs' = flatten_code (map unfuse rs) \<or> rs' = rs \<and> list_all (\<lambda>r. unfuse r = [r]) rs"

lemma expand_func_raised:
  assumes "expand_fused_func f cs = Ok (f', cs')" "prefix cs' (m_consts m)" "fits_tables m" "f' \<in> set (m_funcs m)"
    "raised_code m rec (fd_code f) rs"
  shows "\<exists>rs'. raised_code m rec (fd_code f') rs' \<and> unfused rs rs'"
proof (cases "list_ex is_fused_slot_op (fd_code f)")
  case False
  have "unfuse r = [r]" if "r \<in> set rs" for r
    using that False assms(5) unfuse_plain by (fastforce simp: raised_code_def list_all2_conv_all_nth list_ex_iff in_set_conv_nth)
  with False assms(1,5) show ?thesis by (auto simp: expand_fused_func_def unfused_def list_all_iff)
next
  case True
  with assms(1) obtain groups nc ns where g: "expand_groups (fd_code f) cs = (groups, cs')"
    "remap_and_flatten groups (fd_spans f) = Ok (nc, ns)" "fd_code f' = nc"
    by (auto simp: expand_fused_func_def Let_def split: prod.splits)
  have "length nc < 2 ^ 32" using assms(3,4) g(3) by (auto simp: fits_tables_def list_all_iff)
  from flatten_raised [OF g(2) expand_groups_raised [OF g(1) assms(2,3,5)] this] g(3) show ?thesis by (auto simp: unfused_def)
qed

lemma expand_func_keeps:
  "expand_fused_func f cs = Ok (f', cs') \<Longrightarrow> same_head f f' \<and> prefix cs cs'"
  using expand_groups_prefix
  by (fastforce simp: expand_fused_func_def same_head_def Let_def split: if_splits prod.splits)

lemma res_thread_nth:
  assumes "res_thread F xs s = Ok (ys, s')" "\<And>x s y s'. F x s = Ok (y, s') \<Longrightarrow> prefix s s'"
  shows "prefix s s' \<and> length ys = length xs \<and>
    (\<forall>j < length xs. \<exists>s1 s2. F (xs ! j) s1 = Ok (ys ! j, s2) \<and> prefix s2 s')"
  using assms(1)
proof (induction xs arbitrary: s ys)
  case (Cons x xs)
  from Cons.prems obtain y t ys' where y: "F x s = Ok (y, t)" "res_thread F xs t = Ok (ys', s')" "ys = y # ys'" by auto
  note IH = Cons.IH [OF y(2)]
  have "\<exists>s1 s2. F ((x # xs) ! j) s1 = Ok (ys ! j, s2) \<and> prefix s2 s'" if "j < length (x # xs)" for j
  proof (cases j)
    case 0
    with y IH show ?thesis by auto
  next
    case (Suc k)
    with that y IH show ?thesis by simp
  qed
  moreover have "prefix s s'" using assms(2) [OF y(1)] IH by (auto intro: prefix_order.trans)
  ultimately show ?case using IH y(3) by simp
qed simp

text \<open>The two parts of \<open>expand_fused\<close>: either nothing is fused, or every function went through the pass.\<close>

lemma expand_fused_nth:
  assumes "expand_fused m = Ok m'"
  shows "m_strings m' = m_strings m \<and> m_entry m' = m_entry m \<and> prefix (m_consts m) (m_consts m') \<and>
    length (m_funcs m') = length (m_funcs m) \<and>
    (\<forall>j < length (m_funcs m). \<exists>s1 s2. expand_fused_func (m_funcs m ! j) s1 = Ok (m_funcs m' ! j, s2) \<and> prefix s2 (m_consts m'))"
proof (cases "list_ex (\<lambda>f. list_ex is_fused_slot_op (fd_code f)) (m_funcs m)")
  case False
  then have "m' = m" "\<forall>j < length (m_funcs m). expand_fused_func (m_funcs m ! j) [] = Ok (m_funcs m ! j, [])"
    using assms by (auto simp: expand_fused_def expand_fused_func_def list_ex_iff)
  then show ?thesis by (metis Nil_prefix prefix_order.order_refl)
next
  case True
  with assms obtain fs cs where t: "res_thread expand_fused_func (m_funcs m) (m_consts m) = Ok (fs, cs)"
    "m' = m\<lparr>m_consts := cs, m_funcs := fs\<rparr>" by (auto simp: expand_fused_def)
  from res_thread_nth [OF t(1)] expand_func_keeps t(2) show ?thesis by fastforce
qed

interpretation expanded: code_pass expand_fused "\<lambda>m m'. fits_tables m \<and> fits_tables m'"
    unfused
proof
  fix m m' assume m: "expand_fused m = Ok m'" "fits_tables m \<and> fits_tables m'"
  note nth = expand_fused_nth [OF m(1)]
  show ext: "extends m m'" using nth expand_func_keeps by (fastforce simp: extends_def list_all2_conv_all_nth)
  fix j rec rec' rs
  assume j: "j < length (m_funcs m)" and "rec_like rec rec'" "raised_code m rec (fd_code (m_funcs m ! j)) rs"
  then have "raised_code m' rec' (fd_code (m_funcs m ! j)) rs" using raised_code_extends [OF ext] by blast
  with expand_func_raised nth j m(2) show "\<exists>rs'. raised_code m' rec' (fd_code (m_funcs m' ! j)) rs' \<and>
      unfused rs rs'" by (metis nth_mem)
qed simp

section \<open>Running the expanded code\<close>

text \<open>Where the instructions of a chunk start once they are written out.\<close>

definition unfused_ip :: "vm_chunk \<Rightarrow> nat \<Rightarrow> nat" where
  "unfused_ip c t = offsets 0 (map unfuse (chunk_code c)) ! t"

definition tests_compare :: "vm_chunk \<Rightarrow> bool" where
  "tests_compare c = list_all fused_test_ok (vc_code c)"

lemma fused_test_core: "fused_test_ok (VCore c :: ('k, 'c) vm_op) = fused_test_ok (VCore c :: ('j, 'd) vm_op)"
  by (cases c) simp_all

lemma chunk_code_ops: "op_targets (map_vm_op f g i) = op_targets i" "fused_test_ok (map_vm_op f g i) = fused_test_ok i"
  by (cases i; simp add: op_targets_def fused_test_core)+

lemma offsets_singletons: "t \<le> length xs \<Longrightarrow> offsets 0 (map (\<lambda>x. [x]) xs) ! t = t"
  by (simp add: offsets_nth take_map concat_map_singleton)

lemma flatten_plain:
  assumes "list_all (\<lambda>r. unfuse r = [r]) rs" "list_all (\<lambda>i. list_all (\<lambda>t. t \<le> length rs) (op_targets i)) rs"
  shows "flatten_code (map unfuse rs) = rs"
proof -
  have "map unfuse rs = map (\<lambda>r. [r]) rs" using assms(1) by (simp add: list_all_iff)
  then have "flatten_code (map unfuse rs) = map (retarget (\<lambda>t. offsets 0 (map (\<lambda>r. [r]) rs) ! t)) rs"
    by (simp only: flatten_code_def concat_map_singleton list.map_ident)
  also have "\<dots> = rs" using assms(2) by (intro map_idI retarget_id) (auto simp: list_all_iff offsets_singletons)
  finally show ?thesis .
qed

lemma chunk_code_steps:
  assumes "consts_in (vc_code c) {k. unat k < length (vc_constants c)}"
  shows "vm_steps n H base fidx (chunk_look c) (vc_code c) ip fr = vm_steps n H base fidx Some (chunk_code c) ip fr"
  unfolding chunk_code_def chunk_look_def by (rule vm_steps_resolved [OF assms, symmetric])

lemma unfused_runs:
  assumes "unfused (chunk_code c) (chunk_code c')" "targets_in_range c" "tests_compare c"
    "consts_in (vc_code c) {k. unat k < length (vc_constants c)}" "consts_in (vc_code c') {k. unat k < length (vc_constants c')}"
  shows "runs_like (unfused_ip c) c c'"
proof -
  have len: "length (chunk_code c) = length (vc_code c)" by (simp add: chunk_code_def)
  have targets: "list_all (\<lambda>i. list_all (\<lambda>t. t \<le> length (chunk_code c)) (op_targets i)) (chunk_code c)"
    and tests: "list_all fused_test_ok (chunk_code c)"
    using assms(2,3) by (simp_all add: targets_in_range_def tests_compare_def chunk_code_def list_all_iff chunk_code_ops)
  have code': "chunk_code c' = flatten_code (map unfuse (chunk_code c))"
    using assms(1) flatten_plain [OF _ targets] by (auto simp: unfused_def)
  have f: "unfused_ip c = (\<lambda>t. offsets 0 (map unfuse (chunk_code c)) ! t)" by (auto simp: unfused_ip_def)
  show ?thesis
    unfolding runs_like_def chunk_code_steps [OF assms(4)] chunk_code_steps [OF assms(5)] len [symmetric]
    by (intro allI impI) (rule unfused.simulate_steps [OF tests code' f targets])
qed

lemma expanded_runs:
  assumes "expand_fused m = Ok m'" "raise m = Ok c" "fits_tables m" "fits_tables m'" "targets_in_range c" "tests_compare c"
  shows "\<exists>c'. raise m' = Ok c' \<and> runs_like (unfused_ip c) c c'"
proof -
  from expanded.raise_pass [OF assms(1) _ assms(2)] assms(3,4) obtain c' where
    c': "raise m' = Ok c'" "unfused (chunk_code c) (chunk_code c')" by blast
  from unfused_runs [OF c'(2) assms(5,6) raise_consts [OF assms(2,3)] raise_consts [OF c'(1) assms(4)]] c'(1) show ?thesis by blast
qed

section \<open>Nothing fused is left\<close>

lemma remap_op_fused: "remap_op base i = Ok i' \<Longrightarrow> is_fused_slot_op i' = is_fused_slot_op i"
  by (cases i) (auto simp: remap_op_def remap1_def remap_header_def Let_def)

lemma expand_group_plain: "expand_group i cs = (g, cs') \<Longrightarrow> list_all (\<lambda>j. \<not> is_fused_slot_op j) g"
  by (cases i) (auto simp: expand_group_def with_int_def Let_def split: prod.splits)

lemma expand_groups_plain: "expand_groups is cs = (gs, cs') \<Longrightarrow> list_all (\<lambda>j. \<not> is_fused_slot_op j) (concat gs)"
proof (induction "is" arbitrary: cs gs)
  case (Cons i "is")
  from Cons.prems obtain g d gs' where "expand_group i cs = (g, d)" "expand_groups is d = (gs', cs')" "gs = g # gs'"
    by (auto simp: Let_def split: prod.splits)
  with Cons.IH expand_group_plain show ?case by simp
qed simp

lemma expand_func_plain:
  assumes "expand_fused_func f cs = Ok (f', cs')"
  shows "\<not> list_ex is_fused_slot_op (fd_code f')"
proof (cases "list_ex is_fused_slot_op (fd_code f)")
  case True
  with assms obtain gs where gs: "expand_groups (fd_code f) cs = (gs, cs')"
    "res_list (map (remap_op (bases 0 gs)) (concat gs)) = Ok (fd_code f')"
    by (auto simp: expand_fused_func_def remap_and_flatten_def Let_def split: prod.splits)
  note plain = expand_groups_plain [OF gs(1)]
  have len: "length (fd_code f') = length (concat gs)" using res_list_length [OF gs(2)] by simp
  have "\<not> is_fused_slot_op (fd_code f' ! k)" if "k < length (fd_code f')" for k
    using res_list_nth [OF gs(2), of k] that len plain remap_op_fused [of "bases 0 gs" "concat gs ! k" "fd_code f' ! k"]
    by (auto simp: list_all_length)
  then show ?thesis by (auto simp: list_ex_iff in_set_conv_nth)
qed (use assms in \<open>auto simp: expand_fused_func_def\<close>)

lemma expand_fused_plain:
  assumes "expand_fused m = Ok m'"
  shows "list_all (\<lambda>f. \<not> list_ex is_fused_slot_op (fd_code f)) (m_funcs m')"
  using expand_fused_nth [OF assms] expand_func_plain by (metis list_all_length)

end
