(* ===== verification/Derotate_Code.thy ===== *)
theory Derotate_Code
  imports Fused_Runs
begin

text \<open>
  What \<open>derotate_loops\<close> does to the code of a function: the entry jump of a loop is exchanged with the test at the end
  of its body. The exchange is described position by position, first on instructions, then on what
  they raise to.
\<close>

section \<open>The exchange\<close>

definition check_of :: "(nat \<times> nat) list \<Rightarrow> nat \<Rightarrow> nat option" where
  "check_of swaps = map_of swaps"

definition entry_of :: "(nat \<times> nat) list \<Rightarrow> nat \<Rightarrow> nat option" where
  "entry_of swaps = map_of (map prod.swap swaps)"

text \<open>Where a target that names the test of a loop moves to.\<close>

definition moved :: "(nat \<times> nat) list \<Rightarrow> nat \<Rightarrow> nat" where
  "moved swaps p = (case entry_of swaps p of Some e \<Rightarrow> e | None \<Rightarrow> p)"

definition apart :: "(nat \<times> nat) list \<Rightarrow> bool" where
  "apart swaps \<longleftrightarrow> distinct (map fst swaps @ map snd swaps)"

lemma apart_Cons: "apart ((e, c) # swaps) \<Longrightarrow> apart swaps"
  by (auto simp: apart_def)

lemma entry_of_apart: "apart swaps \<Longrightarrow> (e, c) \<in> set swaps \<Longrightarrow> entry_of swaps c = Some e"
  by (auto simp: apart_def entry_of_def comp_def intro!: map_of_is_SomeI)

lemma check_of_apart: "apart swaps \<Longrightarrow> (e, c) \<in> set swaps \<Longrightarrow> check_of swaps e = Some c"
  by (auto simp: apart_def check_of_def)

lemma entry_ofD: "entry_of swaps p = Some e \<Longrightarrow> (e, p) \<in> set swaps"
  by (auto simp: entry_of_def dest: map_of_SomeD)

lemma check_ofD: "check_of swaps p = Some c \<Longrightarrow> (p, c) \<in> set swaps"
  by (auto simp: check_of_def dest: map_of_SomeD)

lemma entry_of_None: "p \<notin> snd ` set swaps \<Longrightarrow> entry_of swaps p = None"
  using entry_ofD [of swaps p] by (cases "entry_of swaps p") (auto simp: image_iff)

lemma check_of_None: "p \<notin> fst ` set swaps \<Longrightarrow> check_of swaps p = None"
  using check_ofD [of swaps p] by (cases "check_of swaps p") (auto simp: image_iff)

lemma apart_new:
  assumes "apart ((e, c) # swaps)"
  shows "e \<notin> fst ` set swaps" "e \<notin> snd ` set swaps" "c \<notin> fst ` set swaps" "c \<notin> snd ` set swaps" "e \<noteq> c"
  using assms by (auto simp: apart_def)

lemma apart_disjoint:
  assumes "apart swaps" "(e, c) \<in> set swaps"
  shows "entry_of swaps e = None" "check_of swaps c = None"
proof -
  have "fst ` set swaps \<inter> snd ` set swaps = {}" using assms(1) by (simp add: apart_def)
  moreover have "e \<in> fst ` set swaps" "c \<in> snd ` set swaps" using assms(2) by (force simp: image_iff)+
  ultimately show "entry_of swaps e = None" "check_of swaps c = None" by (auto intro!: entry_of_None check_of_None)
qed

lemma moved_check: "apart swaps \<Longrightarrow> (e, c) \<in> set swaps \<Longrightarrow> moved swaps c = e"
  by (simp add: moved_def entry_of_apart)

lemma moved_entry: "apart swaps \<Longrightarrow> (e, c) \<in> set swaps \<Longrightarrow> moved swaps e = e"
  by (simp add: moved_def apart_disjoint)

lemma derotate_map_nth:
  assumes "apart swaps" "\<forall>(e, c) \<in> set swaps. c \<le> n" "p \<le> n"
  shows "derotate_map n swaps ! p = word_of_nat (moved swaps p)"
proof -
  have "fold (\<lambda>(e, c) m. m[c := word_of_nat e]) swaps m ! p = (case entry_of swaps p of Some e \<Rightarrow> word_of_nat e | None \<Rightarrow> m ! p)"
    if "length m = Suc n" for m :: "u32 list"
    using assms that
  proof (induction swaps arbitrary: m)
    case (Cons s swaps)
    obtain e c where s: "s = (e, c)" by (cases s)
    have none: "entry_of swaps c = None" by (rule entry_of_None) (rule apart_new(4) [OF Cons.prems(1) [unfolded s]])
    have "fold (\<lambda>(e, c) m. m[c := word_of_nat e]) swaps (m[c := word_of_nat e]) ! p =
        (case entry_of swaps p of Some e \<Rightarrow> word_of_nat e | None \<Rightarrow> m[c := word_of_nat e] ! p)"
      using Cons.prems apart_Cons [of e c swaps] unfolding s by (intro Cons.IH) auto
    moreover have "entry_of (s # swaps) p = (if p = c then Some e else entry_of swaps p)" by (simp add: s entry_of_def)
    ultimately show ?case using none Cons.prems(2-4) by (auto simp: s split: option.split)
  qed (simp add: entry_of_def)
  then show ?thesis using assms(3) by (simp add: derotate_map_def moved_def del: upt_Suc split: option.split)
qed

lemma length_derotate_map [simp]: "length (derotate_map n swaps) = Suc n"
proof -
  have "length (fold (\<lambda>(e, c) m. m[c := word_of_nat e]) swaps m) = length m" for m :: "u32 list"
    by (induction swaps arbitrary: m) auto
  then show ?thesis by (simp add: derotate_map_def del: upt_Suc)
qed

lemma length_swap_ops [simp]: "length (swap_ops swaps code) = length code"
  unfolding swap_ops_def by (induction swaps arbitrary: code) auto

lemma swap_ops_nth:
  assumes "apart swaps" "\<forall>(e, c) \<in> set swaps. e < length code \<and> c < length code"
  shows "swap_ops swaps code ! p = (case check_of swaps p of
      Some c \<Rightarrow> code ! c
    | None \<Rightarrow> (case entry_of swaps p of Some e \<Rightarrow> Jump (word_of_nat e) | None \<Rightarrow> code ! p))"
  using assms
proof (induction swaps arbitrary: code)
  case (Cons s swaps)
  obtain e c where s: "s = (e, c)" by (cases s)
  let ?code = "code[c := Jump (word_of_nat e), e := code ! c]"
  note new = apart_new [OF Cons.prems(1) [unfolded s]]
  have "swap_ops swaps ?code ! p = (case check_of swaps p of
      Some c \<Rightarrow> ?code ! c
    | None \<Rightarrow> (case entry_of swaps p of Some e \<Rightarrow> Jump (word_of_nat e) | None \<Rightarrow> ?code ! p))"
    using Cons.prems s by (intro Cons.IH) (auto simp: apart_def)
  moreover have "check_of swaps e = None" "entry_of swaps e = None" "check_of swaps c = None" "entry_of swaps c = None"
    using new by (simp_all add: check_of_None entry_of_None)
  moreover have "?code ! c' = code ! c'" if "check_of swaps p = Some c'" for c'
  proof -
    from check_ofD [OF that] have "c' \<in> snd ` set swaps" by (force simp: image_iff)
    with new have "c' \<noteq> e" "c' \<noteq> c" by auto
    then show ?thesis by simp
  qed
  ultimately show ?case using Cons.prems(2) s new(5)
    by (auto simp: swap_ops_def check_of_def entry_of_def split: option.split)
qed (simp add: swap_ops_def check_of_def entry_of_def)

definition falls :: "nat \<Rightarrow> op \<Rightarrow> op" where
  "falls p i = (case i of ForNext vars exit _ in_env \<Rightarrow> ForNext vars exit (word_of_nat p + 1) in_env | _ \<Rightarrow> i)"

lemma fall_through_Cons: "fall_through ((e, c) # swaps) code = fall_through swaps (code[e := falls e (code ! e)])"
proof -
  have same: "code[e := i] = code" if "code ! e = i" for i using that by auto
  have "(case i of ForNext vars exit _ in_env \<Rightarrow> code[e := ForNext vars exit (word_of_nat e + 1) in_env] | _ \<Rightarrow> code) =
      code[e := falls e i]" if "code ! e = i" for i
    using that by (cases i) (simp_all add: falls_def same)
  then show ?thesis by (simp add: fall_through_def)
qed

lemma fall_through_Nil: "fall_through [] code = code"
  by (simp add: fall_through_def)

lemma length_fall_through [simp]: "length (fall_through swaps code) = length code"
  by (induction swaps arbitrary: code) (auto simp: fall_through_Nil fall_through_Cons)

lemma fall_through_nth:
  assumes "\<forall>(e, c) \<in> set swaps. e < length code"
  shows "fall_through swaps code ! p = (if p \<in> fst ` set swaps then falls p (code ! p) else code ! p)"
  using assms
proof (induction swaps arbitrary: code)
  case (Cons s swaps)
  obtain e c where s: "s = (e, c)" by (cases s)
  have idem: "falls p (falls p i) = falls p i" for i by (cases i) (simp_all add: falls_def)
  show ?case unfolding s fall_through_Cons using Cons.prems s idem by (subst Cons.IH) (auto simp: nth_list_update)
qed (simp add: fall_through_Nil)

section \<open>The loops that are found\<close>

lemma entry_jump_Some:
  assumes "entry_jump code pc b = Some e"
  obtains t where "b = e + 1" "e < length code" "code ! e = Jump t" "unat t = pc"
proof -
  have "entry_jump code pc b = None" if "\<nexists>t. code ! (b - 1) = Jump t"
    using that by (cases "code ! (b - 1)") (simp_all add: entry_jump_def vec_get_def)
  with assms obtain t where "code ! (b - 1) = Jump t" by force
  with assms that show thesis by (auto simp: entry_jump_def vec_get_def split: if_splits)
qed

text \<open>What is found at a test, by the position of the body.\<close>

lemma rotated_loop_test:
  assumes "pc < length code" "code ! pc = ForNext vars exit body in_env" "rotated_loop code pc = Ok r"
  shows "if unat body = pc + 1 then r = None else unat body \<le> pc \<and> (\<exists>e. r = Some (e, pc) \<and> entry_jump code pc (unat body) = Some e)"
  using assms by (auto simp: rotated_loop_def Let_def vec_get_def split: if_splits option.splits)

lemma rotated_loop_Some:
  assumes "rotated_loop code pc = Ok (Some (e, c))"
  obtains vars exit body in_env t where "c = pc" "pc < length code" "code ! pc = ForNext vars exit body in_env" "unat body = e + 1"
    "e < pc" "code ! e = Jump t" "unat t = pc"
proof -
  have "rotated_loop code pc = Ok None" if "\<nexists>vars exit body in_env. code ! pc = ForNext vars exit body in_env"
    using that by (cases "code ! pc") (simp_all add: rotated_loop_def vec_get_def)
  moreover have "rotated_loop code pc = Ok None" if "\<not> pc < length code" using that by (simp add: rotated_loop_def vec_get_def)
  ultimately obtain vars exit body in_env where at: "pc < length code" "code ! pc = ForNext vars exit body in_env"
    using assms by force
  from rotated_loop_test [OF at assms] have "c = pc" "unat body \<le> pc" "entry_jump code pc (unat body) = Some e"
    by (auto split: if_splits)
  from entry_jump_Some [OF this(3)] this(1,2) at that show thesis by (metis Suc_eq_plus1 Suc_le_lessD)
qed

lemma mem_map_filter_id: "x \<in> set (List.map_filter (\<lambda>y. y) ys) \<longleftrightarrow> Some x \<in> set ys"
  by (force simp: List.map_filter_def)

lemma rotated_loops_mem:
  assumes "rotated_loops code = Ok swaps"
  shows "(e, c) \<in> set swaps \<longleftrightarrow> c < length code \<and> rotated_loop code c = Ok (Some (e, c))"
    and "c < length code \<Longrightarrow> \<exists>r. rotated_loop code c = Ok r"
proof -
  from assms obtain found where found: "res_list (map (rotated_loop code) [0..<length code]) = Ok found"
    "swaps = List.map_filter (\<lambda>x. x) found" by (auto simp: rotated_loops_def)
  have nth: "rotated_loop code k = Ok (found ! k)" if "k < length code" for k
    using res_list_nth [OF found(1), of k] that by simp
  then show "c < length code \<Longrightarrow> \<exists>r. rotated_loop code c = Ok r" by blast
  have len: "length found = length code" using res_list_length [OF found(1)] by simp
  have "(e, c) \<in> set swaps \<longleftrightarrow> (\<exists>k < length code. found ! k = Some (e, c))"
    unfolding found(2) mem_map_filter_id by (simp add: in_set_conv_nth len)
  also have "\<dots> \<longleftrightarrow> c < length code \<and> found ! c = Some (e, c)"
  proof
    assume "\<exists>k < length code. found ! k = Some (e, c)"
    then obtain k where k: "k < length code" "rotated_loop code k = Ok (Some (e, c))" using nth by force
    from rotated_loop_Some [OF k(2)] have "c = k" by metis
    with k nth show "c < length code \<and> found ! c = Some (e, c)" by force
  qed blast
  also have "\<dots> \<longleftrightarrow> c < length code \<and> rotated_loop code c = Ok (Some (e, c))" using nth by auto
  finally show "(e, c) \<in> set swaps \<longleftrightarrow> c < length code \<and> rotated_loop code c = Ok (Some (e, c))" .
qed


lemma found_distinct:
  assumes "res_list (map F ks) = Ok found" "distinct ks" "\<And>k e c. F k = Ok (Some (e, c)) \<Longrightarrow> c = k"
  shows "distinct (map snd (List.map_filter (\<lambda>x. x) found)) \<and> snd ` set (List.map_filter (\<lambda>x. x) found) \<subseteq> set ks"
  using assms(1,2)
proof (induction ks arbitrary: found)
  case (Cons k ks)
  then obtain x xs where x: "F k = Ok x" "res_list (map F ks) = Ok xs" "found = x # xs" by auto
  from Cons.IH [OF x(2)] Cons.prems(2) have IH: "distinct (map snd (List.map_filter (\<lambda>x. x) xs))"
    "snd ` set (List.map_filter (\<lambda>x. x) xs) \<subseteq> set ks" by auto
  show ?case
  proof (cases x)
    case None
    with IH x(3) show ?thesis by (auto simp: List.map_filter_simps)
  next
    case (Some y)
    with assms(3) [of k "fst y" "snd y"] x(1) have "snd y = k" by simp
    with Some IH x(3) Cons.prems(2) show ?thesis by (auto simp: List.map_filter_simps)
  qed
qed (simp add: List.map_filter_simps)

lemma rotated_loops_apart:
  assumes "rotated_loops code = Ok swaps"
  shows "apart swaps"
proof -
  note mem = rotated_loops_mem(1) [OF assms]
  from assms obtain found where found: "res_list (map (rotated_loop code) [0..<length code]) = Ok found"
    "swaps = List.map_filter (\<lambda>x. x) found" by (auto simp: rotated_loops_def)
  have shape: "\<exists>vars exit body in_env t. code ! c = ForNext vars exit body in_env \<and> unat body = e + 1 \<and> code ! e = Jump t \<and> unat t = c"
    if "(e, c) \<in> set swaps" for e c
    using that mem rotated_loop_Some by metis
  have "c = k" if "rotated_loop code k = Ok (Some (e, c))" for k e c using rotated_loop_Some [OF that] by metis
  with found_distinct [OF found(1)] have snd: "distinct (map snd swaps)" by (simp add: found(2))
  moreover from snd have "distinct swaps" by (simp add: distinct_map)
  moreover have "c = c'" if "(e, c) \<in> set swaps" "(e, c') \<in> set swaps" for e c c'
    using shape [OF that(1)] shape [OF that(2)] by auto
  ultimately have "distinct (map fst swaps)" by (auto simp: distinct_map inj_on_def)
  moreover have "fst ` set swaps \<inter> snd ` set swaps = {}"
  proof (rule ccontr)
    assume "fst ` set swaps \<inter> snd ` set swaps \<noteq> {}"
    then obtain p e c where "(p, c) \<in> set swaps" "(e, p) \<in> set swaps" by auto
    from shape [OF this(1)] shape [OF this(2)] show False by auto
  qed
  ultimately show ?thesis using snd by (simp add: apart_def)
qed


section \<open>The exchange on raised code\<close>

definition vm_test :: "(rt_value, unit) vm_op \<Rightarrow> (rstring list \<times> nat \<times> nat \<times> bool \<times> span) option" where
  "vm_test r = (case r of VCore (VForNext vars exit body in_env sp) \<Rightarrow> Some (vars, exit, body, in_env, sp) | _ \<Rightarrow> None)"

text \<open>The rotated loops of raised code.\<close>

definition vm_rotated :: "(rt_value, unit) vm_op list \<Rightarrow> (nat \<times> nat) list" where
  "vm_rotated rs = List.map_filter (\<lambda>pc. case vm_test (rs ! pc) of
       Some (_, _, body, _, _) \<Rightarrow> if body \<le> pc then Some (body - 1, pc) else None
     | None \<Rightarrow> None) [0..<length rs]"

text \<open>
  The new code: a test stands at the entry of its loop and falls through, a jump to it stands where it
  was, and everything else is in place with moved targets.
\<close>

definition derotated :: "(rt_value, unit) vm_op list \<Rightarrow> (rt_value, unit) vm_op list \<Rightarrow> bool" where
  "derotated rs rs' \<longleftrightarrow> apart (vm_rotated rs) \<and> length rs' = length rs \<and> (\<forall>p < length rs.
     (case check_of (vm_rotated rs) p of
        Some c \<Rightarrow> rs ! p = VCore (VJump c) \<and> (\<exists>vars exit in_env sp.
          rs ! c = VCore (VForNext vars exit (p + 1) in_env sp) \<and>
          rs' ! p = VCore (VForNext vars (moved (vm_rotated rs) exit) (p + 1) in_env sp))
      | None \<Rightarrow> (case entry_of (vm_rotated rs) p of
          Some e \<Rightarrow> rs' ! p = VCore (VJump e)
        | None \<Rightarrow> rs' ! p = retarget (moved (vm_rotated rs)) (rs ! p))))"

lemma retarget_Ok: "retarget_in_place m i = Ok i' \<longleftrightarrow> remap_op m i = Ok i'"
  by (cases i) (simp_all add: retarget_in_place_def remap_op_def remap1_def remap_header_def Let_def move_target_def remap_target_def
      split: option.split)

lemma retarget_core_cong: "(\<And>t. t \<in> set (core_targets c) \<Longrightarrow> f t = g t) \<Longrightarrow> retarget_core f c = retarget_core g c"
  by (cases c) (simp_all add: retarget_core_def core_targets_def)

lemma retarget_cong: "(\<And>t. t \<in> set (op_targets i) \<Longrightarrow> f t = g t) \<Longrightarrow> retarget f i = retarget g i"
  by (cases i) (auto simp: retarget_def op_targets_def intro: retarget_core_cong)

lemma remap_target_range: "remap_target msg base t = Ok t' \<Longrightarrow> unat t < length base"
  by (auto simp: remap_target_def vec_get_def split: if_splits)

lemma remap_targets:
  assumes "raise_op m rec i = Ok v" "remap_op base i = Ok i'" "t \<in> set (op_targets v)"
  shows "t < length base"
  using assms remap_target_range [of _ base]
  by (cases i) (auto simp: remap_op_def remap1_def remap_header_def op_targets_def core_targets_def raise_closure_def)

lemma retarget_raised:
  assumes "retarget_in_place (derotate_map n swaps) i = Ok i'" "ir_op m rec i = Some r" "has_const m i"
    "apart swaps" "\<forall>(e, c) \<in> set swaps. e \<le> n \<and> c \<le> n" "n < 2 ^ 32"
  shows "ir_op m rec i' = Some (retarget (moved swaps) r) \<and> has_const m i'"
proof -
  let ?base = "derotate_map n swaps"
  have "map unat ?base ! t = moved swaps t" if "t \<in> set (op_targets r)" for t
  proof -
    from assms(2) obtain v where v: "raise_op m rec i = Ok v" "op_targets v = op_targets r"
      by (auto simp: ir_op_def chunk_code_ops split: sum.splits)
    have t: "t \<le> n" using remap_targets [OF v(1) assms(1) [unfolded retarget_Ok], of t] that v(2) by simp
    moreover have "moved swaps t \<le> n" using t assms(5) by (auto simp: moved_def split: option.split dest!: entry_ofD)
    ultimately show ?thesis using assms(5,6) derotate_map_nth [OF assms(4) _ t] by (fastforce simp: unat_of_nat take_bit_nat_eq_self)
  qed
  then have "retarget (\<lambda>t. map unat ?base ! t) r = retarget (moved swaps) r" by (rule retarget_cong)
  with ir_op_remap [OF assms(2,3) assms(1) [unfolded retarget_Ok] refl] show ?thesis by simp
qed

lemma raised_test:
  assumes "ir_op m rec (ForNext is exit body in_env) = Some r"
  obtains vars where "r = VCore (VForNext vars (unat exit) (unat body) in_env no_span)" "rs_strs m is = Ok vars"
  using assms by (auto simp: ir_op_def split: sum.splits)

lemma raised_no_test: "ir_op m rec i = Some r \<Longrightarrow> (\<And>is exit body in_env. i \<noteq> ForNext is exit body in_env) \<Longrightarrow> vm_test r = None"
  by (cases i) (auto simp: ir_op_def vm_test_def raise_closure_def split: sum.splits)

lemma raised_code_nth: "raised_code m rec code rs \<Longrightarrow> p < length code \<Longrightarrow> ir_op m rec (code ! p) = Some (rs ! p) \<and> has_const m (code ! p)"
  by (simp add: raised_code_def list_all2_conv_all_nth)

lemma raised_code_length: "raised_code m rec code rs \<Longrightarrow> length rs = length code"
  by (simp add: raised_code_def list_all2_lengthD)

lemma vm_rotated_raised:
  assumes "rotated_loops code = Ok swaps" "raised_code m rec code rs"
  shows "vm_rotated rs = swaps"
proof -
  let ?at = "\<lambda>pc. case vm_test (rs ! pc) of Some (_, _, body, _, _) \<Rightarrow> if body \<le> pc then Some (body - 1, pc) else None | None \<Rightarrow> None"
  from assms(1) obtain found where found: "res_list (map (rotated_loop code) [0..<length code]) = Ok found"
    "swaps = List.map_filter (\<lambda>x. x) found" by (auto simp: rotated_loops_def)
  have "found ! pc = ?at pc" if pc: "pc < length code" for pc
  proof -
    have nth: "rotated_loop code pc = Ok (found ! pc)" using res_list_nth [OF found(1), of pc] pc by simp
    note ir = conjunct1 [OF raised_code_nth [OF assms(2) pc]]
    show ?thesis
    proof (cases "\<exists>vs exit body in_env. code ! pc = ForNext vs exit body in_env")
      case True
      then obtain vs exit body in_env where at: "code ! pc = ForNext vs exit body in_env" by blast
      obtain vars where "vm_test (rs ! pc) = Some (vars, unat exit, unat body, in_env, no_span)"
        by (rule raised_test [OF ir [unfolded at]]) (simp add: vm_test_def)
      then show ?thesis using rotated_loop_test [OF pc at nth] by (auto split: if_splits elim!: entry_jump_Some)
    next
      case False
      then have "rotated_loop code pc = Ok None" by (cases "code ! pc") (simp_all add: rotated_loop_def vec_get_def)
      moreover have "vm_test (rs ! pc) = None" using ir by (rule raised_no_test) (use False in blast)
      ultimately show ?thesis using nth by simp
    qed
  qed
  then have at: "map ((!) found) [0..<length code] = map ?at [0..<length code]" by simp
  have "map ((!) found) [0..<length code] = found" using map_nth [of found] res_list_length [OF found(1)] by simp
  from trans [OF sym [OF this] at] have "found = map ?at [0..<length rs]" unfolding raised_code_length [OF assms(2)] .
  then show ?thesis by (simp add: vm_rotated_def found(2) List.map_filter_def filter_map comp_def)
qed

lemma derotated_unrotated: "vm_rotated rs = [] \<Longrightarrow> derotated rs rs"
proof -
  assume "vm_rotated rs = []"
  moreover have "moved [] = (\<lambda>t. t)" by (auto simp: moved_def entry_of_def)
  ultimately show ?thesis by (simp add: derotated_def apart_def check_of_def entry_of_def retarget_id)
qed

text \<open>What the pass leaves at a position, once raised.\<close>

lemma entry_raised:
  assumes "retarget_in_place (derotate_map n swaps) (Jump (word_of_nat e)) = Ok i" "apart swaps" "(e, c) \<in> set swaps"
    "\<forall>(e, c) \<in> set swaps. e \<le> n \<and> c \<le> n" "n < 2 ^ 32"
  shows "ir_op m rec i = Some (VCore (VJump e)) \<and> has_const m i"
proof -
  have e: "e \<le> n" "unat (word_of_nat e :: u32) = e" using assms(3-5) by (auto simp: unat_of_nat take_bit_nat_eq_self)
  have "derotate_map n swaps ! e = word_of_nat e"
    using derotate_map_nth [OF assms(2) _ e(1)] assms(4) moved_entry [OF assms(2,3)] by auto
  with assms(1) e have "i = Jump (word_of_nat e)" by (simp add: retarget_in_place_def Let_def move_target_def vec_get_def split: if_splits)
  with e(2) show ?thesis by (simp add: ir_op_def has_const_def op_const_def)
qed

lemma test_raised:
  assumes "retarget_in_place (derotate_map n swaps) (ForNext vs exit body in_env) = Ok i" "ir_op m rec (ForNext vs exit body in_env) = Some r"
    "apart swaps" "\<forall>(e, c) \<in> set swaps. e \<le> n \<and> c \<le> n" "n < 2 ^ 32" "p < n"
  obtains vars where "r = VCore (VForNext vars (unat exit) (unat body) in_env no_span)"
    "ir_op m rec (falls p i) = Some (VCore (VForNext vars (moved swaps (unat exit)) (p + 1) in_env no_span))" "has_const m (falls p i)"
proof -
  obtain vars where r: "r = VCore (VForNext vars (unat exit) (unat body) in_env no_span)" "rs_strs m vs = Ok vars"
    using assms(2) by (rule raised_test)
  from assms(1) obtain exit' body' where i: "i = ForNext vs exit' body' in_env" by (auto simp: retarget_in_place_def Let_def)
  have "has_const m (ForNext vs exit body in_env)" by (simp add: has_const_def op_const_def)
  from retarget_raised [OF assms(1,2) this assms(3-5)] r i have "unat exit' = moved swaps (unat exit)"
    by (auto simp: ir_op_def retarget_def retarget_core_def)
  moreover have "unat (word_of_nat (Suc p) :: u32) = Suc p" using assms(5,6) by (simp add: unat_of_nat take_bit_nat_eq_self del: of_nat_Suc)
  then have "unat (word_of_nat p + 1 :: u32) = p + 1" by (simp add: add.commute)
  ultimately show thesis using r i that by (simp add: falls_def ir_op_def has_const_def op_const_def)
qed

lemma derotate_nth:
  assumes swaps: "rotated_loops code = Ok swaps" and code2: "res_list (map (retarget_in_place (derotate_map (length code) swaps)) (swap_ops swaps code)) = Ok code2"
    and raised: "raised_code m rec code rs" and small: "length code < 2 ^ 32" and p: "p < length code"
  shows "\<exists>r. ir_op m rec (fall_through swaps code2 ! p) = Some r \<and> has_const m (fall_through swaps code2 ! p) \<and>
    (case check_of swaps p of
       Some c \<Rightarrow> rs ! p = VCore (VJump c) \<and> (\<exists>vars exit in_env sp.
         rs ! c = VCore (VForNext vars exit (p + 1) in_env sp) \<and> r = VCore (VForNext vars (moved swaps exit) (p + 1) in_env sp))
     | None \<Rightarrow> (case entry_of swaps p of Some e \<Rightarrow> r = VCore (VJump e) | None \<Rightarrow> r = retarget (moved swaps) (rs ! p)))"
proof -
  note apart = rotated_loops_apart [OF swaps]
  have found: "rotated_loop code c = Ok (Some (e, c))" if "(e, c) \<in> set swaps" for e c
    using that rotated_loops_mem(1) [OF swaps] by blast
  have bounds: "\<forall>(e, c) \<in> set swaps. e < length code \<and> c < length code" using found by (fastforce elim: rotated_loop_Some)
  then have le: "\<forall>(e, c) \<in> set swaps. e \<le> length code \<and> c \<le> length code" by auto
  have two: "retarget_in_place (derotate_map (length code) swaps) (swap_ops swaps code ! p) = Ok (code2 ! p)"
    using res_list_nth [OF code2, of p] p by simp
  have len2: "length code2 = length code" using res_list_length [OF code2] by simp
  have three: "fall_through swaps code2 ! p = (if p \<in> fst ` set swaps then falls p (code2 ! p) else code2 ! p)"
    using bounds len2 by (intro fall_through_nth) auto
  show ?thesis
  proof (cases "check_of swaps p")
    case (Some c)
    from check_ofD [OF Some] have mem: "(p, c) \<in> set swaps" .
    then have at: "fall_through swaps code2 ! p = falls p (code2 ! p)" using three by force
    from found [OF mem] obtain vs exit body in_env t where c: "c < length code" "code ! c = ForNext vs exit body in_env"
      "unat body = p + 1" "code ! p = Jump t" "unat t = c" by (rule rotated_loop_Some)
    have "swap_ops swaps code ! p = ForNext vs exit body in_env" using swap_ops_nth [OF apart bounds] Some c(2) by simp
    from test_raised [OF two [unfolded this] conjunct1 [OF raised_code_nth [OF raised c(1), unfolded c(2)]] apart le small p]
    obtain vars where "rs ! c = VCore (VForNext vars (unat exit) (unat body) in_env no_span)"
      "ir_op m rec (falls p (code2 ! p)) = Some (VCore (VForNext vars (moved swaps (unat exit)) (p + 1) in_env no_span))"
      "has_const m (falls p (code2 ! p))" by metis
    moreover have "rs ! p = VCore (VJump c)" using raised_code_nth [OF raised p] c(4,5) by (simp add: ir_op_def)
    ultimately show ?thesis unfolding at using Some c(3) by simp
  next
    case None
    then have "p \<notin> fst ` set swaps" using check_of_apart [OF apart] by force
    with three have at: "fall_through swaps code2 ! p = code2 ! p" by simp
    show ?thesis
    proof (cases "entry_of swaps p")
      case (Some e)
      then have "swap_ops swaps code ! p = Jump (word_of_nat e)" using swap_ops_nth [OF apart bounds] None by simp
      from entry_raised [OF two [unfolded this] apart entry_ofD [OF Some] le small] show ?thesis
        unfolding at using None Some by simp
    next
      case no: None
      then have "swap_ops swaps code ! p = code ! p" using swap_ops_nth [OF apart bounds] None by simp
      then have "retarget_in_place (derotate_map (length code) swaps) (code ! p) = Ok (code2 ! p)" using two by simp
      from retarget_raised [OF this _ _ apart le small] raised_code_nth [OF raised p] show ?thesis
        unfolding at using None no by auto
    qed
  qed
qed

lemma derotate_func_raised:
  assumes "derotate_func f = Ok f'" "raised_code m rec (fd_code f) rs" "length (fd_code f) < 2 ^ 32"
  shows "\<exists>rs'. raised_code m rec (fd_code f') rs' \<and> derotated rs rs'"
proof -
  let ?code = "fd_code f"
  from assms(1) obtain swaps where swaps: "rotated_loops ?code = Ok swaps" by (auto simp: derotate_func_def)
  note vm = vm_rotated_raised [OF swaps assms(2)] and len = raised_code_length [OF assms(2)]
  show ?thesis
  proof (cases "swaps = []")
    case True
    with assms(1,2) swaps vm derotated_unrotated show ?thesis by (auto simp: derotate_func_def)
  next
    case False
    with assms(1) swaps obtain code2 where code2: "res_list (map (retarget_in_place (derotate_map (length ?code) swaps)) (swap_ops swaps ?code)) = Ok code2"
      and code': "fd_code f' = fall_through swaps code2" by (auto simp: derotate_func_def Let_def split: if_splits)
    have len2: "length code2 = length ?code" using res_list_length [OF code2] by simp
    let ?rs' = "map (\<lambda>p. the (ir_op m rec (fd_code f' ! p))) [0..<length ?code]"
    note nth = derotate_nth [OF swaps code2 assms(2,3), folded code']
    have "raised_code m rec (fd_code f') ?rs'"
      using nth by (fastforce simp: raised_code_def list_all2_conv_all_nth code' len2)
    moreover have "derotated rs ?rs'"
      unfolding derotated_def vm len length_map length_upt diff_zero
    proof (intro conjI allI impI)
      fix p assume p: "p < length ?code"
      have at: "?rs' ! p = the (ir_op m rec (fd_code f' ! p))" using p by simp
      show "case check_of swaps p of
          Some c \<Rightarrow> rs ! p = VCore (VJump c) \<and> (\<exists>vars exit in_env sp. rs ! c = VCore (VForNext vars exit (p + 1) in_env sp) \<and>
            ?rs' ! p = VCore (VForNext vars (moved swaps exit) (p + 1) in_env sp))
        | None \<Rightarrow> (case entry_of swaps p of Some e \<Rightarrow> ?rs' ! p = VCore (VJump e) | None \<Rightarrow> ?rs' ! p = retarget (moved swaps) (rs ! p))"
        unfolding at using nth [OF p] by (elim exE conjE) (simp only: option.sel)
    qed (simp_all add: rotated_loops_apart [OF swaps])
    ultimately show ?thesis by blast
  qed
qed

lemma derotate_func_head: "derotate_func f = Ok f' \<Longrightarrow> same_head f f' \<and> length (fd_code f') = length (fd_code f)"
  by (auto simp: derotate_func_def same_head_def Let_def split: if_splits dest!: res_list_length)

text \<open>Code without a rotated loop is left alone.\<close>

lemma unrotated_raised:
  assumes "\<not> is_rotated f" "raised_code m rec (fd_code f) rs"
  shows "vm_rotated rs = []"
proof -
  have "pc < body" if pc: "pc < length rs" and test: "vm_test (rs ! pc) = Some (vars, exit, body, in_env, sp)" for pc vars exit body in_env sp
  proof -
    from pc have pc': "pc < length (fd_code f)" using raised_code_length [OF assms(2)] by simp
    note ir = conjunct1 [OF raised_code_nth [OF assms(2) pc']]
    from raised_no_test [OF ir] test obtain vs x b n where at: "fd_code f ! pc = ForNext vs x b n" by fastforce
    obtain vars' where "rs ! pc = VCore (VForNext vars' (unat x) (unat b) n no_span)" by (rule raised_test [OF ir [unfolded at]])
    with test have "body = unat b" by (simp add: vm_test_def)
    moreover have "(pc, ForNext vs x b n) \<in> set (zip [0..<length (fd_code f)] (fd_code f))" using pc' at by (force simp: in_set_zip)
    then have "\<not> unat b \<le> pc" using assms(1) by (fastforce simp: is_rotated_def list_ex_iff)
    ultimately show ?thesis by simp
  qed
  then show ?thesis by (fastforce simp: vm_rotated_def List.map_filter_def filter_empty_conv split: option.splits)
qed

lemma derotate_fits:
  assumes "derotate_loops m = Ok m'" "fits_tables m"
  shows "fits_tables m'"
proof (cases "list_ex is_rotated (m_funcs m)")
  case True
  with assms(1) obtain fs where fs: "res_list (map derotate_func (m_funcs m)) = Ok fs" "m' = m\<lparr>m_funcs := fs\<rparr>"
    by (auto simp: derotate_loops_def)
  have "length (fd_code (fs ! j)) = length (fd_code (m_funcs m ! j))" if "j < length fs" for j
    using res_list_nth [OF fs(1), of j] res_list_length [OF fs(1)] derotate_func_head that by auto
  with assms(2) res_list_length [OF fs(1)] show ?thesis by (auto simp: fits_tables_def list_all_length fs(2))
qed (use assms in \<open>simp add: derotate_loops_def\<close>)

interpretation derotate: code_pass derotate_loops "\<lambda>m m'. fits_tables m \<and> fits_tables m'" derotated
proof
  fix m m' assume m: "derotate_loops m = Ok m'" "fits_tables m \<and> fits_tables m'"
  have "m' = m \<and> \<not> list_ex is_rotated (m_funcs m) \<or>
      (\<exists>fs. res_list (map derotate_func (m_funcs m)) = Ok fs \<and> m' = m\<lparr>m_funcs := fs\<rparr>)"
    using m(1) by (cases "list_ex is_rotated (m_funcs m)") (simp_all add: derotate_loops_def, blast)
  then consider (same) "m' = m" "\<not> list_ex is_rotated (m_funcs m)"
    | (new) fs where "res_list (map derotate_func (m_funcs m)) = Ok fs" "m' = m\<lparr>m_funcs := fs\<rparr>" by blast
  note parts = this
  have small: "length (fd_code (m_funcs m ! j)) < 2 ^ 32" if "j < length (m_funcs m)" for j
    using m(2) that by (auto simp: fits_tables_def list_all_length)
  show ext: "extends m m'"
  proof (cases rule: parts)
    case new
    then show ?thesis using res_list_nth [OF new(1)] res_list_length [OF new(1)] derotate_func_head
      by (fastforce simp: extends_def list_all2_conv_all_nth)
  qed (simp add: extends_def same_head_def list_all2_refl)
  fix j rec rec' rs
  assume j: "j < length (m_funcs m)" and like: "rec_like rec rec'" and raised: "raised_code m rec (fd_code (m_funcs m ! j)) rs"
  note raised' = raised_code_extends [OF ext like raised]
  show "\<exists>rs'. raised_code m' rec' (fd_code (m_funcs m' ! j)) rs' \<and> derotated rs rs'"
  proof (cases rule: parts)
    case same
    then have "vm_rotated rs = []" using unrotated_raised [OF _ raised] j by (auto simp: list_ex_length)
    with same raised' derotated_unrotated show ?thesis by blast
  next
    case new
    with derotate_func_raised [OF res_list_nth [OF new(1) j] raised' small [OF j]] show ?thesis by simp
  qed
qed simp

end
