(* ===== verification/Derotate_Runs.thy ===== *)
theory Derotate_Runs
  imports Derotate_Code
begin

text \<open>
  Moving the tests of loops keeps the behaviour of the code. The two programs do not run in lock step:
  where the original jumps to the test, the new code already stands on it, and where the original
  falls onto the test, the new code jumps back to it.
\<close>

section \<open>One step\<close>

lemma rotated_range:
  assumes "(e, c) \<in> set (vm_rotated rs)"
  shows "e < length rs" "c < length rs"
  using assms by (auto simp: vm_rotated_def List.map_filter_def split: option.splits if_splits)

lemma derotated_at:
  assumes "derotated rs rs'" "p < length rs"
  shows "check_of (vm_rotated rs) p = Some c \<Longrightarrow> rs ! p = VCore (VJump c) \<and> (\<exists>vars exit in_env sp.
      rs ! c = VCore (VForNext vars exit (p + 1) in_env sp) \<and>
      rs' ! p = VCore (VForNext vars (moved (vm_rotated rs) exit) (p + 1) in_env sp))"
    and "check_of (vm_rotated rs) p = None \<Longrightarrow> entry_of (vm_rotated rs) p = Some e \<Longrightarrow> rs' ! p = VCore (VJump e)"
    and "check_of (vm_rotated rs) p = None \<Longrightarrow> entry_of (vm_rotated rs) p = None \<Longrightarrow> rs' ! p = retarget (moved (vm_rotated rs)) (rs ! p)"
proof -
  note at = conjunct2 [OF conjunct2 [OF assms(1) [unfolded derotated_def]], rule_format, OF assms(2)]
  show "check_of (vm_rotated rs) p = Some c \<Longrightarrow> rs ! p = VCore (VJump c) \<and> (\<exists>vars exit in_env sp.
      rs ! c = VCore (VForNext vars exit (p + 1) in_env sp) \<and>
      rs' ! p = VCore (VForNext vars (moved (vm_rotated rs) exit) (p + 1) in_env sp))" using at by simp
  show "check_of (vm_rotated rs) p = None \<Longrightarrow> entry_of (vm_rotated rs) p = Some e \<Longrightarrow> rs' ! p = VCore (VJump e)" using at by simp
  show "check_of (vm_rotated rs) p = None \<Longrightarrow> entry_of (vm_rotated rs) p = None \<Longrightarrow> rs' ! p = retarget (moved (vm_rotated rs)) (rs ! p)"
    using at by simp
qed

text \<open>Where a test was, the new code goes on to where it is.\<close>

lemma land:
  fixes fr :: "'e vm_frame"
  assumes "derotated rs rs'"
  shows "\<exists>j. vm_steps j H base fidx Some rs' p fr = Ok (moved (vm_rotated rs) p, fr)"
proof (cases "entry_of (vm_rotated rs) p")
  case None
  then have "moved (vm_rotated rs) p = p" by (simp add: moved_def)
  then show ?thesis by (intro exI [of _ 0]) simp
next
  case (Some e)
  from assms have apart: "apart (vm_rotated rs)" and len: "length rs' = length rs" by (auto simp: derotated_def)
  from Some have mem: "(e, p) \<in> set (vm_rotated rs)" by (rule entry_ofD)
  from derotated_at(2) [OF assms rotated_range(2) [OF mem] apart_disjoint(2) [OF apart mem] Some]
  have "vm_steps 1 H base fidx Some rs' p fr = Ok (e, fr)"
    using rotated_range(2) [OF mem] len by (simp add: vm_step_def exec_op_def exec_core_def vm_goto_def vm_return_def)
  then show ?thesis using Some by (intro exI [of _ 1]) (simp add: moved_def)
qed

text \<open>A test jumps, and only a live one to the body.\<close>

lemma leave_loop_jumps: "leave_loop exit fr = Ok (t, fr') \<Longrightarrow> t \<noteq> None"
  by (auto simp: leave_loop_def vm_bind_def vm_goto_def vm_return_def split: sum.splits)

lemma for_next_jumps: "for_next vars exit body sp fr = Ok (t, fr') \<Longrightarrow> t \<noteq> None"
  by (auto simp: for_next_def for_next_fast_def for_next_generic_def Let_def dest: leave_loop_jumps
      split: option.splits if_splits rt_value.splits for_step.splits)

lemma for_next_body:
  "for_next vars exit body' sp fr = for_next vars exit body sp fr \<or>
    (\<exists>fr'. for_next vars exit body sp fr = Ok (Some body, fr') \<and> for_next vars exit body' sp fr = Ok (Some body', fr'))"
proof -
  have fast: "for_next_fast exit body' fr = for_next_fast exit body fr \<or>
      (\<exists>fr'. for_next_fast exit body fr = Some (Ok (Some body, fr')) \<and> for_next_fast exit body' fr = Some (Ok (Some body', fr')))"
    by (auto simp: for_next_fast_def Let_def split: rt_value.split for_step.split)
  have generic: "for_next_generic n exit body' sp fr = for_next_generic n exit body sp fr \<or>
      (\<exists>fr'. for_next_generic n exit body sp fr = Ok (Some body, fr') \<and> for_next_generic n exit body' sp fr = Ok (Some body', fr'))" for n
  proof (cases "for_generic n (fr_stack fr ! (length (fr_stack fr) - n - 2)) (fr_stack fr ! (length (fr_stack fr) - n - 1)) sp")
    case (Inr r)
    then show ?thesis by (cases r) (auto simp: for_next_generic_def Let_def)
  qed (simp add: for_next_generic_def Let_def)
  show ?thesis using fast generic [of "length vars"] by (auto simp: for_next_def split: option.split)
qed

text \<open>A step from a position that is not an entry.\<close>

lemma test_step:
  fixes fr :: "'e vm_frame"
  assumes der: "derotated rs rs'" and entry: "entry_of (vm_rotated rs) p = Some e" and f: "f = moved (vm_rotated rs)"
  shows "case exec_op H base fidx Some (rs ! p) fr of
      Inl s \<Rightarrow> exec_op H base fidx Some (rs' ! e) (map_frame fidx f fr) = Err s
    | Inr (t, fr') \<Rightarrow> \<exists>u v. t = Some u \<and> exec_op H base fidx Some (rs' ! e) (map_frame fidx f fr) = Ok (Some v, map_frame fidx f fr') \<and>
        (v = f u \<or> f v = f u)"
proof -
  from entry have mem: "(e, p) \<in> set (vm_rotated rs)" by (rule entry_ofD)
  from der have apart: "apart (vm_rotated rs)" by (simp add: derotated_def)
  have check: "check_of (vm_rotated rs) e = Some p" using apart mem by (rule check_of_apart)
  from derotated_at(1) [OF der rotated_range(1) [OF mem] check] obtain vars exit in_env sp where
    old: "rs ! p = VCore (VForNext vars exit (e + 1) in_env sp)" and
    new: "rs' ! e = VCore (VForNext vars (f exit) (e + 1) in_env sp)" unfolding f by blast
  note run = movesD [OF moves_for_next [of "f exit" f exit "f (e + 1)" "e + 1" fidx vars sp, OF refl refl], of fr]
  note either = for_next_body [of vars "f exit" "e + 1" sp "map_frame fidx f fr" "f (e + 1)"]
  show ?thesis
  proof (cases "in_env")
    case False
    then have o: "exec_op H base fidx Some (rs ! p) fr = for_next vars exit (e + 1) sp fr"
      and n: "exec_op H base fidx Some (rs' ! e) (map_frame fidx f fr) = for_next vars (f exit) (e + 1) sp (map_frame fidx f fr)"
      by (simp_all add: old new exec_op_def exec_core_def)
    show ?thesis
    proof (cases "for_next vars exit (e + 1) sp fr")
      case (Inl s)
      with run either show ?thesis unfolding o n by auto
    next
      case (Inr r)
      obtain t fr' where r: "r = (t, fr')" by (cases r)
      with Inr for_next_jumps [of vars exit "e + 1" sp fr t fr'] obtain u where u: "t = Some u" by auto
      have "for_next vars (f exit) (f (e + 1)) sp (map_frame fidx f fr) = Ok (Some (f u), map_frame fidx f fr')" using run Inr r u by simp
      with either Inr r u show ?thesis unfolding o n by auto
    qed
  qed (simp add: old new exec_op_def exec_core_def vm_stop_def)
qed

lemma land_after:
  fixes fr :: "'e vm_frame"
  assumes "derotated rs rs'" "vm_steps 1 H base fidx Some rs' q fr = Ok (v, fr')"
  shows "\<exists>k > 0. vm_steps k H base fidx Some rs' q fr = Ok (moved (vm_rotated rs) v, fr')"
proof -
  from land [OF assms(1)] obtain j where "vm_steps j H base fidx Some rs' v fr' = Ok (moved (vm_rotated rs) v, fr')" by blast
  with assms(2) show ?thesis by (intro exI [of _ "1 + j"]) (simp add: vm_steps_add del: One_nat_def vm_steps.simps)
qed

lemma exchanged_step:
  fixes fr :: "'e vm_frame"
  assumes der: "derotated rs rs'" and p: "p < length rs" "check_of (vm_rotated rs) p = None" and f: "f = moved (vm_rotated rs)"
  shows "case exec_op H base fidx Some (rs ! p) fr of
      Inl s \<Rightarrow> vm_steps 1 H base fidx Some rs' (f p) (map_frame fidx f fr) = Err s
    | Inr (t, fr') \<Rightarrow> \<exists>k > 0. vm_steps k H base fidx Some rs' (f p) (map_frame fidx f fr) =
        Ok (f (case t of None \<Rightarrow> p + 1 | Some t \<Rightarrow> t), map_frame fidx f fr')"
proof -
  have len: "length rs' = length rs" using der by (simp add: derotated_def)
  note on = land_after [OF der, folded f]
  show ?thesis
  proof (cases "entry_of (vm_rotated rs) p")
    case (Some e)
    then have fp: "f p = e" by (simp add: f moved_def)
    have e: "e < length rs'" using rotated_range(1) [OF entry_ofD [OF Some]] len by simp
    note step = test_step [OF der Some f, of H base fidx fr]
    show ?thesis
    proof (cases "exec_op H base fidx Some (rs ! p) fr")
      case (Inl s)
      with step e show ?thesis by (simp add: fp vm_step_def)
    next
      case (Inr r)
      with step obtain u v fr' where r: "r = (Some u, fr')" and v: "v = f u \<or> f v = f u"
        and "exec_op H base fidx Some (rs' ! e) (map_frame fidx f fr) = Ok (Some v, map_frame fidx f fr')" by (cases r) auto
      then have one: "vm_steps 1 H base fidx Some rs' e (map_frame fidx f fr) = Ok (v, map_frame fidx f fr')" using e by (simp add: vm_step_def)
      from v show ?thesis unfolding fp Inr r sum.case prod.case option.case using one on [OF one] by (metis zero_less_one)
    qed
  next
    case None
    then have fp: "f p = p" by (simp add: f moved_def)
    have at: "rs' ! p = retarget f (rs ! p)" unfolding f using derotated_at(3) [OF der p None] .
    note run = movesD [OF moves_op [of fidx f H base Some "rs ! p"], of fr, folded at]
    show ?thesis
    proof (cases "exec_op H base fidx Some (rs ! p) fr")
      case (Inl s)
      with run p(1) len show ?thesis by (simp add: fp vm_step_def)
    next
      case (Inr r)
      obtain t fr' where r: "r = (t, fr')" by (cases r)
      with Inr run p(1) len have one: "vm_steps 1 H base fidx Some rs' p (map_frame fidx f fr) =
          Ok (case t of None \<Rightarrow> p + 1 | Some t \<Rightarrow> f t, map_frame fidx f fr')" by (simp add: vm_step_def split: option.split)
      show ?thesis
      proof (cases t)
        case None
        with one on [of H base fidx p "map_frame fidx f fr" "p + 1"] show ?thesis unfolding fp Inr r sum.case prod.case by simp
      next
        case (Some u)
        with one show ?thesis unfolding fp Inr r sum.case prod.case by (intro exI [of _ 1]) simp
      qed
    qed
  qed
qed

section \<open>Runs\<close>

lemma exchanged_steps:
  fixes fr :: "'e vm_frame"
  assumes der: "derotated rs rs'" and f: "f = moved (vm_rotated rs)"
  shows "case vm_steps n H base fidx Some rs p fr of
      Inl s \<Rightarrow> \<exists>k. vm_steps k H base fidx Some rs' (f p) (map_frame fidx f fr) = Err s
    | Inr (p', fr') \<Rightarrow> \<exists>k. n \<le> 2 * k + 1 \<and> (check_of (vm_rotated rs) p = None \<longrightarrow> n \<le> 2 * k) \<and>
        vm_steps k H base fidx Some rs' (f p) (map_frame fidx f fr) = Ok (f p', map_frame fidx f fr')"
proof (induction n arbitrary: p fr)
  case (Suc n)
  have apart: "apart (vm_rotated rs)" and len: "length rs' = length rs" using der by (simp_all add: derotated_def)
  consider (out) "\<not> p < length rs" | (entry) c where "p < length rs" "check_of (vm_rotated rs) p = Some c"
    | (step) "p < length rs" "check_of (vm_rotated rs) p = None" by fastforce
  then show ?case
  proof cases
    case out
    then have "entry_of (vm_rotated rs) p = None" using rotated_range(2) by (metis not_None_eq entry_ofD)
    then have "vm_steps 1 H base fidx Some rs' (f p) (map_frame fidx f fr) = Err Left" using out len by (simp add: f moved_def vm_step_def)
    with out show ?thesis by (auto simp: vm_step_def intro: exI [of _ 1])
  next
    case entry
    from check_ofD [OF entry(2)] have mem: "(p, c) \<in> set (vm_rotated rs)" .
    have fc: "f c = f p" and none: "check_of (vm_rotated rs) c = None"
      unfolding f using moved_check [OF apart mem] moved_entry [OF apart mem] apart_disjoint(2) [OF apart mem] by simp_all
    have first: "vm_steps (Suc n) H base fidx Some rs p fr = vm_steps n H base fidx Some rs c fr"
      using derotated_at(1) [OF der entry] entry(1) by (simp add: vm_step_def exec_op_def exec_core_def vm_goto_def vm_return_def)
    show ?thesis unfolding first using Suc.IH [of c fr] none entry(2) unfolding fc by (auto split: sum.splits)
  next
    case step
    note one = exchanged_step [OF der step f, of H base fidx fr]
    show ?thesis
    proof (cases "exec_op H base fidx Some (rs ! p) fr")
      case (Inl s)
      then have stop: "vm_steps (Suc n) H base fidx Some rs p fr = Err s" using step(1) by (simp add: vm_step_def)
      show ?thesis unfolding stop sum.case using one Inl by (intro exI [of _ 1]) simp
    next
      case (Inr r)
      obtain t fr' where r: "r = (t, fr')" by (cases r)
      let ?q = "case t of None \<Rightarrow> p + 1 | Some t \<Rightarrow> t"
      from one Inr r obtain j where j: "0 < j" "vm_steps j H base fidx Some rs' (f p) (map_frame fidx f fr) = Ok (f ?q, map_frame fidx f fr')" by auto
      have first: "vm_steps (Suc n) H base fidx Some rs p fr = vm_steps n H base fidx Some rs ?q fr'"
        using Inr r step(1) by (simp add: vm_step_def)
      have rest: "vm_steps (j + k) H base fidx Some rs' (f p) (map_frame fidx f fr) =
          vm_steps k H base fidx Some rs' (f ?q) (map_frame fidx f fr')" for k using j(2) by (simp add: vm_steps_add)
      have pace: "n \<le> 2 * k + 1 \<Longrightarrow> Suc n \<le> 2 * (j + k)" for k using j(1) by simp
      show ?thesis
      proof (cases "vm_steps n H base fidx Some rs ?q fr'")
        case (Inl s)
        with Suc.IH [of ?q fr'] show ?thesis unfolding first Inl sum.case by (metis rest sum.case(1))
      next
        case (Inr x)
        obtain p'' fr'' where x: "x = (p'', fr'')" by (cases x)
        from Suc.IH [of ?q fr'] obtain k where "n \<le> 2 * k + 1"
          "vm_steps k H base fidx Some rs' (f ?q) (map_frame fidx f fr') = Ok (f p'', map_frame fidx f fr'')" unfolding Inr x by auto
        then show ?thesis unfolding first Inr x sum.case prod.case rest [symmetric] using pace [of k] by (intro exI [of _ "j + k"]) simp
      qed
    qed
  qed
qed (auto intro: exI [of _ 0])

text \<open>Where the instructions of a chunk stand once its tests have moved.\<close>

definition derotated_ip :: "vm_chunk \<Rightarrow> nat \<Rightarrow> nat" where
  "derotated_ip c = moved (vm_rotated (chunk_code c))"

text \<open>
  A run is followed by a run with the same outcome, errors and panics included, that takes at least
  about half as many steps, so that a run without end is followed by one without end.
\<close>

definition runs_exchanged :: "(nat \<Rightarrow> nat) \<Rightarrow> vm_chunk \<Rightarrow> vm_chunk \<Rightarrow> bool" where
  "runs_exchanged f c c' \<longleftrightarrow> (\<forall>H base fidx n ip (fr :: nat vm_frame).
     (case vm_steps n H base fidx (chunk_look c) (vc_code c) ip fr of
        Inl s \<Rightarrow> \<exists>k. vm_steps k H base fidx (chunk_look c') (vc_code c') (f ip) (map_frame fidx f fr) = Err s
      | Inr (ip', fr') \<Rightarrow> \<exists>k. n \<le> 2 * k + 1 \<and>
          vm_steps k H base fidx (chunk_look c') (vc_code c') (f ip) (map_frame fidx f fr) = Ok (f ip', map_frame fidx f fr')))"

lemma derotated_runs:
  assumes "derotated (chunk_code c) (chunk_code c')" "consts_in (vc_code c) {k. unat k < length (vc_constants c)}"
    "consts_in (vc_code c') {k. unat k < length (vc_constants c')}"
  shows "runs_exchanged (derotated_ip c) c c'"
proof -
  have "case vm_steps n H base fidx Some (chunk_code c) ip fr of
        Inl s \<Rightarrow> \<exists>k. vm_steps k H base fidx Some (chunk_code c') (derotated_ip c ip) (map_frame fidx (derotated_ip c) fr) = Err s
      | Inr (ip', fr') \<Rightarrow> \<exists>k. n \<le> 2 * k + 1 \<and>
          vm_steps k H base fidx Some (chunk_code c') (derotated_ip c ip) (map_frame fidx (derotated_ip c) fr) =
            Ok (derotated_ip c ip', map_frame fidx (derotated_ip c) fr')" for H base fidx n ip and fr :: "nat vm_frame"
    using exchanged_steps [OF assms(1) derotated_ip_def, of H base fidx ip fr n]
    by (cases "vm_steps n H base fidx Some (chunk_code c) ip fr") auto
  then show ?thesis unfolding runs_exchanged_def chunk_code_steps [OF assms(2)] chunk_code_steps [OF assms(3)] by blast
qed

lemma derotate_runs:
  assumes "derotate_loops m = Ok m'" "raise m = Ok c" "fits_tables m"
  shows "\<exists>c'. raise m' = Ok c' \<and> runs_exchanged (derotated_ip c) c c'"
proof -
  note fits' = derotate_fits [OF assms(1,3)]
  from derotate.raise_pass [OF assms(1) _ assms(2)] assms(3) fits' obtain c' where
    c': "raise m' = Ok c'" "derotated (chunk_code c) (chunk_code c')" by blast
  from derotated_runs [OF c'(2) raise_consts [OF assms(2,3)] raise_consts [OF c'(1) fits']] c'(1) show ?thesis by blast
qed

end
