(* ===== verification/Derotate_Vartab.thy ===== *)
theory Derotate_Vartab
  imports Derotate_Code
begin

text \<open>
  The table of loop variables lists the slots of every test in the order of the code. Moving the tests
  changes that order, and \<open>derotate_loops\<close> reorders the table with them: a loop finds the slots it had.
\<close>

section \<open>The tests of a function\<close>

lemma fornext_vars_iff: "fornext_vars i \<noteq> None \<longleftrightarrow> (\<exists>vs exit body in_env. i = ForNext vs exit body in_env)"
  by (cases i) (simp_all add: fornext_vars_def)

lemma retarget_vars: "retarget_in_place m i = Ok i' \<Longrightarrow> fornext_vars i' = fornext_vars i"
  unfolding retarget_Ok by (cases i) (auto simp: remap_op_def remap1_def remap_header_def fornext_vars_def)

lemma falls_vars: "fornext_vars (falls p i) = fornext_vars i"
  by (cases i) (simp_all add: falls_def fornext_vars_def)

lemma jump_vars: "fornext_vars (Jump t) = None"
  by (simp add: fornext_vars_def)

lemma fornext_pcs_sorted: "sorted (fornext_pcs code)" "distinct (fornext_pcs code)"
  by (simp_all add: fornext_pcs_def sorted_wrt_filter)

lemma mem_fornext_pcs: "p \<in> set (fornext_pcs code) \<longleftrightarrow> p < length code \<and> fornext_vars (code ! p) \<noteq> None"
  by (auto simp: fornext_pcs_def)

text \<open>The tests of the new code are the old ones, moved.\<close>

lemma moved_tests:
  assumes swaps: "rotated_loops code = Ok swaps"
    and code2: "res_list (map (retarget_in_place (derotate_map (length code) swaps)) (swap_ops swaps code)) = Ok code2"
  shows "set (fornext_pcs (fall_through swaps code2)) = moved swaps ` set (fornext_pcs code)"
    and "inj_on (moved swaps) (set (fornext_pcs code))" "\<And>p. p \<in> set (fornext_pcs code) \<Longrightarrow> moved swaps p < length code"
proof -
  note apart = rotated_loops_apart [OF swaps]
  have found: "e < length code \<and> c < length code \<and> fornext_vars (code ! c) \<noteq> None \<and> fornext_vars (code ! e) = None"
    if "(e, c) \<in> set swaps" for e c
  proof -
    have "rotated_loop code c = Ok (Some (e, c))" using that rotated_loops_mem(1) [OF swaps] by blast
    then show ?thesis by (rule rotated_loop_Some) (simp add: fornext_vars_def)
  qed
  then have bounds: "\<forall>(e, c) \<in> set swaps. e < length code \<and> c < length code" by blast
  have len: "length code2 = length code" using res_list_length [OF code2] by simp
  have vars: "fornext_vars (fall_through swaps code2 ! p) = fornext_vars (swap_ops swaps code ! p)" if "p < length code" for p
    using res_list_nth [OF code2, of p] that bounds len retarget_vars
    by (subst fall_through_nth) (auto simp: falls_vars)
  have new: "p \<in> set (fornext_pcs (fall_through swaps code2)) \<longleftrightarrow> p < length code \<and> (case check_of swaps p of
      Some c \<Rightarrow> True | None \<Rightarrow> (case entry_of swaps p of Some e \<Rightarrow> False | None \<Rightarrow> fornext_vars (code ! p) \<noteq> None))" for p
    using vars [of p] found check_ofD [of swaps p] swap_ops_nth [OF apart bounds, of p]
    by (cases "fornext_vars (code ! p)") (auto simp: mem_fornext_pcs len jump_vars split: option.splits)
  have kept: "check_of swaps p = None" if "p \<in> set (fornext_pcs code)" for p
    using that found check_ofD [of swaps p] by (cases "check_of swaps p") (auto simp: mem_fornext_pcs)
  show "moved swaps p < length code" if "p \<in> set (fornext_pcs code)" for p
    using that bounds by (auto simp: moved_def mem_fornext_pcs split: option.split dest!: entry_ofD)
  show "inj_on (moved swaps) (set (fornext_pcs code))"
  proof (rule inj_onI)
    fix p q assume pq: "p \<in> set (fornext_pcs code)" "q \<in> set (fornext_pcs code)" "moved swaps p = moved swaps q"
    then show "p = q" using kept [OF pq(1)] kept [OF pq(2)] check_of_apart [OF apart]
      by (auto simp: moved_def split: option.splits dest!: entry_ofD) (metis option.inject)
  qed
  show "set (fornext_pcs (fall_through swaps code2)) = moved swaps ` set (fornext_pcs code)"
  proof (intro equalityI subsetI)
    fix p assume p: "p \<in> set (fornext_pcs (fall_through swaps code2))"
    show "p \<in> moved swaps ` set (fornext_pcs code)"
    proof (cases "check_of swaps p")
      case (Some c)
      from check_ofD [OF Some] have "moved swaps c = p" "c \<in> set (fornext_pcs code)"
        using moved_check [OF apart] found by (auto simp: mem_fornext_pcs)
      then show ?thesis by (metis imageI)
    next
      case None
      with p new [of p] have "moved swaps p = p" "p \<in> set (fornext_pcs code)" by (auto simp: moved_def mem_fornext_pcs split: option.splits)
      then show ?thesis by (metis imageI)
    qed
  next
    fix p assume "p \<in> moved swaps ` set (fornext_pcs code)"
    then obtain q where q: "p = moved swaps q" "q \<in> set (fornext_pcs code)" by blast
    show "p \<in> set (fornext_pcs (fall_through swaps code2))"
    proof (cases "entry_of swaps q")
      case (Some e)
      from entry_ofD [OF Some] q show ?thesis unfolding new
        using check_of_apart [OF apart, of e q] found by (auto simp: moved_def Some)
    next
      case None
      with q kept [OF q(2)] show ?thesis unfolding new by (auto simp: moved_def mem_fornext_pcs)
    qed
  qed
qed

section \<open>The table\<close>

lemma sort_moved:
  fixes key :: "nat \<Rightarrow> u32"
  assumes "\<And>i. i < n \<Longrightarrow> unat (key i) = g i" "inj_on g {0..<n}" "set ys = g ` {0..<n}" "sorted ys" "distinct ys"
  shows "map g (sort_key key [0..<n]) = ys"
proof (rule sorted_distinct_set_unique)
  have "sorted (map key (sort_key key [0..<n]))" by simp
  then have "sorted_wrt (\<lambda>i j. key i \<le> key j) (sort_key key [0..<n])" by (simp add: sorted_map)
  then show "sorted (map g (sort_key key [0..<n]))"
    using assms(1) unfolding sorted_map by (elim sorted_wrt_mono_rel [rotated]) (auto simp: word_le_nat_alt)
qed (use assms(2-5) in \<open>auto simp: distinct_map\<close>)

lemma vartab_follows:
  assumes "derotate_func f = Ok f'" "rotated_loops (fd_code f) = Ok swaps" "length (fd_vartab f) = length (fornext_pcs (fd_code f))"
    "length (fd_code f) < 2 ^ 32" "pc \<in> set (fornext_pcs (fd_code f))"
  shows "map_of (zip (fornext_pcs (fd_code f')) (fd_vartab f')) (moved swaps pc) = map_of (zip (fornext_pcs (fd_code f)) (fd_vartab f)) pc"
proof (cases "swaps = []")
  case True
  with assms(1,2) show ?thesis by (simp add: derotate_func_def moved_def entry_of_def)
next
  case False
  let ?code = "fd_code f" and ?pcs = "fornext_pcs (fd_code f)" and ?M = "derotate_map (length (fd_code f)) swaps"
  from False assms(1-3) obtain code2 where code2: "res_list (map (retarget_in_place ?M) (swap_ops swaps ?code)) = Ok code2"
    and f': "fd_code f' = fall_through swaps code2" "fd_vartab f' = move_vartab ?M ?pcs (fd_vartab f)"
    by (auto simp: derotate_func_def Let_def)
  note tests = moved_tests [OF assms(2) code2] and apart = rotated_loops_apart [OF assms(2)]
  let ?g = "\<lambda>i. moved swaps (?pcs ! i)" and ?order = "sort_key (\<lambda>i. ?M ! (?pcs ! i)) [0..<length ?pcs]"
  have checks: "\<forall>(e, c) \<in> set swaps. c \<le> length ?code" using rotated_loops_mem(1) [OF assms(2)] by auto
  have key: "unat (?M ! (?pcs ! i)) = ?g i" if "i < length ?pcs" for i
  proof -
    have i: "?pcs ! i \<in> set ?pcs" using that by simp
    then have "?pcs ! i \<le> length ?code" by (auto simp: mem_fornext_pcs)
    with derotate_map_nth [OF apart checks] tests(3) [OF i] assms(4) show ?thesis by (simp add: unat_of_nat take_bit_nat_eq_self)
  qed
  have inj: "inj_on ?g {0..<length ?pcs}"
    using tests(2) fornext_pcs_sorted(2) [of ?code] by (auto intro!: inj_onI simp: nth_eq_iff_index_eq dest!: inj_onD)
  have image: "moved swaps ` set ?pcs = ?g ` {0..<length ?pcs}"
    using nth_image [of "length ?pcs" ?pcs] by (metis image_image order_refl take_all)
  have pcs': "map ?g ?order = fornext_pcs (fd_code f')"
    unfolding f'(1) by (rule sort_moved [OF key inj trans [OF tests(1) image] fornext_pcs_sorted])
  have "zip (fornext_pcs (fd_code f')) (fd_vartab f') = map (\<lambda>i. (?g i, fd_vartab f ! i)) ?order"
    unfolding pcs' [symmetric] f'(2) move_vartab_def by (simp add: zip_map_map zip_same_conv_map comp_def)
  moreover obtain k where k: "k < length ?pcs" "pc = ?pcs ! k" using assms(5) by (auto simp: in_set_conv_nth)
  moreover have "map_of (map (\<lambda>i. (?g i, fd_vartab f ! i)) ?order) (?g k) = Some (fd_vartab f ! k)"
    using inj k(1) by (intro map_of_is_SomeI) (auto simp: distinct_map comp_def inj_on_def)
  ultimately show ?thesis using map_of_zip_nth [of ?pcs "fd_vartab f" k] assms(3) fornext_pcs_sorted(2) [of ?code] by simp
qed

end
