(* ===== verification/Native_Input.thy ===== *)
theory Native_Input
  imports Derotate_Runs Derotate_Vartab
begin

text \<open>
  The C back end derotates the loops of a module and then expands its fused instructions. What it
  compiles runs as the module it was given.
\<close>

section \<open>What the first pass keeps\<close>

lemma mem_map_filter: "y \<in> set (List.map_filter f xs) \<longleftrightarrow> (\<exists>x \<in> set xs. f x = Some y)"
  by (force simp: List.map_filter_def)

lemma rotated_order:
  assumes "(e, c) \<in> set (vm_rotated rs)"
  shows "e \<le> c"
proof -
  from assms obtain pc where "(case vm_test (rs ! pc) of Some (_, _, body, _, _) \<Rightarrow> if body \<le> pc then Some (body - 1, pc) else None
      | None \<Rightarrow> None) = Some (e, c)" by (auto simp: vm_rotated_def mem_map_filter)
  then show ?thesis by (cases "vm_test (rs ! pc)") (auto split: prod.splits if_splits)
qed

lemma moved_le:
  assumes "apart (vm_rotated rs)"
  shows "moved (vm_rotated rs) t \<le> t"
proof (cases "entry_of (vm_rotated rs) t")
  case (Some e)
  from entry_ofD [OF this] have "e \<le> t" by (rule rotated_order)
  with Some show ?thesis by (simp add: moved_def)
qed (simp add: moved_def)

lemma retarget_core_targets: "core_targets (retarget_core f c) = map f (core_targets c)"
  by (cases c) (simp_all add: retarget_core_def core_targets_def)

lemma retarget_targets: "op_targets (retarget f i) = map f (op_targets i)"
  by (cases i) (simp_all add: retarget_def op_targets_def retarget_core_targets)

lemma retarget_test_ok: "fused_test_ok (retarget f i) = fused_test_ok i"
proof -
  have "fused_test_ok (VCore (retarget_core f c) :: ('a, 'b) vm_op) = fused_test_ok (VCore c :: ('a, 'b) vm_op)" for c
    by (cases c) (simp_all add: retarget_core_def)
  then show ?thesis by (cases i) (simp_all add: retarget_def)
qed

lemma derotated_keeps:
  assumes der: "derotated rs rs'" and ok: "list_all (\<lambda>i. list_all (\<lambda>t. t \<le> length rs) (op_targets i)) rs" "list_all fused_test_ok rs"
  shows "list_all (\<lambda>i. list_all (\<lambda>t. t \<le> length rs') (op_targets i)) rs' \<and> list_all fused_test_ok rs'"
proof -
  from der have apart: "apart (vm_rotated rs)" and len: "length rs' = length rs" by (simp_all add: derotated_def)
  note le = moved_le [OF apart]
  have old: "list_all (\<lambda>t. t \<le> length rs) (op_targets (rs ! p))" "fused_test_ok (rs ! p)" if "p < length rs" for p
    using ok that by (simp_all add: list_all_length)
  have "list_all (\<lambda>t. t \<le> length rs) (op_targets (rs' ! p)) \<and> fused_test_ok (rs' ! p)" if p: "p < length rs" for p
  proof (cases "check_of (vm_rotated rs) p")
    case (Some c)
    from derotated_at(1) [OF der p Some] obtain vars exit in_env sp where
      c: "rs ! c = VCore (VForNext vars exit (p + 1) in_env sp)"
        "rs' ! p = VCore (VForNext vars (moved (vm_rotated rs) exit) (p + 1) in_env sp)" by blast
    from old(1) [OF rotated_range(2) [OF check_ofD [OF Some]]] c le [of exit] show ?thesis by (auto simp: op_targets_def core_targets_def)
  next
    case None
    show ?thesis
    proof (cases "entry_of (vm_rotated rs) p")
      case (Some e)
      from derotated_at(2) [OF der p None Some] rotated_range(1) [OF entry_ofD [OF Some]] show ?thesis
        by (simp add: op_targets_def core_targets_def)
    next
      case no: None
      from derotated_at(3) [OF der p None no] old [OF p] le show ?thesis
        by (auto simp: retarget_targets retarget_test_ok list_all_iff intro: order_trans)
    qed
  qed
  then show ?thesis by (simp add: list_all_length len)
qed

section \<open>Both passes\<close>

text \<open>
  A run is followed by a run with the same outcome, unless the original panics: errors keep their
  message, and a run without end is followed by one without end.
\<close>

definition runs_as :: "(nat \<Rightarrow> nat) \<Rightarrow> vm_chunk \<Rightarrow> vm_chunk \<Rightarrow> bool" where
  "runs_as f c c' \<longleftrightarrow> (\<forall>H base fidx n ip (fr :: nat vm_frame).
     loops_in (length (vc_code c)) fidx fr \<longrightarrow> ip \<le> length (vc_code c) \<longrightarrow>
     (case vm_steps n H base fidx (chunk_look c) (vc_code c) ip fr of
        Inl s \<Rightarrow> s = Panicked \<or>
          (\<exists>k s'. vm_steps k H base fidx (chunk_look c') (vc_code c') (f ip) (map_frame fidx f fr) = Err s' \<and> same_stop push_msg s s')
      | Inr (ip', fr') \<Rightarrow> \<exists>k. n \<le> 2 * k + 1 \<and>
          vm_steps k H base fidx (chunk_look c') (vc_code c') (f ip) (map_frame fidx f fr) = Ok (f ip', map_frame fidx f fr')))"

lemma map_frame_comp: "map_frame fidx h (map_frame fidx g fr) = map_frame fidx (h \<circ> g) fr"
  by (simp add: map_frame_def comp_def map_loop_def)

lemma loops_in_moved:
  assumes "loops_in n fidx fr" "\<And>t. g t \<le> t"
  shows "loops_in n fidx (map_frame fidx g fr)"
  unfolding loops_in_def
proof (intro ballI impI)
  fix li assume "li \<in> set (fr_loops (map_frame fidx g fr))" "li_frame_idx li = fidx"
  then obtain l where l: "l \<in> set (fr_loops fr)" "li = map_loop fidx g l" by auto
  with \<open>li_frame_idx li = fidx\<close> have idx: "li_frame_idx l = fidx" by simp
  then have "li_exit l \<le> n \<and> li_header l \<le> n" using assms(1) l(1) by (simp add: loops_in_def)
  moreover have "li_exit li = g (li_exit l) \<and> li_header li = g (li_header l)" using l(2) idx by (simp add: map_loop_def)
  ultimately show "li_exit li \<le> n \<and> li_header li \<le> n" by (metis assms(2) order_trans)
qed

lemma runs_compose:
  assumes "runs_exchanged g c c1" "runs_like h c1 c2" "length (vc_code c1) = length (vc_code c)" "\<And>t. g t \<le> t"
  shows "runs_as (h \<circ> g) c c2"
  unfolding runs_as_def
proof (intro allI impI)
  fix H base fidx n ip and fr :: "nat vm_frame"
  assume start: "loops_in (length (vc_code c)) fidx fr" "ip \<le> length (vc_code c)"
  let ?old = "vm_steps n H base fidx (chunk_look c) (vc_code c) ip fr"
  let ?mid = "\<lambda>k. vm_steps k H base fidx (chunk_look c1) (vc_code c1) (g ip) (map_frame fidx g fr)"
  let ?new = "\<lambda>k. vm_steps k H base fidx (chunk_look c2) (vc_code c2) (h (g ip)) (map_frame fidx (h \<circ> g) fr)"
  have loops: "loops_in (length (vc_code c1)) fidx (map_frame fidx g fr)"
    using start(1) unfolding assms(3) by (rule loops_in_moved) (rule assms(4))
  have ip: "g ip \<le> length (vc_code c1)" using start(2) assms(3,4) by (metis order_trans)
  have second: "case ?mid k of
      Inl s \<Rightarrow> s = Panicked \<or> (\<exists>k s'. ?new k = Err s' \<and> same_stop push_msg s s')
    | Inr (ip', fr') \<Rightarrow> \<exists>j \<ge> k. ?new j = Ok (h ip', map_frame fidx h fr')" for k
    by (rule assms(2) [unfolded runs_like_def, rule_format, OF loops ip, unfolded map_frame_comp])
  have first: "case ?old of Inl s \<Rightarrow> \<exists>k. ?mid k = Err s
    | Inr (ip', fr') \<Rightarrow> \<exists>k. n \<le> 2 * k + 1 \<and> ?mid k = Ok (g ip', map_frame fidx g fr')"
    by (rule assms(1) [unfolded runs_exchanged_def, rule_format])
  show "case ?old of Inl s \<Rightarrow> s = Panicked \<or> (\<exists>k s'. vm_steps k H base fidx (chunk_look c2) (vc_code c2) ((h \<circ> g) ip) (map_frame fidx (h \<circ> g) fr) = Err s' \<and>
      same_stop push_msg s s')
    | Inr (ip', fr') \<Rightarrow> \<exists>k. n \<le> 2 * k + 1 \<and>
      vm_steps k H base fidx (chunk_look c2) (vc_code c2) ((h \<circ> g) ip) (map_frame fidx (h \<circ> g) fr) = Ok ((h \<circ> g) ip', map_frame fidx (h \<circ> g) fr')"
  proof (cases ?old)
    case (Inl s)
    with first obtain k where "?mid k = Err s" by auto
    with second [of k] show ?thesis unfolding Inl comp_apply by simp
  next
    case (Inr r)
    obtain ip' fr' where r: "r = (ip', fr')" by (cases r)
    with first Inr obtain k where k: "n \<le> 2 * k + 1" "?mid k = Ok (g ip', map_frame fidx g fr')" by auto
    with second [of k] obtain j where "j \<ge> k" "?new j = Ok (h (g ip'), map_frame fidx h (map_frame fidx g fr'))" by auto
    with k(1) show ?thesis unfolding Inr r sum.case prod.case comp_apply by (intro exI [of _ j]) (simp add: map_frame_comp comp_def)
  qed
qed

lemma native_input_runs:
  assumes "derotate_loops m = Ok m1" "expand_fused m1 = Ok m2" "raise m = Ok c" "fits_tables m" "fits_tables m2"
    "targets_in_range c" "tests_compare c"
  shows "\<exists>c1 c2. raise m1 = Ok c1 \<and> raise m2 = Ok c2 \<and> runs_as (unfused_ip c1 \<circ> derotated_ip c) c c2"
proof -
  note fits1 = derotate_fits [OF assms(1,4)]
  from derotate.raise_pass [OF assms(1) _ assms(3)] assms(4) fits1 obtain c1 where
    c1: "raise m1 = Ok c1" "derotated (chunk_code c) (chunk_code c1)" by blast
  have len: "length (vc_code c1) = length (vc_code c)" using c1(2) by (simp add: derotated_def chunk_code_def)
  have "targets_in_range c1 \<and> tests_compare c1"
    using derotated_keeps [OF c1(2)] assms(6,7)
    by (simp add: targets_in_range_def tests_compare_def chunk_code_def list_all_iff chunk_code_ops)
  with expanded_runs [OF assms(2) c1(1) fits1 assms(5)] obtain c2 where
    c2: "raise m2 = Ok c2" "runs_like (unfused_ip c1) c1 c2" by blast
  have "runs_exchanged (derotated_ip c) c c1"
    using derotated_runs [OF c1(2) raise_consts [OF assms(3,4)] raise_consts [OF c1(1) fits1]] .
  moreover have "derotated_ip c t \<le> t" for t using c1(2) by (simp add: derotated_ip_def moved_le derotated_def)
  ultimately show ?thesis using runs_compose [OF _ c2(2) len] c1(1) c2(1) by blast
qed

end
