(* ===== verification/Pass_Examples.thy ===== *)
theory Pass_Examples
  imports Native_Input Lower_Examples
begin

text \<open>
  A module with a rotated loop that counts in a fused instruction, and what the two passes of the C back
  end make of it.
\<close>

definition rotated_func :: func_def where
  "rotated_func = demo_func\<lparr>fd_locals := [TypeId 0], fd_vartab := [[0]],
     fd_code := [PushConst (ConstId 0), PushConst (ConstId 0), ForSetup 6 5 1, Jump 5, SlotInc 0,
       ForNext [StrId 0] 6 4 False, Return],
     fd_spans := [Span 0 1, Span 0 1, Span 0 1, Span 0 1, Span 0 1, Span 0 1, Span 0 1]\<rparr>"

definition rotated_module :: module_ where
  "rotated_module = demo_module\<lparr>m_funcs := [rotated_func]\<rparr>"

definition unrotated_func :: func_def where
  "unrotated_func = rotated_func\<lparr>fd_code := [PushConst (ConstId 0), PushConst (ConstId 0), ForSetup 6 3 1,
     ForNext [StrId 0] 6 4 False, SlotInc 0, Jump 3, Return]\<rparr>"

definition unrotated_module :: module_ where
  "unrotated_module = demo_module\<lparr>m_funcs := [unrotated_func]\<rparr>"

definition native_module :: module_ where
  "native_module = demo_module\<lparr>m_consts := [CInt 7, CInt 1],
     m_funcs := [unrotated_func\<lparr>
       fd_code := [PushConst (ConstId 0), PushConst (ConstId 0), ForSetup 9 3 1, ForNext [StrId 0] 9 4 False,
         LoadSlot 0, PushConst (ConstId 1), BinOp BAdd, StoreSlot 0, Jump 3, Return],
       fd_spans := [Span 0 1, Span 0 1, Span 0 1, Span 0 1, Span 0 1, Span 0 1, Span 0 1, Span 0 1, Span 0 1, Span 0 1], fd_max_stack := 6\<rparr>]\<rparr>"

lemmas pass_examples = rotated_module_def rotated_func_def unrotated_module_def unrotated_func_def native_module_def
  demo_module_def demo_func_def

lemma rotated_found: "rotated_loops (fd_code rotated_func) = Ok [(3, 5)]"
  by (simp add: pass_examples rotated_loops_def rotated_loop_def entry_jump_def vec_get_def List.map_filter_def Let_def
      del: res_bind_eq_Ok)

lemma rotated_func_moves: "derotate_func rotated_func = Ok unrotated_func"
  unfolding derotate_func_def rotated_found
  by (simp add: pass_examples fornext_pcs_def fornext_vars_def derotate_map_def swap_ops_def retarget_in_place_def move_target_def
      fall_through_def move_vartab_def vec_get_def Let_def upt_conv_Cons del: res_bind_eq_Ok)

lemma rotated_module_moves: "derotate_loops rotated_module = Ok unrotated_module"
  using rotated_func_moves
  by (simp add: derotate_loops_def rotated_module_def unrotated_module_def)
    (simp add: pass_examples is_rotated_def upt_conv_Cons)

lemma unrotated_module_expands: "expand_fused unrotated_module = Ok native_module"
  by (simp add: pass_examples expand_fused_def expand_fused_func_def expand_group_def with_int_def intern_int_def Let_def
      lower_eval verify_eval or_insert_def del: res_bind_eq_Ok)

lemma rotated_module_fits: "fits_tables rotated_module" "fits_tables native_module"
  by (simp_all add: fits_tables_def pass_examples)

definition rotated_chunk :: vm_chunk where
  "rotated_chunk = VmChunk
     [VPushConst 0, VPushConst 0, VCore (VForSetup 6 5 no_span 1), VCore (VJump 5), VCore (VSlotInc 0),
      VCore (VForNext [bytes ''main''] 6 4 False no_span), VCore VReturn]
     [VInt 7] [] [Span 0 1, Span 0 1, Span 0 1, Span 0 1, Span 0 1, Span 0 1, Span 0 1] [] [] []"

lemma rotated_module_raises: "raise rotated_module = Ok rotated_chunk"
  by (simp add: raise_eval vec_get_def rs_str_def rs_strs_def rotated_chunk_def pass_examples bytes_def del: res_bind_eq_Ok)

lemma rotated_chunk_ok: "targets_in_range rotated_chunk" "tests_compare rotated_chunk"
  by (simp_all add: targets_in_range_def tests_compare_def rotated_chunk_def op_targets_def core_targets_def)

end
