(* ===== verification/Raise_Total.thy ===== *)
theory Raise_Total
  imports Raise
begin

text \<open>
  Raising always returns: the ids that \<open>raise_const\<close> and \<open>raise_func\<close> refuse to visit twice bound the depth
  of their recursion by the size of the table, so the fuel of the model is never used up, whatever
  the module.
\<close>

definition fueled :: "(ir_error, 'a) result \<Rightarrow> bool" where
  "fueled r \<longleftrightarrow> r \<noteq> Err out_of_fuel"

lemma fueled_Ok [simp]: "fueled (Ok x)"
  by (simp add: fueled_def)

lemma fueled_Err [simp]: "fueled (Err e) \<longleftrightarrow> e \<noteq> out_of_fuel"
  by (simp add: fueled_def)

lemma fueled_bind: "fueled r \<Longrightarrow> (\<And>x. r = Ok x \<Longrightarrow> fueled (f x)) \<Longrightarrow> fueled (res_bind r f)"
  by (cases r) (auto simp: fueled_def)

lemma fueled_list: "(\<And>r. r \<in> set rs \<Longrightarrow> fueled r) \<Longrightarrow> fueled (res_list rs)"
  by (induction rs) (auto intro!: fueled_bind)

lemma ir_error_new_fuel [simp]: "ir_error_new m \<noteq> out_of_fuel \<longleftrightarrow> m \<noteq> ''out of fuel''"
  by (simp add: out_of_fuel_def ir_error_new_def)

lemma fueled_str: "fueled (rs_str m i)"
  by (simp add: rs_str_def split: option.split)

lemma fueled_strs: "fueled (rs_strs m is)"
  by (auto simp: rs_strs_def intro!: fueled_list fueled_str)

lemma fueled_func: "fueled (rs_func m i)"
  by (simp add: rs_func_def split: option.split)

lemmas fueled_intros = fueled_bind fueled_str fueled_strs fueled_func fueled_list

section \<open>Ids on a path\<close>

text \<open>Distinct ids into a table are no more than its entries.\<close>

lemma distinct_ids:
  assumes "distinct ids" "\<And>i. i \<in> set ids \<Longrightarrow> ix i < n" "inj ix"
  shows "length ids \<le> n"
proof -
  have "ix ` set ids \<subseteq> {..<n}" using assms(2) by auto
  then have "card (ix ` set ids) \<le> n" using card_mono [of "{..<n}"] by fastforce
  then show ?thesis using assms by (simp add: card_image inj_on_subset distinct_card)
qed

lemma inj_const_ix: "inj const_ix"
  by (rule injI, rule const_id.expand) (simp_all add: word_unat_eq_iff)

lemma inj_func_ix: "inj func_ix"
  by (rule injI, rule func_id.expand) (simp_all add: word_unat_eq_iff)

section \<open>Constants\<close>

definition const_path :: "module_ \<Rightarrow> nat \<Rightarrow> const_id list \<Rightarrow> bool" where
  "const_path m n seen \<longleftrightarrow> distinct seen \<and> (\<forall>i \<in> set seen. const_ix i < length (m_consts m)) \<and>
     length (m_consts m) < length seen + n"

definition const_fueled :: "module_ \<Rightarrow> nat \<Rightarrow> (ir_error, 'a \<times> const_id list) result \<Rightarrow> bool" where
  "const_fueled m n r \<longleftrightarrow> fueled r \<and> (\<forall>x s. r = Ok (x, s) \<longrightarrow> const_path m n s)"

lemma const_fueled_bind:
  assumes "const_fueled m n r" "\<And>x s. const_path m n s \<Longrightarrow> const_fueled m n (f (x, s))"
  shows "const_fueled m n (res_bind r f)"
  using assms by (cases r) (auto simp: const_fueled_def fueled_def)

lemma const_fueled_Ok: "const_path m n s \<Longrightarrow> const_fueled m n (Ok (x, s))"
  by (simp add: const_fueled_def)

lemma const_fueled_thread:
  assumes "\<And>x s. const_path m n s \<Longrightarrow> const_fueled m n (f x s)" "const_path m n s"
  shows "const_fueled m n (res_thread f xs s)"
  using assms(2)
  by (induction xs arbitrary: s) (auto intro!: const_fueled_bind const_fueled_Ok assms(1))

lemma const_fueled_node:
  assumes rec: "\<And>i s. const_path m n s \<Longrightarrow> const_fueled m n (rec i s)" and "const_path m n s"
  shows "const_fueled m n (raise_const_node m rec c s)"
proof -
  have str: "const_fueled m n (res_bind (rs_str m i) (\<lambda>t. Ok (VStr t, s)))" for i
    using assms(2) fueled_str [of m i] by (cases "rs_str m i") (auto simp: const_fueled_def)
  show ?thesis
    using assms(2)
    by (auto simp: raise_const_node_def case_prod_unfold split: const.split option.split
        intro!: str const_fueled_bind [OF const_fueled_thread] const_fueled_bind [OF rec] const_fueled_Ok intro: rec)
qed

lemma const_path_step:
  assumes "const_path m (Suc n) seen" "i \<notin> set seen" "const_ix i < length (m_consts m)"
  shows "const_path m n (seen @ [i])"
  using assms by (auto simp: const_path_def)

lemma const_path_pos: "const_path m n seen \<Longrightarrow> 0 < n"
  using distinct_ids [of seen const_ix "length (m_consts m)"] inj_const_ix by (auto simp: const_path_def)

lemma const_path_mono: "const_path m n seen \<Longrightarrow> const_path m (Suc n) seen"
  by (auto simp: const_path_def)

lemma const_fueled_mono: "const_fueled m n r \<Longrightarrow> const_fueled m (Suc n) r"
  by (auto simp: const_fueled_def const_path_mono)

lemma const_fueled_at: "const_path m n seen \<Longrightarrow> const_fueled m n (raise_const_at n m i seen)"
proof (induction n arbitrary: i seen)
  case (Suc n)
  have "const_fueled m n (raise_const_node m (raise_const_at n m) c (seen @ [i]))"
    if "i \<notin> set seen" "const_ix i < length (m_consts m)" for c
    using Suc.IH const_path_step [OF Suc.prems that] by (rule const_fueled_node)
  then show ?case by (auto simp: const_fueled_def [of m _ "Err _"] intro: const_fueled_mono split: option.split)
qed (auto dest: const_path_pos)

lemma fueled_const: "fueled (raise_const m i)"
proof -
  have "const_fueled m (length (m_consts m) + 1) (raise_const_at (length (m_consts m) + 1) m i [])"
    by (rule const_fueled_at) (simp add: const_path_def)
  then show ?thesis
    by (cases "raise_const_at (length (m_consts m) + 1) m i []") (auto simp: raise_const_def const_fueled_def)
qed

section \<open>Functions\<close>

lemma fueled_pattern: "fueled (raise_pattern m p)"
proof (induction p)
  case (PLit i)
  have "fueled (const_lit m i)" by (auto simp: const_lit_def intro: fueled_intros split: option.split const.split)
  then show ?case by (auto intro: fueled_intros)
next
  case (PVariant n arg)
  then show ?case by (cases arg) (auto intro!: fueled_intros)
qed (auto intro!: fueled_intros)

lemma fueled_home: "fueled (raise_home m slot var)"
  by (auto simp: raise_home_def intro!: fueled_intros split: option.split)

lemma fueled_closure:
  assumes "\<And>j. fueled (rec j)"
  shows "fueled (raise_closure m rec i f)"
proof -
  have "fueled (raise_closure_param m rec p)" for p
    by (cases "param_default p") (auto simp: raise_closure_param_def raise_default_def intro!: fueled_intros assms)
  then show ?thesis
    by (auto simp: raise_closure_def raise_closure_params_def case_prod_unfold intro!: fueled_intros assms)
qed

lemma fueled_op: "(\<And>j. fueled (rec j)) \<Longrightarrow> fueled (raise_op m rec i)"
  by (cases i) (auto simp: case_prod_unfold intro!: fueled_intros fueled_pattern fueled_home fueled_closure)

lemma fueled_pool: "fueled (pool_order m is order)"
  by (induction "is" arbitrary: order) (auto split: option.split)

lemma fueled_body:
  assumes "\<And>j. fueled (rec j)"
  shows "fueled (raise_body m rec f)"
proof -
  have "fueled (raise_in_pool m rec order i)" for order i
    by (auto simp: raise_in_pool_def intro!: fueled_bind fueled_op assms split: option.split)
  then show ?thesis
    by (auto simp: raise_body_def case_prod_unfold intro!: fueled_intros fueled_pool fueled_const)
qed

lemma fueled_raise_func:
  assumes "distinct seen" "\<And>i. i \<in> set seen \<Longrightarrow> func_ix i < length (m_funcs m)" "length (m_funcs m) < length seen + n"
  shows "fueled (raise_func n m seen i)"
  using assms
proof (induction n arbitrary: seen i)
  case 0
  then show ?case using distinct_ids [OF 0(1,2) inj_func_ix] by simp
next
  case (Suc n)
  have "fueled (raise_func n m (seen @ [i]) j)" if "i \<notin> set seen" "func_ix i < length (m_funcs m)" for j
    using Suc.prems that by (intro Suc.IH) auto
  then show ?case
    by (auto intro!: fueled_bind fueled_func fueled_body simp: rs_func_def split: option.splits)
qed

lemma raise_returns: "raise m \<noteq> Err out_of_fuel"
  using fueled_raise_func [of "[]" m "length (m_funcs m) + 1"] by (simp add: raise_def fueled_def)

end
