(* ===== verification/Recursion_Limits.thy ===== *)
theory Recursion_Limits
  imports Codec Verify
begin

text \<open>
  How deep the unguarded recursions of the decoder and the verifier go. Patterns and array constants
  are read by plain recursive functions with no depth limit, so their recursion depth is bounded
  only by the input; the two families below reach that bound.
\<close>

section \<open>Patterns\<close>

primrec nested_pattern :: "nat \<Rightarrow> pattern" where
  "nested_pattern 0 = PWildcard"
| "nested_pattern (Suc d) = PTuple [nested_pattern d]"

lemma nested_pattern_length: "length (encode_pattern (nested_pattern d)) = 5 * d + 1"
  by (induction d) simp_all

lemma nested_pattern_wf: "wf_pattern (nested_pattern d)"
  by (induction d) simp_all

lemma nested_pattern_deep:
  "k \<le> d \<Longrightarrow> decode_pattern_at k (rd_at pre (encode_pattern (nested_pattern d) @ post)) = Inl out_of_depth"
proof (induction k arbitrary: d pre)
  case (Suc k)
  then obtain d' where d: "d = Suc d'" "k \<le> d'" by (metis Suc_le_D Suc_le_mono)
  have "decode_pattern_at k (rd_at (pre @ put_u8 4 @ put_u32 1) (encode_pattern (nested_pattern d') @ post)) =
      Inl out_of_depth" using Suc.IH d(2) by blast
  then show ?case
    using d(1) by (simp add: put_len_def rd_vec_max_def rd_eval)
qed simp

section \<open>Constants\<close>

definition nested_consts :: "nat \<Rightarrow> const list" where
  "nested_consts n = CInt 0 # map (\<lambda>i. CArray [ConstId (word_of_nat i)]) [0..<n]"

definition nested_module :: "nat \<Rightarrow> module_" where
  "nested_module n = \<lparr>m_types = [], m_strings = [], m_consts = nested_consts n, m_funcs = [], m_entry = FuncId 0\<rparr>"

lemma nested_consts_nth: "i < n \<Longrightarrow> nested_consts n ! Suc i = CArray [ConstId (word_of_nat i)]"
  by (simp add: nested_consts_def)

lemma nested_consts_descend:
  assumes "n < 2 ^ 32" shows "arrays_descend (nested_consts n)"
proof -
  have "const_ix c < i" if "i < length (nested_consts n)" "nested_consts n ! i = CArray items" "c \<in> set items"
    for i items c
  proof (cases i)
    case 0
    with that(2) show ?thesis by (simp add: nested_consts_def)
  next
    case (Suc j)
    with that nested_consts_nth [of j n] assms show ?thesis by (auto simp: nested_consts_def)
  qed
  then show ?thesis by (auto simp: arrays_descend_def)
qed

lemma nested_consts_deep:
  "d \<le> j \<Longrightarrow> j \<le> n \<Longrightarrow> n < 2 ^ 32 \<Longrightarrow> tv_of_const d (nested_module n) (ConstId (word_of_nat j)) [] = None"
proof (induction d arbitrary: j)
  case (Suc d)
  then obtain i where i: "j = Suc i" "d \<le> i" "i < n" by (metis Suc_le_D Suc_le_mono Suc_le_eq)
  have ix: "unat (word_of_nat j :: u32) = j" using Suc.prems by (intro unat_of_nat_len) simp
  have "length (nested_consts n) = Suc n" by (simp add: nested_consts_def)
  with i nested_consts_nth [of i n]
  have "vec_get (nested_consts n) (unat (word_of_nat j :: u32)) = Some (CArray [ConstId (word_of_nat i)])"
    unfolding ix by simp
  moreover have "tv_of_const d (nested_module n) (ConstId (word_of_nat i)) [] = None"
    using Suc i by simp
  ultimately show ?case
    by (simp add: nested_module_def memo_get_def vec_get_def split: if_splits)
qed simp

end
