(* ===== verification/Ring.thy ===== *)
theory Ring
  imports Zz_Prelude
begin

text \<open>
  The bounded ring of \<open>crates/zz_runtime/src/lf_chan.rs\<close> as one thread uses it: its cells with
  their sequence numbers, the head and tail counters, \<open>try_enqueue\<close>, \<open>try_dequeue\<close> and
  \<open>len_estimate\<close>, operation by operation. Counters and sequence numbers are 64-bit words and wrap.

  \<open>compare_exchange_weak\<close> may fail although the value matches; the argument \<open>w\<close> says at which
  retries it does not. The operations are total and implement the interface \<open>bounded_fifo\<close>: a
  queue of at most 1024 values that hands them out in the order they entered, whatever the
  counters are, wrapped or not.
\<close>

unbundle bit_operations_syntax

type_synonym usize = "64 word"

section \<open>State\<close>

definition RING_CAP :: usize where "RING_CAP = 1024"

definition RING_MASK :: usize where "RING_MASK = RING_CAP - 1"

record 'v cell =
  seq :: usize
  val :: "'v option"

record 'v lf_ring =
  head :: usize
  tail :: usize
  cells :: "'v cell list"

definition lf_ring_new :: "'v lf_ring" where
  "lf_ring_new = \<lparr>head = 0, tail = 0,
     cells = map (\<lambda>i. \<lparr>seq = word_of_nat i, val = None\<rparr>) [0..<unat RING_CAP]\<rparr>"

definition slot :: "usize \<Rightarrow> nat" where
  "slot pos = unat (pos AND RING_MASK)"

section \<open>Operations\<close>

text \<open>One iteration is one retry; \<open>n\<close> counts the retries left. A lone thread never loses the exchange to a peer.\<close>

fun enqueue_retry :: "(nat \<Rightarrow> bool) \<Rightarrow> nat \<Rightarrow> 'v lf_ring \<Rightarrow> 'v \<Rightarrow> ('v, unit) result \<times> 'v lf_ring" where
  "enqueue_retry w 0 r v = (Err v, r)"
| "enqueue_retry w (Suc n) r v =
     (let pos = tail r; cell = cells r ! slot pos; dif = sint (seq cell - pos) in
      if dif = 0 then
        (if w n then
           (Ok (), r\<lparr>tail := pos + 1,
                     cells := (cells r)[slot pos := \<lparr>seq = pos + 1, val = Some v\<rparr>]\<rparr>)
         else enqueue_retry w n r v)
      else if dif < 0 then (Err v, r)
      else enqueue_retry w n r v)"

definition try_enqueue :: "(nat \<Rightarrow> bool) \<Rightarrow> 'v lf_ring \<Rightarrow> 'v \<Rightarrow> ('v, unit) result \<times> 'v lf_ring" where
  "try_enqueue w r v = enqueue_retry w 4 r v"

fun dequeue_retry :: "(nat \<Rightarrow> bool) \<Rightarrow> nat \<Rightarrow> 'v lf_ring \<Rightarrow> 'v option \<times> 'v lf_ring" where
  "dequeue_retry w 0 r = (None, r)"
| "dequeue_retry w (Suc n) r =
     (let pos = head r; cell = cells r ! slot pos; dif = sint (seq cell - (pos + 1)) in
      if dif = 0 then
        (if w n then
           (val cell, r\<lparr>head := pos + 1,
                        cells := (cells r)[slot pos := \<lparr>seq = pos + RING_CAP, val = None\<rparr>]\<rparr>)
         else dequeue_retry w n r)
      else if dif < 0 then (None, r)
      else dequeue_retry w n r)"

definition try_dequeue :: "(nat \<Rightarrow> bool) \<Rightarrow> 'v lf_ring \<Rightarrow> 'v option \<times> 'v lf_ring" where
  "try_dequeue w r = dequeue_retry w 4 r"

definition len_estimate :: "'v lf_ring \<Rightarrow> usize" where
  "len_estimate r = min (tail r - head r) RING_CAP"

section \<open>The interface\<close>

text \<open>
  A queue of bounded capacity whose operations may give up: \<open>good w\<close> says that the weak exchange
  succeeds within the retry budget, and only then is an operation bound to succeed.
\<close>

locale bounded_fifo =
  fixes empty :: 'q
    and put :: "'w \<Rightarrow> 'q \<Rightarrow> 'v \<Rightarrow> ('v, unit) result \<times> 'q"
    and get :: "'w \<Rightarrow> 'q \<Rightarrow> 'v option \<times> 'q"
    and good :: "'w \<Rightarrow> bool"
    and invar :: "'q \<Rightarrow> bool"
    and contents :: "'q \<Rightarrow> 'v list"
    and cap :: nat
  assumes invar_empty: "invar empty"
    and contents_empty: "contents empty = []"
    and contents_bound: "invar q \<Longrightarrow> length (contents q) \<le> cap"
    and put_law: "invar q \<Longrightarrow>
      put w q v = (Err v, q) \<and> (length (contents q) = cap \<or> \<not> good w) \<or>
      (\<exists>q'. put w q v = (Ok (), q') \<and> invar q' \<and> contents q' = contents q @ [v] \<and>
            length (contents q) < cap \<and> good w)"
    and get_law: "invar q \<Longrightarrow>
      get w q = (None, q) \<and> (contents q = [] \<or> \<not> good w) \<or>
      (\<exists>v q'. get w q = (Some v, q') \<and> invar q' \<and> contents q = v # contents q' \<and> good w)"
begin

lemma put_invar: "invar q \<Longrightarrow> put w q v = (res, q') \<Longrightarrow> invar q'"
  using put_law [of q w v] by auto

lemma get_invar: "invar q \<Longrightarrow> get w q = (res, q') \<Longrightarrow> invar q'"
  using get_law [of q w] by auto

lemma put_ok_iff:
  "invar q \<Longrightarrow> fst (put w q v) = Ok () \<longleftrightarrow> good w \<and> length (contents q) < cap"
  using put_law [of q w v] by auto

lemma put_Err: "invar q \<Longrightarrow> put w q v = (Err u, q') \<Longrightarrow> u = v \<and> q' = q"
  using put_law [of q w v] by auto

lemma put_Ok: "invar q \<Longrightarrow> put w q v = (Ok u, q') \<Longrightarrow> contents q' = contents q @ [v]"
  using put_law [of q w v] by auto

lemma get_Some: "invar q \<Longrightarrow> get w q = (Some v, q') \<Longrightarrow> contents q = v # contents q'"
  using get_law [of q w] by auto

lemma get_None: "invar q \<Longrightarrow> get w q = (None, q') \<Longrightarrow> q' = q \<and> (contents q = [] \<or> \<not> good w)"
  using get_law [of q w] by auto

text \<open>Puts that all fit are handed out again in their order.\<close>

primrec put_all :: "'w \<Rightarrow> 'q \<Rightarrow> 'v list \<Rightarrow> 'q" where
  "put_all w q [] = q"
| "put_all w q (v # vs) = put_all w (snd (put w q v)) vs"

primrec get_many :: "'w \<Rightarrow> nat \<Rightarrow> 'q \<Rightarrow> 'v option list \<times> 'q" where
  "get_many w 0 q = ([], q)"
| "get_many w (Suc n) q =
     (let (x, q') = get w q; (xs, q'') = get_many w n q' in (x # xs, q''))"

lemma put_all_contents:
  assumes "good w" "invar q" "length (contents q) + length vs \<le> cap"
  shows "invar (put_all w q vs) \<and> contents (put_all w q vs) = contents q @ vs"
  using assms(2,3)
proof (induction vs arbitrary: q)
  case (Cons v vs)
  then obtain q' where "put w q v = (Ok (), q')" "invar q'" "contents q' = contents q @ [v]"
    using put_law [of q w v] assms(1) by auto
  with Cons show ?case by auto
qed simp

lemma get_many_contents:
  assumes "good w" "invar q" "contents q = xs @ ys"
  shows "\<exists>q'. get_many w (length xs) q = (map Some xs, q') \<and> invar q' \<and> contents q' = ys"
  using assms(2,3)
proof (induction xs arbitrary: q)
  case (Cons x xs)
  then obtain q' where "get w q = (Some x, q')" "invar q'" "contents q' = xs @ ys"
    using get_law [of q w] assms(1) by auto
  with Cons.IH [of q'] show ?case by auto
qed simp

theorem fifo:
  assumes "good w" "length vs \<le> cap"
  shows "\<exists>q. get_many w (length vs) (put_all w empty vs) = (map Some vs, q) \<and> contents q = []"
proof -
  have "invar (put_all w empty vs)" "contents (put_all w empty vs) = vs @ []"
    using put_all_contents [OF assms(1) invar_empty] assms(2) by (simp_all add: contents_empty)
  then show ?thesis using get_many_contents [OF assms(1)] by blast
qed

end

section \<open>Slots\<close>

lemma ring_mask: "RING_MASK = mask 10"
  by (simp add: RING_MASK_def RING_CAP_def mask_eq_exp_minus_1)

lemma slot_eq: "slot pos = unat pos mod 1024"
proof -
  have "slot pos = unat (take_bit 10 pos)" by (simp only: slot_def ring_mask take_bit_eq_mask)
  also have "\<dots> = take_bit 10 (unat pos)" by (rule unsigned_take_bit_eq)
  finally show ?thesis by (simp add: take_bit_eq_mod)
qed

lemma slot_less [simp]: "slot pos < 1024"
  by (simp add: slot_eq)

lemma slot_add: "slot (pos + word_of_nat k) = (slot pos + k) mod 1024"
proof -
  have "unat (pos + word_of_nat k) = (unat pos + k) mod 2 ^ 64"
    by (simp add: unat_word_ariths unat_of_nat take_bit_eq_mod mod_simps)
  then have "slot (pos + word_of_nat k) = (unat pos + k) mod 2 ^ 64 mod 1024"
    by (simp add: slot_eq)
  also have "\<dots> = (unat pos + k) mod 1024" by (rule mod_mod_cancel) simp
  finally show ?thesis by (simp add: slot_eq mod_simps)
qed

lemma slot_inj:
  assumes "j < 1024" "k < 1024" "slot (pos + word_of_nat j) = slot (pos + word_of_nat k)"
  shows "j = k"
proof -
  have wrap: "(s + i) mod 1024 = (if s + i < 1024 then s + i else s + i - 1024)"
    if "s < 1024" "i < 1024" for s i :: nat
    using that by (simp add: mod_if)
  show ?thesis
    using assms wrap [OF slot_less assms(1)] wrap [OF slot_less assms(2)] slot_less [of pos]
    by (auto simp: slot_add split: if_splits)
qed

section \<open>The invariant and the contents\<close>

definition ring_len :: "'v lf_ring \<Rightarrow> nat" where
  "ring_len r = unat (tail r - head r)"

text \<open>The cell that position \<open>head + k\<close> maps to.\<close>

definition cell_at :: "'v lf_ring \<Rightarrow> nat \<Rightarrow> 'v cell" where
  "cell_at r k = cells r ! slot (head r + word_of_nat k)"

definition cell_ok :: "'v lf_ring \<Rightarrow> nat \<Rightarrow> bool" where
  "cell_ok r k =
     (let p = head r + word_of_nat k; c = cell_at r k in
      if k < ring_len r then seq c = p + 1 \<and> val c \<noteq> None else seq c = p \<and> val c = None)"

definition ring_inv :: "'v lf_ring \<Rightarrow> bool" where
  "ring_inv r \<longleftrightarrow> length (cells r) = 1024 \<and> ring_len r \<le> 1024 \<and> (\<forall>k < 1024. cell_ok r k)"

definition ring_contents :: "'v lf_ring \<Rightarrow> 'v list" where
  "ring_contents r = map (\<lambda>k. the (val (cell_at r k))) [0..<ring_len r]"

text \<open>Some exchange of the four retries succeeds.\<close>

definition good :: "(nat \<Rightarrow> bool) \<Rightarrow> bool" where
  "good w \<longleftrightarrow> w 0 \<or> w 1 \<or> w 2 \<or> w 3"

lemma unat_ring_cap [simp]: "unat RING_CAP = 1024"
  by (simp add: RING_CAP_def)

lemma ring_len_less: "ring_inv r \<Longrightarrow> ring_len r \<le> 1024"
  by (simp add: ring_inv_def)

lemma tail_eq: "tail r = head r + word_of_nat (ring_len r)"
  by (simp add: ring_len_def)

lemma length_ring_contents [simp]: "length (ring_contents r) = ring_len r"
  by (simp add: ring_contents_def)

lemma ring_inv_new: "ring_inv lf_ring_new"
  by (auto simp: ring_inv_def lf_ring_new_def ring_len_def cell_ok_def cell_at_def slot_eq Let_def
      simp del: upt_rec_numeral)

lemma ring_contents_new: "ring_contents lf_ring_new = []"
  by (simp add: ring_contents_def lf_ring_new_def ring_len_def)

section \<open>Enqueue\<close>

definition enqueued :: "'v lf_ring \<Rightarrow> 'v \<Rightarrow> 'v lf_ring" where
  "enqueued r v = r\<lparr>tail := tail r + 1,
     cells := (cells r)[slot (tail r) := \<lparr>seq = tail r + 1, val = Some v\<rparr>]\<rparr>"

lemma enqueued_simps [simp]:
  "head (enqueued r v) = head r" "tail (enqueued r v) = tail r + 1"
  "length (cells (enqueued r v)) = length (cells r)"
  by (simp_all add: enqueued_def)

lemma tail_dif:
  assumes "ring_inv r"
  shows "sint (seq (cells r ! slot (tail r)) - tail r) = (if ring_len r < 1024 then 0 else - 1023)"
proof (cases "ring_len r < 1024")
  case True
  then have "cell_ok r (ring_len r)" using assms by (simp add: ring_inv_def)
  with True show ?thesis by (simp add: cell_ok_def cell_at_def Let_def flip: tail_eq)
next
  case False
  then have l: "ring_len r = 1024" using assms by (simp add: ring_inv_def)
  have "cell_ok r 0" using assms by (simp add: ring_inv_def)
  moreover have "slot (tail r) = slot (head r)" by (simp only: tail_eq slot_add l) (simp add: slot_eq)
  ultimately have "seq (cells r ! slot (tail r)) = head r + 1" using l by (simp add: cell_ok_def cell_at_def Let_def)
  moreover have "tail r = head r + 1024" using l by (subst tail_eq) simp
  ultimately show ?thesis using l by simp
qed

lemma ring_len_enqueued:
  assumes "ring_len r < 1024"
  shows "ring_len (enqueued r v) = Suc (ring_len r)"
proof -
  have "tail r + 1 - head r = word_of_nat (Suc (ring_len r))" by (subst tail_eq) simp
  then have "ring_len (enqueued r v) = unat (word_of_nat (Suc (ring_len r)) :: usize)"
    by (simp only: ring_len_def enqueued_simps)
  then show ?thesis using assms by (simp del: of_nat_Suc)
qed

lemma cell_at_enqueued:
  assumes "ring_inv r" "ring_len r < 1024" "k < 1024"
  shows "cell_at (enqueued r v) k =
     (if k = ring_len r then \<lparr>seq = tail r + 1, val = Some v\<rparr> else cell_at r k)"
proof -
  have "slot (head r + word_of_nat k) = slot (tail r) \<longleftrightarrow> k = ring_len r"
    using slot_inj [OF assms(3,2), of "head r"] by (auto simp flip: tail_eq)
  then show ?thesis using assms(1) by (auto simp: cell_at_def enqueued_def ring_inv_def)
qed

lemma ring_inv_enqueued:
  assumes "ring_inv r" "ring_len r < 1024"
  shows "ring_inv (enqueued r v)"
proof -
  have "cell_ok (enqueued r v) k" if "k < 1024" for k
  proof -
    have "cell_ok r k" using assms(1) that by (simp add: ring_inv_def)
    then show ?thesis
      by (auto simp: cell_ok_def cell_at_enqueued [OF assms that] ring_len_enqueued [OF assms(2)] Let_def
          tail_eq [of r] split: if_splits)
  qed
  then show ?thesis using assms by (simp add: ring_inv_def ring_len_enqueued)
qed

lemma ring_contents_enqueued:
  assumes "ring_inv r" "ring_len r < 1024"
  shows "ring_contents (enqueued r v) = ring_contents r @ [v]"
  using assms by (simp add: ring_contents_def ring_len_enqueued cell_at_enqueued)

lemma enqueue_retry_eq:
  assumes "ring_inv r"
  shows "enqueue_retry w n r v =
     (if ring_len r < 1024 \<and> (\<exists>i < n. w i) then (Ok (), enqueued r v) else (Err v, r))"
  by (induction n) (auto simp: Let_def tail_dif [OF assms] enqueued_def less_Suc_eq)

lemma ex_less_4: "(\<exists>i < 4. w i) \<longleftrightarrow> good w"
  by (auto simp: good_def numeral_eq_Suc less_Suc_eq)

lemmas try_enqueue_eq = enqueue_retry_eq [where n = 4, folded try_enqueue_def, unfolded ex_less_4]

section \<open>Dequeue\<close>

definition dequeued :: "'v lf_ring \<Rightarrow> 'v lf_ring" where
  "dequeued r = r\<lparr>head := head r + 1,
     cells := (cells r)[slot (head r) := \<lparr>seq = head r + RING_CAP, val = None\<rparr>]\<rparr>"

lemma dequeued_simps [simp]:
  "head (dequeued r) = head r + 1" "tail (dequeued r) = tail r"
  "length (cells (dequeued r)) = length (cells r)"
  by (simp_all add: dequeued_def)

lemma head_dif:
  assumes "ring_inv r"
  shows "sint (seq (cells r ! slot (head r)) - (head r + 1)) = (if ring_len r = 0 then - 1 else 0)"
proof -
  have "cell_ok r 0" using assms by (simp add: ring_inv_def)
  then show ?thesis by (auto simp: cell_ok_def cell_at_def Let_def split: if_splits)
qed

lemma ring_len_dequeued:
  assumes "0 < ring_len r"
  shows "ring_len (dequeued r) = ring_len r - 1"
proof -
  have "tail r - (head r + 1) = (tail r - head r) - 1" by simp
  then have "ring_len (dequeued r) = unat (tail r - head r - 1)"
    by (simp only: ring_len_def dequeued_simps)
  moreover have "tail r - head r \<noteq> 0" using assms by (auto simp: ring_len_def)
  then have "unat (tail r - head r - 1) = ring_len r - 1" unfolding ring_len_def by (rule unat_minus_one)
  ultimately show ?thesis by (rule trans)
qed

lemma cell_at_dequeued:
  assumes "ring_inv r" "k < 1024"
  shows "cell_at (dequeued r) k =
     (if k = 1023 then \<lparr>seq = head r + RING_CAP, val = None\<rparr> else cell_at r (Suc k))"
proof (cases "k = 1023")
  case True
  have "slot (head r + 1024) = slot (head r)"
    using slot_add [of "head r" 1024] by (simp add: slot_eq)
  with True show ?thesis using assms by (simp add: cell_at_def dequeued_def ring_inv_def add.assoc)
next
  case False
  then have k: "Suc k < 1024" using assms(2) by simp
  have "slot (head r + word_of_nat (Suc k)) \<noteq> slot (head r)"
    using slot_inj [OF k, of 0 "head r"] by auto
  then show ?thesis using False by (simp add: cell_at_def dequeued_def add.assoc add.commute [of 1])
qed

lemma ring_inv_dequeued:
  assumes "ring_inv r" "0 < ring_len r"
  shows "ring_inv (dequeued r)"
proof -
  have "cell_ok (dequeued r) k" if "k < 1024" for k
  proof (cases "k = 1023")
    case True
    with assms ring_len_less [OF assms(1)] show ?thesis
      by (simp add: cell_ok_def cell_at_dequeued ring_len_dequeued RING_CAP_def Let_def add.assoc)
  next
    case False
    then have "cell_ok r (Suc k)" using assms(1) that by (simp add: ring_inv_def)
    with False show ?thesis using assms that
      by (auto simp: cell_ok_def cell_at_dequeued ring_len_dequeued Let_def ac_simps split: if_splits)
  qed
  moreover have "ring_len r - 1 \<le> 1024" using ring_len_less [OF assms(1)] by linarith
  ultimately show ?thesis using assms by (simp add: ring_inv_def ring_len_dequeued)
qed

lemma ring_contents_dequeued:
  assumes "ring_inv r" "0 < ring_len r"
  shows "ring_contents r = the (val (cells r ! slot (head r))) # ring_contents (dequeued r)"
proof -
  have "ring_contents (dequeued r) = map (\<lambda>k. the (val (cell_at r (Suc k)))) [0..<ring_len r - 1]"
    using assms by (auto simp: ring_contents_def ring_len_dequeued cell_at_dequeued ring_inv_def)
  moreover have "[0..<ring_len r] = 0 # map Suc [0..<ring_len r - 1]"
    using assms(2) by (simp add: map_Suc_upt upt_conv_Cons)
  ultimately show ?thesis by (simp add: ring_contents_def cell_at_def)
qed

lemma head_value:
  assumes "ring_inv r" "0 < ring_len r"
  shows "val (cells r ! slot (head r)) = Some (hd (ring_contents r))"
proof -
  have "cell_ok r 0" using assms(1) by (simp add: ring_inv_def)
  then have "val (cells r ! slot (head r)) \<noteq> None" using assms(2) by (simp add: cell_ok_def cell_at_def Let_def)
  then show ?thesis using ring_contents_dequeued [OF assms] by auto
qed

lemma dequeue_retry_eq:
  assumes "ring_inv r"
  shows "dequeue_retry w n r =
     (if 0 < ring_len r \<and> (\<exists>i < n. w i) then (Some (hd (ring_contents r)), dequeued r) else (None, r))"
  by (induction n) (auto simp: Let_def head_dif [OF assms] head_value [OF assms] dequeued_def less_Suc_eq)

lemmas try_dequeue_eq = dequeue_retry_eq [where n = 4, folded try_dequeue_def, unfolded ex_less_4]

section \<open>The ring is a bounded queue\<close>

interpretation lfr: bounded_fifo lf_ring_new try_enqueue try_dequeue good ring_inv ring_contents 1024
proof unfold_locales
  fix r :: "'v lf_ring" and w v
  assume r: "ring_inv r"
  show "length (ring_contents r) \<le> 1024" using r by (simp add: ring_inv_def)
  show "try_enqueue w r v = (Err v, r) \<and> (length (ring_contents r) = 1024 \<or> \<not> good w) \<or>
      (\<exists>q'. try_enqueue w r v = (Ok (), q') \<and> ring_inv q' \<and> ring_contents q' = ring_contents r @ [v] \<and>
            length (ring_contents r) < 1024 \<and> good w)"
    using r by (auto simp: try_enqueue_eq ring_inv_enqueued ring_contents_enqueued dest: ring_len_less)
  show "try_dequeue w r = (None, r) \<and> (ring_contents r = [] \<or> \<not> good w) \<or>
      (\<exists>v q'. try_dequeue w r = (Some v, q') \<and> ring_inv q' \<and> ring_contents r = v # ring_contents q' \<and> good w)"
  proof (cases "0 < ring_len r \<and> good w")
    case True
    then have "ring_contents r = hd (ring_contents r) # ring_contents (dequeued r)"
      using ring_contents_dequeued [OF r] by auto
    then show ?thesis using r True by (auto simp: try_dequeue_eq ring_inv_dequeued)
  next
    case False
    then show ?thesis using r by (auto simp: try_dequeue_eq simp flip: length_ring_contents)
  qed
qed (simp_all add: ring_inv_new ring_contents_new)

lemma len_estimate_eq: "ring_inv r \<Longrightarrow> unat (len_estimate r) = length (ring_contents r)"
  by (auto simp: len_estimate_def ring_len_def min_def word_le_nat_alt dest: ring_len_less)

end
