(* ===== verification/Channel.thy ===== *)
theory Channel
  imports Ring
begin

text \<open>
  Channels (\<open>ChanState\<close>, \<open>ChanInner\<close> of \<open>crates/zz_runtime/src/value.rs\<close> and the operations of
  \<open>crates/zz_stdlib/src/natives/concurrency/mod.rs\<close> and \<open>executor.rs\<close>): the ring, the spill queue
  behind the mutex, the parked green tasks and the value each is woken with. An operation runs
  without interference here; its calls of the ring take the outcomes \<open>w\<close> of the weak exchanges
  as arguments. Values popped for a task go to the delivery slot of its registry entry.

  Shown: the state invariant of every operation, that no task stays parked while a value is
  queued, and the exact order in which a channel hands out what was sent: first in, first out as
  long as the ring does not overflow, the spilled values first once it did.
\<close>

type_synonym task_id = "64 word"

section \<open>State\<close>

record 'v chan_state =
  ring :: "'v lf_ring"
  spill :: usize
  green_parked :: bool
  cvar_waiters :: usize
  queue :: "'v list"
  green_waiters :: "task_id list"

text \<open>The executor: the delivery slot of every registered task, and the tasks made ready.\<close>

record 'v executor =
  registry :: "task_id \<Rightarrow> 'v option option"
  ready :: "task_id list"

definition chan_new :: "'v chan_state" where
  "chan_new = \<lparr>ring = lf_ring_new, spill = 0, green_parked = False, cvar_waiters = 0,
     queue = [], green_waiters = []\<rparr>"

section \<open>Operations\<close>

text \<open>Every pop site under the lock: the spill first, then the ring.\<close>

definition pop_tiers :: "(nat \<Rightarrow> bool) \<Rightarrow> 'v chan_state \<Rightarrow> 'v option \<times> 'v chan_state" where
  "pop_tiers w c = (case queue c of
       v # q \<Rightarrow> (Some v, c\<lparr>queue := q, spill := spill c - 1\<rparr>)
     | [] \<Rightarrow> (case try_dequeue w (ring c) of (res, r) \<Rightarrow> (res, c\<lparr>ring := r\<rparr>)))"

definition wake_chan_waiter ::
  "(nat \<Rightarrow> bool) \<Rightarrow> task_id \<Rightarrow> 'v chan_state \<times> 'v executor \<Rightarrow> 'v chan_state \<times> 'v executor" where
  "wake_chan_waiter w wid s = (case s of (c, ex) \<Rightarrow>
     (case pop_tiers w c of (res, c') \<Rightarrow>
       (case registry ex wid of
          None \<Rightarrow> (c', ex)
        | Some _ \<Rightarrow>
            (case res of
               Some v \<Rightarrow> (c', ex\<lparr>registry := (registry ex)(wid \<mapsto> Some v), ready := ready ex @ [wid]\<rparr>)
             | None \<Rightarrow> (c'\<lparr>green_waiters := green_waiters c' @ [wid], green_parked := True\<rparr>, ex)))))"

text \<open>The loop over the drained waiters; \<open>ws i\<close> are the exchanges of the \<open>i\<close>-th wakeup.\<close>

fun wake_all ::
  "(nat \<Rightarrow> nat \<Rightarrow> bool) \<Rightarrow> task_id list \<Rightarrow> 'v chan_state \<times> 'v executor \<Rightarrow> 'v chan_state \<times> 'v executor" where
  "wake_all ws [] s = s"
| "wake_all ws (wid # wids) s = wake_all (\<lambda>i. ws (Suc i)) wids (wake_chan_waiter (ws 0) wid s)"

text \<open>The last component says whether a sleeper of the condition variable is notified.\<close>

definition service_chan_waiters ::
  "(nat \<Rightarrow> nat \<Rightarrow> bool) \<Rightarrow> 'v chan_state \<Rightarrow> 'v executor \<Rightarrow> 'v chan_state \<times> 'v executor \<times> bool" where
  "service_chan_waiters ws c ex =
     (case wake_all ws (green_waiters c) (c\<lparr>green_waiters := [], green_parked := False\<rparr>, ex) of
        (c', ex') \<Rightarrow> (c', ex', cvar_waiters c' > 0))"

definition chan_send ::
  "(nat \<Rightarrow> bool) \<Rightarrow> (nat \<Rightarrow> nat \<Rightarrow> bool) \<Rightarrow> 'v chan_state \<Rightarrow> 'v executor \<Rightarrow> 'v \<Rightarrow>
     'v chan_state \<times> 'v executor \<times> bool" where
  "chan_send w ws c ex v = (case try_enqueue w (ring c) v of
       (Inl back, r) \<Rightarrow>
         service_chan_waiters ws (c\<lparr>ring := r, queue := queue c @ [back], spill := spill c + 1\<rparr>) ex
     | (Inr _, r) \<Rightarrow> service_chan_waiters ws (c\<lparr>ring := r\<rparr>) ex)"

definition chan_try_recv :: "(nat \<Rightarrow> bool) \<Rightarrow> 'v chan_state \<Rightarrow> 'v option \<times> 'v chan_state" where
  "chan_try_recv w c = pop_tiers w c"

text \<open>The gate of the lock-free pops: nobody waits and nothing has spilled.\<close>

definition gated_pop :: "(nat \<Rightarrow> bool) \<Rightarrow> 'v chan_state \<Rightarrow> 'v option \<times> 'v chan_state" where
  "gated_pop w c =
     (if green_parked c \<or> cvar_waiters c \<noteq> 0 \<or> spill c \<noteq> 0 then (None, c)
      else (case try_dequeue w (ring c) of (res, r) \<Rightarrow> (res, c\<lparr>ring := r\<rparr>)))"

text \<open>\<open>spin_for_value\<close> calls its closure until it returns a value or the quantum is over: once per element of \<open>ws\<close>.\<close>

fun spin_for_value :: "(nat \<Rightarrow> bool) list \<Rightarrow> 'v chan_state \<Rightarrow> 'v option \<times> 'v chan_state" where
  "spin_for_value [] c = (None, c)"
| "spin_for_value (w # ws) c =
     (case gated_pop w c of (Some v, c') \<Rightarrow> (Some v, c') | (None, c') \<Rightarrow> spin_for_value ws c')"

text \<open>
  \<open>chan_recv\<close> up to the point where it returns or waits: a green task yields, any other thread
  counts itself as a sleeper and waits on the condition variable.
\<close>

datatype 'v recv_outcome = Received 'v | YieldChanWait | CvarWait

definition chan_recv ::
  "bool \<Rightarrow> (nat \<Rightarrow> bool) \<Rightarrow> (nat \<Rightarrow> bool) \<Rightarrow> (nat \<Rightarrow> bool) list \<Rightarrow> 'v chan_state \<Rightarrow>
     'v recv_outcome \<times> 'v chan_state" where
  "chan_recv green w1 w2 ws c = (case gated_pop w1 c of
       (Some v, c1) \<Rightarrow> (Received v, c1)
     | (None, c1) \<Rightarrow> (case pop_tiers w2 c1 of
           (Some v, c2) \<Rightarrow> (Received v, c2)
         | (None, c2) \<Rightarrow>
             if green then (YieldChanWait, c2)
             else (case spin_for_value ws c2 of
                 (Some v, c3) \<Rightarrow> (Received v, c3)
               | (None, c3) \<Rightarrow> (CvarWait, c3\<lparr>cvar_waiters := cvar_waiters c3 + 1\<rparr>))))"

definition unpark_chan_waiter :: "task_id \<Rightarrow> 'v chan_state \<Rightarrow> 'v chan_state" where
  "unpark_chan_waiter tid c =
     (let gw = filter (\<lambda>x. x \<noteq> tid) (green_waiters c) in
      c\<lparr>green_waiters := gw, green_parked := (if gw = [] then False else green_parked c)\<rparr>)"

text \<open>
  \<open>park_chan\<close> of task \<open>tid\<close>; \<open>has_top\<close> says whether \<open>replace_top\<close> finds the dummy to replace. A
  task that gets a value at once is made ready with it, otherwise it stays parked.
\<close>

datatype 'v park_outcome = Resumed 'v | YieldEmptyStack | Parked

definition park_chan ::
  "bool \<Rightarrow> (nat \<Rightarrow> bool) list \<Rightarrow> (nat \<Rightarrow> bool) \<Rightarrow> task_id \<Rightarrow> 'v chan_state \<Rightarrow> 'v executor \<Rightarrow>
     'v park_outcome \<times> 'v chan_state \<times> 'v executor" where
  "park_chan has_top ws w tid c ex =
     (case (case spin_for_value ws c of
              (Some v, c1) \<Rightarrow> (Some v, c1)
            | (None, c1) \<Rightarrow>
                (case pop_tiers w (c1\<lparr>green_waiters := green_waiters c1 @ [tid], green_parked := True\<rparr>) of
                   (Some v, c2) \<Rightarrow> (Some v, unpark_chan_waiter tid c2)
                 | (None, c2) \<Rightarrow> (None, c2)))
      of (Some v, c') \<Rightarrow>
           if has_top then (Resumed v, c', ex\<lparr>ready := ready ex @ [tid]\<rparr>)
           else (YieldEmptyStack, c', ex)
       | (None, c') \<Rightarrow> (Parked, c', ex))"

section \<open>The order of a channel\<close>

text \<open>The values a channel holds, in the order the pop sites hand them out.\<close>

definition pop_order :: "'v chan_state \<Rightarrow> 'v list" where
  "pop_order c = queue c @ ring_contents (ring c)"

text \<open>
  The invariant: the counter counts the spill, the flag covers the parked tasks, and a task is
  parked only while the channel is empty.
\<close>

definition chan_inv :: "'v chan_state \<Rightarrow> bool" where
  "chan_inv c \<longleftrightarrow> ring_inv (ring c) \<and> spill c = word_of_nat (length (queue c)) \<and>
     (green_waiters c \<noteq> [] \<longrightarrow> green_parked c) \<and> distinct (green_waiters c)"

definition no_stranded :: "'v chan_state \<Rightarrow> bool" where
  "no_stranded c \<longleftrightarrow> green_waiters c = [] \<or> pop_order c = []"

definition waiters_registered :: "'v chan_state \<Rightarrow> 'v executor \<Rightarrow> bool" where
  "waiters_registered c ex \<longleftrightarrow> (\<forall>t \<in> set (green_waiters c). registry ex t \<noteq> None)"

lemma chan_new_inv: "chan_inv chan_new" "no_stranded chan_new" "pop_order chan_new = []"
  by (simp_all add: chan_inv_def chan_new_def ring_inv_new no_stranded_def pop_order_def ring_contents_new)

lemma chan_new_simps: "queue chan_new = []" "green_waiters chan_new = []"
  by (simp_all add: chan_new_def)

section \<open>Pops\<close>

text \<open>What a pop leaves alone: everything but the two tiers.\<close>

definition same_waiters :: "'v chan_state \<Rightarrow> 'v chan_state \<Rightarrow> bool" where
  "same_waiters c c' \<longleftrightarrow> green_waiters c' = green_waiters c \<and> green_parked c' = green_parked c \<and>
     cvar_waiters c' = cvar_waiters c"

lemma ring_pop:
  assumes "chan_inv c" "queue c = []" "try_dequeue w (ring c) = (res, r)"
  shows "chan_inv (c\<lparr>ring := r\<rparr>) \<and>
    (case res of Some v \<Rightarrow> pop_order c = v # pop_order (c\<lparr>ring := r\<rparr>)
     | None \<Rightarrow> c\<lparr>ring := r\<rparr> = c \<and> (pop_order c = [] \<or> \<not> good w))"
  using assms lfr.get_invar [OF _ assms(3)] lfr.get_Some [of "ring c" w _ r] lfr.get_None [of "ring c" w r]
  by (auto simp: chan_inv_def pop_order_def split: option.split)

lemma pop_tiers_spec:
  assumes "chan_inv c" "pop_tiers w c = (res, c')"
  shows "chan_inv c' \<and> same_waiters c c' \<and>
    (case res of Some v \<Rightarrow> pop_order c = v # pop_order c'
     | None \<Rightarrow> c' = c \<and> (pop_order c = [] \<or> \<not> good w))"
proof (cases "queue c")
  case Nil
  obtain x r where d: "try_dequeue w (ring c) = (x, r)" by (cases "try_dequeue w (ring c)")
  show ?thesis using assms(2) ring_pop [OF assms(1) Nil d] d Nil
    by (auto simp: pop_tiers_def same_waiters_def split: option.splits)
next
  case (Cons v q)
  then show ?thesis using assms by (auto simp: pop_tiers_def same_waiters_def chan_inv_def pop_order_def)
qed

lemma gated_pop_spec:
  assumes "chan_inv c" "length (queue c) < 2 ^ 64" "gated_pop w c = (res, c')"
  shows "chan_inv c' \<and> same_waiters c c' \<and> (res = None \<longrightarrow> c' = c) \<and>
    (\<forall>v. res = Some v \<longrightarrow> pop_order c = v # pop_order c')"
proof (cases "green_parked c \<or> cvar_waiters c \<noteq> 0 \<or> spill c \<noteq> 0")
  case True
  then show ?thesis using assms by (auto simp: gated_pop_def same_waiters_def)
next
  case False
  then have "unat (word_of_nat (length (queue c)) :: usize) = 0" using assms(1) by (simp add: chan_inv_def)
  then have Nil: "queue c = []" using assms(2) by simp
  obtain x r where d: "try_dequeue w (ring c) = (x, r)" by (cases "try_dequeue w (ring c)")
  show ?thesis using assms(3) ring_pop [OF assms(1) Nil d] d False
    by (auto simp: gated_pop_def same_waiters_def split: option.splits)
qed

section \<open>Wakeups\<close>

text \<open>
  Waking the tasks \<open>wids\<close> hands the next values to the first of them, in order, and parks the rest
  again.
\<close>

definition deliver_to :: "task_id list \<Rightarrow> 'v list \<Rightarrow> 'v executor \<Rightarrow> 'v executor" where
  "deliver_to wids vs ex = ex\<lparr>registry := registry ex ++ map_of (zip wids (map Some vs)),
     ready := ready ex @ take (length vs) wids\<rparr>"

lemma deliver_to_Cons:
  assumes "wid \<notin> set wids"
  shows "deliver_to wids vs (ex\<lparr>registry := (registry ex)(wid \<mapsto> Some v), ready := ready ex @ [wid]\<rparr>) =
    deliver_to (wid # wids) (v # vs) ex"
proof -
  have "wid \<notin> dom (map_of (zip wids (map Some vs)))"
    using assms by (auto simp: dom_map_of_conv_image_fst dest: set_zip_leftD)
  then show ?thesis by (simp add: deliver_to_def map_add_upd_left)
qed

lemma wake_chan_waiter_spec:
  assumes "chan_inv c" "good w" "registry ex wid \<noteq> None" "wid \<notin> set (green_waiters c)"
    "wake_chan_waiter w wid (c, ex) = (c', ex')"
  shows "chan_inv c' \<and>
    (case pop_order c of
       v # vs \<Rightarrow> pop_order c' = vs \<and> same_waiters c c' \<and>
         ex' = ex\<lparr>registry := (registry ex)(wid \<mapsto> Some v), ready := ready ex @ [wid]\<rparr>
     | [] \<Rightarrow> pop_order c' = [] \<and> green_waiters c' = green_waiters c @ [wid] \<and> ex' = ex)"
proof -
  obtain res c1 where p: "pop_tiers w c = (res, c1)" by (cases "pop_tiers w c")
  show ?thesis
    using assms p pop_tiers_spec [OF assms(1) p]
    by (auto simp: wake_chan_waiter_def chan_inv_def same_waiters_def pop_order_def split: option.splits list.splits)
qed

lemma wake_all_spec:
  assumes "chan_inv c" "\<forall>i. good (ws i)" "\<forall>t \<in> set wids. registry ex t \<noteq> None"
    "distinct (green_waiters c @ wids)" "green_waiters c = [] \<or> pop_order c = []"
    "wake_all ws wids (c, ex) = (c', ex')"
  shows "chan_inv c' \<and> pop_order c' = drop (length wids) (pop_order c) \<and>
    green_waiters c' = green_waiters c @ drop (length (pop_order c)) wids \<and>
    ex' = deliver_to wids (pop_order c) ex"
  using assms
proof (induction wids arbitrary: ws c ex)
  case Nil
  then show ?case by (auto simp: deliver_to_def)
next
  case (Cons wid wids)
  obtain c1 ex1 where w1: "wake_chan_waiter (ws 0) wid (c, ex) = (c1, ex1)"
    by (cases "wake_chan_waiter (ws 0) wid (c, ex)")
  have s: "chan_inv c1 \<and>
    (case pop_order c of
       v # vs \<Rightarrow> pop_order c1 = vs \<and> same_waiters c c1 \<and>
         ex1 = ex\<lparr>registry := (registry ex)(wid \<mapsto> Some v), ready := ready ex @ [wid]\<rparr>
     | [] \<Rightarrow> pop_order c1 = [] \<and> green_waiters c1 = green_waiters c @ [wid] \<and> ex1 = ex)"
    using wake_chan_waiter_spec [OF Cons.prems(1) _ _ _ w1] Cons.prems by simp
  show ?case
  proof (cases "pop_order c")
    case Nil
    with s Cons.IH [of c1 "\<lambda>i. ws (Suc i)" ex1] Cons.prems w1 show ?thesis
      by (simp add: deliver_to_def)
  next
    case (Cons v vs)
    then have g: "green_waiters c = []" using Cons.prems(5) by simp
    with s Cons have g1: "green_waiters c1 = []" by (simp add: same_waiters_def)
    show ?thesis
      using s Cons g g1 Cons.IH [of c1 "\<lambda>i. ws (Suc i)" ex1] Cons.prems w1 deliver_to_Cons [of wid wids vs ex v]
      by auto
  qed
qed

section \<open>Send\<close>

text \<open>The channel just after the value is published, before the waiters are served.\<close>

definition published :: "(nat \<Rightarrow> bool) \<Rightarrow> 'v chan_state \<Rightarrow> 'v \<Rightarrow> 'v chan_state" where
  "published w c v = (case try_enqueue w (ring c) v of
       (Inl back, r) \<Rightarrow> c\<lparr>ring := r, queue := queue c @ [back], spill := spill c + 1\<rparr>
     | (Inr _, r) \<Rightarrow> c\<lparr>ring := r\<rparr>)"

lemma chan_send_published: "chan_send w ws c ex v = service_chan_waiters ws (published w c v) ex"
  by (simp add: chan_send_def published_def split: prod.split sum.split)

lemma published_spec:
  assumes "chan_inv c"
  shows "chan_inv (published w c v) \<and> same_waiters c (published w c v) \<and>
    pop_order (published w c v) =
      (if good w \<and> length (ring_contents (ring c)) < 1024 then pop_order c @ [v]
       else queue c @ [v] @ ring_contents (ring c))"
  using assms lfr.put_law [of "ring c" w v]
  by (auto simp: published_def same_waiters_def chan_inv_def pop_order_def lfr.contents_bound)

lemma length_pop_order_published:
  "chan_inv c \<Longrightarrow> length (pop_order (published w c v)) = Suc (length (pop_order c))"
  by (simp add: published_spec) (simp add: pop_order_def)

lemma chan_send_spec:
  assumes "chan_inv c" "\<forall>i. good (ws i)" "waiters_registered c ex" "chan_send w ws c ex v = (c', ex', notified)"
  shows "chan_inv c' \<and>
    pop_order c' = drop (length (green_waiters c)) (pop_order (published w c v)) \<and>
    green_waiters c' = drop (length (pop_order (published w c v))) (green_waiters c) \<and>
    ex' = deliver_to (green_waiters c) (pop_order (published w c v)) ex"
proof -
  let ?p = "published w c v"
  let ?q = "?p\<lparr>green_waiters := [], green_parked := False\<rparr>"
  have p: "chan_inv ?p" "green_waiters ?p = green_waiters c"
    using published_spec [OF assms(1)] by (simp_all add: same_waiters_def)
  have w: "wake_all ws (green_waiters c) (?q, ex) = (c', ex')"
    using assms(4) p(2) by (auto simp: chan_send_published service_chan_waiters_def split: prod.splits)
  have "chan_inv ?q" "pop_order ?q = pop_order ?p" using p by (simp_all add: chan_inv_def pop_order_def)
  with wake_all_spec [OF _ assms(2) _ _ _ w] assms show ?thesis
    by (simp add: waiters_registered_def chan_inv_def)
qed

lemma chan_send_no_stranded:
  assumes "chan_inv c" "\<forall>i. good (ws i)" "waiters_registered c ex" "chan_send w ws c ex v = (c', ex', notified)"
  shows "no_stranded c'"
  using chan_send_spec [OF assms] by (auto simp: no_stranded_def)

section \<open>Receive\<close>

lemma spin_for_value_spec:
  assumes "chan_inv c" "length (queue c) < 2 ^ 64" "spin_for_value ws c = (res, c')"
  shows "chan_inv c' \<and> same_waiters c c' \<and> (res = None \<longrightarrow> c' = c) \<and>
    (\<forall>v. res = Some v \<longrightarrow> pop_order c = v # pop_order c')"
  using assms(3)
proof (induction ws)
  case Nil
  then show ?case using assms(1) by (simp add: same_waiters_def)
next
  case (Cons w ws)
  obtain x c1 where g: "gated_pop w c = (x, c1)" by (cases "gated_pop w c")
  show ?case using gated_pop_spec [OF assms(1,2) g] g Cons by (auto split: option.splits)
qed

lemma chan_recv_spec:
  assumes "chan_inv c" "length (queue c) < 2 ^ 64" "chan_recv green w1 w2 ws c = (res, c')"
  shows "chan_inv c' \<and> green_waiters c' = green_waiters c \<and>
    (case res of
       Received v \<Rightarrow> pop_order c = v # pop_order c'
     | YieldChanWait \<Rightarrow> green \<and> c' = c \<and> (pop_order c = [] \<or> \<not> good w2)
     | CvarWait \<Rightarrow> \<not> green \<and> c' = c\<lparr>cvar_waiters := cvar_waiters c + 1\<rparr> \<and> (pop_order c = [] \<or> \<not> good w2))"
proof -
  obtain x1 c1 where g: "gated_pop w1 c = (x1, c1)" by (cases "gated_pop w1 c")
  obtain x2 c2 where p: "pop_tiers w2 c = (x2, c2)" by (cases "pop_tiers w2 c")
  obtain x3 c3 where s: "spin_for_value ws c = (x3, c3)" by (cases "spin_for_value ws c")
  show ?thesis
    using assms(3) g p s gated_pop_spec [OF assms(1,2) g] pop_tiers_spec [OF assms(1) p]
      spin_for_value_spec [OF assms(1,2) s] assms(1)
    by (auto simp: chan_recv_def same_waiters_def chan_inv_def split: option.splits if_splits)
qed

lemma chan_recv_no_stranded:
  assumes "chan_inv c" "length (queue c) < 2 ^ 64" "no_stranded c" "chan_recv green w1 w2 ws c = (res, c')"
  shows "no_stranded c'"
  using chan_recv_spec [OF assms(1,2,4)] assms(3)
  by (auto simp: no_stranded_def pop_order_def split: recv_outcome.splits)

lemma unpark_registered:
  assumes "chan_inv c" "green_waiters c = gs @ [tid]" "tid \<notin> set gs"
  shows "chan_inv (unpark_chan_waiter tid c) \<and> green_waiters (unpark_chan_waiter tid c) = gs \<and>
    pop_order (unpark_chan_waiter tid c) = pop_order c"
proof -
  have "filter (\<lambda>x. x \<noteq> tid) gs = gs" using assms(3) by (auto simp: filter_id_conv)
  then show ?thesis
    using assms(1,2) by (auto simp: unpark_chan_waiter_def chan_inv_def pop_order_def Let_def)
qed

lemma park_chan_spec:
  assumes "chan_inv c" "length (queue c) < 2 ^ 64" "tid \<notin> set (green_waiters c)" "good w"
    "park_chan has_top ws w tid c ex = (res, c', ex')"
  shows "chan_inv c' \<and> registry ex' = registry ex \<and>
    (case res of
       Resumed v \<Rightarrow> pop_order c = v # pop_order c' \<and> green_waiters c' = green_waiters c \<and> ready ex' = ready ex @ [tid]
     | YieldEmptyStack \<Rightarrow> \<not> has_top \<and> green_waiters c' = green_waiters c \<and> pop_order c' = tl (pop_order c)
     | Parked \<Rightarrow> pop_order c = [] \<and> pop_order c' = [] \<and> green_waiters c' = green_waiters c @ [tid])"
proof -
  let ?r = "c\<lparr>green_waiters := green_waiters c @ [tid], green_parked := True\<rparr>"
  have r: "chan_inv ?r" "pop_order ?r = pop_order c"
    using assms(1,3) by (simp_all add: chan_inv_def pop_order_def)
  obtain x1 c1 where s: "spin_for_value ws c = (x1, c1)" by (cases "spin_for_value ws c")
  obtain x2 c2 where p: "pop_tiers w ?r = (x2, c2)" by (cases "pop_tiers w ?r")
  have p2: "chan_inv c2" "green_waiters c2 = green_waiters c @ [tid]"
    using pop_tiers_spec [OF r(1) p] by (simp_all add: same_waiters_def)
  show ?thesis
    using assms(4,5) s p r(2) spin_for_value_spec [OF assms(1,2) s] pop_tiers_spec [OF r(1) p]
      unpark_registered [OF p2 assms(3)]
    by (auto simp: park_chan_def same_waiters_def split: option.splits if_splits) (metis list.sel(3))
qed

section \<open>The order of what is received\<close>

text \<open>Sends and non-blocking receives on a channel without parked tasks, and on an unbounded queue.\<close>

datatype 'v chan_op = Send 'v | TryRecv

fun chan_exec ::
  "(nat \<Rightarrow> nat \<Rightarrow> bool) \<Rightarrow> 'v executor \<Rightarrow> 'v chan_state \<Rightarrow> 'v chan_op list \<Rightarrow> 'v option list \<times> 'v chan_state" where
  "chan_exec ws ex c [] = ([], c)"
| "chan_exec ws ex c (Send v # ops) =
     (case chan_send (ws 0) ws c ex v of (c', ex', _) \<Rightarrow> chan_exec (\<lambda>i. ws (Suc i)) ex' c' ops)"
| "chan_exec ws ex c (TryRecv # ops) =
     (case chan_try_recv (ws 0) c of (res, c') \<Rightarrow>
        (case chan_exec (\<lambda>i. ws (Suc i)) ex c' ops of (out, c'') \<Rightarrow> (res # out, c'')))"

fun fifo_exec :: "'v list \<Rightarrow> 'v chan_op list \<Rightarrow> 'v option list \<times> 'v list" where
  "fifo_exec q [] = ([], q)"
| "fifo_exec q (Send v # ops) = fifo_exec (q @ [v]) ops"
| "fifo_exec q (TryRecv # ops) =
     (case q of
        [] \<Rightarrow> (case fifo_exec [] ops of (out, q') \<Rightarrow> (None # out, q'))
      | v # vs \<Rightarrow> (case fifo_exec vs ops of (out, q') \<Rightarrow> (Some v # out, q')))"

text \<open>The queue never holds more than the ring does.\<close>

fun fits :: "nat \<Rightarrow> 'v chan_op list \<Rightarrow> bool" where
  "fits n [] = True"
| "fits n (Send v # ops) = (n < 1024 \<and> fits (Suc n) ops)"
| "fits n (TryRecv # ops) = fits (n - 1) ops"

lemma chan_send_unwaited:
  assumes "green_waiters c = []" "chan_inv c"
  shows "\<exists>note. chan_send w ws c ex v = ((published w c v)\<lparr>green_parked := False\<rparr>, ex, note)"
  using assms published_spec [of c w v]
  by (simp add: chan_send_published service_chan_waiters_def same_waiters_def)

lemma pop_tiers_order:
  assumes "chan_inv c" "good w"
  shows "\<exists>c'. chan_inv c' \<and> same_waiters c c' \<and>
    (case pop_order c of
       [] \<Rightarrow> pop_tiers w c = (None, c)
     | v # vs \<Rightarrow> pop_tiers w c = (Some v, c') \<and> pop_order c' = vs)"
proof -
  obtain res c' where p: "pop_tiers w c = (res, c')" by (cases "pop_tiers w c")
  show ?thesis using pop_tiers_spec [OF assms(1) p] p assms(2)
    by (cases res) (auto intro!: exI [of _ c'] split: list.split)
qed

lemma chan_exec_fifo:
  assumes "chan_inv c" "queue c = []" "green_waiters c = []" "\<forall>i. good (ws i)"
    "fits (length (pop_order c)) ops"
  shows "fst (chan_exec ws ex c ops) = fst (fifo_exec (pop_order c) ops)"
  using assms
proof (induction ops arbitrary: ws ex c)
  case (Cons op ops)
  show ?case
  proof (cases op)
    case (Send v)
    let ?c = "(published (ws 0) c v)\<lparr>green_parked := False\<rparr>"
    have "length (ring_contents (ring c)) < 1024" "good (ws 0)"
      using Cons.prems Send by (simp_all add: pop_order_def)
    then have "chan_inv ?c" "pop_order ?c = pop_order c @ [v]" "queue ?c = []" "green_waiters ?c = []"
      using published_spec [OF Cons.prems(1), of "ws 0" v] Cons.prems(1-3) lfr.put_law [of "ring c" "ws 0" v]
      by (auto simp: chan_inv_def same_waiters_def pop_order_def published_def)
    then show ?thesis
      using Cons.IH [of ?c "\<lambda>i. ws (Suc i)" ex] Cons.prems Send
        chan_send_unwaited [OF Cons.prems(3,1), of "ws 0" ws ex v] by auto
  next
    case TryRecv
    obtain c' where c': "chan_inv c'" "same_waiters c c'"
      "case pop_order c of [] \<Rightarrow> pop_tiers (ws 0) c = (None, c)
       | v # vs \<Rightarrow> pop_tiers (ws 0) c = (Some v, c') \<and> pop_order c' = vs"
      using pop_tiers_order [OF Cons.prems(1)] Cons.prems(4) by blast
    have q: "queue (snd (pop_tiers (ws 0) c)) = []"
      using Cons.prems(2) by (simp add: pop_tiers_def split: prod.split)
    show ?thesis
      using c' q TryRecv Cons.prems Cons.IH [of c "\<lambda>i. ws (Suc i)" ex] Cons.IH [of c' "\<lambda>i. ws (Suc i)" ex]
      by (auto simp: chan_try_recv_def same_waiters_def split: list.splits prod.splits)
  qed
qed simp

text \<open>
  A burst: \<open>vs\<close> sent to a new channel, then received. The values past the capacity of the ring come
  out before the ones in it.
\<close>

lemma chan_exec_sends:
  assumes "chan_inv c" "green_waiters c = []" "\<forall>i. good (ws i)"
  shows "\<exists>c'. chan_exec ws ex c (map Send vs @ ops) = chan_exec (\<lambda>i. ws (length vs + i)) ex c' ops \<and>
    chan_inv c' \<and> green_waiters c' = [] \<and>
    (let n = 1024 - length (ring_contents (ring c)) in
     queue c' = queue c @ drop n vs \<and> ring_contents (ring c') = ring_contents (ring c) @ take n vs)"
  using assms
proof (induction vs arbitrary: ws c)
  case (Cons v vs)
  let ?c = "(published (ws 0) c v)\<lparr>green_parked := False\<rparr>"
  have "chan_inv ?c" "green_waiters ?c = []" "good (ws 0)" "ring_inv (ring c)"
    using published_spec [OF Cons.prems(1), of "ws 0" v] Cons.prems by (auto simp: chan_inv_def same_waiters_def)
  moreover from this have "queue ?c = (if length (ring_contents (ring c)) < 1024 then queue c else queue c @ [v]) \<and>
    ring_contents (ring ?c) =
      (if length (ring_contents (ring c)) < 1024 then ring_contents (ring c) @ [v] else ring_contents (ring c))"
    using lfr.put_law [of "ring c" "ws 0" v] by (auto simp: published_def simp del: length_ring_contents)
  moreover have "length (ring_contents (ring c)) \<le> 1024"
    using Cons.prems(1) lfr.contents_bound by (auto simp: chan_inv_def)
  ultimately show ?case
    using Cons.IH [of ?c "\<lambda>i. ws (Suc i)"] Cons.prems(3) chan_send_unwaited [OF Cons.prems(2,1), of "ws 0" ws ex v]
    by (auto simp: Let_def Suc_diff_le drop_Cons' take_Cons' simp del: length_ring_contents split: if_splits)
qed (auto simp: Let_def)

lemma chan_exec_recvs:
  assumes "chan_inv c" "\<forall>i. good (ws i)" "n \<le> length (pop_order c)"
  shows "fst (chan_exec ws ex c (replicate n TryRecv)) = map Some (take n (pop_order c))"
  using assms
proof (induction n arbitrary: ws c)
  case (Suc n)
  then obtain v vs where o: "pop_order c = v # vs" by (cases "pop_order c") auto
  then obtain c' where "chan_inv c'" "pop_tiers (ws 0) c = (Some v, c')" "pop_order c' = vs"
    using pop_tiers_order [OF Suc.prems(1), of "ws 0"] Suc.prems(2) by auto
  with o Suc.prems Suc.IH [of c' "\<lambda>i. ws (Suc i)"] show ?case
    by (auto simp: chan_try_recv_def split: prod.split)
qed simp

lemma chan_burst_order:
  assumes "\<forall>i. good (ws i)"
  shows "fst (chan_exec ws ex chan_new (map Send vs @ replicate (length vs) TryRecv)) =
    map Some (drop 1024 vs @ take 1024 vs)"
proof -
  obtain c' where c': "chan_exec ws ex chan_new (map Send vs @ replicate (length vs) TryRecv) =
      chan_exec (\<lambda>i. ws (length vs + i)) ex c' (replicate (length vs) TryRecv)" "chan_inv c'"
    "pop_order c' = drop 1024 vs @ take 1024 vs"
    using chan_exec_sends [OF chan_new_inv(1) _ assms, of ex vs "replicate (length vs) TryRecv"]
    by (auto simp: chan_new_def ring_contents_new pop_order_def simp del: length_ring_contents)
  have l: "length (pop_order c') = length vs" unfolding c'(3) by simp
  then have "take (length vs) (pop_order c') = pop_order c'" by simp
  with l show ?thesis
    using chan_exec_recvs [OF c'(2), of "\<lambda>i. ws (length vs + i)" "length vs" ex] assms
    unfolding c'(1) by (simp only: c'(3)) simp
qed

section \<open>Channels in use\<close>

text \<open>
  Any sequence of operations on a channel and the executor: sends, receives of both kinds, a task
  parking and a sleeper of the condition variable waking up. A task parks when it runs, so it is
  registered and not among the waiters; the exchanges of the operations that serve or register a
  waiter succeed within their retries.
\<close>

inductive chan_step :: "'v chan_state \<times> 'v executor \<Rightarrow> 'v chan_state \<times> 'v executor \<Rightarrow> bool" where
  step_send: "\<forall>i. good (ws i) \<Longrightarrow> chan_send w ws c ex v = (c', ex', notified) \<Longrightarrow> chan_step (c, ex) (c', ex')"
| step_try_recv: "chan_try_recv w c = (res, c') \<Longrightarrow> chan_step (c, ex) (c', ex)"
| step_recv: "length (queue c) < 2 ^ 64 \<Longrightarrow> chan_recv green w1 w2 ws' c = (out, c') \<Longrightarrow> chan_step (c, ex) (c', ex)"
| step_park: "length (queue c) < 2 ^ 64 \<Longrightarrow> good w \<Longrightarrow> tid \<notin> set (green_waiters c) \<Longrightarrow> registry ex tid \<noteq> None \<Longrightarrow>
    park_chan has_top ws' w tid c ex = (parked, c', ex') \<Longrightarrow> chan_step (c, ex) (c', ex')"
| step_cvar_wake: "chan_step (c, ex) (c\<lparr>cvar_waiters := cvar_waiters c - 1\<rparr>, ex)"

inductive chan_reach :: "'v executor \<Rightarrow> 'v chan_state \<times> 'v executor \<Rightarrow> bool" for ex where
  chan_reach_new: "chan_reach ex (chan_new, ex)"
| chan_reach_step: "chan_reach ex s \<Longrightarrow> chan_step s s' \<Longrightarrow> chan_reach ex s'"

definition chan_sys_inv :: "'v chan_state \<times> 'v executor \<Rightarrow> bool" where
  "chan_sys_inv s \<longleftrightarrow> chan_inv (fst s) \<and> no_stranded (fst s) \<and> waiters_registered (fst s) (snd s)"

lemma deliver_to_registered: "registry ex t \<noteq> None \<Longrightarrow> registry (deliver_to wids vs ex) t \<noteq> None"
  by (auto simp: deliver_to_def map_add_def split: option.split)

lemma chan_step_inv: "chan_step s s' \<Longrightarrow> chan_sys_inv s \<Longrightarrow> chan_sys_inv s'"
proof (induction rule: chan_step.induct)
  case (step_send ws w c ex v c' ex' notified)
  then have i: "chan_inv c" "waiters_registered c ex" by (simp_all add: chan_sys_inv_def)
  note sp = chan_send_spec [OF i(1) step_send(1) i(2) step_send(2)]
  have "waiters_registered c' ex'"
    using sp i(2) deliver_to_registered by (fastforce simp: waiters_registered_def dest: in_set_dropD)
  then show ?case using sp chan_send_no_stranded [OF i(1) step_send(1) i(2) step_send(2)] by (simp add: chan_sys_inv_def)
next
  case (step_try_recv w c res c' ex)
  then have i: "chan_inv c" "no_stranded c" "waiters_registered c ex" by (simp_all add: chan_sys_inv_def)
  show ?case using pop_tiers_spec [OF i(1) step_try_recv(1) [unfolded chan_try_recv_def]] i
    by (auto simp: chan_sys_inv_def no_stranded_def waiters_registered_def same_waiters_def split: option.splits)
next
  case (step_recv c green w1 w2 ws' out c' ex)
  then have i: "chan_inv c" "no_stranded c" "waiters_registered c ex" by (simp_all add: chan_sys_inv_def)
  show ?case using chan_recv_spec [OF i(1) step_recv(1,2)] chan_recv_no_stranded [OF i(1) step_recv(1) i(2) step_recv(2)] i
    by (simp add: chan_sys_inv_def waiters_registered_def)
next
  case (step_park c w tid ex has_top ws' parked c' ex')
  then have i: "chan_inv c" "no_stranded c" "waiters_registered c ex" by (simp_all add: chan_sys_inv_def)
  show ?case using park_chan_spec [OF i(1) step_park(1,3,2,5)] i step_park(4)
    by (cases parked) (auto simp: chan_sys_inv_def no_stranded_def waiters_registered_def)
next
  case (step_cvar_wake c ex)
  then show ?case
    by (simp add: chan_sys_inv_def chan_inv_def no_stranded_def waiters_registered_def pop_order_def)
qed

lemma chan_reach_inv: "chan_reach ex s \<Longrightarrow> chan_sys_inv s"
proof (induction rule: chan_reach.induct)
  case chan_reach_new
  then show ?case by (simp add: chan_sys_inv_def chan_new_inv waiters_registered_def) (simp add: chan_new_def)
qed (rule chan_step_inv)

end
