(* ===== verification/Ring_Steps.thy ===== *)
theory Ring_Steps
  imports Ring
begin

text \<open>
  The ring of \<open>crates/zz_runtime/src/lf_chan.rs\<close> used by any number of threads at once:
  \<open>try_enqueue\<close> and \<open>try_dequeue\<close> cut at every access of shared memory, and all interleavings of
  these steps. A counter or sequence number is kept with its modification history, newest value
  first: a load, relaxed or not, may return any value of the history, a successful exchange reads
  the newest one, and a weak exchange may fail at any time. The cells' payloads are plain memory.

  Shown for every run in which the counters do not wrap: every value taken out of a position is
  the one put into it, no position is put or taken twice, at most 1024 positions are in use, and
  no two threads are ever between claim and release of the same cell, which is what the
  \<open>unsafe\<close> accesses of the payload need. Every call ends after at most fifteen steps of its own
  thread, whatever the other threads do, and is never blocked.
\<close>

section \<open>Memory and threads\<close>

record 'v mem =
  tails :: "usize list"
  heads :: "usize list"
  seqs :: "usize list list"
  vals :: "'v option list"

definition mem_new :: "'v mem" where
  "mem_new = \<lparr>tails = [0], heads = [0],
     seqs = map (\<lambda>i. [word_of_nat i]) [0..<unat RING_CAP],
     vals = replicate (unat RING_CAP) None\<rparr>"

text \<open>Where a thread is: in no call, or at a point of one of the two operations; \<open>n\<close> retries are left.\<close>

datatype 'v pc =
    Idle
  | EnqTop 'v nat | EnqLoaded 'v nat usize | EnqSeq 'v nat usize usize
  | EnqClaimed 'v usize | EnqWritten usize | EnqDone "('v, unit) result"
  | DeqTop nat | DeqLoaded nat usize | DeqSeq nat usize usize
  | DeqClaimed usize | DeqTaken usize "'v option" | DeqDone "'v option"

datatype 'v event = Call | Tau | Put usize 'v | Took usize "'v option"

section \<open>Steps\<close>

inductive pstep :: "'v mem \<Rightarrow> 'v pc \<Rightarrow> 'v event \<Rightarrow> 'v mem \<Rightarrow> 'v pc \<Rightarrow> bool" where
  enq_call: "pstep m Idle Call m (EnqTop v 4)"
| enq_give_up: "pstep m (EnqTop v 0) Tau m (EnqDone (Err v))"
| enq_load_tail: "pos \<in> set (tails m) \<Longrightarrow> pstep m (EnqTop v (Suc n)) Tau m (EnqLoaded v n pos)"
| enq_load_seq: "sq \<in> set (seqs m ! slot pos) \<Longrightarrow> pstep m (EnqLoaded v n pos) Tau m (EnqSeq v n pos sq)"
| enq_cas: "sint (sq - pos) = 0 \<Longrightarrow> hd (tails m) = pos \<Longrightarrow>
    pstep m (EnqSeq v n pos sq) (Put pos v) (m\<lparr>tails := (pos + 1) # tails m\<rparr>) (EnqClaimed v pos)"
| enq_cas_fail: "sint (sq - pos) = 0 \<Longrightarrow> pstep m (EnqSeq v n pos sq) Tau m (EnqTop v n)"
| enq_full: "sint (sq - pos) < 0 \<Longrightarrow> pstep m (EnqSeq v n pos sq) Tau m (EnqDone (Err v))"
| enq_reload: "sint (sq - pos) > 0 \<Longrightarrow> pstep m (EnqSeq v n pos sq) Tau m (EnqTop v n)"
| enq_write: "pstep m (EnqClaimed v pos) Tau (m\<lparr>vals := (vals m)[slot pos := Some v]\<rparr>) (EnqWritten pos)"
| enq_publish: "pstep m (EnqWritten pos) Tau
    (m\<lparr>seqs := (seqs m)[slot pos := (pos + 1) # seqs m ! slot pos]\<rparr>) (EnqDone (Ok ()))"
| enq_return: "pstep m (EnqDone res) Tau m Idle"
| deq_call: "pstep m Idle Call m (DeqTop 4)"
| deq_give_up: "pstep m (DeqTop 0) Tau m (DeqDone None)"
| deq_load_head: "pos \<in> set (heads m) \<Longrightarrow> pstep m (DeqTop (Suc n)) Tau m (DeqLoaded n pos)"
| deq_load_seq: "sq \<in> set (seqs m ! slot pos) \<Longrightarrow> pstep m (DeqLoaded n pos) Tau m (DeqSeq n pos sq)"
| deq_cas: "sint (sq - (pos + 1)) = 0 \<Longrightarrow> hd (heads m) = pos \<Longrightarrow>
    pstep m (DeqSeq n pos sq) Tau (m\<lparr>heads := (pos + 1) # heads m\<rparr>) (DeqClaimed pos)"
| deq_cas_fail: "sint (sq - (pos + 1)) = 0 \<Longrightarrow> pstep m (DeqSeq n pos sq) Tau m (DeqTop n)"
| deq_empty: "sint (sq - (pos + 1)) < 0 \<Longrightarrow> pstep m (DeqSeq n pos sq) Tau m (DeqDone None)"
| deq_reload: "sint (sq - (pos + 1)) > 0 \<Longrightarrow> pstep m (DeqSeq n pos sq) Tau m (DeqTop n)"
| deq_take: "pstep m (DeqClaimed pos) (Took pos (vals m ! slot pos))
    (m\<lparr>vals := (vals m)[slot pos := None]\<rparr>) (DeqTaken pos (vals m ! slot pos))"
| deq_free: "pstep m (DeqTaken pos v) Tau
    (m\<lparr>seqs := (seqs m)[slot pos := (pos + RING_CAP) # seqs m ! slot pos]\<rparr>) (DeqDone v)"
| deq_return: "pstep m (DeqDone res) Tau m Idle"

record 'v sys =
  mem :: "'v mem"
  pcs :: "nat \<Rightarrow> 'v pc"

definition sys_new :: "'v sys" where
  "sys_new = \<lparr>mem = mem_new, pcs = (\<lambda>_. Idle)\<rparr>"

inductive rstep :: "'v sys \<Rightarrow> nat \<times> 'v event \<Rightarrow> 'v sys \<Rightarrow> bool" where
  thread_step: "pstep (mem s) (pcs s t) e m' p' \<Longrightarrow> rstep s (t, e) \<lparr>mem = m', pcs = (pcs s)(t := p')\<rparr>"

inductive_cases rstepE [elim!]: "rstep s te s'"

inductive rsteps :: "'v sys \<Rightarrow> (nat \<times> 'v event) list \<Rightarrow> 'v sys \<Rightarrow> bool" for s where
  rsteps_nil: "rsteps s [] s"
| rsteps_snoc: "rsteps s tr s' \<Longrightarrow> rstep s' e s'' \<Longrightarrow> rsteps s (tr @ [e]) s''"

text \<open>What the run did: the claims of \<open>try_enqueue\<close> and the takes of \<open>try_dequeue\<close>, in order.\<close>

definition puts :: "(nat \<times> 'v event) list \<Rightarrow> (usize \<times> 'v) list" where
  "puts tr = concat (map (\<lambda>(t, e). case e of Put p v \<Rightarrow> [(p, v)] | _ \<Rightarrow> []) tr)"

definition takes :: "(nat \<times> 'v event) list \<Rightarrow> (usize \<times> 'v option) list" where
  "takes tr = concat (map (\<lambda>(t, e). case e of Took p r \<Rightarrow> [(p, r)] | _ \<Rightarrow> []) tr)"

lemma puts_simps [simp]:
  "puts [] = []" "puts (tr @ [(t, Put p v)]) = puts tr @ [(p, v)]"
  "puts (tr @ [(t, Call)]) = puts tr" "puts (tr @ [(t, Tau)]) = puts tr" "puts (tr @ [(t, Took p r)]) = puts tr"
  by (simp_all add: puts_def)

lemma takes_simps [simp]:
  "takes [] = []" "takes (tr @ [(t, Took p r)]) = takes tr @ [(p, r)]"
  "takes (tr @ [(t, Call)]) = takes tr" "takes (tr @ [(t, Tau)]) = takes tr" "takes (tr @ [(t, Put p v)]) = takes tr"
  by (simp_all add: takes_def)

section \<open>Wait freedom\<close>

text \<open>The number of steps its own thread has left at most, the return included.\<close>

fun rank :: "'v pc \<Rightarrow> nat" where
  "rank Idle = 0"
| "rank (EnqTop v n) = 3 * n + 3" | "rank (EnqLoaded v n pos) = 3 * n + 5" | "rank (EnqSeq v n pos sq) = 3 * n + 4"
| "rank (EnqClaimed v pos) = 3" | "rank (EnqWritten pos) = 2" | "rank (EnqDone res) = 1"
| "rank (DeqTop n) = 3 * n + 3" | "rank (DeqLoaded n pos) = 3 * n + 5" | "rank (DeqSeq n pos sq) = 3 * n + 4"
| "rank (DeqClaimed pos) = 3" | "rank (DeqTaken pos r) = 2" | "rank (DeqDone res) = 1"

lemma pstep_rank: "pstep m p e m' p' \<Longrightarrow> e \<noteq> Call \<Longrightarrow> rank p' < rank p"
  by (induction rule: pstep.induct) auto

lemma pstep_call: "pstep m p Call m' p' \<Longrightarrow> p = Idle \<and> m' = m \<and> rank p' = 15"
  by (erule pstep.cases) auto

text \<open>Steps of \<open>t\<close> between a call and its return use up the rank; other threads do not change it.\<close>

lemma rsteps_rank:
  assumes "rsteps s tr s'" "(t, Call) \<notin> set tr"
  shows "length (filter (\<lambda>x. fst x = t) tr) + rank (pcs s' t) \<le> rank (pcs s t)"
  using assms
proof (induction rule: rsteps.induct)
  case (rsteps_snoc tr s' e s'')
  then show ?case using pstep_rank by (fastforce split: if_splits)
qed simp

text \<open>A thread inside a call always has a next step, as no history is ever empty.\<close>

definition mem_ok :: "'v mem \<Rightarrow> bool" where
  "mem_ok m \<longleftrightarrow> tails m \<noteq> [] \<and> heads m \<noteq> [] \<and> length (seqs m) = 1024 \<and> length (vals m) = 1024 \<and>
     (\<forall>i < 1024. seqs m ! i \<noteq> [])"

lemma pstep_mem_ok: "pstep m p e m' p' \<Longrightarrow> mem_ok m \<Longrightarrow> mem_ok m'"
  by (induction rule: pstep.induct) (auto simp: mem_ok_def nth_list_update)

lemma mem_ok_new: "mem_ok mem_new"
  by (auto simp: mem_ok_def mem_new_def simp del: upt_rec_numeral)

lemma rsteps_mem_ok: "rsteps s tr s' \<Longrightarrow> mem_ok (mem s) \<Longrightarrow> mem_ok (mem s')"
  by (induction rule: rsteps.induct) (auto intro: pstep_mem_ok)

lemma pstep_enabled:
  assumes "mem_ok m" "p \<noteq> Idle"
  shows "\<exists>e m' p'. pstep m p e m' p'"
proof -
  have ex: "\<exists>x. x \<in> set (tails m)" "\<exists>x. x \<in> set (heads m)" "\<And>pos. \<exists>x. x \<in> set (seqs m ! slot pos)"
    using assms(1) by (auto simp: mem_ok_def ex_in_conv)
  show ?thesis
  proof (cases p)
    case (EnqTop v n)
    then show ?thesis using ex(1) by (cases n) (auto intro: pstep.intros)
  next
    case (DeqTop n)
    then show ?thesis using ex(2) by (cases n) (auto intro: pstep.intros)
  next
    case (EnqSeq v n pos sq)
    then show ?thesis by (cases "sint (sq - pos)" "0 :: int" rule: linorder_cases) (blast intro: pstep.intros)+
  next
    case (DeqSeq n pos sq)
    then show ?thesis by (cases "sint (sq - (pos + 1))" "0 :: int" rule: linorder_cases) (blast intro: pstep.intros)+
  next
    case (EnqLoaded v n pos)
    then show ?thesis using ex(3) [of pos] by (blast intro: pstep.intros)
  next
    case (DeqLoaded n pos)
    then show ?thesis using ex(3) [of pos] by (blast intro: pstep.intros)
  qed (use assms(2) in \<open>auto intro: pstep.intros\<close>)
qed

section \<open>The invariant\<close>

text \<open>
  Positions are read as numbers; no word below wraps while fewer than \<open>2 ^ 64 - 1024\<close> claims were made.
\<close>

definition tl_pos :: "'v mem \<Rightarrow> nat" where "tl_pos m = unat (hd (tails m))"

definition hd_pos :: "'v mem \<Rightarrow> nat" where "hd_pos m = unat (hd (heads m))"

definition cur :: "'v mem \<Rightarrow> nat \<Rightarrow> nat" where "cur m i = unat (hd (seqs m ! i))"

text \<open>
  A cell is open for the position its sequence number names, or holds the value published for the
  position before; \<open>L\<close> is the list of values put so far, by position.
\<close>

definition cell_inv :: "'v list \<Rightarrow> 'v mem \<Rightarrow> nat \<Rightarrow> bool" where
  "cell_inv L m i \<longleftrightarrow> (\<forall>x \<in> set (seqs m ! i). unat x \<le> cur m i) \<and>
     (cur m i mod 1024 = i \<and> cur m i < hd_pos m + 1024 \<or>
      (\<exists>p. cur m i = Suc p \<and> p mod 1024 = i \<and> p < tl_pos m \<and> (hd_pos m \<le> p \<longrightarrow> vals m ! i = Some (L ! p))))"

fun pc_inv :: "'v list \<Rightarrow> usize set \<Rightarrow> 'v mem \<Rightarrow> 'v pc \<Rightarrow> bool" where
  "pc_inv L K m (EnqSeq v n pos sq) = (sq \<in> set (seqs m ! slot pos))"
| "pc_inv L K m (DeqSeq n pos sq) = (sq \<in> set (seqs m ! slot pos))"
| "pc_inv L K m (EnqClaimed v pos) =
     (hd_pos m \<le> unat pos \<and> unat pos < tl_pos m \<and> cur m (slot pos) = unat pos \<and> v = L ! unat pos)"
| "pc_inv L K m (EnqWritten pos) =
     (hd_pos m \<le> unat pos \<and> unat pos < tl_pos m \<and> cur m (slot pos) = unat pos \<and>
      vals m ! slot pos = Some (L ! unat pos))"
| "pc_inv L K m (DeqClaimed pos) =
     (unat pos < hd_pos m \<and> cur m (slot pos) = Suc (unat pos) \<and> vals m ! slot pos = Some (L ! unat pos) \<and> pos \<notin> K)"
| "pc_inv L K m (DeqTaken pos r) = (unat pos < hd_pos m \<and> cur m (slot pos) = Suc (unat pos))"
| "pc_inv L K m _ = True"

text \<open>The position a thread holds between its claim and its release of the cell.\<close>

fun held :: "'v pc \<Rightarrow> usize option" where
  "held (EnqClaimed v pos) = Some pos"
| "held (EnqWritten pos) = Some pos"
| "held (DeqClaimed pos) = Some pos"
| "held (DeqTaken pos r) = Some pos"
| "held _ = None"

definition ring_sys_inv :: "'v list \<Rightarrow> usize set \<Rightarrow> 'v sys \<Rightarrow> bool" where
  "ring_sys_inv L K s \<longleftrightarrow>
     tl_pos (mem s) = length L \<and> hd_pos (mem s) \<le> tl_pos (mem s) \<and> tl_pos (mem s) \<le> hd_pos (mem s) + 1024 \<and>
     (\<forall>i < 1024. cell_inv L (mem s) i) \<and> (\<forall>t. pc_inv L K (mem s) (pcs s t)) \<and>
     (\<forall>t t' p. t \<noteq> t' \<longrightarrow> held (pcs s t) = Some p \<longrightarrow> held (pcs s t') \<noteq> Some p) \<and>
     (\<forall>p \<in> K. unat p < hd_pos (mem s))"

section \<open>Claims\<close>

lemma mod_window:
  fixes p q :: nat
  assumes "p mod 1024 = q mod 1024" "q \<le> p" "p < q + 1024"
  shows "p = q"
proof -
  have "(p - q) mod 1024 = 0" using assms(1,2) by (metis mod_eq_dvd_iff_nat mod_0_imp_dvd dvd_imp_mod_0)
  moreover have "p - q < 1024" using assms(2,3) by linarith
  ultimately show ?thesis using assms(2) by (simp only: mod_less)
qed

lemma mod_Suc_neq: "Suc p mod 1024 \<noteq> p mod 1024"
  by (simp add: mod_Suc)

lemma sint_dif_zero: "sint (x - y :: usize) = 0 \<longleftrightarrow> x = y"
  using signed_eq_0_iff [of "x - y"] by simp

lemma unat_Suc: "unat x < 2 ^ 64 - 1 \<Longrightarrow> unat (x + 1 :: usize) = Suc (unat x)"
  by (simp add: unat_word_ariths)

lemma unat_cap: "unat x + 1024 < 2 ^ 64 \<Longrightarrow> unat (x + RING_CAP) = unat x + 1024"
  by (simp add: unat_word_ariths RING_CAP_def)

text \<open>An exchange of the tail that succeeds after the sequence number matched finds the cell still open.\<close>

lemma open_cell:
  assumes "ring_sys_inv L K s" "hd (tails (mem s)) \<in> set (seqs (mem s) ! slot (hd (tails (mem s))))"
  shows "cur (mem s) (slot (hd (tails (mem s)))) = tl_pos (mem s) \<and> tl_pos (mem s) < hd_pos (mem s) + 1024"
proof -
  let ?m = "mem s" and ?i = "slot (hd (tails (mem s)))"
  have c: "cell_inv L ?m ?i" using assms(1) by (simp add: ring_sys_inv_def)
  have i: "?i = tl_pos ?m mod 1024" by (simp add: slot_eq tl_pos_def)
  have ge: "tl_pos ?m \<le> cur ?m ?i" using c assms(2) by (auto simp: cell_inv_def tl_pos_def)
  have b: "hd_pos ?m \<le> tl_pos ?m" "tl_pos ?m \<le> hd_pos ?m + 1024" using assms(1) by (simp_all add: ring_sys_inv_def)
  from c consider "cur ?m ?i mod 1024 = ?i" "cur ?m ?i < hd_pos ?m + 1024"
    | p where "cur ?m ?i = Suc p" "p mod 1024 = ?i" "p < tl_pos ?m" by (auto simp: cell_inv_def)
  then show ?thesis
  proof cases
    case 1
    then have "cur ?m ?i = tl_pos ?m" using mod_window [of "cur ?m ?i" "tl_pos ?m"] ge b i by simp
    then show ?thesis using 1 by simp
  next
    case (2 p)
    then have "Suc p = tl_pos ?m" using ge by simp
    then show ?thesis using 2(2) i mod_Suc_neq [of p] by simp
  qed
qed

text \<open>An exchange of the head finds the value published for that position still in place.\<close>

lemma ready_cell:
  assumes "ring_sys_inv L K s" "hd (heads (mem s)) + 1 \<in> set (seqs (mem s) ! slot (hd (heads (mem s))))"
    "length L + 1024 < 2 ^ 64"
  shows "cur (mem s) (slot (hd (heads (mem s)))) = Suc (hd_pos (mem s)) \<and> hd_pos (mem s) < tl_pos (mem s) \<and>
    vals (mem s) ! slot (hd (heads (mem s))) = Some (L ! hd_pos (mem s))"
proof -
  let ?m = "mem s" and ?i = "slot (hd (heads (mem s)))"
  have c: "cell_inv L ?m ?i" using assms(1) by (simp add: ring_sys_inv_def)
  have i: "?i = hd_pos ?m mod 1024" by (simp add: slot_eq hd_pos_def)
  have b: "hd_pos ?m \<le> tl_pos ?m" "tl_pos ?m \<le> hd_pos ?m + 1024" "tl_pos ?m = length L"
    using assms(1) by (simp_all add: ring_sys_inv_def)
  have "unat (hd (heads ?m) + 1) = Suc (hd_pos ?m)"
    using b assms(3) unat_Suc [of "hd (heads ?m)"] by (simp add: hd_pos_def)
  then have ge: "Suc (hd_pos ?m) \<le> cur ?m ?i" using c assms(2) by (fastforce simp: cell_inv_def)
  from c consider "cur ?m ?i mod 1024 = ?i" "cur ?m ?i < hd_pos ?m + 1024"
    | p where "cur ?m ?i = Suc p" "p mod 1024 = ?i" "p < tl_pos ?m"
      "hd_pos ?m \<le> p \<longrightarrow> vals ?m ! ?i = Some (L ! p)" by (auto simp: cell_inv_def)
  then show ?thesis
  proof cases
    case 1
    then have "cur ?m ?i = hd_pos ?m" using mod_window [of "cur ?m ?i" "hd_pos ?m"] ge i by simp
    then show ?thesis using ge by simp
  next
    case (2 p)
    then have "p = hd_pos ?m" using mod_window [of p "hd_pos ?m"] ge b i by simp
    then show ?thesis using 2 by simp
  qed
qed

text \<open>No two threads hold the same cell.\<close>

lemma held_slots_distinct:
  assumes "ring_sys_inv L K s" "t \<noteq> t'" "held (pcs s t) = Some p" "held (pcs s t') = Some q"
  shows "slot p \<noteq> slot q"
proof
  assume eq: "slot p = slot q"
  have h: "cur (mem s) (slot x) = unat x \<or> cur (mem s) (slot x) = Suc (unat x)"
    if "held (pcs s u) = Some x" for u x
  proof -
    have "pc_inv L K (mem s) (pcs s u)" using assms(1) by (simp add: ring_sys_inv_def)
    with that show ?thesis by (cases "pcs s u") auto
  qed
  have "unat p mod 1024 = unat q mod 1024" using eq by (simp add: slot_eq)
  then have "unat p \<noteq> Suc (unat q)" "unat q \<noteq> Suc (unat p)"
    using mod_Suc_neq [of "unat p"] mod_Suc_neq [of "unat q"] by auto
  then have "unat p = unat q" using h [OF assms(3)] h [OF assms(4)] eq by auto
  then have "p = q" by (simp add: word_unat_eq_iff)
  then show False using assms by (auto simp: ring_sys_inv_def)
qed

section \<open>Every step keeps the invariant\<close>

lemma ring_sys_invD:
  assumes "ring_sys_inv L K s"
  shows "tl_pos (mem s) = length L" "hd_pos (mem s) \<le> length L" "length L \<le> hd_pos (mem s) + 1024"
    "i < 1024 \<Longrightarrow> cell_inv L (mem s) i" "pc_inv L K (mem s) (pcs s t)"
    "t \<noteq> t' \<Longrightarrow> held (pcs s t) = Some p \<Longrightarrow> held (pcs s t') \<noteq> Some p" "p \<in> K \<Longrightarrow> unat p < hd_pos (mem s)"
  using assms unfolding ring_sys_inv_def by auto

lemma ring_sys_invI:
  assumes "tl_pos m = length L" "hd_pos m \<le> length L" "length L \<le> hd_pos m + 1024"
    "\<And>i. i < 1024 \<Longrightarrow> cell_inv L m i" "pc_inv L K m q" "\<And>u. u \<noteq> t \<Longrightarrow> pc_inv L K m (f u)"
    "\<And>u p. u \<noteq> t \<Longrightarrow> held q = Some p \<Longrightarrow> held (f u) \<noteq> Some p"
    "\<And>u u' p. u \<noteq> u' \<Longrightarrow> held (f u) = Some p \<Longrightarrow> held (f u') \<noteq> Some p" "\<And>p. p \<in> K \<Longrightarrow> unat p < hd_pos m"
  shows "ring_sys_inv L K \<lparr>mem = m, pcs = f(t := q)\<rparr>"
  unfolding ring_sys_inv_def using assms by auto

text \<open>A thread that touches only the cell it holds leaves the others' claims alone.\<close>

lemma pc_inv_frame:
  assumes "pc_inv L K m p" "\<And>i. i \<noteq> j \<Longrightarrow> cur m' i = cur m i \<and> vals m' ! i = vals m ! i"
    "\<And>i. set (seqs m ! i) \<subseteq> set (seqs m' ! i)" "tl_pos m' = tl_pos m" "hd_pos m' = hd_pos m"
    "\<And>q. held p = Some q \<Longrightarrow> slot q \<noteq> j \<and> (q \<in> K' \<longrightarrow> q \<in> K)"
  shows "pc_inv L K' m' p"
  using assms by (cases p) auto

lemma set_list_update_mono: "set (xs ! i) \<subseteq> set (xs[j := x # xs ! j] ! i)"
  by (cases "j < length xs") (auto simp: nth_list_update list_update_beyond)

lemma enq_cas_inv:
  assumes "ring_sys_inv L K s" "pcs s t = EnqSeq v n pos pos" "hd (tails (mem s)) = pos" "length L + 1024 < 2 ^ 64"
  shows "ring_sys_inv (L @ [v]) K \<lparr>mem = (mem s)\<lparr>tails := (pos + 1) # tails (mem s)\<rparr>, pcs = (pcs s)(t := EnqClaimed v pos)\<rparr>"
proof -
  note I = ring_sys_invD [OF assms(1)]
  let ?m = "(mem s)\<lparr>tails := (pos + 1) # tails (mem s)\<rparr>"
  have pos: "unat pos = length L" using I(1) assms(3) by (simp add: tl_pos_def)
  have o: "cur (mem s) (slot pos) = length L \<and> length L < hd_pos (mem s) + 1024"
    using open_cell [OF assms(1)] I(5) [of t] assms(2,3) I(1) by simp
  have m: "tl_pos ?m = Suc (length L)" "hd_pos ?m = hd_pos (mem s)" "\<And>i. cur ?m i = cur (mem s) i"
    using unat_Suc [of pos] pos assms(4) by (simp_all add: tl_pos_def hd_pos_def cur_def)
  have other: "pc_inv (L @ [v]) K ?m (pcs s u)" for u
    using I(5) [of u] I(1-3) m by (cases "pcs s u") (auto simp: nth_append)
  have cell: "cell_inv (L @ [v]) ?m i" if "i < 1024" for i
    using I(4) [OF that] I(1-3) m by (auto simp: cell_inv_def nth_append)
  have new: "held (pcs s u) \<noteq> Some pos" for u
    using I(5) [of u] I(1-3) pos by (cases "pcs s u") auto
  show ?thesis
    by (rule ring_sys_invI) (use m I o pos other cell new in \<open>auto simp: nth_append\<close>)
qed

lemma deq_cas_inv:
  assumes "ring_sys_inv L K s" "pcs s t = DeqSeq n pos (pos + 1)" "hd (heads (mem s)) = pos" "length L + 1024 < 2 ^ 64"
  shows "ring_sys_inv L K \<lparr>mem = (mem s)\<lparr>heads := (pos + 1) # heads (mem s)\<rparr>, pcs = (pcs s)(t := DeqClaimed pos)\<rparr>"
proof -
  note I = ring_sys_invD [OF assms(1)]
  let ?m = "(mem s)\<lparr>heads := (pos + 1) # heads (mem s)\<rparr>"
  have pos: "unat pos = hd_pos (mem s)" using assms(3) by (simp add: hd_pos_def)
  have r: "cur (mem s) (slot pos) = Suc (unat pos) \<and> unat pos < length L \<and> vals (mem s) ! slot pos = Some (L ! unat pos)"
    using ready_cell [OF assms(1) _ assms(4)] I(5) [of t] assms(2,3) I(1) pos by simp
  have m: "tl_pos ?m = length L" "hd_pos ?m = Suc (unat pos)" "\<And>i. cur ?m i = cur (mem s) i"
    using unat_Suc [of pos] pos I assms(4) by (simp_all add: tl_pos_def hd_pos_def cur_def)
  have new: "held (pcs s u) \<noteq> Some pos" for u
    using I(5) [of u] r pos by (cases "pcs s u") auto
  have other: "pc_inv L K ?m (pcs s u)" for u
    using I(5) [of u] m r pos I(1) new [of u] by (cases "pcs s u") (auto simp: Suc_le_eq le_less word_unat_eq_iff)
  have cell: "cell_inv L ?m i" if "i < 1024" for i
    using I(4) [OF that] I(1) m pos by (auto simp: cell_inv_def)
  have K: "pos \<notin> K" "\<And>p. p \<in> K \<Longrightarrow> unat p < Suc (unat pos)"
    using I(7) [of pos] I(7) pos by (auto intro: less_SucI)
  show ?thesis
    by (rule ring_sys_invI) (use m I(1-3,6) r pos other cell new K in auto)
qed

text \<open>The three steps on a held cell.\<close>

lemma held_frame:
  assumes "ring_sys_inv L K s" "mem_ok (mem s)" "held (pcs s t) = Some pos" "u \<noteq> t"
    "m' = (mem s)\<lparr>vals := (vals (mem s))[slot pos := x]\<rparr> \<or>
     m' = (mem s)\<lparr>seqs := (seqs (mem s))[slot pos := y # seqs (mem s) ! slot pos]\<rparr>" "K' \<subseteq> insert pos K"
  shows "pc_inv L K' m' (pcs s u)"
proof (rule pc_inv_frame)
  show "pc_inv L K (mem s) (pcs s u)" using ring_sys_invD(5) [OF assms(1)] .
  show "cur m' i = cur (mem s) i \<and> vals m' ! i = vals (mem s) ! i" if "i \<noteq> slot pos" for i
    using assms(5) that by (auto simp: cur_def)
  show "set (seqs (mem s) ! i) \<subseteq> set (seqs m' ! i)" for i
    using assms(5) set_list_update_mono [of "seqs (mem s)" i "slot pos" y] by auto
  show "tl_pos m' = tl_pos (mem s)" "hd_pos m' = hd_pos (mem s)"
    using assms(5) by (auto simp: tl_pos_def hd_pos_def)
  show "slot q \<noteq> slot pos \<and> (q \<in> K' \<longrightarrow> q \<in> K)" if "held (pcs s u) = Some q" for q
    using held_slots_distinct [OF assms(1,4) that assms(3)] assms(6) by auto
qed

lemmas held_frame_vals = held_frame [OF _ _ _ _ disjI1 [OF refl]]
lemmas held_frame_seqs = held_frame [OF _ _ _ _ disjI2 [OF refl]]

lemma enq_write_inv:
  assumes "ring_sys_inv L K s" "mem_ok (mem s)" "pcs s t = EnqClaimed v pos"
  shows "ring_sys_inv L K \<lparr>mem = (mem s)\<lparr>vals := (vals (mem s))[slot pos := Some v]\<rparr>, pcs = (pcs s)(t := EnqWritten pos)\<rparr>"
proof -
  note I = ring_sys_invD [OF assms(1)]
  let ?m = "(mem s)\<lparr>vals := (vals (mem s))[slot pos := Some v]\<rparr>"
  have p: "hd_pos (mem s) \<le> unat pos" "unat pos < tl_pos (mem s)" "cur (mem s) (slot pos) = unat pos" "v = L ! unat pos"
    using I(5) [of t] assms(3) by simp_all
  have m: "tl_pos ?m = tl_pos (mem s)" "hd_pos ?m = hd_pos (mem s)" "\<And>i. cur ?m i = cur (mem s) i"
    "vals ?m ! slot pos = Some v"
    using assms(2) by (simp_all add: tl_pos_def hd_pos_def cur_def mem_ok_def)
  have own: "cell_inv L ?m (slot pos)"
    using I(4) [OF slot_less, of pos] p m(1-3) mod_Suc_neq [of "unat pos - 1"]
    by (auto simp: cell_inv_def slot_eq)
  have cell: "cell_inv L ?m i" if "i < 1024" for i
    using I(4) [OF that] own m by (cases "i = slot pos") (auto simp: cell_inv_def)
  have other: "pc_inv L K ?m (pcs s u)" if "u \<noteq> t" for u
    by (rule held_frame_vals [OF assms(1,2) _ that]) (simp_all add: assms(3) subset_insertI)
  have new: "held (pcs s u) \<noteq> Some pos" if "u \<noteq> t" for u using I(6) [of t u pos] that assms(3) by auto
  show ?thesis
    by (rule ring_sys_invI) (use m p I(1-3,6,7) new other cell in auto)
qed

lemma enq_publish_inv:
  assumes "ring_sys_inv L K s" "mem_ok (mem s)" "pcs s t = EnqWritten pos" "length L + 1024 < 2 ^ 64"
  shows "ring_sys_inv L K \<lparr>mem = (mem s)\<lparr>seqs := (seqs (mem s))[slot pos := (pos + 1) # seqs (mem s) ! slot pos]\<rparr>,
    pcs = (pcs s)(t := EnqDone (Ok ()))\<rparr>"
proof -
  note I = ring_sys_invD [OF assms(1)]
  let ?m = "(mem s)\<lparr>seqs := (seqs (mem s))[slot pos := (pos + 1) # seqs (mem s) ! slot pos]\<rparr>"
  have p: "hd_pos (mem s) \<le> unat pos" "unat pos < tl_pos (mem s)" "cur (mem s) (slot pos) = unat pos"
    "vals (mem s) ! slot pos = Some (L ! unat pos)"
    using I(5) [of t] assms(3) by simp_all
  have m: "tl_pos ?m = tl_pos (mem s)" "hd_pos ?m = hd_pos (mem s)" "cur ?m (slot pos) = Suc (unat pos)"
    "seqs ?m ! slot pos = (pos + 1) # seqs (mem s) ! slot pos" "\<And>i. i \<noteq> slot pos \<Longrightarrow> cur ?m i = cur (mem s) i"
    using assms(2,4) p(2) I(1) unat_Suc [of pos] by (simp_all add: tl_pos_def hd_pos_def cur_def mem_ok_def)
  have own: "cell_inv L ?m (slot pos)"
    using I(4) [OF slot_less, of pos] p m assms(4) I(1) unat_Suc [of pos]
    by (auto simp: cell_inv_def slot_eq [symmetric] intro!: exI [of _ "unat pos"])
  have cell: "cell_inv L ?m i" if "i < 1024" for i
    using I(4) [OF that] own m by (cases "i = slot pos") (auto simp: cell_inv_def)
  have other: "pc_inv L K ?m (pcs s u)" if "u \<noteq> t" for u
    by (rule held_frame_seqs [OF assms(1,2) _ that]) (simp_all add: assms(3) subset_insertI)
  show ?thesis
    by (rule ring_sys_invI) (use m p I(1-3,6,7) other cell in auto)
qed

lemma deq_take_inv:
  assumes "ring_sys_inv L K s" "mem_ok (mem s)" "pcs s t = DeqClaimed pos"
  shows "ring_sys_inv L (insert pos K) \<lparr>mem = (mem s)\<lparr>vals := (vals (mem s))[slot pos := None]\<rparr>,
    pcs = (pcs s)(t := DeqTaken pos (vals (mem s) ! slot pos))\<rparr>"
proof -
  note I = ring_sys_invD [OF assms(1)]
  let ?m = "(mem s)\<lparr>vals := (vals (mem s))[slot pos := None]\<rparr>"
  have p: "unat pos < hd_pos (mem s)" "cur (mem s) (slot pos) = Suc (unat pos)"
    using I(5) [of t] assms(3) by simp_all
  have m: "tl_pos ?m = tl_pos (mem s)" "hd_pos ?m = hd_pos (mem s)" "\<And>i. cur ?m i = cur (mem s) i"
    by (simp_all add: tl_pos_def hd_pos_def cur_def)
  have own: "cell_inv L ?m (slot pos)"
    using I(4) [OF slot_less, of pos] p m by (auto simp: cell_inv_def)
  have cell: "cell_inv L ?m i" if "i < 1024" for i
    using I(4) [OF that] own m by (cases "i = slot pos") (auto simp: cell_inv_def)
  have other: "pc_inv L (insert pos K) ?m (pcs s u)" if "u \<noteq> t" for u
    by (rule held_frame_vals [OF assms(1,2) _ that]) (simp_all add: assms(3))
  have new: "held (pcs s u) \<noteq> Some pos" if "u \<noteq> t" for u using I(6) [of t u pos] that assms(3) by auto
  show ?thesis
    by (rule ring_sys_invI) (use m p I(1-3,6,7) new other cell in auto)
qed

lemma deq_free_inv:
  assumes "ring_sys_inv L K s" "mem_ok (mem s)" "pcs s t = DeqTaken pos r" "length L + 1024 < 2 ^ 64"
  shows "ring_sys_inv L K \<lparr>mem = (mem s)\<lparr>seqs := (seqs (mem s))[slot pos := (pos + RING_CAP) # seqs (mem s) ! slot pos]\<rparr>,
    pcs = (pcs s)(t := DeqDone r)\<rparr>"
proof -
  note I = ring_sys_invD [OF assms(1)]
  let ?m = "(mem s)\<lparr>seqs := (seqs (mem s))[slot pos := (pos + RING_CAP) # seqs (mem s) ! slot pos]\<rparr>"
  have p: "unat pos < hd_pos (mem s)" "cur (mem s) (slot pos) = Suc (unat pos)"
    using I(5) [of t] assms(3) by simp_all
  have c: "unat (pos + RING_CAP) = unat pos + 1024" using unat_cap [of pos] p(1) I(2) assms(4) by simp
  have m: "tl_pos ?m = tl_pos (mem s)" "hd_pos ?m = hd_pos (mem s)" "cur ?m (slot pos) = unat pos + 1024"
    "seqs ?m ! slot pos = (pos + RING_CAP) # seqs (mem s) ! slot pos" "\<And>i. i \<noteq> slot pos \<Longrightarrow> cur ?m i = cur (mem s) i"
    using assms(2) c by (simp_all add: tl_pos_def hd_pos_def cur_def mem_ok_def)
  have "\<forall>x \<in> set (seqs ?m ! slot pos). unat x \<le> unat pos + 1024"
    using I(4) [OF slot_less, of pos] p m(4) c by (auto simp: cell_inv_def)
  then have own: "cell_inv L ?m (slot pos)"
    unfolding cell_inv_def m(2,3) using p(1) by (auto simp: slot_eq)
  have cell: "cell_inv L ?m i" if "i < 1024" for i
    using I(4) [OF that] own m by (cases "i = slot pos") (auto simp: cell_inv_def)
  have other: "pc_inv L K ?m (pcs s u)" if "u \<noteq> t" for u
    by (rule held_frame_seqs [OF assms(1,2) _ that]) (simp_all add: assms(3) subset_insertI)
  show ?thesis
    by (rule ring_sys_invI) (use m p I(1-3,6,7) other cell in auto)
qed

text \<open>The steps that read only.\<close>

lemma pc_only_inv:
  assumes "ring_sys_inv L K s" "pc_inv L K (mem s) q" "held q = None"
  shows "ring_sys_inv L K \<lparr>mem = mem s, pcs = (pcs s)(t := q)\<rparr>"
  by (rule ring_sys_invI) (use ring_sys_invD [OF assms(1)] assms(2,3) in auto)

text \<open>What one step adds to the log of values put and to the set of positions taken.\<close>

fun log_of :: "'v event \<Rightarrow> 'v list" where
  "log_of (Put p v) = [v]" | "log_of _ = []"

fun taken_of :: "'v event \<Rightarrow> usize set" where
  "taken_of (Took p r) = {p}" | "taken_of _ = {}"

lemma ring_step_inv:
  assumes "rstep s (t, e) s'" "ring_sys_inv L K s" "mem_ok (mem s)" "length L + 1024 < 2 ^ 64"
  shows "ring_sys_inv (L @ log_of e) (taken_of e \<union> K) s' \<and>
    (\<forall>p v. e = Put p v \<longrightarrow> unat p = length L) \<and>
    (\<forall>p r. e = Took p r \<longrightarrow> p \<notin> K \<and> unat p < length L \<and> r = Some (L ! unat p))"
proof -
  from assms(1) obtain m' q where st: "pstep (mem s) (pcs s t) e m' q" "s' = \<lparr>mem = m', pcs = (pcs s)(t := q)\<rparr>"
    by auto
  note I = ring_sys_invD [OF assms(2)]
  have own: "pc_inv L K (mem s) (pcs s t)" by (rule I(5))
  show ?thesis using st(1) own
  proof (cases rule: pstep.cases)
    case (enq_cas sq pos v n)
    then show ?thesis using enq_cas_inv [OF assms(2), of t v n pos] assms(4) I(1)
      by (simp add: st(2) sint_dif_zero tl_pos_def)
  next
    case (deq_cas sq pos n)
    then show ?thesis using deq_cas_inv [OF assms(2), of t n pos] assms(4) by (simp add: st(2) sint_dif_zero)
  next
    case (enq_write v pos)
    then show ?thesis using enq_write_inv [OF assms(2,3), of t v pos] by (simp add: st(2))
  next
    case (enq_publish pos)
    then show ?thesis using enq_publish_inv [OF assms(2,3), of t pos] assms(4) by (simp add: st(2))
  next
    case (deq_take pos)
    then show ?thesis using deq_take_inv [OF assms(2,3), of t pos] own I(2) by (auto simp: st(2))
  next
    case (deq_free pos v)
    then show ?thesis using deq_free_inv [OF assms(2,3), of t pos v] assms(4) by (simp add: st(2))
  qed (auto simp: st(2) intro!: pc_only_inv [OF assms(2)])
qed

section \<open>Runs\<close>

lemma ring_sys_inv_new: "ring_sys_inv ([] :: 'v list) {} sys_new"
proof -
  have "cell_inv ([] :: 'v list) mem_new i" if "i < 1024" for i
    using that by (simp add: cell_inv_def cur_def hd_pos_def mem_new_def del: upt_rec_numeral)
  moreover have "tl_pos (mem_new :: 'v mem) = 0" "hd_pos (mem_new :: 'v mem) = 0" by (simp_all add: tl_pos_def hd_pos_def mem_new_def)
  ultimately show ?thesis by (simp add: ring_sys_inv_def sys_new_def)
qed

definition once :: "(usize \<times> 'v) list \<Rightarrow> (usize \<times> 'v option) list \<Rightarrow> bool" where
  "once ps ts \<longleftrightarrow> map (unat \<circ> fst) ps = [0..<length ps] \<and> distinct (map fst ts) \<and>
     (\<forall>(p, r) \<in> set ts. unat p < length ps \<and> r = Some (snd (ps ! unat p)))"

lemma once_put: "once ps ts \<Longrightarrow> unat p = length ps \<Longrightarrow> once (ps @ [(p, v)]) ts"
  by (fastforce simp: once_def nth_append)

lemma once_take:
  "once ps ts \<Longrightarrow> p \<notin> fst ` set ts \<Longrightarrow> unat p < length ps \<Longrightarrow> once ps (ts @ [(p, Some (snd (ps ! unat p)))])"
  by (auto simp: once_def)

lemma puts_snoc: "map snd (puts (tr @ [(t, e)])) = map snd (puts tr) @ log_of e"
  by (cases e) (simp_all add: puts_def)

lemma takes_snoc: "fst ` set (takes (tr @ [(t, e)])) = taken_of e \<union> fst ` set (takes tr)"
  by (cases e) (auto simp: takes_def)

lemma rsteps_inv:
  assumes "rsteps sys_new tr s" "length (puts tr) + 1024 < 2 ^ 64"
  shows "ring_sys_inv (map snd (puts tr)) (fst ` set (takes tr)) s \<and> once (puts tr) (takes tr)"
  using assms
proof (induction rule: rsteps.induct)
  case rsteps_nil
  then show ?case by (simp add: ring_sys_inv_new once_def)
next
  case (rsteps_snoc tr s' te s'')
  obtain t e where te: "te = (t, e)" by (cases te)
  have "length (puts tr) \<le> length (puts (tr @ [te]))" by (simp add: puts_def)
  then have b: "length (puts tr) + 1024 < 2 ^ 64" using rsteps_snoc.prems by linarith
  with rsteps_snoc.IH have I: "ring_sys_inv (map snd (puts tr)) (fst ` set (takes tr)) s'" "once (puts tr) (takes tr)"
    by simp_all
  have "mem_ok (mem s')" using rsteps_mem_ok [OF rsteps_snoc.hyps(1)] mem_ok_new by (simp add: sys_new_def)
  note st = ring_step_inv [OF rsteps_snoc.hyps(2) [unfolded te] I(1) this]
  have "once (puts (tr @ [(t, e)])) (takes (tr @ [(t, e)]))"
    using st b I(2) once_put [OF I(2)] once_take [OF I(2)] by (cases e) auto
  then show ?case using st b unfolding te puts_snoc takes_snoc by simp
qed

section \<open>Undisturbed calls\<close>

text \<open>
  A thread that runs alone and reads the newest values behaves as the operations of \<open>Ring\<close>: their
  results are results of the step relation.
\<close>

definition ring_of :: "'v mem \<Rightarrow> 'v lf_ring" where
  "ring_of m = \<lparr>head = hd (heads m), tail = hd (tails m),
     cells = map2 (\<lambda>h v. \<lparr>seq = hd h, val = v\<rparr>) (seqs m) (vals m)\<rparr>"

definition solo :: "nat \<Rightarrow> 'v sys \<Rightarrow> 'v sys \<Rightarrow> bool" where
  "solo t s s' \<longleftrightarrow> (\<exists>tr. rsteps s tr s' \<and> fst ` set tr \<subseteq> {t})"

lemma solo_refl: "solo t s s"
  unfolding solo_def by (rule exI [of _ "[]"]) (simp add: rsteps_nil)

lemma solo_step:
  assumes "solo t s s'" "pstep (mem s') (pcs s' t) e m q"
  shows "solo t s \<lparr>mem = m, pcs = (pcs s')(t := q)\<rparr>"
proof -
  obtain tr where "rsteps s tr s'" "fst ` set tr \<subseteq> {t}" using assms(1) by (auto simp: solo_def)
  then show ?thesis
    unfolding solo_def using rsteps_snoc [OF _ thread_step [OF assms(2)]]
    by (intro exI [of _ "tr @ [(t, e)]"]) auto
qed

lemma solo_trans: "solo t s s' \<Longrightarrow> solo t s' s'' \<Longrightarrow> solo t s s''"
proof -
  have "rsteps s' tr s'' \<Longrightarrow> solo t s s' \<Longrightarrow> fst ` set tr \<subseteq> {t} \<Longrightarrow> solo t s s''" for tr
    by (induction rule: rsteps.induct) (auto intro: solo_step)
  then show "solo t s s' \<Longrightarrow> solo t s' s'' \<Longrightarrow> solo t s s''" by (auto simp: solo_def)
qed

lemma ring_of_simps:
  assumes "mem_ok m"
  shows "head (ring_of m) = hd (heads m)" "tail (ring_of m) = hd (tails m)"
    "cells (ring_of m) ! slot pos = \<lparr>seq = hd (seqs m ! slot pos), val = vals m ! slot pos\<rparr>"
    "hd (tails m) \<in> set (tails m)" "hd (heads m) \<in> set (heads m)" "hd (seqs m ! slot pos) \<in> set (seqs m ! slot pos)"
  using assms slot_less [of pos] by (simp_all add: ring_of_def mem_ok_def)

lemma ring_of_update:
  assumes "mem_ok m"
  shows "cells (ring_of (m\<lparr>seqs := (seqs m)[slot pos := h # hs], vals := (vals m)[slot pos := x]\<rparr>)) =
    (cells (ring_of m))[slot pos := \<lparr>seq = h, val = x\<rparr>]"
  using assms by (auto simp: ring_of_def mem_ok_def zip_update map_update)

text \<open>One iteration up to its branch, and the rest of a call that claims.\<close>

abbreviation at :: "'v sys \<Rightarrow> nat \<Rightarrow> 'v mem \<Rightarrow> 'v pc \<Rightarrow> 'v sys" where
  "at s t m q \<equiv> \<lparr>mem = m, pcs = (pcs s)(t := q)\<rparr>"

lemma solo_next: "solo t s (at s t m p) \<Longrightarrow> pstep m p e m' q \<Longrightarrow> solo t s (at s t m' q)"
  using solo_step [of t s "at s t m p" e m' q] by simp

lemma solo_at: "pcs s t = p \<Longrightarrow> solo t s (at s t (mem s) p)"
  using solo_refl [of t s] by (cases s) auto

lemma solo_enq_iteration:
  assumes "mem_ok (mem s)" "pcs s t = EnqTop v (Suc n)"
  defines "pos \<equiv> hd (tails (mem s))"
  shows "solo t s (at s t (mem s) (EnqSeq v n pos (hd (seqs (mem s) ! slot pos))))"
  using solo_next [OF solo_next [OF solo_at [OF assms(2)] enq_load_tail] enq_load_seq]
    ring_of_simps(4,6) [OF assms(1)] unfolding pos_def by blast

lemma solo_deq_iteration:
  assumes "mem_ok (mem s)" "pcs s t = DeqTop (Suc n)"
  defines "pos \<equiv> hd (heads (mem s))"
  shows "solo t s (at s t (mem s) (DeqSeq n pos (hd (seqs (mem s) ! slot pos))))"
  using solo_next [OF solo_next [OF solo_at [OF assms(2)] deq_load_head] deq_load_seq]
    ring_of_simps(5,6) [OF assms(1)] unfolding pos_def by blast

lemma enqueue_retry_run:
  assumes "mem_ok (mem s)" "pcs s t = EnqTop v n" "enqueue_retry w n (ring_of (mem s)) v = (res, r)"
  shows "\<exists>s'. solo t s s' \<and> pcs s' t = EnqDone res \<and> ring_of (mem s') = r"
  using assms
proof (induction n arbitrary: s)
  case 0
  then show ?case using solo_next [OF solo_at enq_give_up] by fastforce
next
  case (Suc n)
  let ?m = "mem s"
  let ?pos = "hd (tails ?m)"
  let ?sq = "hd (seqs ?m ! slot ?pos)"
  note it = solo_enq_iteration [OF Suc.prems(1,2)]
  have again: ?case if "enqueue_retry w n (ring_of ?m) v = (res, r)" "solo t s (at s t ?m (EnqTop v n))"
    using Suc.IH [of "at s t ?m (EnqTop v n)"] Suc.prems(1) that solo_trans [OF that(2)] by fastforce
  note eq = Suc.prems(3) [simplified, unfolded Let_def ring_of_simps [OF Suc.prems(1)] cell.simps]
  consider "sint (?sq - ?pos) = 0" "w n" | "sint (?sq - ?pos) = 0" "\<not> w n" | "sint (?sq - ?pos) < 0" | "sint (?sq - ?pos) > 0"
    by linarith
  then show ?case
  proof cases
    case 1
    note c = solo_next [OF it enq_cas [OF 1(1) refl]]
    note p = solo_next [OF solo_next [OF c enq_write] enq_publish]
    let ?s = "at s t (?m\<lparr>tails := (?pos + 1) # tails ?m, vals := (vals ?m)[slot ?pos := Some v],
        seqs := (seqs ?m)[slot ?pos := (?pos + 1) # seqs ?m ! slot ?pos]\<rparr>) (EnqDone (Ok ()))"
    have "solo t s ?s" using p by simp
    moreover have "ring_of (mem ?s) = r" "res = Ok ()"
      using eq 1 Suc.prems(1) by (auto simp: ring_of_def mem_ok_def zip_update map_update)
    ultimately show ?thesis by (intro exI [of _ ?s]) simp
  next
    case 2
    then show ?thesis using again eq solo_next [OF it enq_cas_fail] by simp
  next
    case 3
    then show ?thesis using eq solo_next [OF it enq_full [OF 3]] by fastforce
  next
    case 4
    then show ?thesis using again eq solo_next [OF it enq_reload [OF 4]] by simp
  qed
qed

lemma dequeue_retry_run:
  assumes "mem_ok (mem s)" "pcs s t = DeqTop n" "dequeue_retry w n (ring_of (mem s)) = (res, r)"
  shows "\<exists>s'. solo t s s' \<and> pcs s' t = DeqDone res \<and> ring_of (mem s') = r"
  using assms
proof (induction n arbitrary: s)
  case 0
  then show ?case using solo_next [OF solo_at deq_give_up] by fastforce
next
  case (Suc n)
  let ?m = "mem s"
  let ?pos = "hd (heads ?m)"
  let ?sq = "hd (seqs ?m ! slot ?pos)"
  note it = solo_deq_iteration [OF Suc.prems(1,2)]
  have again: ?case if "dequeue_retry w n (ring_of ?m) = (res, r)" "solo t s (at s t ?m (DeqTop n))"
    using Suc.IH [of "at s t ?m (DeqTop n)"] Suc.prems(1) that solo_trans [OF that(2)] by fastforce
  note eq = Suc.prems(3) [simplified, unfolded Let_def ring_of_simps [OF Suc.prems(1)] cell.simps]
  consider "sint (?sq - (?pos + 1)) = 0" "w n" | "sint (?sq - (?pos + 1)) = 0" "\<not> w n"
    | "sint (?sq - (?pos + 1)) < 0" | "sint (?sq - (?pos + 1)) > 0"
    by linarith
  then show ?case
  proof cases
    case 1
    note c = solo_next [OF it deq_cas [OF 1(1) refl]]
    note p = solo_next [OF solo_next [OF c deq_take] deq_free]
    let ?s = "at s t (?m\<lparr>heads := (?pos + 1) # heads ?m, vals := (vals ?m)[slot ?pos := None],
        seqs := (seqs ?m)[slot ?pos := (?pos + RING_CAP) # seqs ?m ! slot ?pos]\<rparr>) (DeqDone (vals ?m ! slot ?pos))"
    have "solo t s ?s" using p by simp
    moreover have "ring_of (mem ?s) = r" "res = vals ?m ! slot ?pos"
      using eq 1 Suc.prems(1) by (auto simp: ring_of_def mem_ok_def zip_update map_update)
    ultimately show ?thesis by (intro exI [of _ ?s]) simp
  next
    case 2
    then show ?thesis using again eq solo_next [OF it deq_cas_fail] by simp
  next
    case 3
    then show ?thesis using eq solo_next [OF it deq_empty [OF 3]] by fastforce
  next
    case 4
    then show ?thesis using again eq solo_next [OF it deq_reload [OF 4]] by simp
  qed
qed

text \<open>Threads between claim and release of their cells are on different cells.\<close>

lemma rsteps_exclusive:
  assumes "rsteps sys_new tr s" "length (puts tr) + 1024 < 2 ^ 64" "t \<noteq> t'"
    "held (pcs s t) = Some p" "held (pcs s t') = Some q"
  shows "slot p \<noteq> slot q"
  using held_slots_distinct [OF conjunct1 [OF rsteps_inv [OF assms(1,2)]] assms(3-5)] .

text \<open>Extending a run by one step of a thread, for concrete runs.\<close>

lemma rsteps_thread:
  assumes "rsteps s tr s'" "pstep (mem s') (pcs s' t) e m q"
  shows "rsteps s (tr @ [(t, e)]) \<lparr>mem = m, pcs = (pcs s')(t := q)\<rparr>"
  using rsteps_snoc [OF assms(1) thread_step [OF assms(2)]] .

lemma mem_new_simps:
  "tails mem_new = [0]" "heads mem_new = [0]" "length (seqs mem_new) = 1024" "length (vals mem_new) = 1024"
  "seqs mem_new ! slot 0 = [0]"
  by (simp_all add: mem_new_def slot_eq del: upt_rec_numeral)

lemma rank_bound:
  assumes "rsteps sys_new tr s"
  shows "rank (pcs s t) \<le> 15"
  using assms
proof (induction rule: rsteps.induct)
  case (rsteps_snoc tr s' e s'')
  have "rank q \<le> 15" if "pstep m p ev m' q" "rank p \<le> 15" for m p ev m' and q :: "'a pc"
    using pstep_rank [OF that(1)] pstep_call [of m p m' q] that by (cases "ev = Call") auto
  with rsteps_snoc show ?case by auto
qed (simp add: sys_new_def)

end
