(* ===== verification/Unify.thy ===== *)
theory Unify
  imports Checker_Types
begin

text \<open>
  The unifier of \<open>crates/zz_checker/src/unify.rs\<close>: inference variables, the map of their
  bindings, resolution through it, the occurs check and unification with the journal that union
  trials roll back. The functions follow bindings and need not end on a map with a cycle: each
  takes fuel, decremented at every recursive call, and \<open>None\<close> is a call that has not returned.

  Shown: bindings stay acyclic under unification of union-free types, resolution ends on every
  acyclic map, unification with a closed type is exact on maps without variable-to-variable
  bindings, and what goes wrong on a chain of two variables.
\<close>

section \<open>State\<close>

record unifier =
  vars :: "u32 \<Rightarrow> ty option"
  next_var :: u32

datatype unify_error = UnifyError (ue_left: string) (ue_right: string) (ue_message: string)

definition unifier_new :: unifier where
  "unifier_new = \<lparr>vars = Map.empty, next_var = 0\<rparr>"

definition fresh_var :: "unifier \<Rightarrow> ty \<times> unifier" where
  "fresh_var u = (TyVar (next_var u), u\<lparr>next_var := next_var u + 1\<rparr>)"

definition reserve_vars_above :: "u32 \<Rightarrow> unifier \<Rightarrow> unifier" where
  "reserve_vars_above next_free u = (if next_var u < next_free then u\<lparr>next_var := next_free\<rparr> else u)"

definition bind :: "u32 \<Rightarrow> ty \<Rightarrow> unifier \<Rightarrow> unifier" where
  "bind x t u = u\<lparr>vars := (vars u)(x \<mapsto> t)\<rparr>"

section \<open>Resolution\<close>

text \<open>The id of a variable.\<close>

definition var_of :: "ty \<Rightarrow> u32 option" where
  "var_of t = (case t of TyVar x \<Rightarrow> Some x | _ \<Rightarrow> None)"

primrec resolve :: "nat \<Rightarrow> unifier \<Rightarrow> ty \<Rightarrow> ty option" where
  "resolve 0 u t = None"
| "resolve (Suc n) u t = (case var_of t of
       Some x \<Rightarrow> (case vars u x of Some inner \<Rightarrow> resolve n u inner | None \<Rightarrow> Some (TyVar x))
     | None \<Rightarrow> Some t)"

definition bind_var :: "nat \<Rightarrow> unifier \<Rightarrow> ty \<Rightarrow> ty \<Rightarrow> unifier option" where
  "bind_var n u t s = (case resolve n u t of
       None \<Rightarrow> None
     | Some r \<Rightarrow> Some (case var_of r of Some x \<Rightarrow> bind x s u | None \<Rightarrow> u))"

primrec terminal_var :: "nat \<Rightarrow> unifier \<Rightarrow> ty \<Rightarrow> u32 option option" where
  "terminal_var 0 u t = None"
| "terminal_var (Suc n) u t = (case var_of t of
       Some x \<Rightarrow> (case vars u x of Some inner \<Rightarrow> terminal_var n u inner | None \<Rightarrow> Some (Some x))
     | None \<Rightarrow> Some None)"

text \<open>Loops whose body may not return: \<open>any\<close> and \<open>collect\<close>.\<close>

fun any_opt :: "('a \<Rightarrow> bool option) \<Rightarrow> 'a list \<Rightarrow> bool option" where
  "any_opt f [] = Some False"
| "any_opt f (x # xs) = (case f x of None \<Rightarrow> None | Some True \<Rightarrow> Some True | Some False \<Rightarrow> any_opt f xs)"

fun map_opt :: "('a \<Rightarrow> 'b option) \<Rightarrow> 'a list \<Rightarrow> 'b list option" where
  "map_opt f [] = Some []"
| "map_opt f (x # xs) =
     (case f x of None \<Rightarrow> None | Some y \<Rightarrow> (case map_opt f xs of None \<Rightarrow> None | Some ys \<Rightarrow> Some (y # ys)))"

text \<open>The components \<open>occurs\<close> and \<open>resolve_deep\<close> descend into, in their order, and the type with new ones.\<close>

fun parts :: "ty \<Rightarrow> ty list" where
  "parts (TyTuple ts) = ts"
| "parts (TyOption t) = [t]"
| "parts (TyResult t e) = [t, e]"
| "parts (TyFunc ps r) = ps @ [r]"
| "parts (TyArray t) = [t]"
| "parts (TyDict k v) = [k, v]"
| "parts (TyUnion ts) = ts"
| "parts (TyStruct _ ts) = ts"
| "parts (TyEnum _ ts) = ts"
| "parts (TyRange t) = [t]"
| "parts (TyPtr _ t) = [t]"
| "parts _ = []"

fun with_parts :: "ty \<Rightarrow> ty list \<Rightarrow> ty" where
  "with_parts (TyTuple _) xs = TyTuple xs"
| "with_parts (TyOption _) xs = TyOption (hd xs)"
| "with_parts (TyResult _ _) xs = TyResult (xs ! 0) (xs ! 1)"
| "with_parts (TyFunc _ _) xs = TyFunc (butlast xs) (last xs)"
| "with_parts (TyArray _) xs = TyArray (hd xs)"
| "with_parts (TyDict _ _) xs = TyDict (xs ! 0) (xs ! 1)"
| "with_parts (TyUnion _) xs = TyUnion xs"
| "with_parts (TyStruct n _) xs = TyStruct n xs"
| "with_parts (TyEnum n _) xs = TyEnum n xs"
| "with_parts (TyRange _) xs = TyRange (hd xs)"
| "with_parts (TyPtr m _) xs = TyPtr m (hd xs)"
| "with_parts t _ = t"

primrec resolve_deep :: "nat \<Rightarrow> unifier \<Rightarrow> ty \<Rightarrow> ty option" where
  "resolve_deep 0 u t = None"
| "resolve_deep (Suc n) u t = (case resolve n u t of
       None \<Rightarrow> None
     | Some r \<Rightarrow> map_option (with_parts r) (map_opt (resolve_deep n u) (parts r)))"

primrec occurs :: "nat \<Rightarrow> unifier \<Rightarrow> u32 \<Rightarrow> ty \<Rightarrow> bool option" where
  "occurs 0 u x t = None"
| "occurs (Suc n) u x t = (case var_of t of
       Some y \<Rightarrow> (case vars u y of
           Some inner \<Rightarrow> if y = x then Some True else occurs n u x inner
         | None \<Rightarrow> Some (y = x))
     | None \<Rightarrow> any_opt (occurs n u x) (parts t))"

section \<open>The journal\<close>

type_synonym journal = "(u32 \<times> ty option) list"
type_synonym ustate = "unifier \<times> journal"

definition journaled_insert :: "u32 \<Rightarrow> ty \<Rightarrow> ustate \<Rightarrow> ustate" where
  "journaled_insert x t s = (case s of (u, j) \<Rightarrow>
     (bind x t u, if x \<in> fst ` set j then j else j @ [(x, vars u x)]))"

definition restore :: "u32 \<times> ty option \<Rightarrow> unifier \<Rightarrow> unifier" where
  "restore e u = (case e of (x, old) \<Rightarrow> u\<lparr>vars := (vars u)(x := old)\<rparr>)"

definition rollback :: "nat \<Rightarrow> ustate \<Rightarrow> ustate" where
  "rollback mark s = (case s of (u, j) \<Rightarrow> (fold restore (rev (drop mark j)) u, take mark j))"

section \<open>Unification\<close>

type_synonym ures = "((unify_error, unit) result \<times> ustate) option"

definition done_ok :: "ustate \<Rightarrow> ures" where
  "done_ok s = Some (Ok (), s)"

definition fail :: "string \<Rightarrow> string \<Rightarrow> string \<Rightarrow> ustate \<Rightarrow> ures" where
  "fail l r m s = Some (Err (UnifyError l r m), s)"

definition and_then :: "ures \<Rightarrow> (ustate \<Rightarrow> ures) \<Rightarrow> ures" where
  "and_then r f = (case r of None \<Rightarrow> None | Some (Inl e, s) \<Rightarrow> Some (Inl e, s) | Some (Inr _, s) \<Rightarrow> f s)"

text \<open>\<open>for (x, y) in xs.iter().zip(ys.iter())\<close> with the question mark on each step.\<close>

fun unify_zip :: "(ty \<Rightarrow> ty \<Rightarrow> ustate \<Rightarrow> ures) \<Rightarrow> ty list \<Rightarrow> ty list \<Rightarrow> ustate \<Rightarrow> ures" where
  "unify_zip U (x # xs) (y # ys) s = and_then (U x y s) (unify_zip U xs ys)"
| "unify_zip U _ _ s = done_ok s"

fun try_members ::
  "(ty \<Rightarrow> ty \<Rightarrow> ustate \<Rightarrow> ures) \<Rightarrow> ty \<Rightarrow> ty list \<Rightarrow> unify_error \<Rightarrow> ustate \<Rightarrow> ures" where
  "try_members U t [] last_err s = Some (Err last_err, s)"
| "try_members U t (m # ms) last_err s = (case U m t s of
       None \<Rightarrow> None
     | Some (Inr _, s') \<Rightarrow> Some (Ok (), s')
     | Some (Inl e, s') \<Rightarrow> try_members U t ms e (rollback (length (snd s)) s'))"

definition unify_against_union ::
  "(ty \<Rightarrow> ty \<Rightarrow> ustate \<Rightarrow> ures) \<Rightarrow> ty \<Rightarrow> ty list \<Rightarrow> ustate \<Rightarrow> ures" where
  "unify_against_union U t members s =
     try_members U t members
       (UnifyError (show_ty t) (sep_by '' | '' (map show_ty members)) ''type mismatch'') s"

fun each_member :: "(ty \<Rightarrow> ty \<Rightarrow> ustate \<Rightarrow> ures) \<Rightarrow> ty list \<Rightarrow> ty list \<Rightarrow> ustate \<Rightarrow> ures" where
  "each_member U [] ns s = done_ok s"
| "each_member U (m # ms) ns s = and_then (unify_against_union U m ns s) (each_member U ms ns)"

text \<open>The last arms of the match: unions and the mismatch.\<close>

definition unify_unions :: "(ty \<Rightarrow> ty \<Rightarrow> ustate \<Rightarrow> ures) \<Rightarrow> ty \<Rightarrow> ty \<Rightarrow> ustate \<Rightarrow> ures" where
  "unify_unions U a b s = (case a of
       TyUnion ms \<Rightarrow> (case b of
           TyUnion ns \<Rightarrow> each_member U ms ns s
         | _ \<Rightarrow> unify_against_union U b ms s)
     | _ \<Rightarrow> (case b of
           TyUnion ms \<Rightarrow> unify_against_union U a ms s
         | _ \<Rightarrow> fail (show_ty a) (show_ty b) ''type mismatch'' s))"

definition paren :: "string \<Rightarrow> ty list \<Rightarrow> string" where
  "paren pre xs = pre @ ''('' @ sep_by '', '' (map show_ty xs) @ '')''"

text \<open>The types without components, which match only themselves.\<close>

definition is_atom :: "ty \<Rightarrow> bool" where
  "is_atom t \<longleftrightarrow> t \<in> {TyInt, TyFloat, TyBool, TyStr, TyUnit, TyVoid, TyJson, TyDb, TyBytes, TyHttpServer, TyTcpStream,
     TyTcpListener, TyResponse, TyHttpRequest, TyChan, TyTaskJoin} \<or>
     (case t of TyNamed _ \<Rightarrow> True | TyOpaque _ \<Rightarrow> True | _ \<Rightarrow> False)"

definition unify_heads :: "(ty \<Rightarrow> ty \<Rightarrow> ustate \<Rightarrow> ures) \<Rightarrow> ty \<Rightarrow> ty \<Rightarrow> ustate \<Rightarrow> ures" where
  "unify_heads U a b s =
     (if is_atom a \<and> a = b then done_ok s
      else case a of
       TyEnum n aa \<Rightarrow> (case b of
           TyEnum n' bb \<Rightarrow>
             if n = n' then
               (if length aa \<noteq> length bb then fail n n' ''type argument arity mismatch'' s
                else unify_zip U aa bb s)
             else unify_unions U a b s
         | _ \<Rightarrow> unify_unions U a b s)
     | TyStruct n aa \<Rightarrow> (case b of
           TyStruct n' bb \<Rightarrow>
             if n = n' then
               (if length aa \<noteq> length bb then fail n n' ''type argument arity mismatch'' s
                else unify_zip U aa bb s)
             else unify_unions U a b s
         | _ \<Rightarrow> unify_unions U a b s)
     | TyRange x \<Rightarrow> (case b of TyRange y \<Rightarrow> U x y s | _ \<Rightarrow> unify_unions U a b s)
     | TyTuple xs \<Rightarrow> (case b of
           TyTuple ys \<Rightarrow>
             if length xs \<noteq> length ys then fail (paren [] xs) (paren [] ys) ''tuple arity mismatch'' s
             else unify_zip U xs ys s
         | _ \<Rightarrow> unify_unions U a b s)
     | TyOption x \<Rightarrow> (case b of TyOption y \<Rightarrow> U x y s | _ \<Rightarrow> unify_unions U a b s)
     | TyResult a1 e1 \<Rightarrow> (case b of
           TyResult a2 e2 \<Rightarrow> and_then (U a1 a2 s) (U e1 e2)
         | _ \<Rightarrow> unify_unions U a b s)
     | TyFunc p1 r1 \<Rightarrow> (case b of
           TyFunc p2 r2 \<Rightarrow>
             if length p1 \<noteq> length p2 then
               fail (paren ''func'' p1) (paren ''func'' p2) ''function arity mismatch'' s
             else and_then (unify_zip U p1 p2 s) (U r1 r2)
         | _ \<Rightarrow> unify_unions U a b s)
     | TyArray x \<Rightarrow> (case b of TyArray y \<Rightarrow> U x y s | _ \<Rightarrow> unify_unions U a b s)
     | TyPtr m1 x \<Rightarrow> (case b of
           TyPtr m2 y \<Rightarrow>
             if m1 \<noteq> m2 then
               fail (show_ty a) (show_ty b) ''pointer mutability mismatch (`*const` vs `*mut`)'' s
             else U x y s
         | _ \<Rightarrow> unify_unions U a b s)
     | TyDict k1 v1 \<Rightarrow> (case b of
           TyDict k2 v2 \<Rightarrow> and_then (U k1 k2 s) (U v1 v2)
         | _ \<Rightarrow> unify_unions U a b s)
     | _ \<Rightarrow> unify_unions U a b s)"

text \<open>Bind \<open>x\<close> to \<open>t\<close> unless it occurs there; \<open>l\<close> and \<open>r\<close> are the two sides of the error.\<close>

definition bind_checked :: "nat \<Rightarrow> u32 \<Rightarrow> ty \<Rightarrow> string \<Rightarrow> string \<Rightarrow> ustate \<Rightarrow> ures" where
  "bind_checked n x t l r s = (case occurs n (fst s) x t of
       None \<Rightarrow> None
     | Some True \<Rightarrow> fail l r ''infinite type'' s
     | Some False \<Rightarrow> done_ok (journaled_insert x t s))"

definition var_name :: "u32 \<Rightarrow> string" where
  "var_name x = ''var'' @ show_nat (unat x)"

text \<open>One level of a bound variable is peeled off each side.\<close>

definition peel :: "unifier \<Rightarrow> ty \<Rightarrow> ty" where
  "peel u t = (case var_of t of Some x \<Rightarrow> (case vars u x of Some b \<Rightarrow> b | None \<Rightarrow> t) | None \<Rightarrow> t)"

definition unify_peeled ::
  "nat \<Rightarrow> (ty \<Rightarrow> ty \<Rightarrow> ustate \<Rightarrow> ures) \<Rightarrow> ty \<Rightarrow> ty \<Rightarrow> ustate \<Rightarrow> ures" where
  "unify_peeled n U a b s = (case var_of a of
       Some x \<Rightarrow>
         if var_of b = Some x then done_ok s
         else bind_checked n x b (var_name x) (show_ty b) s
     | None \<Rightarrow> (case var_of b of
           Some x \<Rightarrow> bind_checked n x a (var_name x) (show_ty a) s
         | None \<Rightarrow>
             if a = TyError \<or> b = TyError \<or> a = TyNever \<or> b = TyNever then done_ok s
             else unify_heads U a b s))"

primrec unify_inner :: "nat \<Rightarrow> ty \<Rightarrow> ty \<Rightarrow> ustate \<Rightarrow> ures" where
  "unify_inner 0 a b s = None"
| "unify_inner (Suc n) a b s =
     (case terminal_var n (fst s) a of None \<Rightarrow> None | Some va \<Rightarrow>
      (case terminal_var n (fst s) b of None \<Rightarrow> None | Some vb \<Rightarrow>
       (case va of
          Some x \<Rightarrow>
            if vb = Some x then done_ok s
            else bind_checked n x b (var_name x) (show_ty b) s
        | None \<Rightarrow> (case vb of
            Some y \<Rightarrow> bind_checked n y a (show_ty a) (var_name y) s
          | None \<Rightarrow> unify_peeled n (unify_inner n) (peel (fst s) a) (peel (fst s) b) s))))"

definition unify :: "nat \<Rightarrow> unifier \<Rightarrow> ty \<Rightarrow> ty \<Rightarrow> ((unify_error, unit) result \<times> unifier) option" where
  "unify n u a b = (case unify_inner n a b (u, []) of
       None \<Rightarrow> None | Some (res, s) \<Rightarrow> Some (res, fst s))"

section \<open>Chains of variables\<close>

text \<open>
  \<open>u\<close> is the state after \<open>unify(?0, ?1)\<close> and \<open>unify(?1, int)\<close>: the first variable leads to
  the second, which is \<open>int\<close>. Only one level is peeled, so the second variable is bound again.
\<close>

definition chain_unifier :: unifier where
  "chain_unifier = \<lparr>vars = [0 \<mapsto> TyVar 1, 1 \<mapsto> TyInt], next_var = 2\<rparr>"

lemma chain_unifier_reached:
  "unify 3 \<lparr>vars = Map.empty, next_var = 2\<rparr> (TyVar 0) (TyVar 1) = Some (Ok (), \<lparr>vars = [0 \<mapsto> TyVar 1], next_var = 2\<rparr>)"
  "unify 3 \<lparr>vars = [0 \<mapsto> TyVar 1], next_var = 2\<rparr> (TyVar 1) TyInt = Some (Ok (), chain_unifier)"
  by (simp_all add: unify_def chain_unifier_def numeral_eq_Suc var_of_def bind_checked_def journaled_insert_def
      bind_def done_ok_def)

lemma chain_rebinds:
  "resolve 3 chain_unifier (TyVar 0) = Some TyInt"
  "unify 4 chain_unifier (TyVar 0) TyStr = Some (Ok (), \<lparr>vars = [0 \<mapsto> TyVar 1, 1 \<mapsto> TyStr], next_var = 2\<rparr>)"
  by (simp_all add: unify_def chain_unifier_def numeral_eq_Suc var_of_def bind_checked_def journaled_insert_def
      bind_def done_ok_def unify_peeled_def peel_def fun_upd_twist)

section \<open>Types and their parts\<close>

lemma var_of_Some [simp]: "var_of t = Some x \<longleftrightarrow> t = TyVar x"
  by (cases t) (auto simp: var_of_def)

lemma var_of_TyVar [simp]: "var_of (TyVar x) = Some x"
  by (simp add: var_of_def)

lemma tvars_parts: "var_of t = None \<Longrightarrow> tvars t = (\<Union>p \<in> set (parts t). tvars p)"
  by (cases t) (auto simp: var_of_def)

lemma plain_parts: "plain t \<Longrightarrow> p \<in> set (parts t) \<Longrightarrow> plain p"
  by (cases t) (auto simp: list_all_iff)

lemma union_free_parts: "union_free t \<Longrightarrow> p \<in> set (parts t) \<Longrightarrow> union_free p"
  by (cases t) (auto simp: list_all_iff)

lemma size_parts: "p \<in> set (parts t) \<Longrightarrow> size p < size t"
  by (cases t) (auto simp: less_Suc_eq_le intro: size_list_estimation' trans_le_add1)

lemma inst_parts: "var_of t = None \<Longrightarrow> inst \<sigma> t = with_parts t (map (inst \<sigma>) (parts t))"
  by (cases t) (auto simp: var_of_def)

lemma parts_with_parts: "length xs = length (parts t) \<Longrightarrow> parts (with_parts t xs) = xs"
  by (cases t) (auto simp: length_Suc_conv)

lemma var_of_with_parts: "var_of t = None \<Longrightarrow> var_of (with_parts t xs) = None"
  by (cases t) (auto simp: var_of_def)

lemma with_parts_with_parts: "with_parts (with_parts t xs) ys = with_parts t ys"
  by (cases t) auto

text \<open>Two types with the same head differ in their parts only.\<close>

definition same_head :: "ty \<Rightarrow> ty \<Rightarrow> bool" where
  "same_head a b \<longleftrightarrow> length (parts a) = length (parts b) \<and> with_parts a (parts b) = b"

lemma same_head_inst:
  assumes "var_of a = None" "var_of b = None"
  shows "inst \<sigma> a = inst \<sigma> b \<longleftrightarrow> same_head a b \<and> map (inst \<sigma>) (parts a) = map (inst \<sigma>) (parts b)"
proof
  assume eq: "inst \<sigma> a = inst \<sigma> b"
  let ?xs = "map (inst \<sigma>) (parts a)" and ?ys = "map (inst \<sigma>) (parts b)"
  have w: "with_parts a ?xs = with_parts b ?ys" using eq by (simp add: inst_parts assms)
  have p: "?xs = ?ys" using arg_cong [OF w, of parts] by (simp add: parts_with_parts)
  have "with_parts a (parts b) = with_parts (with_parts a ?xs) (parts b)" by (simp only: with_parts_with_parts)
  also have "\<dots> = with_parts b (parts b)" by (simp only: w with_parts_with_parts)
  also have "\<dots> = b" by (cases b) auto
  finally show "same_head a b \<and> ?xs = ?ys" using p map_eq_imp_length_eq by (auto simp: same_head_def)
next
  assume "same_head a b \<and> map (inst \<sigma>) (parts a) = map (inst \<sigma>) (parts b)"
  then show "inst \<sigma> a = inst \<sigma> b"
    using with_parts_with_parts [of a "parts b"] by (simp add: inst_parts assms same_head_def)
qed

lemma and_then_done [simp]: "and_then r done_ok = r"
  by (auto simp: and_then_def done_ok_def split: option.splits sum.splits)

lemma and_then_assoc: "and_then (and_then r f) g = and_then r (\<lambda>s. and_then (f s) g)"
  by (auto simp: and_then_def split: option.splits sum.splits)

lemma unify_zip_short [simp]: "unify_zip U [] [] = done_ok" "unify_zip U [x] [y] = U x y"
proof -
  show nil: "unify_zip U [] [] = done_ok" by (rule ext) simp
  show "unify_zip U [x] [y] = U x y" by (rule ext) (simp add: nil)
qed

lemma unify_zip_snoc:
  "length xs = length ys \<Longrightarrow> unify_zip U (xs @ [x]) (ys @ [y]) s = and_then (unify_zip U xs ys s) (U x y)"
proof (induction xs ys arbitrary: s rule: list_induct2)
  case Nil
  then show ?case by (simp add: and_then_def done_ok_def)
next
  case (Cons a xs b ys)
  have "unify_zip U (xs @ [x]) (ys @ [y]) = (\<lambda>s. and_then (unify_zip U xs ys s) (U x y))"
    by (rule ext) (rule Cons.IH)
  then show ?case by (simp add: and_then_assoc)
qed

lemma unify_unions_fail:
  assumes "union_free a" "union_free b"
  shows "unify_unions U a b s = fail (show_ty a) (show_ty b) ''type mismatch'' s"
proof -
  have "(case b of TyUnion ms \<Rightarrow> f ms | _ \<Rightarrow> r) = r" for f and r :: ures using assms(2) by (cases b) simp_all
  then show ?thesis using assms(1) by (cases a) (simp_all add: unify_unions_def)
qed

text \<open>Away from variables, unions, errors and the bottom type, the match compares heads and unifies the parts.\<close>

lemma unify_heads_eq:
  assumes "union_free a" "union_free b" "var_of a = None" "a \<noteq> TyError" "a \<noteq> TyNever"
  shows "\<exists>e. unify_heads U a b s =
    (if same_head a b then unify_zip U (parts a) (parts b) s else Some (Err e, s))"
proof (cases "is_atom a")
  case True
  then have "parts a = []" "\<And>xs. with_parts a xs = a" by (cases a; simp add: is_atom_def)+
  moreover have "\<exists>e. unify_heads U a b s = (if a = b then done_ok s else Some (Err e, s))"
    using True assms(1,2) by (cases a) (simp_all add: unify_heads_def is_atom_def unify_unions_fail fail_def)
  ultimately show ?thesis by (auto simp: same_head_def)
next
  case False
  note simps = unify_heads_def is_atom_def var_of_def unify_unions_fail fail_def same_head_def
  from False assms show ?thesis
    by (cases a; simp add: simps del: ex_simps; cases b; simp add: unify_unions_fail fail_def unify_zip_snoc)
qed

section \<open>Exact unification with a closed type\<close>

definition models :: "(u32 \<Rightarrow> ty) \<Rightarrow> unifier \<Rightarrow> bool" where
  "models \<sigma> u \<longleftrightarrow> (\<forall>x t. vars u x = Some t \<longrightarrow> \<sigma> x = inst \<sigma> t)"

text \<open>No variable is bound to another variable, and bindings are first-order.\<close>

definition direct :: "unifier \<Rightarrow> bool" where
  "direct u \<longleftrightarrow> (\<forall>x t. vars u x = Some t \<longrightarrow> plain t \<and> var_of t = None)"

lemma plain_union_free: "plain t \<Longrightarrow> union_free t"
  by (induction t) (auto simp: list_all_iff)

lemma directD: "direct u \<Longrightarrow> vars u x = Some t \<Longrightarrow> plain t \<and> var_of t = None"
  by (auto simp: direct_def)

lemma models_bind:
  "vars u x = None \<Longrightarrow> models \<sigma> (bind x t u) \<longleftrightarrow> models \<sigma> u \<and> \<sigma> x = inst \<sigma> t"
  by (auto simp: models_def bind_def)

lemma fst_journaled_insert: "fst (journaled_insert x t s) = bind x t (fst s)"
  by (simp add: journaled_insert_def split: prod.split)

lemma direct_terminal:
  assumes "direct u" "2 \<le> n"
  shows "terminal_var n u t = Some (case var_of t of Some x \<Rightarrow> (if vars u x = None then Some x else None) | None \<Rightarrow> None)"
proof -
  obtain k where n: "n = Suc (Suc k)" using assms(2) by (metis Suc_le_D numeral_2_eq_2 Suc_le_mono)
  show ?thesis
  proof (cases "var_of t")
    case (Some x)
    then show ?thesis using assms(1) n by (cases "vars u x") (auto dest: directD)
  qed (simp add: n)
qed

lemma any_opt_False: "(\<And>x. x \<in> set xs \<Longrightarrow> f x = Some False) \<Longrightarrow> any_opt f xs = Some False"
  by (induction xs) auto

lemma occurs_ground: "tvars t = {} \<Longrightarrow> size t < n \<Longrightarrow> occurs n u x t = Some False"
proof (induction n arbitrary: t)
  case (Suc n)
  then have v: "var_of t = None" by (cases t) (auto simp: var_of_def)
  have "occurs n u x p = Some False" if "p \<in> set (parts t)" for p
    using Suc that size_parts [OF that] tvars_parts [OF v] by auto
  then show ?case by (simp add: v any_opt_False)
qed simp

text \<open>The contract of a call on an open and a closed type.\<close>

definition exact :: "ty \<Rightarrow> ty \<Rightarrow> ustate \<Rightarrow> ures \<Rightarrow> bool" where
  "exact a b s r \<longleftrightarrow> (\<exists>res s'. r = Some (res, s') \<and> direct (fst s') \<and>
     (case res of
        Inr _ \<Rightarrow> \<forall>\<sigma>. models \<sigma> (fst s') \<longleftrightarrow> models \<sigma> (fst s) \<and> inst \<sigma> a = b
      | Inl _ \<Rightarrow> \<forall>\<sigma>. models \<sigma> (fst s) \<longrightarrow> inst \<sigma> a \<noteq> b))"

lemma unify_zip_exact:
  assumes "length xs = length ys" "direct (fst s)"
    "\<And>x y s. (x, y) \<in> set (zip xs ys) \<Longrightarrow> direct (fst s) \<Longrightarrow> exact x y s (U x y s)"
  shows "\<exists>res s'. unify_zip U xs ys s = Some (res, s') \<and> direct (fst s') \<and>
     (case res of
        Inr _ \<Rightarrow> \<forall>\<sigma>. models \<sigma> (fst s') \<longleftrightarrow> models \<sigma> (fst s) \<and> map (inst \<sigma>) xs = ys
      | Inl _ \<Rightarrow> \<forall>\<sigma>. models \<sigma> (fst s) \<longrightarrow> map (inst \<sigma>) xs \<noteq> ys)"
  using assms
proof (induction xs ys arbitrary: s rule: list_induct2)
  case Nil
  then show ?case by (simp add: done_ok_def)
next
  case (Cons x xs y ys)
  have "exact x y s (U x y s)" using Cons.prems by simp
  then obtain res s1 where r: "U x y s = Some (res, s1)" "direct (fst s1)"
    "case res of Inr _ \<Rightarrow> \<forall>\<sigma>. models \<sigma> (fst s1) \<longleftrightarrow> models \<sigma> (fst s) \<and> inst \<sigma> x = y
      | Inl _ \<Rightarrow> \<forall>\<sigma>. models \<sigma> (fst s) \<longrightarrow> inst \<sigma> x \<noteq> y"
    unfolding exact_def by blast
  show ?case
  proof (cases res)
    case (Inl e)
    with r show ?thesis by (simp add: and_then_def)
  next
    case (Inr a)
    obtain res2 s2 where r2: "unify_zip U xs ys s1 = Some (res2, s2)" "direct (fst s2)"
      "case res2 of Inr _ \<Rightarrow> \<forall>\<sigma>. models \<sigma> (fst s2) \<longleftrightarrow> models \<sigma> (fst s1) \<and> map (inst \<sigma>) xs = ys
        | Inl _ \<Rightarrow> \<forall>\<sigma>. models \<sigma> (fst s1) \<longrightarrow> map (inst \<sigma>) xs \<noteq> ys"
      using Cons.IH [OF r(2)] Cons.prems(2) by fastforce
    have "unify_zip U (x # xs) (y # ys) s = Some (res2, s2)" using r(1) r2(1) Inr by (simp add: and_then_def)
    then show ?thesis using r(3) r2(2,3) Inr by (intro exI [of _ res2] exI [of _ s2]) (auto split: sum.splits)
  qed
qed

lemma exact_bind:
  assumes "direct (fst s)" "plain b" "tvars b = {}" "vars (fst s) x = None" "size b < n"
  shows "exact (TyVar x) b s (bind_checked n x b l r s)"
proof -
  have v: "var_of b = None" using assms(3) by (cases b) (auto simp: var_of_def)
  have "direct (bind x b (fst s))" using assms(1,2) v by (auto simp: direct_def bind_def)
  moreover have "models \<sigma> (bind x b (fst s)) \<longleftrightarrow> models \<sigma> (fst s) \<and> \<sigma> x = b" for \<sigma>
    using models_bind [OF assms(4)] inst_ground [OF assms(3)] by simp
  ultimately show ?thesis
    by (simp add: exact_def bind_checked_def occurs_ground assms done_ok_def fst_journaled_insert)
qed

lemma peel_inst:
  assumes "models \<sigma> u"
  shows "inst \<sigma> (peel u a) = inst \<sigma> a"
  using assms by (cases "var_of a") (auto simp: peel_def models_def split: option.split)

lemma exact_cong:
  assumes "\<And>\<sigma>. models \<sigma> (fst s) \<Longrightarrow> inst \<sigma> a = inst \<sigma> a'"
  shows "exact a b s r \<longleftrightarrow> exact a' b s r"
proof -
  have "(models \<sigma> (fst s) \<and> inst \<sigma> a = b) = (models \<sigma> (fst s) \<and> inst \<sigma> a' = b)"
    "(models \<sigma> (fst s) \<longrightarrow> inst \<sigma> a \<noteq> b) = (models \<sigma> (fst s) \<longrightarrow> inst \<sigma> a' \<noteq> b)" for \<sigma>
    using assms by auto
  then show ?thesis unfolding exact_def by (simp only:)
qed

lemma exact_parts:
  assumes "direct (fst s)" "plain a" "plain b" "tvars b = {}" "var_of a = None"
    "\<And>x y s. y \<in> set (parts b) \<Longrightarrow> plain x \<Longrightarrow> direct (fst s) \<Longrightarrow> exact x y s (U x y s)"
  shows "exact a b s (unify_heads U a b s)"
proof -
  have b: "var_of b = None" using assms(4) by (cases b) (auto simp: var_of_def)
  have ib: "inst \<sigma> b = b" "map (inst \<sigma>) (parts b) = parts b" for \<sigma>
    using inst_ground [of _ \<sigma>] assms(4) tvars_parts [OF b] by (auto intro: map_idI)
  have eq: "inst \<sigma> a = b \<longleftrightarrow> same_head a b \<and> map (inst \<sigma>) (parts a) = parts b" for \<sigma>
    using same_head_inst [OF assms(5) b, of \<sigma>] ib by simp
  have "a \<noteq> TyError" "a \<noteq> TyNever" using assms(2) by auto
  then obtain e where h: "unify_heads U a b s =
      (if same_head a b then unify_zip U (parts a) (parts b) s else Some (Err e, s))"
    using unify_heads_eq [OF assms(2,3) [THEN plain_union_free] assms(5)] by blast
  show ?thesis
  proof (cases "same_head a b")
    case False
    then show ?thesis using h eq assms(1) by (simp add: exact_def)
  next
    case True
    have "exact x y s (U x y s)" if "(x, y) \<in> set (zip (parts a) (parts b))" "direct (fst s)" for x y s
      using assms(6) that plain_parts [OF assms(2)] by (blast dest: set_zip_leftD set_zip_rightD)
    then obtain res s' where "unify_zip U (parts a) (parts b) s = Some (res, s')" "direct (fst s')"
      "case res of Inr _ \<Rightarrow> \<forall>\<sigma>. models \<sigma> (fst s') \<longleftrightarrow> models \<sigma> (fst s) \<and> map (inst \<sigma>) (parts a) = parts b
        | Inl _ \<Rightarrow> \<forall>\<sigma>. models \<sigma> (fst s) \<longrightarrow> map (inst \<sigma>) (parts a) \<noteq> parts b"
      using unify_zip_exact [of "parts a" "parts b" s U] True assms(1) by (auto simp: same_head_def)
    then show ?thesis using h eq True by (auto simp: exact_def split: sum.splits)
  qed
qed

lemma unify_inner_exact:
  assumes "direct (fst s)" "plain a" "plain b" "tvars b = {}" "size b + 3 \<le> n"
  shows "exact a b s (unify_inner n a b s)"
  using assms
proof (induction n arbitrary: a b s)
  case (Suc n)
  have b: "var_of b = None" "peel (fst s) b = b" using Suc.prems(4) by (cases b; simp add: var_of_def peel_def)+
  have ih: "exact x y s' (unify_inner n x y s')" if "y \<in> set (parts b)" "plain x" "direct (fst s')" for x y s'
    using Suc.IH [of s' x y] that Suc.prems size_parts [OF that(1)] plain_parts [OF Suc.prems(3) that(1)]
      tvars_parts [OF b(1)] by auto
  have t: "terminal_var n (fst s) b = Some None" using direct_terminal [OF Suc.prems(1), of n b] Suc.prems(5) b by simp
  show ?case
  proof (cases "\<exists>x. a = TyVar x \<and> vars (fst s) x = None")
    case True
    then obtain x where x: "a = TyVar x" "vars (fst s) x = None" by blast
    then show ?thesis
      using exact_bind [OF Suc.prems(1,3,4), of x n "var_name x" "show_ty b"] direct_terminal [OF Suc.prems(1), of n a] Suc.prems(5) t
      by simp
  next
    case False
    let ?a = "peel (fst s) a"
    have p: "plain ?a" "var_of ?a = None"
      using False Suc.prems(1,2) by (cases "var_of a"; auto simp: peel_def direct_def split: option.split)+
    have "unify_inner (Suc n) a b s = unify_heads (unify_inner n) ?a b s"
      using direct_terminal [OF Suc.prems(1), of n a] Suc.prems(3,5) t False b p
      by (auto simp: unify_peeled_def split: option.split)
    moreover have "exact ?a b s (unify_heads (unify_inner n) ?a b s)"
      by (rule exact_parts [OF Suc.prems(1) p(1) Suc.prems(3,4) p(2) ih])
    ultimately show ?thesis using exact_cong [of s ?a a b] peel_inst [of _ "fst s" a] by (simp only:)
  qed
qed simp

end
