(* ===== verification/Rust_Strings.thy ===== *)
theory Rust_Strings
  imports Zz_Prelude
begin

text \<open>
  A \<open>str\<close> as the list of its Unicode scalar values: \<open>chars()\<close> is the list itself, \<open>len()\<close> the length
  of the UTF-8 encoding.
\<close>

type_synonym rstr = "nat list"

definition utf8_width :: "nat \<Rightarrow> nat" where
  "utf8_width c = (if c < 128 then 1 else if c < 2048 then 2 else if c < 65536 then 3 else 4)"

definition utf8_len :: "rstr \<Rightarrow> nat" where
  "utf8_len s = sum_list (map utf8_width s)"

lemma utf8_len_simps [simp]:
  "utf8_len [] = 0" "utf8_len (c # s) = utf8_width c + utf8_len s" "utf8_len (s @ t) = utf8_len s + utf8_len t"
  "utf8_len (rev s) = utf8_len s"
  by (simp_all add: utf8_len_def sum_list_rev flip: rev_map)

lemma utf8_len_ascii: "list_all (\<lambda>c. c < 128) s \<Longrightarrow> utf8_len s = length s"
  by (induction s) (simp_all add: utf8_width_def)

end
