(* ===== verification/Levenshtein.thy ===== *)
theory Levenshtein
  imports Rust_Strings
begin

text \<open>
  Typo suggestions (\<open>crates/zz_frontend/src/levenshtein.rs\<close>): the single-row edit distance with its
  early exit and the ranking of candidates. A \<open>str\<close> is the list of its Unicode scalar values,
  \<open>len()\<close> the length of their UTF-8 encoding. Lengths and distances are natural numbers: the casts
  to 32 bits lose nothing on strings below two gigabytes.

  Shown: the table computes the length of a shortest edit script; the early exit only ever gives
  a lower bound; and the candidate \<open>suggest\<close> returns is a closest one by the ranking of the code.
\<close>

section \<open>Operations\<close>

definition max_distance_by_len :: "nat \<Rightarrow> nat" where
  "max_distance_by_len n = (if n \<le> 3 then 1 else if n \<le> 7 then 2 else 3)"

definition max_distance :: "rstr \<Rightarrow> nat" where
  "max_distance s = max_distance_by_len (utf8_len s)"

text \<open>
  The inner loop over \<open>j\<close>: \<open>prev\<close> starts at \<open>prev[j - 1]\<close> and \<open>left\<close> is \<open>curr[j - 1]\<close>.
\<close>

fun lev_cells :: "nat \<Rightarrow> rstr \<Rightarrow> nat list \<Rightarrow> nat \<Rightarrow> nat list" where
  "lev_cells ai (bj # b) (diag # up # prev) left =
     (let cost = (if ai = bj then 0 else 1);
          c = min (min (diag + cost) (up + 1)) (left + 1)
      in c # lev_cells ai b (up # prev) c)"
| "lev_cells ai _ _ left = []"

fun lev_rows :: "rstr \<Rightarrow> rstr \<Rightarrow> nat \<Rightarrow> nat list \<Rightarrow> nat list" where
  "lev_rows [] b i prev = prev"
| "lev_rows (ai # a) b i prev = lev_rows a b (Suc i) (i # lev_cells ai b prev i)"

definition levenshtein :: "rstr \<Rightarrow> rstr \<Rightarrow> nat" where
  "levenshtein a b =
     (if length a = 0 then length b
      else if length b = 0 then length a
      else
        (let len_diff = nat \<bar>int (length a) - int (length b)\<bar>;
             threshold = max_distance_by_len (min (length a) (length b))
         in if len_diff > threshold then len_diff
            else lev_rows a b 1 [0..<Suc (length b)] ! length b))"

definition effective :: "rstr \<Rightarrow> rstr \<Rightarrow> nat" where
  "effective name cand =
     (let prefix_len = length (takeWhile (\<lambda>(x, y). x = y) (zip name cand)) in
      levenshtein name cand - prefix_len div 2)"

fun suggest_loop :: "rstr \<Rightarrow> rstr list \<Rightarrow> (rstr \<times> nat \<times> nat) option \<Rightarrow> (rstr \<times> nat \<times> nat) option" where
  "suggest_loop name [] best = best"
| "suggest_loop name (cand # cands) best =
     (if cand = name then None
      else
        (let dist = levenshtein name cand; eff = effective name cand in
         if dist > max_distance name then suggest_loop name cands best
         else suggest_loop name cands (case best of
             None \<Rightarrow> Some (cand, dist, eff)
           | Some (bc, bd, be) \<Rightarrow>
               if eff < be then Some (cand, dist, eff)
               else if eff = be \<and> utf8_len cand > utf8_len bc then Some (cand, dist, eff)
               else best)))"

definition suggest :: "rstr \<Rightarrow> rstr list \<Rightarrow> (rstr \<times> nat) option" where
  "suggest name cands = map_option (\<lambda>(c, d, _). (c, d)) (suggest_loop name cands None)"

section \<open>Edit scripts\<close>

text \<open>\<open>edit_script n xs ys\<close>: \<open>n\<close> insertions, deletions and substitutions turn \<open>xs\<close> into \<open>ys\<close>.\<close>

inductive edit_script :: "nat \<Rightarrow> 'a list \<Rightarrow> 'a list \<Rightarrow> bool" where
  nil: "edit_script 0 [] []"
| keep: "edit_script n xs ys \<Longrightarrow> edit_script n (x # xs) (x # ys)"
| subst: "edit_script n xs ys \<Longrightarrow> edit_script (Suc n) (x # xs) (y # ys)"
| ins: "edit_script n xs ys \<Longrightarrow> edit_script (Suc n) xs (y # ys)"
| del: "edit_script n xs ys \<Longrightarrow> edit_script (Suc n) (x # xs) ys"

text \<open>The textbook recursion.\<close>

fun edist :: "'a list \<Rightarrow> 'a list \<Rightarrow> nat" where
  "edist [] ys = length ys"
| "edist xs [] = length xs"
| "edist (x # xs) (y # ys) =
     min (min (edist xs ys + (if x = y then 0 else 1)) (edist xs (y # ys) + 1)) (edist (x # xs) ys + 1)"

lemma edist_Nil2 [simp]: "edist xs [] = length xs"
  by (cases xs) simp_all

lemma edit_script_ins: "edit_script (length ys) [] ys"
  by (induction ys) (auto intro: edit_script.intros)

lemma edit_script_del: "edit_script (length xs) xs []"
  by (induction xs) (auto intro: edit_script.intros)

lemma edit_script_edist: "edit_script (edist xs ys) xs ys"
proof (induction xs ys rule: edist.induct)
  case (3 x xs y ys)
  have diag: "edit_script (edist xs ys + (if x = y then 0 else 1)) (x # xs) (y # ys)"
    using 3(1) by (auto intro: edit_script.intros)
  have "edit_script (edist xs (y # ys) + 1) (x # xs) (y # ys)" "edit_script (edist (x # xs) ys + 1) (x # xs) (y # ys)"
    using 3(2,3) edit_script.del edit_script.ins by force+
  with diag show ?case by (auto simp: min_def)
next
  case (2 x xs)
  then show ?case using edit_script_del [of "x # xs"] by simp
qed (simp add: edit_script_ins)

lemma edist_least: "edit_script n xs ys \<Longrightarrow> edist xs ys \<le> n"
proof (induction rule: edit_script.induct)
  case (ins n xs ys y)
  have "edist xs (y # ys) \<le> edist xs ys + 1" by (cases xs) auto
  then show ?case using ins by simp
next
  case (del n xs ys x)
  have "edist (x # xs) ys \<le> edist xs ys + 1" by (cases ys) auto
  then show ?case using del by simp
qed auto

lemma edit_script_append:
  "edit_script m xs ys \<Longrightarrow> edit_script n us vs \<Longrightarrow> edit_script (m + n) (xs @ us) (ys @ vs)"
  by (induction rule: edit_script.induct) (auto intro: edit_script.intros)

lemma edit_script_rev: "edit_script n xs ys \<Longrightarrow> edit_script n (rev xs) (rev ys)"
proof (induction rule: edit_script.induct)
  case (keep n xs ys x)
  then show ?case using edit_script_append [of n "rev xs" "rev ys" 0 "[x]" "[x]"] by (auto intro: edit_script.intros)
next
  case (subst n xs ys x y)
  then show ?case using edit_script_append [of n "rev xs" "rev ys" 1 "[x]" "[y]"] by (auto intro: edit_script.intros)
next
  case (ins n xs ys y)
  then show ?case using edit_script_append [of n "rev xs" "rev ys" 1 "[]" "[y]"] by (auto intro: edit_script.intros)
next
  case (del n xs ys x)
  then show ?case using edit_script_append [of n "rev xs" "rev ys" 1 "[x]" "[]"] by (auto intro: edit_script.intros)
qed (auto intro: edit_script.intros)

lemma edist_rev: "edist (rev xs) (rev ys) = edist xs ys"
  using edist_least [OF edit_script_rev [OF edit_script_edist, of xs ys]]
    edist_least [OF edit_script_rev [OF edit_script_edist, of "rev xs" "rev ys"]] by simp

lemma edist_length_diff: "edit_script n xs ys \<Longrightarrow> nat \<bar>int (length xs) - int (length ys)\<bar> \<le> n"
  by (induction rule: edit_script.induct) auto

section \<open>The table\<close>

text \<open>The row for the prefix \<open>xs\<close> of the first string: its distance to every prefix of the second.\<close>

definition row :: "rstr \<Rightarrow> rstr \<Rightarrow> nat list" where
  "row xs b = map (\<lambda>j. edist (rev xs) (rev (take j b))) [0..<Suc (length b)]"

lemma lev_cells_row:
  assumes "k \<le> length b" "left = edist (x # rev xs) (rev (take k b))"
  shows "lev_cells x (drop k b) (map (\<lambda>j. edist (rev xs) (rev (take j b))) [k..<Suc (length b)]) left =
    map (\<lambda>j. edist (x # rev xs) (rev (take j b))) [Suc k..<Suc (length b)]"
  using assms
proof (induction "length b - k" arbitrary: k left)
  case (Suc d)
  then have k: "k < length b" by simp
  have up: "[k..<Suc (length b)] = k # Suc k # [Suc (Suc k)..<Suc (length b)]" using k by (simp add: upt_rec)
  have dr: "drop k b = b ! k # drop (Suc k) b" using k by (simp add: Cons_nth_drop_Suc)
  have tk: "rev (take (Suc k) b) = b ! k # rev (take k b)" using k by (simp add: take_Suc_conv_app_nth)
  let ?c = "edist (x # rev xs) (rev (take (Suc k) b))"
  have c: "?c = min (min (edist (rev xs) (rev (take k b)) + (if x = b ! k then 0 else 1)) (edist (rev xs) (rev (take (Suc k) b)) + 1)) (left + 1)"
    unfolding tk using Suc.prems(2) by simp
  have "lev_cells x (drop (Suc k) b) (map (\<lambda>j. edist (rev xs) (rev (take j b))) [Suc k..<Suc (length b)]) ?c =
    map (\<lambda>j. edist (x # rev xs) (rev (take j b))) [Suc (Suc k)..<Suc (length b)]"
    using Suc.hyps(1) [of "Suc k" ?c] Suc.hyps(2) k by simp
  then show ?case
    using k c by (simp add: up dr Let_def upt_conv_Cons [of "Suc k"] del: upt_Suc)
qed simp

lemma row_next: "Suc (length xs) # lev_cells x b (row xs b) (Suc (length xs)) = row (xs @ [x]) b"
proof -
  have "lev_cells x b (row xs b) (Suc (length xs)) = map (\<lambda>j. edist (x # rev xs) (rev (take j b))) [Suc 0..<Suc (length b)]"
    using lev_cells_row [of 0 b "Suc (length xs)" x xs] by (simp add: row_def del: upt_Suc)
  then show ?thesis by (simp add: row_def upt_conv_Cons del: upt_Suc)
qed

lemma lev_rows_row: "lev_rows a b (Suc (length xs)) (row xs b) = row (xs @ a) b"
proof (induction a arbitrary: xs)
  case (Cons x a)
  then show ?case using Cons.IH [of "xs @ [x]"] by (simp add: row_next)
qed simp

lemma row_start: "row [] b = [0..<Suc (length b)]"
  unfolding row_def by (rule nth_equalityI) (auto simp del: upt_Suc)

lemma lev_rows_edist: "lev_rows a b 1 [0..<Suc (length b)] ! length b = edist a b"
proof -
  have "lev_rows a b 1 [0..<Suc (length b)] = row a b"
    using lev_rows_row [of a b "[]"] by (simp add: row_start del: upt_Suc)
  then show ?thesis by (simp add: row_def edist_rev del: upt_Suc)
qed

section \<open>The distance\<close>

lemma levenshtein_cases:
  "levenshtein a b =
    (if a = [] \<or> b = [] \<or> nat \<bar>int (length a) - int (length b)\<bar> \<le> max_distance_by_len (min (length a) (length b))
     then edist a b else nat \<bar>int (length a) - int (length b)\<bar>)"
  unfolding levenshtein_def Let_def lev_rows_edist by auto

lemma levenshtein_lower: "edit_script n a b \<Longrightarrow> levenshtein a b \<le> n"
  unfolding levenshtein_cases by (simp only: edist_least edist_length_diff split: if_split) simp

section \<open>Suggestions\<close>

text \<open>
  The order of the ranking: smaller effective distance first, then the longer candidate; the first
  of equals stays.
\<close>

definition no_worse :: "rstr \<Rightarrow> rstr \<Rightarrow> rstr \<Rightarrow> bool" where
  "no_worse name c d \<longleftrightarrow> effective name c < effective name d \<or>
     effective name c = effective name d \<and> utf8_len d \<le> utf8_len c"

definition in_reach :: "rstr \<Rightarrow> rstr \<Rightarrow> bool" where
  "in_reach name c \<longleftrightarrow> levenshtein name c \<le> max_distance name"

fun best_ok :: "rstr \<Rightarrow> (rstr \<times> nat \<times> nat) option \<Rightarrow> bool" where
  "best_ok name None = True"
| "best_ok name (Some (c, d, e)) = (d = levenshtein name c \<and> e = effective name c \<and> in_reach name c)"

definition best_of :: "rstr \<Rightarrow> (rstr \<times> nat \<times> nat) option \<Rightarrow> rstr list" where
  "best_of name best = (case best of None \<Rightarrow> [] | Some (c, _) \<Rightarrow> [c])"

lemma no_worse_trans: "no_worse name a b \<Longrightarrow> no_worse name b c \<Longrightarrow> no_worse name a c"
  by (auto simp: no_worse_def)

lemma suggest_loop_spec:
  assumes "name \<notin> set cands" "best_ok name best"
  shows "case suggest_loop name cands best of
      None \<Rightarrow> best = None \<and> (\<forall>d \<in> set cands. \<not> in_reach name d)
    | Some (c, dist, e) \<Rightarrow> c \<in> set cands \<union> set (best_of name best) \<and> dist = levenshtein name c \<and> in_reach name c \<and>
        (\<forall>d \<in> set cands \<union> set (best_of name best). in_reach name d \<longrightarrow> no_worse name c d)"
  using assms
proof (induction cands arbitrary: best)
  case Nil
  then show ?case by (auto simp: best_of_def no_worse_def split: option.splits)
next
  case (Cons cand cands)
  define best' where "best' = (if levenshtein name cand > max_distance name then best else case best of
      None \<Rightarrow> Some (cand, levenshtein name cand, effective name cand)
    | Some (bc, bd, be) \<Rightarrow>
        if effective name cand < be then Some (cand, levenshtein name cand, effective name cand)
        else if effective name cand = be \<and> utf8_len cand > utf8_len bc
          then Some (cand, levenshtein name cand, effective name cand) else best)"
  have eq: "suggest_loop name (cand # cands) best = suggest_loop name cands best'"
    using Cons.prems(1) by (auto simp: best'_def Let_def)
  have ok: "best_ok name best'"
    using Cons.prems(2) by (auto simp: best'_def in_reach_def split: option.split)
  have sub: "set (best_of name best') \<subseteq> {cand} \<union> set (best_of name best)"
    by (auto simp: best'_def best_of_def split: option.splits if_splits)
  have none: "best' = None \<longleftrightarrow> best = None \<and> \<not> in_reach name cand"
    by (auto simp: best'_def in_reach_def split: option.splits)
  have dom: "\<exists>c \<in> set (best_of name best'). no_worse name c d"
    if "d \<in> {cand} \<union> set (best_of name best)" "in_reach name d" for d
    using that Cons.prems(2) by (auto simp: best'_def best_of_def in_reach_def no_worse_def split: option.splits if_splits)
  have reach: "in_reach name c" if "c \<in> set (best_of name best')" for c
    using that ok by (auto simp: best_of_def split: option.splits)
  have ih: "case suggest_loop name cands best' of
      None \<Rightarrow> best' = None \<and> (\<forall>d \<in> set cands. \<not> in_reach name d)
    | Some (c, dist, e) \<Rightarrow> c \<in> set cands \<union> set (best_of name best') \<and> dist = levenshtein name c \<and> in_reach name c \<and>
        (\<forall>d \<in> set cands \<union> set (best_of name best'). in_reach name d \<longrightarrow> no_worse name c d)"
    using Cons.IH [OF _ ok] Cons.prems(1) by simp
  show ?case
  proof (cases "suggest_loop name cands best'")
    case None
    then show ?thesis unfolding eq using ih none by auto
  next
    case (Some r)
    obtain c dist e where r: "r = (c, dist, e)" by (cases r)
    have "no_worse name c d" if d: "d \<in> set (cand # cands) \<union> set (best_of name best)" "in_reach name d" for d
    proof (cases "d \<in> set cands")
      case False
      then obtain c' where c': "c' \<in> set (best_of name best')" "no_worse name c' d" using dom [of d] d by auto
      then have "no_worse name c c'" using ih Some r reach by auto
      then show ?thesis using no_worse_trans c'(2) by blast
    qed (use ih Some r d in auto)
    then show ?thesis unfolding eq using ih Some r sub by auto
  qed
qed

lemma suggest_exact: "name \<in> set cands \<Longrightarrow> suggest_loop name cands best = None"
  by (induction cands arbitrary: best) (auto simp: Let_def)

text \<open>
  The early exit measures its threshold on the shorter string, the caller on the name: a candidate
  two characters shorter than a name of four is offered at distance 2, whatever its letters are.
\<close>

lemma suggest_unrelated:
  "suggest [119, 120, 121, 122] [[97, 98]] = Some ([97, 98], 2)"
  "edist [119, 120, 121, 122 :: nat] [97, 98] = 4"
  by (simp_all add: suggest_def Let_def levenshtein_def effective_def max_distance_def max_distance_by_len_def
      utf8_width_def)

end
