(* ===== verification/Router.thy ===== *)
theory Router
  imports Zz_Prelude
begin

text \<open>
  The route table of \<open>std.http\<close> (\<open>crates/zz_stdlib/src/natives/http/router.rs\<close>): compilation of
  route patterns, matching of request paths and the choice among the routes that match. Strings
  are their UTF-8 bytes; every character the code looks for is ASCII.

  Shown: \<open>best_match\<close> finds a route exactly when one matches and returns the best one by the code's
  score, the first of equals; a compiled pattern has a greedy tail at its end only, so matching
  never slices past the end of the path.
\<close>

section \<open>Patterns\<close>

datatype segment = Literal string | Param string | Wildcard string

record route_pattern =
  segments :: "segment list"
  catch_all :: bool

text \<open>The string operations of the standard library that the code uses.\<close>

fun strip_prefix :: "string \<Rightarrow> string \<Rightarrow> string option" where
  "strip_prefix [] s = Some s"
| "strip_prefix (p # ps) (c # s) = (if p = c then strip_prefix ps s else None)"
| "strip_prefix (p # ps) [] = None"

definition strip_suffix :: "string \<Rightarrow> string \<Rightarrow> string option" where
  "strip_suffix suf s = map_option rev (strip_prefix (rev suf) (rev s))"

definition trim_matches :: "char \<Rightarrow> string \<Rightarrow> string" where
  "trim_matches c s = rev (dropWhile (\<lambda>x. x = c) (rev (dropWhile (\<lambda>x. x = c) s)))"

fun split_on :: "char \<Rightarrow> string \<Rightarrow> string list" where
  "split_on c [] = [[]]"
| "split_on c (x # s) = (if x = c then [] # split_on c s
     else (case split_on c s of seg # segs \<Rightarrow> (x # seg) # segs | [] \<Rightarrow> [[x]]))"

fun join_with :: "string \<Rightarrow> string list \<Rightarrow> string" where
  "join_with sep [] = []"
| "join_with sep [x] = x"
| "join_with sep (x # y # xs) = x @ sep @ join_with sep (y # xs)"

definition is_ascii_alphabetic :: "char \<Rightarrow> bool" where
  "is_ascii_alphabetic c = (let n = of_char c :: nat in 65 \<le> n \<and> n \<le> 90 \<or> 97 \<le> n \<and> n \<le> 122)"

definition is_ascii_digit :: "char \<Rightarrow> bool" where
  "is_ascii_digit c = (let n = of_char c :: nat in 48 \<le> n \<and> n \<le> 57)"

definition parse_segment :: "string \<Rightarrow> segment" where
  "parse_segment seg = (case strip_prefix '':'' seg of
       Some rest \<Rightarrow> (case strip_suffix ''...'' rest of Some name \<Rightarrow> Wildcard name | None \<Rightarrow> Param rest)
     | None \<Rightarrow> if seg = ''*'' then Wildcard [] else Literal seg)"

definition valid_param_name :: "string \<Rightarrow> bool" where
  "valid_param_name name = (case name of
       [] \<Rightarrow> False
     | c # cs \<Rightarrow> (is_ascii_alphabetic c \<or> c = CHR ''_'') \<and>
         list_all (\<lambda>x. is_ascii_alphabetic x \<or> is_ascii_digit x \<or> x = CHR ''_'') cs)"

text \<open>One iteration of the loop of \<open>compile_pattern\<close>; \<open>is_last\<close> is \<open>i == raw.len() - 1\<close>.\<close>

definition compile_segment :: "bool \<Rightarrow> string \<Rightarrow> segment option" where
  "compile_segment is_last seg = (case parse_segment seg of
       Wildcard name \<Rightarrow>
         if seg = ''*'' then None
         else if \<not> is_last then None
         else if name = [] \<or> \<not> valid_param_name name then None
         else Some (Wildcard name)
     | Param name \<Rightarrow> if name = [] \<or> \<not> valid_param_name name then None else Some (Param name)
     | Literal l \<Rightarrow> Some (Literal l))"

fun compile_segments :: "string list \<Rightarrow> segment list option" where
  "compile_segments [] = Some []"
| "compile_segments (seg # segs) = (case compile_segment (segs = []) seg of
       None \<Rightarrow> None
     | Some s \<Rightarrow> (case compile_segments segs of None \<Rightarrow> None | Some ss \<Rightarrow> Some (s # ss)))"

definition compile_pattern :: "string \<Rightarrow> route_pattern option" where
  "compile_pattern p =
     (if p = ''*'' then Some \<lparr>segments = [Wildcard []], catch_all = True\<rparr>
      else if CHR ''{'' \<in> set p \<or> CHR ''}'' \<in> set p then None
      else
        (let trimmed = trim_matches (CHR ''/'') p in
         if trimmed = [] then Some \<lparr>segments = [], catch_all = False\<rparr>
         else
           (let raw = split_on (CHR ''/'') trimmed in
            if [] \<in> set raw then None
            else map_option (\<lambda>ss. \<lparr>segments = ss, catch_all = False\<rparr>) (compile_segments raw))))"

section \<open>Matching\<close>

definition path_segs :: "string \<Rightarrow> string list" where
  "path_segs path =
     (let trimmed = trim_matches (CHR ''/'') path in
      if trimmed = [] then [] else split_on (CHR ''/'') trimmed)"

definition has_wildcard :: "segment list \<Rightarrow> bool" where
  "has_wildcard segs = (segs \<noteq> [] \<and> (case last segs of Wildcard _ \<Rightarrow> True | _ \<Rightarrow> False))"

text \<open>The loop over the pattern's segments; \<open>xs\<close> is \<open>actual_segs[i..]\<close>.\<close>

fun match_segments :: "segment list \<Rightarrow> string list \<Rightarrow> (string \<times> string) list option" where
  "match_segments [] xs = Some []"
| "match_segments (Literal l # segs) xs =
     (case xs of x # xs' \<Rightarrow> if x = l then match_segments segs xs' else None | [] \<Rightarrow> None)"
| "match_segments (Param name # segs) xs =
     (case xs of
        x # xs' \<Rightarrow> map_option (\<lambda>ps. (name, x) # ps) (match_segments segs xs')
      | [] \<Rightarrow> None)"
| "match_segments (Wildcard name # segs) xs =
     Some (if name \<noteq> [] then [(name, join_with ''/'' xs)] else [])"

definition match_pattern :: "route_pattern \<Rightarrow> string \<Rightarrow> (string \<times> string) list option" where
  "match_pattern p actual =
     (if catch_all p then Some []
      else
        (let xs = path_segs actual in
         if has_wildcard (segments p) then
           (if length xs < length (segments p) - 1 then None else match_segments (segments p) xs)
         else if length xs \<noteq> length (segments p) then None
         else match_segments (segments p) xs))"

section \<open>Choice\<close>

type_synonym score = "nat \<times> nat \<times> nat"

definition match_score :: "route_pattern \<Rightarrow> score" where
  "match_score p =
     (length (filter (\<lambda>s. case s of Literal _ \<Rightarrow> True | _ \<Rightarrow> False) (segments p)),
      length (filter (\<lambda>s. case s of Param _ \<Rightarrow> True | _ \<Rightarrow> False) (segments p)),
      length (filter (\<lambda>s. case s of Wildcard _ \<Rightarrow> True | _ \<Rightarrow> False) (segments p)) +
        (if catch_all p then 1 else 0))"

text \<open>Rust's order on tuples.\<close>

fun score_gt :: "score \<Rightarrow> score \<Rightarrow> bool" where
  "score_gt (a, b, c) (a', b', c') \<longleftrightarrow> a > a' \<or> a = a' \<and> (b > b' \<or> b = b' \<and> c > c')"

text \<open>What one route of the right method contributes: its captures and its score.\<close>

definition route_match :: "string \<Rightarrow> string \<Rightarrow> ((string \<times> string) list \<times> score) option" where
  "route_match pat path = (case compile_pattern pat of
       None \<Rightarrow> None
     | Some compiled \<Rightarrow> map_option (\<lambda>ps. (ps, match_score compiled)) (match_pattern compiled path))"

fun best_loop ::
  "string \<Rightarrow> string \<Rightarrow> nat \<Rightarrow> (string \<times> string) list \<Rightarrow> (nat \<times> (string \<times> string) list \<times> score) option \<Rightarrow>
     (nat \<times> (string \<times> string) list) option" where
  "best_loop method path idx [] best = map_option (\<lambda>(i, ps, _). (i, ps)) best"
| "best_loop method path idx ((m, pat) # routes) best =
     (if m \<noteq> method then best_loop method path (Suc idx) routes best
      else if pat = path then Some (idx, [])
      else (case route_match pat path of
          None \<Rightarrow> best_loop method path (Suc idx) routes best
        | Some (ps, score) \<Rightarrow>
            best_loop method path (Suc idx) routes
              (if (case best of None \<Rightarrow> True | Some (_, _, s) \<Rightarrow> score_gt score s)
               then Some (idx, ps, score) else best)))"

definition best_match :: "(string \<times> string) list \<Rightarrow> string \<Rightarrow> string \<Rightarrow> (nat \<times> (string \<times> string) list) option" where
  "best_match routes method path = best_loop method path 0 routes None"

definition matches_other_method :: "(string \<times> string) list \<Rightarrow> string \<Rightarrow> string \<Rightarrow> bool" where
  "matches_other_method routes method path =
     list_ex (\<lambda>(m, pat). m \<noteq> method \<and> pat \<noteq> ''*'' \<and>
       (pat = path \<or> (case compile_pattern pat of None \<Rightarrow> False | Some c \<Rightarrow> match_pattern c path \<noteq> None))) routes"

section \<open>The documented precedence\<close>

text \<open>
  Literals first, then parameters, then fewer wildcards is the documented order; the code counts
  more wildcards as better, so a longer pattern with an empty tail beats the exact one.
\<close>

lemma wildcard_beats_param:
  "best_match [(''GET'', ''/a/:x''), (''GET'', ''/a/:x/:rest...'')] ''GET'' ''/a/b'' =
     Some (1, [(''x'', ''b''), (''rest'', [])])"
  by code_simp

section \<open>Compiled patterns\<close>

definition is_wildcard :: "segment \<Rightarrow> bool" where
  "is_wildcard s = (case s of Wildcard _ \<Rightarrow> True | _ \<Rightarrow> False)"

definition seg_name :: "segment \<Rightarrow> string option" where
  "seg_name s = (case s of Literal _ \<Rightarrow> None | Param n \<Rightarrow> Some n | Wildcard n \<Rightarrow> Some n)"

lemma compile_segment_ok:
  "compile_segment is_last seg = Some s \<Longrightarrow>
     (is_wildcard s \<longrightarrow> is_last) \<and> (\<forall>n. seg_name s = Some n \<longrightarrow> valid_param_name n)"
  by (auto simp: compile_segment_def is_wildcard_def seg_name_def split: segment.splits if_splits)

lemma compile_segments_ok:
  "compile_segments raw = Some ss \<Longrightarrow>
     length ss = length raw \<and> list_all (\<lambda>s. \<not> is_wildcard s) (butlast ss) \<and>
     (\<forall>s \<in> set ss. \<forall>n. seg_name s = Some n \<longrightarrow> valid_param_name n)"
proof (induction raw arbitrary: ss)
  case (Cons seg segs)
  then obtain s ss' where s: "compile_segment (segs = []) seg = Some s" "compile_segments segs = Some ss'" "ss = s # ss'"
    by (auto split: option.splits)
  with Cons.IH [OF s(2)] compile_segment_ok [OF s(1)] show ?case by (auto split: if_splits)
qed simp

text \<open>The captures of a match are the pattern's names, in order.\<close>

lemma match_segments_names:
  assumes "match_segments segs xs = Some ps" "list_all (\<lambda>s. \<not> is_wildcard s) (butlast segs)"
    "\<forall>s \<in> set segs. \<forall>n. seg_name s = Some n \<longrightarrow> n \<noteq> []"
  shows "map fst ps = List.map_filter seg_name segs"
  using assms
proof (induction segs xs arbitrary: ps rule: match_segments.induct)
  case (4 name segs xs)
  then have "segs = []" by (cases segs) (auto simp: is_wildcard_def)
  then show ?case using 4 by (auto simp: seg_name_def List.map_filter_def)
qed (auto simp: seg_name_def List.map_filter_def is_wildcard_def split: list.splits if_splits)

section \<open>The chosen route\<close>

definition is_exact :: "(string \<times> string) list \<Rightarrow> string \<Rightarrow> string \<Rightarrow> nat \<Rightarrow> bool" where
  "is_exact routes method path i \<longleftrightarrow> i < length routes \<and> routes ! i = (method, path)"

definition candidate :: "(string \<times> string) list \<Rightarrow> string \<Rightarrow> string \<Rightarrow> nat \<Rightarrow> ((string \<times> string) list \<times> score) option" where
  "candidate routes method path i =
     (if i < length routes \<and> fst (routes ! i) = method \<and> snd (routes ! i) \<noteq> path
      then route_match (snd (routes ! i)) path else None)"

text \<open>
  The scan for a best element by a strict ranking that keeps the first of equals: what the loop
  relies on is that the ranking is asymmetric and that a better one beats everything its loser is
  not beaten by.
\<close>

locale strict_rank =
  fixes gt :: "'s \<Rightarrow> 's \<Rightarrow> bool"
  assumes asym: "gt a b \<Longrightarrow> \<not> gt b a"
    and beats: "gt a b \<Longrightarrow> \<not> gt c b \<Longrightarrow> gt a c"
begin

lemma irrefl: "\<not> gt a a"
  using asym by blast

definition first_max :: "(nat \<Rightarrow> 's option) \<Rightarrow> nat \<Rightarrow> nat \<Rightarrow> 's \<Rightarrow> bool" where
  "first_max f n i s \<longleftrightarrow> i < n \<and> f i = Some s \<and>
     (\<forall>j < n. \<forall>t. f j = Some t \<longrightarrow> \<not> gt t s \<and> (j < i \<longrightarrow> gt s t))"

lemma first_max_init: "\<forall>i < n. f i = None \<Longrightarrow> f n = Some t \<Longrightarrow> first_max f (Suc n) n t"
  by (auto simp: first_max_def less_Suc_eq irrefl)

lemma first_max_keep:
  "first_max f n i s \<Longrightarrow> (\<And>t. f n = Some t \<Longrightarrow> \<not> gt t s) \<Longrightarrow> first_max f (Suc n) i s"
  by (auto simp: first_max_def less_Suc_eq)

lemma first_max_better:
  assumes "first_max f n i s" "f n = Some t" "gt t s"
  shows "first_max f (Suc n) n t"
proof -
  have "\<forall>j < n. \<forall>u. f j = Some u \<longrightarrow> gt t u"
    using assms(1,3) beats unfolding first_max_def by blast
  moreover from this have "\<forall>j < n. \<forall>u. f j = Some u \<longrightarrow> \<not> gt u t"
    using asym by blast
  ultimately show ?thesis using assms(2) irrefl by (auto simp: first_max_def less_Suc_eq)
qed

end

interpretation sg: strict_rank score_gt
proof
  show "score_gt a b \<Longrightarrow> \<not> score_gt b a" for a b by (cases a; cases b) auto
  show "score_gt a b \<Longrightarrow> \<not> score_gt c b \<Longrightarrow> score_gt a c" for a b c by (cases a; cases b; cases c) auto
qed

definition cand_score :: "(string \<times> string) list \<Rightarrow> string \<Rightarrow> string \<Rightarrow> nat \<Rightarrow> score option" where
  "cand_score routes method path i = map_option snd (candidate routes method path i)"

text \<open>\<open>best\<close> is the best candidate among the first \<open>n\<close> routes, none of which is the path itself.\<close>

definition best_upto ::
  "(string \<times> string) list \<Rightarrow> string \<Rightarrow> string \<Rightarrow> nat \<Rightarrow> (nat \<times> (string \<times> string) list \<times> score) option \<Rightarrow> bool" where
  "best_upto routes method path n best \<longleftrightarrow> (\<forall>i < n. \<not> is_exact routes method path i) \<and>
     (case best of
        None \<Rightarrow> \<forall>i < n. cand_score routes method path i = None
      | Some (i, ps, sc) \<Rightarrow> candidate routes method path i = Some (ps, sc) \<and>
          sg.first_max (cand_score routes method path) n i sc)"

definition pick ::
  "nat \<Rightarrow> ((string \<times> string) list \<times> score) option \<Rightarrow> (nat \<times> (string \<times> string) list \<times> score) option \<Rightarrow>
     (nat \<times> (string \<times> string) list \<times> score) option" where
  "pick n c best = (case c of
       None \<Rightarrow> best
     | Some (ps, sc) \<Rightarrow>
         if (case best of None \<Rightarrow> True | Some (_, _, s) \<Rightarrow> score_gt sc s) then Some (n, ps, sc) else best)"

lemma best_upto_pick:
  assumes "best_upto routes method path n best" "\<not> is_exact routes method path n"
  shows "best_upto routes method path (Suc n) (pick n (candidate routes method path n) best)"
proof -
  let ?c = "candidate routes method path n" and ?f = "cand_score routes method path"
  have ex: "\<forall>i < Suc n. \<not> is_exact routes method path i"
    using assms by (auto simp: best_upto_def less_Suc_eq)
  have f: "?f n = map_option snd ?c" by (simp add: cand_score_def)
  show ?thesis
  proof (cases best)
    case None
    then have none: "\<forall>i < n. ?f i = None" using assms(1) by (simp add: best_upto_def)
    show ?thesis
    proof (cases ?c)
      case None
      then show ?thesis using ex none f \<open>best = None\<close> by (simp add: best_upto_def pick_def less_Suc_eq)
    next
      case (Some r)
      then show ?thesis using ex sg.first_max_init [OF none, of "snd r"] f \<open>best = None\<close>
        by (cases r) (simp add: best_upto_def pick_def)
    qed
  next
    case (Some b)
    obtain i qs s where b: "best = Some (i, qs, s)" using Some by (cases b) auto
    then have m: "candidate routes method path i = Some (qs, s)" "sg.first_max ?f n i s"
      using assms(1) by (simp_all add: best_upto_def)
    show ?thesis
    proof (cases "\<exists>ps sc. ?c = Some (ps, sc) \<and> score_gt sc s")
      case True
      then obtain ps sc where c: "?c = Some (ps, sc)" "score_gt sc s" by blast
      then show ?thesis using ex sg.first_max_better [OF m(2), of sc] f b by (simp add: best_upto_def pick_def)
    next
      case False
      have "pick n ?c best = best" using False b by (auto simp: pick_def split: option.split)
      moreover have "\<not> score_gt t s" if t: "?f n = Some t" for t
      proof -
        obtain r where "?c = Some r" "snd r = t" using t unfolding f map_option_eq_Some by blast
        then have "?c = Some (fst r, t)" by (simp add: prod_eq_iff)
        then show ?thesis using False by blast
      qed
      then have "sg.first_max ?f (Suc n) i s" by (rule sg.first_max_keep [OF m(2)])
      ultimately show ?thesis using ex m(1) b by (simp add: best_upto_def)
    qed
  qed
qed

lemma best_loop_spec:
  assumes "best_upto routes method path n best" "n \<le> length routes"
  shows "\<exists>best'. best_loop method path n (drop n routes) best = best' \<and>
    (case best' of
       None \<Rightarrow> best_upto routes method path (length routes) None
     | Some (i, ps) \<Rightarrow>
         ps = [] \<and> is_exact routes method path i \<and> (\<forall>j < i. \<not> is_exact routes method path j) \<or>
         (\<exists>sc. best_upto routes method path (length routes) (Some (i, ps, sc))))"
  using assms
proof (induction "length routes - n" arbitrary: n best)
  case 0
  then show ?case by (cases best) auto
next
  case (Suc d)
  then have n: "n < length routes" by simp
  obtain m pat where r: "routes ! n = (m, pat)" by (cases "routes ! n")
  have dr: "drop n routes = (m, pat) # drop (Suc n) routes" using n r by (metis Cons_nth_drop_Suc)
  show ?case
  proof (cases "is_exact routes method path n")
    case True
    then show ?thesis using Suc.prems(1) r dr by (auto simp: is_exact_def best_upto_def)
  next
    case False
    have "best_loop method path n (drop n routes) best =
      best_loop method path (Suc n) (drop (Suc n) routes) (pick n (candidate routes method path n) best)"
      using False n r dr by (auto simp: is_exact_def candidate_def pick_def split: option.split)
    then show ?thesis
      using Suc.hyps(1) [of "Suc n"] Suc.hyps(2) n best_upto_pick [OF Suc.prems(1) False] by simp
  qed
qed

text \<open>The best candidate, spelled out.\<close>

lemma best_upto_Some:
  assumes "best_upto routes method path n (Some (i, ps, sc))" "j < n"
  shows "candidate routes method path i = Some (ps, sc)" "\<not> is_exact routes method path j"
    "candidate routes method path j = Some r \<Longrightarrow> \<not> score_gt (snd r) sc \<and> (i \<le> j \<or> score_gt sc (snd r))"
proof -
  have f: "sg.first_max (cand_score routes method path) n i sc" "candidate routes method path i = Some (ps, sc)"
    and ex: "\<forall>i < n. \<not> is_exact routes method path i"
    using assms(1) by (simp_all add: best_upto_def)
  show "candidate routes method path i = Some (ps, sc)" by (rule f(2))
  show "\<not> is_exact routes method path j" using ex assms(2) by blast
  assume "candidate routes method path j = Some r"
  then have "cand_score routes method path j = Some (snd r)" by (simp add: cand_score_def)
  then show "\<not> score_gt (snd r) sc \<and> (i \<le> j \<or> score_gt sc (snd r))"
    using f(1) assms(2) unfolding sg.first_max_def by (metis not_le)
qed

lemma best_upto_less: "best_upto routes method path n (Some (i, ps, sc)) \<Longrightarrow> i < n"
  by (simp add: best_upto_def sg.first_max_def)

lemma best_upto_None:
  assumes "best_upto routes method path n None" "j < n"
  shows "\<not> is_exact routes method path j" "candidate routes method path j = None"
  using assms by (simp_all add: best_upto_def cand_score_def)

end
