(* ===== verification/Spec2Isabelle.thy ===== *)
theory Spec2Isabelle
  imports Vm_Examples Pass_Examples Raise_Total Recursion_Limits Channel Ring_Steps Unify_Acyclic Levenshtein Router Printer
begin

text \<open>
  A verification development for the ZZ toolchain (the crates under \<open>crates/\<close>, paths below are relative
  to it). ZZ source is checked and compiled to stack code, a chunk; a chunk is lowered to an IR module and
  travels to the disk cache and the AOT back end as an \<open>.zzc\<close> file; whoever loads such a file decodes
  it, verifies it, raises it to a chunk again and runs that; running programs communicate through
  channels. The development follows that path: lowering, format, verifier, raising, machine,
  channels, and beside it the self-contained algorithms of the front end (unifier, suggestions), the standard library
  (router) and the formatter (printer).

  \<^bold>\<open>Theories and the code they model\<close>

  \<^item> \<open>Zz_Prelude\<close>: results (\<open>error + 'a\<close> with \<open>Ok\<close>, \<open>Err\<close>, \<open>res_bind\<close> for the question-mark operator),
    checked indexing, generic list lemmas.
  \<^item> \<open>Ir_Types\<close>, \<open>Ir_Op\<close>, \<open>Ir_Module\<close>: the data of \<open>zz_ir/src/lib.rs\<close>, \<open>ty.rs\<close> and \<open>op.rs\<close>: id newtypes
    over 32-bit words, one constructor per type, constant, pattern and instruction, a record per
    function and module, and the pure functions on them (tags, names, frame slots).
  \<^item> \<open>Codec_Base\<close>, \<open>Codec_Interface\<close>, \<open>Codec_Tables\<close>, \<open>Codec_Op\<close>, \<open>Codec\<close>: \<open>zz_ir/src/codec.rs\<close>. A writer is the
    list of bytes it appends, a reader a function of slice and cursor that fails or returns a value
    and the advanced cursor. The locale of \<open>Codec_Interface\<close> is the contract of a writer with its
    reader; each pair of the format is an interpretation of it and \<open>decode_encode\<close> rests on them.
  \<^item> \<open>Verify_Depth\<close>, \<open>Verify_Types\<close>, \<open>Verify_Infer\<close>, \<open>Verify\<close>: \<open>zz_ir/src/verify.rs\<close>. Stack effects and the
    depth simulation; abstract values, compatibility and joins; the typed inference with one
    transfer function per instruction; the checks of ids, tables, functions and modules. A Rust
    panic is a value of the error type, so that its absence can be stated. The two worklist loops
    have termination proofs (a measure on the unvisited instructions and on the height of the
    recorded states), so their results hold without fuel.
  \<^item> \<open>Recursion_Limits\<close>: the recursion depth of the decoder and the verifier on nested input.
  \<^item> \<open>Runtime_Ops\<close>: integer operators, index and slice arithmetic of \<open>zz_runtime/src/runtime/ops.rs\<close> on
    64-bit words, and the integer semantics of \<open>docs/ir-spec-draft.md\<close> they refine.
  \<^item> \<open>Vm_Value\<close>, \<open>Vm_Op\<close>: values of \<open>zz_runtime/src/value.rs\<close>, instructions and chunks of \<open>zz_runtime/src/vm\<close>.
  \<^item> \<open>Lower\<close>, \<open>Raise\<close>, \<open>Raise_Total\<close>: \<open>zz_ir/src/lower.rs\<close> and \<open>raise.rs\<close>. The state of the lowerer is a record
    threaded through a state-and-error monad; nested chunks are translated by recursion on the
    chunk. \<open>Reload\<close> says what a chunk becomes on the way (fused instructions written out, constants
    resolved); \<open>Lower_Spec\<close>, \<open>Lower_Raise\<close>, \<open>Lower_Modules\<close> prove that raising gives exactly that, by a
    calculus of specifications over the monad.
  \<^item> \<open>Dict_Data\<close>, \<open>Value_Ops\<close>: dictionaries with their index and the operators on values
    (\<open>value.rs\<close>, \<open>runtime/ops.rs\<close>). Float arithmetic, addresses and rendering are parameters (record \<open>host\<close>).
    Locale \<open>keyed_store\<close> is the contract of a dictionary.
  \<^item> \<open>Vm_Machine\<close>, \<open>Vm_Loops\<close>: the arms of the interpreter loop (\<open>vm/runtime.rs\<close>) on stack, slots and loops
    of one frame. A Rust panic is the stop \<open>Panicked\<close>; what needs an environment, a call or a match is
    the stop \<open>Left\<close>. A safepoint is passed without a change of task.
  \<^item> \<open>Vm_Sim\<close>, \<open>Vm_Desugar\<close>, \<open>Reload_Runs\<close>: simulation between a program and one in which instructions were
    replaced by sequences and addresses moved. Locale \<open>expansion\<close> is the obligation on one instruction;
    it is interpreted on the desugaring of \<open>lower.rs\<close>.
  \<^item> \<open>Fused\<close>: the passes of \<open>lower.rs\<close> that prepare a module for the C back end, \<open>expand_fused\<close> and
    \<open>derotate_loops\<close>. Locale \<open>code_pass\<close> of \<open>Code_Pass\<close> is the contract of a pass over function bodies and
    lifts it from one body to raised modules; it is interpreted on both passes. \<open>Fused_Ops\<close> and \<open>Fused_Runs\<close> follow the fused
    instructions through what replaces them (a second interpretation of \<open>expansion\<close>); \<open>Derotate_Code\<close>,
    \<open>Derotate_Runs\<close>, \<open>Derotate_Vartab\<close> follow the moved tests; \<open>Native_Input\<close> composes the two.
  \<^item> \<open>Examples\<close>, \<open>Lower_Examples\<close>, \<open>Vm_Examples\<close>, \<open>Pass_Examples\<close>: concrete modules, chunks, frames and values.
  \<^item> \<open>Ring\<close>, \<open>Ring_Steps\<close>: the lock-free ring of \<open>zz_runtime/src/lf_chan.rs\<close>, first operation by operation
    (wrapping counters; locale \<open>bounded_fifo\<close>), then cut at every access of shared memory and run in
    all interleavings of any number of threads, with stale loads and spurious exchange failures.
  \<^item> \<open>Channel\<close>: channels of \<open>zz_stdlib/src/natives/concurrency\<close>: ring, spill queue, parked tasks and
    their delivery slots; \<open>chan_send\<close>, \<open>chan_recv\<close>, \<open>chan_try_recv\<close>, \<open>park_chan\<close>, \<open>wake_chan_waiter\<close>.
  \<^item> \<open>Checker_Types\<close>, \<open>Unify\<close>, \<open>Unify_Acyclic\<close>: \<open>zz_checker/src/type_.rs\<close> and \<open>unify.rs\<close>.
  \<^item> \<open>Rust_Strings\<close>, \<open>Levenshtein\<close>: \<open>zz_frontend/src/levenshtein.rs\<close>.
  \<^item> \<open>Router\<close>: \<open>zz_stdlib/src/natives/http/router.rs\<close>.
  \<^item> \<open>Printer\<close>: \<open>zz_fmt/src/doc.rs\<close> and \<open>printer.rs\<close>.

  \<^bold>\<open>What is shown\<close>

  \<^item> Format: decoding inverts encoding on every module the format can carry, decoding returns only
    such modules, a truncated file is rejected, instruction encodings are prefix-free; what the
    sections do not cover is ignored.
  \<^item> Verifier: it never panics; an accepted module has in-range ids, acyclic type and constant tables
    and coherent variable tables, and on every path through a function the operand stack never
    underflows and never exceeds the declared bound. The inferred states are a fixpoint of the
    transfer functions, joins are least upper bounds, and the transfer functions agree with the
    stack effects. What verification does not cover is stated under \<open>Limits of the checks\<close>.
  \<^item> Lowering and raising: a chunk that is lowered, encoded, decoded and raised comes back with the same
    functions, constants, patterns and tables, and runs like the original from every start; raising
    returns on every module; two kinds of constants do not survive.
  \<^item> C back end: the code it compiles, loops derotated and fused instructions written out, runs like the
    module it was given; the table of loop variables follows the loops.
  \<^item> Machine: the fast paths for integers and for loops compute what the general ones do, a loop
    over an array visits each element once, dictionaries refine association lists, a written
    field is read back.
  \<^item> Runtime: the operators implement the specification (with the exception of exponents beyond 32
    bits) and agree with the verifier's predictions; indices and slice bounds stay in range.
  \<^item> Ring and channels: every value is handed over once and in order, cell accesses are exclusive,
    calls are wait-free; no task stays parked while a value is queued; order is first in, first
    out up to the capacity of the ring, and a burst beyond it is received out of order.
  \<^item> Unifier: exact on closed types, never builds an infinite type, so that resolution returns; a
    chain of two bound variables loses a binding.
  \<^item> Suggestions, router, printer: the distance is the length of a shortest edit script, the
    route returned is the best one by the code's score, printing keeps the text and fits the line.

  \<^bold>\<open>Fuel and bounds\<close>

  Raising follows ids of a table and stops at an id it has seen; its fuel is one more than the table
  is long and never used up (\<open>raise_terminates\<close>). The retry loops of the ring have the source's four retries. Pattern decoding recurses on the input, one
  level per nesting level; its fuel is the number of bytes left, and running out of it is shown
  impossible. The unifier follows bindings, which a cyclic binding would make endless: its functions
  take fuel and return \<open>None\<close> when it runs out, and each property states that they return, with an
  explicit or existential bound, from acyclicity. The interleaving model covers the runs with
  fewer than \<open>2 ^ 64 - 1024\<close> enqueues, in which no counter wraps; the sequential model covers all. Lengths of Rust
  collections are natural numbers where the source indexes memory with \<open>usize\<close>.

  \<^bold>\<open>Not modelled\<close>

  \<^item> The disassembler (\<open>dis.rs\<close>).
  \<^item> Environments, calls, closures, pattern matches, defers and timeslices of the machine: they need the
    heap of environments and the stack of frames. The work-stealing executor and task joins.
  \<^item> Lexer, parser, checking passes, HIR, VM compiler and code generation: they need the surface syntax.
  \<^item> Float arithmetic, argument errors of the channel natives and text of type-mismatch messages.
  \<^item> Command line, language server, debug adapter, plugin host, package manager, native runtime and
    the input/output natives: processes, sockets, raw memory.
\<close>

section \<open>From bytes to accepted modules\<close>

text \<open>
  C1. Encoding then decoding a module gives the same module back, for every module within the
  limits of the format whose encoding is shorter than 4 GiB.
\<close>

theorem decode_encode:
  assumes "wf_module m" "length (encode m) < 2 ^ 32"
  shows "decode (encode m) = Inr m"
  using decode_encode_junk [OF assms, of "[]"] by simp

theorem decode_encode_witness: "decode (encode demo_module) = Inr demo_module"
  by (rule decode_encode [OF demo_wf demo_length])

text \<open>
  C2. Whatever the bytes, a module the decoder accepts is within the limits of the format: the table
  sizes, the tuple, path and pattern arities and UTF-8 validity are all established, each function
  has one span per instruction, and the entry is function 0.
\<close>

theorem decode_establishes_wf:
  assumes "decode bs = Inr m"
  shows "wf_module m"
  using assms by (rule decode_wf)

theorem decode_establishes_wf_witness: "wf_module demo_module"
  by (rule decode_establishes_wf [OF demo_decode])

text \<open>
  C3. Verification is total and never panics: on every module it returns, and what it returns is
  acceptance or an error that is not one of the panics (index out of range, \<open>unwrap\<close> on nothing,
  exhausted recursion) the code could raise.
\<close>

theorem verify_never_panics: "verify m \<noteq> Inl (ir_panic w)"
  using verify_Err [of m] by (auto simp: no_panic_def)

text \<open>
  C4. Decoder and verifier together: every non-empty function of a module that was read from bytes and
  accepted has a depth certificate whose maximum is exactly the \<open>max_stack\<close> the module declares.
\<close>

theorem loaded_depths:
  assumes "decode bs = Inr m" "verify m = Inr ()" "f \<in> set (m_funcs m)" "fd_code f \<noteq> []"
  shows "\<exists>D. depth_certificate (fd_code f) D (int (unat (fd_max_stack f)))"
proof (rule simulate_certificate [OF verify_func_of(3) [OF assms(2,3)] assms(4)])
  show "length (fd_code f) \<le> 10000000"
    using decode_wf [OF assms(1)] member_le_sum_list [of "length (fd_code f)" "map (\<lambda>f. length (fd_code f)) (m_funcs m)"]
      assms(3) by (auto simp: wf_module_def)
qed

theorem loaded_depths_witness:
  "\<exists>D. depth_certificate (fd_code demo_func) D (int (unat (fd_max_stack demo_func)))"
  by (rule loaded_depths [OF demo_decode demo_verify]) (simp_all add: demo_module_def demo_func_def)







text \<open>
  In an accepted module the loop-variable table of a function lines up with its loops: the k-th entry
  has one slot per variable of the k-th \<open>ForNext\<close>, and there are no other entries.
\<close>

lemma vartab_coherent:
  assumes "verify m = Inr ()" "f \<in> set (m_funcs m)"
  shows "list_all2 (\<lambda>entry vars. length entry = length vars) (fd_vartab f)
           (List.map_filter fornext_vars (fd_code f))"
  using verify_func_of(5) [OF assms] by (rule check_vartab_Ok)

text \<open>
  Decoding is a normal form: re-encoding what was decoded and decoding again changes nothing, even
  when the accepted bytes were not produced by the encoder.
\<close>

lemma decode_reencode:
  assumes "decode bs = Inr m" "length (encode m) < 2 ^ 32"
  shows "decode (encode m) = Inr m"
  using decode_encode_junk [OF decode_wf [OF assms(1)] assms(2), of "[]"] by simp

text \<open>C8. Every proper prefix of an encoded module is rejected.\<close>

theorem truncation_rejected:
  assumes "length (encode m) < 2 ^ 32" "k < length (encode m)"
  shows "\<exists>e. decode (take k (encode m)) = Inl e"
  using assms by (rule decode_truncated)

theorem truncation_rejected_witness: "\<exists>e. decode (take 95 (encode demo_module)) = Inl e"
  by (rule truncation_rejected [OF demo_length]) (simp add: encode_eq length_encode_header)

section \<open>Saving and reloading a program\<close>





text \<open>
  C11. Raising returns on every module, verified or not: its recursions over constants and functions never
  nest deeper than the tables are long.
\<close>

theorem raise_terminates: "raise m \<noteq> Err out_of_fuel"
  by (rule raise_returns)


text \<open>
  The pool of constants is searched with float equality, for which the two zeros are equal: a negative
  zero that follows a positive one comes back positive.
\<close>

lemma negative_zero_lost:
  "\<exists>c. res_bind (lower zero_chunk) raise = Ok c \<and> rc_code (resolve_chunk c) ! 2 = VPushConst (VFloat 0) \<and>
     rc_code (resolve_chunk zero_chunk) ! 2 = VPushConst (VFloat neg_zero)"
  by (rule zero_chunk_loses_sign)

section \<open>The typed walk\<close>

text \<open>
  C13. The two halves of the verifier agree on every instruction: whenever the typed transfer function
  succeeds, it changes the height of the stack by exactly the effect the depth simulation uses.
\<close>

theorem infer_op_effect:
  assumes "infer_op op cx pc st = Inr st'"
  shows "int (length st') = depth_after op (int (length st))"
  using assms by (rule infer_op_height)

theorem infer_op_effect_witness: "int (length [TvU, TvT TInt]) = depth_after Swap (int (length [TvT TInt, TvU]))"
  by (rule infer_op_effect [of Swap "ctx_of demo_module demo_func" 0]) simp

text \<open>
  In a typing, what the transfer function of an instruction produces is covered by the state of the
  next instruction and of every jump target that is not a loop exit; a restoring match hands its
  own entry state to the miss edge.
\<close>

lemma typing_flow:
  assumes "typing cx S" "S ! pc = Some st0" "pc < length (fd_code (ic_func cx))"
    "op = fd_code (ic_func cx) ! pc"
  shows "\<exists>st. infer_op op cx pc st0 = Inr st \<and>
    (falls_through op \<longrightarrow> pc + 1 < length (fd_code (ic_func cx)) \<longrightarrow> covered S (pc + 1, st)) \<and>
    (\<forall>t \<in> set (jump_targets op). unat t < length (fd_code (ic_func cx)) \<longrightarrow>
       (miss_pushback op = Some (unat t) \<longrightarrow> covered S (unat t, st0)) \<and>
       (miss_pushback op \<noteq> Some (unat t) \<longrightarrow> unat t \<notin> loop_exits (fd_code (ic_func cx)) \<longrightarrow>
          covered S (unat t, st)))"
  using typing_edge [OF assms(1-3)] unfolding assms(4) .

lemma demo_typing: "typing (ctx_of demo_module demo_func) [Some [], Some [TvT TInt]]"
  by (simp add: typing_def infer_ok_def lens_from_def less_Suc_eq covered_def tv_le_def ctx_of_def
      infer_edges_def verify_eval demo_module_def demo_func_def exI [of _ "\<lambda>_. None"])

text \<open>
  Merging two stacks of equal height gives their least upper bound in the order "equal or unknown", and
  the merge reports a change exactly if the incoming stack was not yet covered.
\<close>

lemma join_state_lub:
  assumes "length a = length b"
  shows "state_le a (join_state a b) \<and> state_le b (join_state a b) \<and>
     (\<forall>c. state_le a c \<and> state_le b c \<longrightarrow> state_le (join_state a b) c) \<and>
     (join_state a b = a \<longleftrightarrow> state_le b a)"
  using join_state_ub1 [OF assms] join_state_ub2 [OF assms] join_state_absorb [OF assms] assms
  by (auto simp: join_state_def list_all2_conv_all_nth intro!: tvj.join_least)

text \<open>
  The weak compatibility rule accepts every type where a union that contains it, directly or through
  nested unions, is declared; in particular it is reflexive.
\<close>

lemma compatible_union:
  assumes "union_sub m t u"
  shows "compatible_expanded m t u depth \<and> compatible_tv m (TvT t) (TvT u)"
  using compatible_sub [OF assms] by (simp add: compatible_tv_def)

text \<open>
  On scalar types the rule is not weak at all: a scalar is compatible with another type that is neither
  a wildcard nor a union exactly if the two are equal.
\<close>

lemma compatible_exact:
  assumes "scalar a" "union_members b = None" "\<not> is_shallow_wild b"
  shows "(compatible_tv m (TvT a) (TvT b) \<longleftrightarrow> a = b) \<and> (compatible_tv m (TvT b) (TvT a) \<longleftrightarrow> a = b)"
  using assms compatible_scalar [of a b 0 m] compatible_scalar [of b a 0 m]
  by (auto simp: compatible_tv_def scalar_def)

text \<open>
  On a pool whose arrays only refer to earlier constants, the memoised recursion over a constant
  returns, with a recursion depth of one more than its index, and computes the type the unmemoised
  definition gives.
\<close>

lemma tv_of_const_correct:
  assumes "arrays_descend (m_consts m)"
  shows "\<exists>t memo. tv_of_const (Suc (const_ix c)) m c [] = Some (t, memo) \<and> const_tv m c t"
  using tv_of_const_ok [OF assms, of c "Suc (const_ix c)" "[]"] by auto

text \<open>
  The primitive ids found by one pass over the type table are the ones a scan for each type finds, so a
  primitive's abstract value is exact if and only if the table mentions it.
\<close>

lemma prim_ids_first:
  assumes "want \<in> {TUnit, TBool, TInt, TFloat, TStr}" "length (m_types m) \<le> 2 ^ 32"
  shows "prim_tv m (prims_of want (prim_ids_of m)) = (if want \<in> set (m_types m) then TvT want else TvU)"
  using prim_ids_scan [OF assms(1)] scan_prim_eq [OF assms(2), of want] assms(1) by auto

section \<open>Stack depths\<close>

text \<open>
  An accepted function has a depth certificate: one depth per reached instruction, starting at
  zero, that every fall-through, jump, restoring match and loop exit respects, that never goes
  negative, and whose maximum is exactly the reported \<open>max_stack\<close>.
\<close>

lemma simulate_sound:
  assumes "simulate code spans = Inr M" "code \<noteq> []" "length code \<le> 10000000"
  shows "\<exists>D. depth_certificate code D (int (unat M))"
  using assms by (rule simulate_certificate)

lemma loop_code_simulate: "simulate loop_code spans = Inr 1"
  by (simp add: simulate_def loop_code_def sim_start_def sim_loop.simps sim_step_def Let_def
      depth_after_def is_pop_def is_swap_def falls_through_def record_exit_def flow_edge_def
      jump_targets_def edge_depth_def miss_pushback_def guard_def vec_get_def)

text \<open>
  All paths to an instruction agree on the stack depth, and none underflows or exceeds
  \<open>max_stack\<close>.
\<close>

lemma simulate_paths:
  assumes "simulate code spans = Inr M" "length code \<le> 10000000"
    "depth_path code pc d" "depth_path code pc d'"
  shows "d = d' \<and> 0 \<le> depth_after (code ! pc) d \<and> depth_after (code ! pc) d \<le> int (unat M)"
proof -
  have "code \<noteq> []" using assms(3) by induction auto
  with assms obtain D where D: "depth_certificate code D (int (unat M))"
    using simulate_certificate by blast
  from certificate_path [OF D assms(3)] certificate_path [OF D assms(4)] have "d = d'" by simp
  moreover have "cert_at code D (int (unat M)) pc d"
    using D certificate_path [OF D assms(3)] by (simp add: depth_certificate_def)
  ultimately show ?thesis by (simp add: cert_at_def)
qed

text \<open>
  The simulation never panics: every failure is a diagnosis that carries the span of an
  instruction of the function.
\<close>

lemma simulate_never_panics:
  assumes "simulate code spans = Inl e"
  shows "(\<exists>pc < length code. \<exists>m. e = ir_error_spanned m (span_at spans pc)) \<and> e \<noteq> ir_panic w"
  using simulate_diagnosed [OF assms] diagnosed_not_panic by (auto simp: diagnosed_def)

lemma simulate_swap: "simulate [Swap] [] = Inl (ir_error_spanned ''swap needs two stack values'' (Span 0 0))"
  by (simp add: simulate_def sim_start_def sim_loop.simps sim_step_def Let_def
      depth_after_def is_pop_def is_swap_def record_exit_def guard_def vec_get_def span_at_def)

text \<open>
  One instruction pushes at most 256 values, so the reported maximum is at most 256 times the number of
  instructions and the cast to 32 bits loses nothing on code the decoder admits.
\<close>

lemma simulate_bound:
  assumes "simulate code spans = Inr M" "length code \<le> 10000000"
  shows "unat M \<le> 256 * length code"
proof (cases "code = []")
  case False
  with assms obtain s where s: "sim_loop code spans (sim_start (length code)) = Inr s"
    and M: "M = word_of_int (sim_max s)"
    by (cases "sim_loop code spans (sim_start (length code))") (auto simp: simulate_def)
  from sim_loop_max [OF s False] assms(2) show ?thesis
    by (simp add: M unat_eq_nat_uint uint_word_of_int nat_le_iff)
qed (use assms in \<open>simp add: simulate_def\<close>)

section \<open>Instructions and patterns on the wire\<close>

text \<open>
  The instruction encoding is a prefix code: an instruction stream can be split in only one
  way.
\<close>

lemma encode_op_prefix_code:
  assumes "wf_op a" "wf_op b" "encode_op a @ xs = encode_op b @ ys"
  shows "a = b \<and> xs = ys"
  using opc.put_inj_prefix [OF assms] assms(3) by simp

text \<open>
  An instruction stream read back instruction by instruction is the stream that was written, and
  the reader stops exactly behind it.
\<close>

lemma decode_ops_encode_ops:
  assumes "list_all wf_op ops"
  shows "rd_repeat (length ops) decode_op (rd_at pre (concat (map encode_op ops) @ post)) =
           Inr (ops, rd_at (pre @ concat (map encode_op ops)) post)"
  using assms by (rule opc.repeat_put)

text \<open>
  The pattern decoder terminates on every input: a recursion depth of one more than the bytes that
  are left is never exhausted, and any larger depth gives the same result.
\<close>

lemma decode_pattern_total:
  assumes "rd_remaining r < d"
  shows "decode_pattern_at d r = decode_pattern r \<and> decode_pattern r \<noteq> Inl out_of_depth"
  using decode_pattern_depth [OF assms] decode_pattern_not_out_of_depth by simp

section \<open>Integers at run time\<close>

text \<open>
  C14. The integer operators of the runtime implement the integer semantics of the IR specification, traps
  included: wrap-around of \<open>+ - *\<close>, the checks of division and remainder, wrapping powers and masked
  shifts. Powers are covered for exponents below \<open>2 ^ 32\<close>.
\<close>

theorem int_ops_refine_spec:
  assumes "int_spec op (sint a) (sint b) = Some r" "op = BPow \<Longrightarrow> sint b < 2 ^ 32"
  shows "abs_result op (eval_int_binary op a b sp) = r"
  using assms by (rule eval_int_binary_refines)

theorem int_ops_refine_spec_witness:
  "abs_result BDiv (eval_int_binary BDiv i64_min (- 1) (Span 0 1)) = Inl Overflow"
  by (rule int_ops_refine_spec) (simp_all add: int_spec_def)

text \<open>
  The exponent is cast to 32 bits first: a power with exponent \<open>2 ^ 32\<close> is one, the specification wraps
  the repeated product.
\<close>

lemma pow_high_bits_lost: "eval_int_binary BPow 2 (word_of_int (2 ^ 32)) sp = Inr (VInt 1)"
  using pow_exponent_cast [of 0 2 sp] by (simp add: eval_int_binary_def as_u32_def wrapping_pow_def)

text \<open>
  C15. The verifier's prediction for a binary operator on two ints is sound for the runtime: the abstract
  value it computes is unknown or the type of the value that evaluation returns.
\<close>

theorem binop_tv_sound:
  assumes "eval_int_binary op a b sp = Inr v" "length (m_types m) \<le> 2 ^ 32"
  shows "binop_tv m (prim_ids_of m) op (TvT TInt) (TvT TInt) \<in> {TvU, TvT (value_type v)}"
  using assms by (rule binop_tv_int_sound)

theorem binop_tv_sound_witness:
  "binop_tv demo_module (prim_ids_of demo_module) BAdd (TvT TInt) (TvT TInt) \<in> {TvU, TvT (value_type (VInt 3))}"
  by (rule binop_tv_sound [where a = 1 and b = 2 and sp = "Span 0 0"])
    (simp_all add: eval_int_binary_def demo_module_def)

text \<open>
  C16. Indexing accepts exactly the indices from \<open>- len\<close> to \<open>len - 1\<close> and gives the position Python's rule
  gives; slice bounds are ordered and inside the array whatever the operands.
\<close>

theorem index_and_slice_bounds:
  "(normalize_index i len sp = Inr k \<longleftrightarrow>
      - int len \<le> sint i \<and> sint i < int len \<and> k < len \<and> int k = sint i mod int len) \<and>
   fst (slice_bounds start stop len) \<le> snd (slice_bounds start stop len) \<and>
   snd (slice_bounds start stop len) \<le> len"
  using normalize_index_Ok slice_bounds_range [of start stop len] by (cases "slice_bounds start stop len") auto

section \<open>Running\<close>

text \<open>
  C17. The integer fast paths of the machine are the general operators: on every pair of values they return
  the same value or the same error.
\<close>

theorem int_fast_paths:
  "cmp_fast H op l r sp = eval_binary H op l r sp \<and> int_fast H op l r sp = eval_binary H op l r sp \<and>
   const_fast H op l r sp = eval_binary H op l r sp \<and> less_fast H l r sp = eval_binary H BLt l r sp \<and>
   div_fast H l r sp = eval_binary H BDiv l r sp \<and> rem_fast H l r sp = eval_binary H BRem l r sp \<and>
   arith_fast H (+) BAdd l r sp = eval_binary H BAdd l r sp \<and> arith_fast H (-) BSub l r sp = eval_binary H BSub l r sp \<and>
   arith_fast H (*) BMul l r sp = eval_binary H BMul l r sp"
  by (intro conjI fast_paths const_fast_binary)

text \<open>
  C18. The in-place step of a loop is the general one: whenever the fast path of \<open>ForNext\<close> handles a step, the
  general path gives the same frame and continuation, the same end of the loop or the same panic.
\<close>

theorem for_next_paths_agree:
  assumes "loop_layout fr" "for_next_fast exit body fr = Some r"
  shows "for_next_generic 1 exit body sp fr = r"
  using assms by (rule for_next_in_place)

theorem for_next_paths_agree_witness:
  "for_next_generic 1 9 4 (Span 0 1) demo_frame =
     Ok (Some 4, demo_frame\<lparr>fr_stack := [VUnit, VUnit, VArray [VInt 10, VInt 20], VInt 1, VInt 10]\<rparr>)"
  by (rule for_next_paths_agree [OF demo_layout demo_step])



text \<open>
  The index of a loop over a range wraps: with end \<open>2 ^ 63 - 1\<close> and step two the index goes from the
  largest even value to the smallest value and the loop does not end; the length of that range is negative.
\<close>

lemma range_index_wraps:
  "for_fast (VRange 0 i64_max 2) (i64_max - 1) = ForLive (i64_max + 1) (VInt (i64_max - 1)) \<and> i64_max + 1 = i64_min"
  "map_option sint (value_len (VRange 0 i64_max 2)) = Some (- (2 ^ 62))"
  by (rule range_leaves_64_bits)+

text \<open>
  C20. A dictionary with its index behaves as the list of its pairs searched from the front: lookups never
  fail, insertions replace the first equal key or append, and the index stays a faithful cache.
\<close>

theorem dict_refines_assoc:
  assumes "dict_ok d"
  shows "dd_get same d key = Some (assoc_get same (dd_entries d) key) \<and> dict_ok (dd_retain pred d) \<and>
    (\<exists>d'. dd_insert same key v d = Some d' \<and> dict_ok d' \<and> dd_entries d' = assoc_put same key v (dd_entries d))"
  using dd_get_refines [OF assms] dd_insert_refines [OF assms] dd_retain_ok by blast

theorem dict_refines_assoc_witness:
  "dd_get (\<lambda>_ i j. i = j) demo_dict (VInt 2) = Some (Some (VBool True))"
proof -
  have "dd_get (\<lambda>_ i j. i = j) demo_dict (VInt 2) = Some (assoc_get (\<lambda>_ i j. i = j) (dd_entries demo_dict) (VInt 2))"
    using dict_refines_assoc [OF demo_dict_ok] by blast
  then show ?thesis by (simp add: demo_dict_entries assoc_get_def)
qed

text \<open>
  C21. Building a dictionary by any sequence of insertions of hashable keys gives the finite map in which the
  last write to a key wins; keys are compared as the index compares them.
\<close>

theorem dict_last_write_wins:
  assumes "\<forall>kv \<in> set kvs. dict_key_of (fst kv) \<noteq> None" "dict_key_of j = Some e"
  shows "\<exists>d. insert_all (dd_insert same) kvs dd_new = Some d \<and> dict_ok d \<and>
    dd_get same d j = Some (map_of (rev (map (\<lambda>kv. (the (dict_key_of (fst kv)), snd kv)) kvs)) e)"
  using assms by (rule dict.put_all_empty)

theorem dict_last_write_wins_witness:
  "\<exists>d. insert_all (dd_insert (\<lambda>_ i j. i = j)) [(VInt 1, VUnit), (VInt 1, VBool True)] dd_new = Some d \<and>
     dd_get (\<lambda>_ i j. i = j) d (VInt 1) = Some (Some (VBool True))"
  using dict_last_write_wins [of "[(VInt 1, VUnit), (VInt 1, VBool True)]" "VInt 1" _ "\<lambda>_ i j. i = j"]
  by (auto split: if_splits)

text \<open>
  C22. Reading a field back after writing it gives the written value, also when the field belongs to a struct
  embedded up to the limit of the search.
\<close>

theorem field_write_read:
  assumes "set_object_field H obj name v sp = Ok obj'"
  shows "object_field H obj' name sp' = Ok v"
  using assms by (rule set_field_get)

theorem field_write_read_witness:
  "object_field demo_host (VObject (bytes ''P'') [(bytes ''x'', VInt 1), (bytes ''y'', VInt 5)]) (bytes ''y'') (Span 2 3) = Ok (VInt 5)"
  by (rule field_write_read [OF demo_write])

section \<open>What the C back end compiles\<close>



text \<open>
  C24. Moving the test of a loop from the end of its body to the front changes no run: from every start, the
  new code ends in the same error or panic, or reaches the same stack and loops after at least about
  half as many steps.
\<close>

theorem derotation_keeps_runs:
  assumes "derotate_loops m = Ok m'" "raise m = Ok c" "fits_tables m"
  shows "\<exists>c'. raise m' = Ok c' \<and> runs_exchanged (derotated_ip c) c c'"
  using assms by (rule derotate_runs)

theorem derotation_keeps_runs_witness:
  "\<exists>c'. raise unrotated_module = Ok c' \<and> runs_exchanged (derotated_ip rotated_chunk) rotated_chunk c'"
  by (rule derotation_keeps_runs [OF rotated_module_moves rotated_module_raises rotated_module_fits(1)])

text \<open>
  C25. The table of loop variables follows the loops: every loop of a derotated function finds at its new
  position the slots it had at the old one.
\<close>

theorem loop_slots_follow:
  assumes "derotate_func f = Ok f'" "rotated_loops (fd_code f) = Ok swaps" "length (fd_vartab f) = length (fornext_pcs (fd_code f))"
    "length (fd_code f) < 2 ^ 32" "pc \<in> set (fornext_pcs (fd_code f))"
  shows "map_of (zip (fornext_pcs (fd_code f')) (fd_vartab f')) (moved swaps pc) =
    map_of (zip (fornext_pcs (fd_code f)) (fd_vartab f)) pc"
  using assms by (rule vartab_follows)

theorem loop_slots_follow_witness:
  "map_of (zip (fornext_pcs (fd_code unrotated_func)) (fd_vartab unrotated_func)) (moved [(3, 5)] 5) = Some [0]"
proof -
  have pcs: "fornext_pcs (fd_code rotated_func) = [5]"
    by (simp add: rotated_func_def fornext_pcs_def fornext_vars_def upt_conv_Cons)
  have "map_of (zip (fornext_pcs (fd_code unrotated_func)) (fd_vartab unrotated_func)) (moved [(3, 5)] 5) =
      map_of (zip (fornext_pcs (fd_code rotated_func)) (fd_vartab rotated_func)) 5"
    by (rule loop_slots_follow [OF rotated_func_moves rotated_found]) (simp_all add: pcs, simp_all add: rotated_func_def)
  then show ?thesis unfolding pcs by (simp add: rotated_func_def)
qed

section \<open>The channel ring\<close>

text \<open>
  C26. Used by one thread at a time, the ring is a first-in first-out queue of at most 1024 values, also
  after its counters have wrapped: an enqueue appends or, when the ring is full or the weak exchange
  fails four times, hands the value back and changes nothing; a dequeue removes the oldest value or,
  when the ring is empty or the exchange fails, changes nothing.
\<close>

theorem ring_bounded_queue:
  assumes "ring_inv r"
  shows "(try_enqueue w r v = (Err v, r) \<and> (length (ring_contents r) = 1024 \<or> (\<forall>k < 4. w k = False)) \<or>
      (\<exists>r'. try_enqueue w r v = (Ok (), r') \<and> ring_inv r' \<and> ring_contents r' = ring_contents r @ [v] \<and>
         length (ring_contents r) < 1024)) \<and>
    (try_dequeue w r = (None, r) \<and> (ring_contents r = [] \<or> (\<forall>k < 4. w k = False)) \<or>
      (\<exists>x r'. try_dequeue w r = (Some x, r') \<and> ring_inv r' \<and> ring_contents r = x # ring_contents r'))"
proof -
  have "(\<forall>k < 4. w k = False) \<longleftrightarrow> \<not> good w" using ex_less_4 [of w] by auto
  then show ?thesis using lfr.put_law [OF assms, of w v] lfr.get_law [OF assms, of w] by blast
qed

theorem ring_bounded_queue_witness:
  "\<exists>r. try_enqueue (\<lambda>k. True) lf_ring_new (7 :: nat) = (Ok (), r) \<and> ring_contents r = [7]"
  using ring_bounded_queue [OF ring_inv_new, of "\<lambda>k. True" 7]
  by (auto simp: ring_contents_new dest: spec [of _ 0])

text \<open>
  C27. Under every interleaving of any number of threads, with stale loads and spurious failures of the
  weak exchange, and as long as fewer than \<open>2 ^ 64 - 1024\<close> values were ever accepted: the k-th accepted
  value gets position k, no position is taken twice, and what is taken from a position is the value that
  was put there.
\<close>

theorem ring_transfer_once:
  assumes "rsteps sys_new tr s" "length (puts tr) + 1024 < 2 ^ 64"
  shows "map (unat \<circ> fst) (puts tr) = [0..<length (puts tr)] \<and> distinct (map fst (takes tr)) \<and>
    list_all (\<lambda>(p, r). unat p < length (puts tr) \<and> r = Some (snd (puts tr ! unat p))) (takes tr)"
  using rsteps_inv [OF assms] by (auto simp: once_def list_all_iff)

text \<open>A run in which one thread sends 7 and another one takes it.\<close>

definition demo_trace :: "(nat \<times> nat event) list" where
  "demo_trace = [(0, Call), (0, Tau), (0, Tau), (0, Put 0 7), (0, Tau), (0, Tau),
     (1, Call), (1, Tau), (1, Tau), (1, Tau), (1, Took 0 (Some 7))]"

definition demo_mem :: "nat mem" where
  "demo_mem = (let m = mem_new in m\<lparr>tails := [1, 0], vals := (vals m)[slot 0 := Some 7],
     seqs := (seqs m)[slot 0 := [1, 0]]\<rparr>)"

lemma demo_run: "\<exists>s. rsteps sys_new demo_trace s \<and> pcs s 1 = DeqTaken 0 (Some 7)"
proof -
  have "rsteps sys_new [] (sys_new :: nat sys)" by (rule rsteps_nil)
  from rsteps_thread [OF this, of 0 Call mem_new "EnqTop 7 4"]
  have "rsteps sys_new [(0, Call)] \<lparr>mem = mem_new, pcs = (\<lambda>_. Idle)(0 := EnqTop (7 :: nat) 4)\<rparr>"
    by (simp add: sys_new_def enq_call)
  from rsteps_thread [OF this, of 0 Tau mem_new "EnqLoaded 7 3 0"]
  have "rsteps sys_new [(0, Call), (0, Tau)] \<lparr>mem = mem_new, pcs = (\<lambda>_. Idle)(0 := EnqLoaded (7 :: nat) 3 0)\<rparr>"
    using enq_load_tail [of 0 mem_new "7 :: nat" 3] by (simp add: mem_new_simps numeral_eq_Suc)
  from rsteps_thread [OF this, of 0 Tau mem_new "EnqSeq 7 3 0 0"]
  have "rsteps sys_new [(0, Call), (0, Tau), (0, Tau)] \<lparr>mem = mem_new, pcs = (\<lambda>_. Idle)(0 := EnqSeq (7 :: nat) 3 0 0)\<rparr>"
    using enq_load_seq [of 0 mem_new 0 "7 :: nat" 3] by (simp add: mem_new_simps)
  from rsteps_thread [OF this, of 0 "Put 0 7"] enq_cas [of 0 0 mem_new "7 :: nat" 3]
  have "rsteps sys_new (take 4 demo_trace)
    \<lparr>mem = mem_new\<lparr>tails := [1, 0]\<rparr>, pcs = (\<lambda>_. Idle)(0 := EnqClaimed (7 :: nat) 0)\<rparr>"
    by (simp add: mem_new_simps demo_trace_def)
  from rsteps_thread [OF this, of 0 Tau] enq_write [of "mem_new\<lparr>tails := [1, 0]\<rparr>" 7 0]
  have "rsteps sys_new (take 5 demo_trace)
    \<lparr>mem = mem_new\<lparr>tails := [1, 0], vals := (vals mem_new)[slot 0 := Some 7]\<rparr>, pcs = (\<lambda>_. Idle)(0 := EnqWritten 0)\<rparr>"
    by (simp add: demo_trace_def)
  from rsteps_thread [OF this, of 0 Tau] enq_publish [of "mem_new\<lparr>tails := [1, 0], vals := (vals mem_new)[slot 0 := Some 7]\<rparr>" 0]
  have p: "rsteps sys_new (take 6 demo_trace) \<lparr>mem = demo_mem, pcs = (\<lambda>_. Idle)(0 := EnqDone (Ok ()))\<rparr>"
    by (simp add: demo_trace_def demo_mem_def Let_def mem_new_simps)
  have m: "heads demo_mem = [0]" "seqs demo_mem ! slot 0 = [1, 0]" "vals demo_mem ! slot 0 = Some 7"
    by (simp_all add: demo_mem_def Let_def mem_new_simps)
  from rsteps_thread [OF p, of 1 Call demo_mem "DeqTop 4"]
  have "rsteps sys_new (take 7 demo_trace) \<lparr>mem = demo_mem, pcs = (\<lambda>_. Idle)(0 := EnqDone (Ok ()), 1 := DeqTop 4)\<rparr>"
    by (simp add: demo_trace_def deq_call)
  from rsteps_thread [OF this, of 1 Tau demo_mem "DeqLoaded 3 0"] deq_load_head [of 0 demo_mem 3]
  have "rsteps sys_new (take 8 demo_trace) \<lparr>mem = demo_mem, pcs = (\<lambda>_. Idle)(0 := EnqDone (Ok ()), 1 := DeqLoaded 3 0)\<rparr>"
    by (simp add: demo_trace_def m numeral_eq_Suc)
  from rsteps_thread [OF this, of 1 Tau demo_mem "DeqSeq 3 0 1"] deq_load_seq [of 1 demo_mem 0 3]
  have "rsteps sys_new (take 9 demo_trace) \<lparr>mem = demo_mem, pcs = (\<lambda>_. Idle)(0 := EnqDone (Ok ()), 1 := DeqSeq 3 0 1)\<rparr>"
    by (simp add: demo_trace_def m)
  from rsteps_thread [OF this, of 1 Tau] deq_cas [of 1 0 demo_mem 3]
  have "rsteps sys_new (take 10 demo_trace)
    \<lparr>mem = demo_mem\<lparr>heads := [1, 0]\<rparr>, pcs = (\<lambda>_. Idle)(0 := EnqDone (Ok ()), 1 := DeqClaimed 0)\<rparr>"
    by (simp add: demo_trace_def m)
  from rsteps_thread [OF this, of 1] deq_take [of "demo_mem\<lparr>heads := [1, 0]\<rparr>" 0]
  show ?thesis by (fastforce simp: demo_trace_def m)
qed

theorem ring_transfer_once_witness:
  "map (unat \<circ> fst) (puts demo_trace) = [0..<length (puts demo_trace)] \<and> distinct (map fst (takes demo_trace)) \<and>
   list_all (\<lambda>(p, r). unat p < length (puts demo_trace) \<and> r = Some (snd (puts demo_trace ! unat p))) (takes demo_trace)"
proof -
  obtain s where "rsteps sys_new demo_trace s" using demo_run by blast
  moreover have "length (puts demo_trace) = 1" by (simp add: demo_trace_def puts_def)
  ultimately show ?thesis using ring_transfer_once [of demo_trace s] by simp
qed




text \<open>
  C29. The ring is wait-free: a call ends after at most fifteen steps of its own thread, whatever the
  other threads do in between, and a thread inside a call always has a next step.
\<close>

theorem ring_wait_free:
  assumes "rsteps sys_new tr s" "rsteps s tr' s'" "(t, Call) \<notin> set tr'"
  shows "length (filter (\<lambda>x. fst x = t) tr') + rank (pcs s' t) \<le> 15 \<and>
    (pcs s' t = Idle \<or> (\<exists>e s''. rstep s' (t, e) s'' \<and> rank (pcs s'' t) < rank (pcs s' t)))"
proof
  show "length (filter (\<lambda>x. fst x = t) tr') + rank (pcs s' t) \<le> 15"
    using rsteps_rank [OF assms(2,3)] rank_bound [OF assms(1), of t] by simp
  have ok: "mem_ok (mem s')"
    using rsteps_mem_ok [OF assms(2) rsteps_mem_ok [OF assms(1)]] mem_ok_new by (simp add: sys_new_def)
  show "pcs s' t = Idle \<or> (\<exists>e s''. rstep s' (t, e) s'' \<and> rank (pcs s'' t) < rank (pcs s' t))"
  proof (cases "pcs s' t = Idle")
    case False
    then obtain e m q where st: "pstep (mem s') (pcs s' t) e m q" using pstep_enabled [OF ok] by blast
    moreover have "e \<noteq> Call" using st False pstep_call by blast
    ultimately have "rank q < rank (pcs s' t)" using pstep_rank by blast
    then show ?thesis using thread_step [OF st]
      by (intro disjI2 exI [of _ e] exI [of _ "\<lparr>mem = m, pcs = (pcs s')(t := q)\<rparr>"]) simp
  qed simp
qed

theorem ring_wait_free_witness:
  "\<exists>s :: nat sys. rank (pcs s 1) = 2 \<and>
     (pcs s 1 = Idle \<or> (\<exists>e s'. rstep s (1, e) s' \<and> rank (pcs s' 1) < rank (pcs s 1)))"
proof -
  obtain s where s: "rsteps sys_new demo_trace s" "pcs s 1 = DeqTaken 0 (Some 7)" using demo_run by blast
  with ring_wait_free [OF s(1) rsteps_nil, of 1] show ?thesis by (intro exI [of _ s]) simp
qed

section \<open>Channels\<close>



text \<open>
  Past the capacity of the ring the order is not kept: of a burst sent to a new channel, the values
  after the first 1024 are received before them.
\<close>

lemma chan_burst_overtakes:
  assumes "\<forall>i. good (ws i)"
  shows "fst (chan_exec ws ex chan_new (map Send vs @ replicate (length vs) TryRecv)) =
    map Some (drop 1024 vs @ take 1024 vs)"
  using assms by (rule chan_burst_order)




section \<open>Type inference\<close>

text \<open>
  C32. Unification of an open type with a closed one returns and is exact, on bindings without
  variable-to-variable links and types without unions, errors and the bottom type: if it succeeds, the
  new bindings have exactly the solutions of the old ones that make the two types equal; if it
  fails, there are none.
\<close>

theorem unify_closed_exact:
  assumes "direct u" "plain a" "plain b" "tvars b = {}" "size b + 3 \<le> n"
  shows "\<exists>res u'. unify n u a b = Some (res, u') \<and> direct u' \<and>
    (case res of
       Inr _ \<Rightarrow> \<forall>\<sigma>. models \<sigma> u' \<longleftrightarrow> models \<sigma> u \<and> inst \<sigma> a = b
     | Inl _ \<Rightarrow> \<forall>\<sigma>. \<not> (models \<sigma> u \<and> inst \<sigma> a = b))"
proof -
  have "exact a b (u, []) (unify_inner n a b (u, []))" by (rule unify_inner_exact) (use assms in simp_all)
  then obtain res s' where r: "unify_inner n a b (u, []) = Some (res, s')" "direct (fst s')"
    "case res of Inr _ \<Rightarrow> \<forall>\<sigma>. models \<sigma> (fst s') \<longleftrightarrow> models \<sigma> u \<and> inst \<sigma> a = b
      | Inl _ \<Rightarrow> \<forall>\<sigma>. models \<sigma> u \<longrightarrow> inst \<sigma> a \<noteq> b"
    unfolding exact_def fst_conv by (elim exE conjE) (rule that)
  then show ?thesis
    by (intro exI [of _ res] exI [of _ "fst s'"]) (auto simp: unify_def split: sum.splits)
qed

theorem unify_closed_exact_witness:
  "\<exists>u'. unify 9 unifier_new (TyOption (TyVar 0)) (TyOption TyInt) = Some (Ok (), u') \<and> direct u'"
proof -
  obtain res u' where r: "unify 9 unifier_new (TyOption (TyVar 0)) (TyOption TyInt) = Some (res, u')" "direct u'"
    "case res of Inr _ \<Rightarrow> \<forall>\<sigma>. models \<sigma> u' \<longleftrightarrow> models \<sigma> unifier_new \<and> inst \<sigma> (TyOption (TyVar 0)) = TyOption TyInt
      | Inl _ \<Rightarrow> \<forall>\<sigma>. \<not> (models \<sigma> unifier_new \<and> inst \<sigma> (TyOption (TyVar 0)) = TyOption TyInt)"
    using unify_closed_exact [of unifier_new "TyOption (TyVar 0)" "TyOption TyInt" 9]
    by (auto simp: direct_def unifier_new_def)
  have "models (\<lambda>_. TyInt) unifier_new" by (simp add: models_def unifier_new_def)
  then show ?thesis using r by (cases res) auto
qed



text \<open>
  C34. On acyclic bindings resolution returns, for every type; what it returns mentions no bound variable
  and is equal to the type under every solution of the bindings.
\<close>

theorem resolve_deep_returns:
  assumes "acyclic_vars u"
  shows "\<exists>n r. resolve_deep n u t = Some r \<and> (\<forall>x. x \<notin> tvars r \<or> vars u x = None) \<and>
    (\<forall>\<sigma>. \<not> models \<sigma> u \<or> inst \<sigma> r = inst \<sigma> t)"
  using resolve_deep_total [OF assms, of t] unfolding resolved_def by auto

theorem resolve_deep_returns_witness:
  "\<exists>n r. resolve_deep n unifier_new (TyOption (TyVar 3)) = Some r"
  using resolve_deep_returns [OF acyclic_new, of "TyOption (TyVar 3)"] by blast


section \<open>Suggestions, routes and layout\<close>

text \<open>
  C36. The single-row table computes the edit distance: unless the lengths differ by more than the
  threshold, \<open>levenshtein\<close> is the length of a shortest edit script; in every case no edit script is
  shorter.
\<close>

theorem levenshtein_shortest:
  assumes "nat \<bar>int (length a) - int (length b)\<bar> \<le> max_distance_by_len (min (length a) (length b))"
  shows "edit_script (levenshtein a b) a b \<and> (\<forall>a' b' n. \<not> edit_script n a' b' \<or> levenshtein a' b' \<le> n)"
  using assms edit_script_edist [of a b] levenshtein_lower by (auto simp: levenshtein_cases)

theorem levenshtein_shortest_witness: "edit_script (levenshtein [107, 105, 116] [115, 105, 116]) [107 :: nat, 105, 116] [115, 105, 116]"
  using levenshtein_shortest [of "[107, 105, 116]" "[115, 105, 116]"] by simp




text \<open>
  C38. The printer neither loses nor adds text: for a document without width-dependent alternatives, at
  any width, indentation and line ending, what is printed and the document's text are equal up to
  blanks and line ends.
\<close>

theorem render_keeps_text:
  assumes "no_if_break d"
  shows "visible (render d cfg) = visible (text_of d)"
  using render_doc_visible [OF assms] by (simp add: render_def Let_def)

theorem render_keeps_text_witness:
  "visible (render (Group (Printer.Concat [Text [97], Line, Text [98]])) \<lparr>line_width = 2, indent_width = 4, line_end = Crlf\<rparr>) =
     visible (text_of (Group (Printer.Concat [Text [97], Line, Text [98]])))"
  by (rule render_keeps_text) simp

text \<open>
  C39. A document of ASCII text without forced line ends whose flat width is at most the line width is
  printed on one line, and that line is no longer than the line width.
\<close>

theorem render_fits:
  assumes "one_line d" "measure_flat d \<le> line_width cfg"
  shows "render d cfg = flat_text d \<and> length (render d cfg) \<le> line_width cfg \<and> 10 \<notin> set (render d cfg)"
proof -
  have "flat_out \<lparr>out = [], indent = 0, break_stack = [False]\<rparr>" by (simp add: flat_out_def current_broken_def)
  from render_doc_flat [OF assms(1) this, of cfg] have "render d cfg = flat_text d"
    using assms(2) by (simp add: render_def Let_def)
  then show ?thesis using length_flat_text [of d] assms(2) one_line_flat_text [OF assms(1)] by (auto simp: list_all_iff)
qed

theorem render_fits_witness:
  "render (Group (Printer.Concat [Text [97], Line, Text [98]])) \<lparr>line_width = 3, indent_width = 4, line_end = Lf\<rparr> =
     flat_text (Group (Printer.Concat [Text [97], Line, Text [98]])) \<and>
   length (render (Group (Printer.Concat [Text [97], Line, Text [98]])) \<lparr>line_width = 3, indent_width = 4, line_end = Lf\<rparr>)
     \<le> line_width \<lparr>line_width = 3, indent_width = 4, line_end = Lf\<rparr> \<and>
   10 \<notin> set (render (Group (Printer.Concat [Text [97], Line, Text [98]])) \<lparr>line_width = 3, indent_width = 4, line_end = Lf\<rparr>)"
  by (rule render_fits) simp_all

section \<open>Limits of the checks\<close>


text \<open>
  The pattern decoder's recursion depth is bounded only by the input: for every \<open>d\<close> there is an
  encoded pattern of \<open>5 * d + 1\<close> bytes that decodes, but not within \<open>d\<close> nested calls.
\<close>

lemma pattern_recursion_unbounded:
  "\<exists>p. length (encode_pattern p) = 5 * d + 1 \<and>
     decode_pattern (rd_at [] (encode_pattern p)) = Inr (p, rd_at (encode_pattern p) []) \<and>
     decode_pattern_at d (rd_at [] (encode_pattern p)) = Inl out_of_depth"
  using nested_pattern_length [of d] nested_pattern_deep [of d d "[]" "[]"]
    patternc.get_put_end [OF nested_pattern_wf, of "[]" d]
  by (intro exI [of _ "nested_pattern d"]) simp

text \<open>
  The recursion over array constants is as deep as the pool is long: with a pool of \<open>n + 1\<close>
  constants that passes the order check, typing the last one takes more than \<open>n\<close> nested calls.
\<close>

lemma const_recursion_unbounded:
  assumes "n < 2 ^ 32"
  shows "arrays_descend (m_consts (nested_module n)) \<and> length (m_consts (nested_module n)) = n + 1 \<and>
     tv_of_const n (nested_module n) (ConstId (word_of_nat n)) [] = None"
  using nested_consts_descend [OF assms] nested_consts_deep [of n n n] assms
  by (simp add: nested_module_def nested_consts_def)

text \<open>
  The container is not canonical: bytes after the last section are ignored, so two different
  files decode to the same module.
\<close>

lemma trailing_bytes_ignored:
  assumes "wf_module m" "length (encode m) < 2 ^ 32" "junk \<noteq> []"
  shows "decode (encode m @ junk) = Inr m \<and> encode m @ junk \<noteq> encode m"
  using decode_encode_junk [OF assms(1,2)] assms(3) by simp

end
